(* ===== verification/Prelude.thy ===== *)
theory Prelude
  imports Main "HOL-Library.Multiset" "HOL-Library.List_Lexorder" "HOL-Library.Char_ord"
begin

text \<open>
  What every component shares: the result type of fallible code, the JavaScript numbers,
  instants and strings the sources compute with, the comparator sort of arrays, and the
  four statement forms of SQL on a table held as the list of its rows.

  Numbers are \<open>int\<close> with the range checks of the source written out. An instant held in a
  JavaScript Date, or in a column written from one, is a number of milliseconds; the database
  clock reads microseconds, and \<open>to_date\<close> is the driver's conversion of a timestamp to a Date.
  A \<open>string\<close> is a list of code units below 256, so uuids, keys and tokens are represented
  exactly; text that may leave that range is a list of UTF-16 code units (theory Json).
\<close>

named_theorems sql_simps \<open>the row operations of a table\<close>
named_theorems result_simps \<open>inversion of the result operations\<close>

type_synonym uuid = string
type_synonym date_ms = int
type_synonym timestamp_us = int
type_synonym byte_string = "nat list"
type_synonym ('e, 'a) result = "'e + 'a"

section \<open>Fallible code\<close>

definition rbind :: "('e, 'a) result \<Rightarrow> ('a \<Rightarrow> ('e, 'b) result) \<Rightarrow> ('e, 'b) result" where
  "rbind x f = (case x of Inl e \<Rightarrow> Inl e | Inr a \<Rightarrow> f a)"

definition guard_r :: "bool \<Rightarrow> 'e \<Rightarrow> ('e, unit) result" where
  "guard_r b e = (if b then Inr () else Inl e)"

fun mapM_r :: "('a \<Rightarrow> ('e, 'b) result) \<Rightarrow> 'a list \<Rightarrow> ('e, 'b list) result" where
  "mapM_r f [] = Inr []"
| "mapM_r f (x # xs) = rbind (f x) (\<lambda>y. rbind (mapM_r f xs) (\<lambda>ys. Inr (y # ys)))"

fun foldM_r :: "('a \<Rightarrow> 's \<Rightarrow> ('e, 's) result) \<Rightarrow> 'a list \<Rightarrow> 's \<Rightarrow> ('e, 's) result" where
  "foldM_r f [] s = Inr s"
| "foldM_r f (x # xs) s = rbind (f x s) (foldM_r f xs)"

lemma rbind_simps [simp]: "rbind (Inl e) f = Inl e" "rbind (Inr a) f = f a"
  by (simp_all add: rbind_def)

lemma rbind_eq_Inr [result_simps]: "rbind x f = Inr y \<longleftrightarrow> (\<exists>a. x = Inr a \<and> f a = Inr y)"
  by (cases x) auto

lemma rbind_eq_Inl [result_simps]:
  "rbind x f = Inl e \<longleftrightarrow> x = Inl e \<or> (\<exists>a. x = Inr a \<and> f a = Inl e)"
  by (cases x) auto

lemma rbind_assoc: "rbind (rbind x f) g = rbind x (\<lambda>a. rbind (f a) g)"
  by (cases x) auto

lemma guard_r_simps [simp]: "guard_r True e = Inr ()" "guard_r False e = Inl e"
  by (simp_all add: guard_r_def)

lemma guard_r_eq_Inr [result_simps]: "guard_r b e = Inr u \<longleftrightarrow> b"
  by (simp add: guard_r_def)

lemma guard_r_eq_Inl [result_simps]: "guard_r b e = Inl d \<longleftrightarrow> \<not> b \<and> d = e"
  by (auto simp: guard_r_def)

lemma mapM_r_eq_Inr:
  "mapM_r f xs = Inr ys \<longleftrightarrow> list_all2 (\<lambda>x y. f x = Inr y) xs ys"
  by (induction xs arbitrary: ys)
    (auto simp: result_simps list_all2_Cons1)

lemma mapM_r_member: "mapM_r f xs = Inr ys \<Longrightarrow> y \<in> set ys \<Longrightarrow> \<exists>x\<in>set xs. f x = Inr y"
  by (induction xs arbitrary: ys) (auto simp: result_simps)

lemma mapM_r_map: "mapM_r f xs = Inr ys \<Longrightarrow> (\<And>x y. f x = Inr y \<Longrightarrow> g y = h x) \<Longrightarrow> map g ys = map h xs"
  by (induction xs arbitrary: ys) (auto simp: result_simps)

lemma mapM_r_total: "(\<And>x. x \<in> set xs \<Longrightarrow> \<exists>y. f x = Inr y) \<Longrightarrow> \<exists>ys. mapM_r f xs = Inr ys"
proof (induction xs)
  case (Cons x xs)
  then obtain y ys where "f x = Inr y" "mapM_r f xs = Inr ys" by fastforce
  then show ?case by simp
qed simp

lemma foldM_r_append:
  "foldM_r f (xs @ ys) s = rbind (foldM_r f xs s) (foldM_r f ys)"
  by (induction xs arbitrary: s) (auto simp: rbind_assoc rbind_def split: sum.splits)

lemma foldM_r_invariant:
  assumes "foldM_r f xs s = Inr t" and "P s"
    and "\<And>x s t. x \<in> set xs \<Longrightarrow> P s \<Longrightarrow> f x s = Inr t \<Longrightarrow> P t"
  shows "P t"
  using assms
proof (induction xs arbitrary: s)
  case Nil
  then show ?case by simp
next
  case (Cons x xs)
  from Cons.prems(1) obtain u where "f x s = Inr u" "foldM_r f xs u = Inr t"
    by (auto simp: result_simps)
  with Cons show ?case by (metis list.set_intros(1,2))
qed

section \<open>Numbers and instants\<close>

definition MAX_SAFE_INTEGER :: int where
  "MAX_SAFE_INTEGER = 9007199254740991"

definition is_safe_integer :: "int \<Rightarrow> bool" where
  "is_safe_integer n \<longleftrightarrow> - MAX_SAFE_INTEGER \<le> n \<and> n \<le> MAX_SAFE_INTEGER"

definition ceil_div :: "int \<Rightarrow> int \<Rightarrow> int" where
  "ceil_div a b = - ((- a) div b)"

definition to_date :: "timestamp_us \<Rightarrow> date_ms" where
  "to_date t = t div 1000"

definition to_timestamp :: "date_ms \<Rightarrow> timestamp_us" where
  "to_timestamp d = d * 1000"

lemma to_date_to_timestamp [simp]: "to_date (to_timestamp d) = d"
  by (simp add: to_date_def to_timestamp_def)

lemma to_date_mono: "s \<le> t \<Longrightarrow> to_date s \<le> to_date t"
  by (simp add: to_date_def zdiv_mono1)

text \<open>Comparing a millisecond column with the clock is comparing it with the clock's Date.\<close>

lemma to_timestamp_le_iff: "to_timestamp d \<le> t \<longleftrightarrow> d \<le> to_date t"
  by (auto simp: to_timestamp_def to_date_def)

lemma less_to_timestamp_iff: "t < to_timestamp d \<longleftrightarrow> to_date t < d"
  using to_timestamp_le_iff [of d t] by linarith

lemma to_date_max: "to_date (max s t) = max (to_date s) (to_date t)"
  by (metis max_def to_date_mono order_antisym_conv linorder_linear)

lemma ceil_div_bounds:
  assumes "0 < b"
  shows "a \<le> b * ceil_div a b" and "b * ceil_div a b < a + b"
proof -
  define q where "q = (- a) div b"
  have q: "- a = b * q + (- a) mod b" and m: "0 \<le> (- a) mod b" "(- a) mod b < b"
    using assms by (simp_all add: q_def)
  have "b * ceil_div a b = - (b * q)" by (simp add: ceil_div_def q_def)
  with q m show "a \<le> b * ceil_div a b" and "b * ceil_div a b < a + b" by linarith+
qed

lemma filter_greater_upto: "filter ((<) c) [i..j] = [max i (c + 1)..j]" for c :: int
  by (rule sorted_distinct_set_unique) (auto simp: sorted_wrt_filter)

lemma sorted_map_le_last: "sorted (map f xs) \<Longrightarrow> x \<in> set xs \<Longrightarrow> f x \<le> f (last xs)"
  by (induction xs) auto

section \<open>Strings\<close>

text \<open>
  \<open>toLowerCase\<close> and \<open>trim\<close> on code units below 256: A to Z and the accented capitals
  192 to 222 without the multiplication sign; tab to carriage return, space and 160 are white.
\<close>

definition lower_char :: "char \<Rightarrow> char" where
  "lower_char c = (let n = of_char c :: nat in
     if (65 \<le> n \<and> n \<le> 90) \<or> (192 \<le> n \<and> n \<le> 222 \<and> n \<noteq> 215) then char_of (n + 32) else c)"

definition to_lower_case :: "string \<Rightarrow> string" where
  "to_lower_case s = map lower_char s"

definition white_char :: "char \<Rightarrow> bool" where
  "white_char c = (let n = of_char c :: nat in (9 \<le> n \<and> n \<le> 13) \<or> n = 32 \<or> n = 160)"

definition js_trim :: "string \<Rightarrow> string" where
  "js_trim s = rev (dropWhile white_char (rev (dropWhile white_char s)))"

lemma lower_char_idem [simp]: "lower_char (lower_char c) = lower_char c"
  by (auto simp: lower_char_def Let_def)

lemma to_lower_case_idem [simp]: "to_lower_case (to_lower_case s) = to_lower_case s"
  by (simp add: to_lower_case_def)

definition first_row :: "'r list \<Rightarrow> 'r option" where
  "first_row t = (case t of [] \<Rightarrow> None | r # _ \<Rightarrow> Some r)"

lemma first_row_in: "first_row xs = Some x \<Longrightarrow> x \<in> set xs"
  by (cases xs) (auto simp: first_row_def)

section \<open>Sorting an array with a comparator\<close>

text \<open>
  \<open>Array.prototype.sort\<close> is stable. A comparator returns a number of which only the sign
  matters; \<open>NaN\<close> counts as zero.
\<close>

fun insort_by :: "('a \<Rightarrow> 'a \<Rightarrow> int) \<Rightarrow> 'a \<Rightarrow> 'a list \<Rightarrow> 'a list" where
  "insort_by cmp x [] = [x]"
| "insort_by cmp x (y # ys) = (if cmp x y \<le> 0 then x # y # ys else y # insort_by cmp x ys)"

definition sort_by :: "('a \<Rightarrow> 'a \<Rightarrow> int) \<Rightarrow> 'a list \<Rightarrow> 'a list" where
  "sort_by cmp xs = foldr (insort_by cmp) xs []"

lemma mset_insort_by [simp]: "mset (insort_by cmp x xs) = add_mset x (mset xs)"
  by (induction xs) auto

lemma mset_sort_by [simp]: "mset (sort_by cmp xs) = mset xs"
  by (induction xs) (auto simp: sort_by_def)

lemma set_insort_by [simp]: "set (insort_by cmp x xs) = insert x (set xs)"
  by (metis mset_insort_by set_mset_mset set_mset_add_mset_insert)

lemma set_sort_by [simp]: "set (sort_by cmp xs) = set xs"
  by (metis mset_sort_by set_mset_mset)

lemma length_sort_by [simp]: "length (sort_by cmp xs) = length xs"
  by (metis mset_sort_by size_mset)

lemma sort_by_Nil [simp]: "sort_by cmp [] = []"
  by (simp add: sort_by_def)

lemma sort_by_Cons: "sort_by cmp (x # xs) = insort_by cmp x (sort_by cmp xs)"
  by (simp add: sort_by_def)

lemma first_of_sort_by: "first_row (sort_by cmp xs) = Some x \<Longrightarrow> x \<in> set xs"
  by (metis first_row_def list.case_eq_if list.set_sel(1) option.distinct(1) option.inject set_sort_by)

lemma distinct_sort_by [simp]: "distinct (sort_by cmp xs) = distinct xs"
  by (metis mset_eq_imp_distinct_iff mset_sort_by)

lemma sort_by_sorted: "sorted_wrt (\<lambda>a b. cmp a b \<le> 0) xs \<Longrightarrow> sort_by cmp xs = xs"
proof (induction xs)
  case (Cons x xs)
  then show ?case by (cases xs) (simp_all add: sort_by_Cons)
qed simp

text \<open>
  The contract between the sort and the comparators of the program: a comparator is a total
  preorder on the elements compared, written with its sign.
\<close>

locale comparator =
  fixes cmp :: "'a \<Rightarrow> 'a \<Rightarrow> int" and valid :: "'a \<Rightarrow> bool"
  assumes cmp_total: "valid x \<Longrightarrow> valid y \<Longrightarrow> cmp x y \<le> 0 \<or> cmp y x \<le> 0"
    and cmp_trans: "valid x \<Longrightarrow> valid y \<Longrightarrow> valid z \<Longrightarrow> cmp x y \<le> 0 \<Longrightarrow> cmp y z \<le> 0 \<Longrightarrow> cmp x z \<le> 0"
begin

lemma sorted_insort_by:
  "\<lbrakk>sorted_wrt (\<lambda>a b. cmp a b \<le> 0) xs; \<forall>y\<in>set xs. valid y; valid x\<rbrakk>
   \<Longrightarrow> sorted_wrt (\<lambda>a b. cmp a b \<le> 0) (insort_by cmp x xs)"
proof (induction xs)
  case Nil
  then show ?case by simp
next
  case (Cons y ys)
  show ?case
  proof (cases "cmp x y \<le> 0")
    case True
    with Cons.prems show ?thesis by (auto intro: cmp_trans)
  next
    case False
    with Cons.prems cmp_total [of x y] have "cmp y x \<le> 0" by auto
    with False Cons show ?thesis by auto
  qed
qed

lemma sorted_sort_by:
  "\<forall>y\<in>set xs. valid y \<Longrightarrow> sorted_wrt (\<lambda>a b. cmp a b \<le> 0) (sort_by cmp xs)"
  by (induction xs) (auto simp: sort_by_Cons intro: sorted_insort_by)

lemma sorted_unique:
  assumes "sorted_wrt (\<lambda>a b. cmp a b \<le> 0) xs" and "sorted_wrt (\<lambda>a b. cmp a b \<le> 0) ys"
    and "mset xs = mset ys"
    and "\<And>x y. x \<in> set xs \<Longrightarrow> y \<in> set xs \<Longrightarrow> cmp x y \<le> 0 \<Longrightarrow> cmp y x \<le> 0 \<Longrightarrow> x = y"
  shows "xs = ys"
  using assms
proof (induction xs arbitrary: ys)
  case Nil
  then show ?case by simp
next
  case (Cons x xs)
  obtain y zs where ys: "ys = y # zs"
    using Cons.prems(3) by (cases ys) auto
  have sets: "set (y # zs) = set (x # xs)"
    using Cons.prems(3) ys by (metis set_mset_mset)
  have xy: "x = y"
  proof (rule ccontr)
    assume "x \<noteq> y"
    with sets have "y \<in> set xs" and "x \<in> set zs" by auto
    with Cons.prems(1,2) ys have "cmp x y \<le> 0" and "cmp y x \<le> 0" by auto
    with Cons.prems(4) \<open>y \<in> set xs\<close> \<open>x \<noteq> y\<close> show False by auto
  qed
  with Cons.prems ys have "xs = zs"
    by (intro Cons.IH) auto
  with xy ys show ?case by simp
qed

lemma sort_by_perm:
  assumes "mset xs = mset ys" and "\<forall>y\<in>set xs. valid y"
    and "\<And>x y. x \<in> set xs \<Longrightarrow> y \<in> set xs \<Longrightarrow> cmp x y \<le> 0 \<Longrightarrow> cmp y x \<le> 0 \<Longrightarrow> x = y"
  shows "sort_by cmp xs = sort_by cmp ys"
proof (rule sorted_unique)
  have "set xs = set ys" using assms(1) by (metis set_mset_mset)
  with assms(2) show "sorted_wrt (\<lambda>a b. cmp a b \<le> 0) (sort_by cmp ys)"
    by (intro sorted_sort_by) auto
qed (use assms in \<open>auto intro: sorted_sort_by\<close>)

end

section \<open>Tables\<close>

text \<open>
  A table is the list of its rows. \<open>INSERT\<close> appends, \<open>UPDATE\<close> maps, \<open>DELETE\<close> filters,
  and \<open>rowCount\<close> is the number of rows the condition selects.
\<close>

definition update_where :: "('r \<Rightarrow> bool) \<Rightarrow> ('r \<Rightarrow> 'r) \<Rightarrow> 'r list \<Rightarrow> 'r list" where
  "update_where P f t = map (\<lambda>r. if P r then f r else r) t"

definition delete_where :: "('r \<Rightarrow> bool) \<Rightarrow> 'r list \<Rightarrow> 'r list" where
  "delete_where P t = filter (\<lambda>r. \<not> P r) t"

definition row_count :: "('r \<Rightarrow> bool) \<Rightarrow> 'r list \<Rightarrow> nat" where
  "row_count P t = length (filter P t)"

definition select_one :: "('r \<Rightarrow> bool) \<Rightarrow> 'r list \<Rightarrow> 'r option" where
  "select_one P t = first_row (filter P t)"

definition has_key :: "('r \<Rightarrow> 'k) \<Rightarrow> 'k \<Rightarrow> 'r list \<Rightarrow> bool" where
  "has_key key k t \<longleftrightarrow> k \<in> set (map key t)"

lemma first_row_simps [simp]: "first_row [] = None" "first_row (r # rs) = Some r"
  by (simp_all add: first_row_def)

lemma select_one_Nil [simp]: "select_one P [] = None"
  by (simp add: select_one_def)

lemma select_one_Cons [simp]:
  "select_one P (r # t) = (if P r then Some r else select_one P t)"
  by (simp add: select_one_def)

lemma select_one_SomeD: "select_one P t = Some r \<Longrightarrow> r \<in> set t \<and> P r"
  by (induction t) (auto split: if_splits)

lemma select_one_None_iff: "select_one P t = None \<longleftrightarrow> (\<forall>r\<in>set t. \<not> P r)"
  by (induction t) auto

lemma select_one_append:
  "select_one P (t @ u) = (case select_one P t of None \<Rightarrow> select_one P u | Some r \<Rightarrow> Some r)"
  by (induction t) auto

lemma select_one_unique:
  assumes "r \<in> set t" "P r" "\<And>r'. r' \<in> set t \<Longrightarrow> P r' \<Longrightarrow> r' = r"
  shows "select_one P t = Some r"
proof (cases "select_one P t")
  case None
  with assms(1,2) show ?thesis by (simp add: select_one_None_iff)
next
  case (Some r')
  from select_one_SomeD [OF Some] have "r' = r" by (intro assms(3)) simp_all
  with Some show ?thesis by simp
qed

lemma at_most_one_row: "distinct (map key t) \<Longrightarrow> length (filter (\<lambda>r. key r = k) t) \<le> 1"
proof (induction t)
  case (Cons r t)
  then show ?case by (cases "key r = k") (auto simp: filter_empty_conv image_iff)
qed simp

lemma update_where_Nil [sql_simps]: "update_where P f [] = []"
  by (simp add: update_where_def)

lemma update_where_Cons [sql_simps]:
  "update_where P f (r # t) = (if P r then f r else r) # update_where P f t"
  by (simp add: update_where_def)

lemma update_where_none: "(\<And>r. r \<in> set t \<Longrightarrow> \<not> P r) \<Longrightarrow> update_where P f t = t"
  by (induction t) (auto simp: update_where_def)

lemma update_where_append [sql_simps]:
  "update_where P f (t @ u) = update_where P f t @ update_where P f u"
  by (simp add: update_where_def)

lemma delete_where_append [sql_simps]:
  "delete_where P (t @ u) = delete_where P t @ delete_where P u"
  by (simp add: delete_where_def)

lemma set_delete_where [sql_simps]: "set (delete_where P t) = {r \<in> set t. \<not> P r}"
  by (auto simp: delete_where_def)

lemma set_update_where [sql_simps]:
  "set (update_where P f t) = (\<lambda>r. if P r then f r else r) ` set t"
  by (simp add: update_where_def)

lemma length_update_where [simp]: "length (update_where P f t) = length t"
  by (simp add: update_where_def)

lemma map_update_where:
  "(\<And>r. r \<in> set t \<Longrightarrow> P r \<Longrightarrow> g (f r) = g r) \<Longrightarrow> map g (update_where P f t) = map g t"
  by (auto simp: update_where_def)

lemma filter_update_where:
  assumes "\<And>r. P r \<Longrightarrow> Q (f r) = Q r"
  shows "filter Q (update_where P f t) = update_where P f (filter Q t)"
  using assms by (induction t) (auto simp: update_where_def)

lemma filter_update_where_other:
  assumes "\<And>r. r \<in> set t \<Longrightarrow> P r \<Longrightarrow> \<not> Q r" "\<And>r. r \<in> set t \<Longrightarrow> P r \<Longrightarrow> \<not> Q (f r)"
  shows "filter Q (update_where P f t) = filter Q t"
  using assms by (induction t) (auto simp: update_where_def)

lemma filter_delete_where:
  "filter Q (delete_where P t) = delete_where P (filter Q t)"
  by (auto simp: delete_where_def conj_commute)

lemma row_count_simps [sql_simps]:
  "row_count P [] = 0" "row_count P (r # t) = (if P r then 1 else 0) + row_count P t"
  "row_count P (t @ u) = row_count P t + row_count P u"
  by (auto simp: row_count_def)

end
