(* ===== verification/Json.thy ===== *)
theory Json
  imports Prelude
begin

text \<open>
  JSON values, their canonical text and its bytes (presence/domain/canonical-json.ts), the
  signing payload of a report (presence/domain/edge-signature.ts), and the ISO renderings of
  dates and instants. A JavaScript string is the list of its UTF-16 code units. The numbers of
  the protocol are integers, which \<open>JSON.stringify\<close> writes in decimal.
\<close>

type_synonym js_string = "nat list"

definition js :: "string \<Rightarrow> js_string" where
  "js s = map of_char s"

datatype json =
    JNull
  | JBool bool
  | JNum int
  | JStr js_string
  | JArr "json list"
  | JObj "(js_string \<times> json) list"

section \<open>JSON.stringify on primitive values\<close>

fun digits_nat :: "nat \<Rightarrow> js_string" where
  "digits_nat n = (if n < 10 then [48 + n] else digits_nat (n div 10) @ [48 + n mod 10])"

declare digits_nat.simps [simp del]

definition decimal :: "int \<Rightarrow> js_string" where
  "decimal n = (if n < 0 then 45 # digits_nat (nat (- n)) else digits_nat (nat n))"

definition hex_digit :: "nat \<Rightarrow> nat" where
  "hex_digit n = (if n < 10 then 48 + n else 87 + n)"

definition unicode_escape :: "nat \<Rightarrow> js_string" where
  "unicode_escape c = [92, 117, hex_digit (c div 4096), hex_digit (c div 256 mod 16),
     hex_digit (c div 16 mod 16), hex_digit (c mod 16)]"

definition high_surrogate :: "nat \<Rightarrow> bool" where
  "high_surrogate c \<longleftrightarrow> 55296 \<le> c \<and> c \<le> 56319"

definition low_surrogate :: "nat \<Rightarrow> bool" where
  "low_surrogate c \<longleftrightarrow> 56320 \<le> c \<and> c \<le> 57343"

definition quote_unit :: "nat \<Rightarrow> js_string" where
  "quote_unit c =
     (if c = 34 then [92, 34] else if c = 92 then [92, 92]
      else if c = 8 then [92, 98] else if c = 12 then [92, 102]
      else if c = 10 then [92, 110] else if c = 13 then [92, 114]
      else if c = 9 then [92, 116]
      else if c < 32 \<or> high_surrogate c \<or> low_surrogate c then unicode_escape c
      else [c])"

fun quote_body :: "js_string \<Rightarrow> js_string" where
  "quote_body [] = []"
| "quote_body [c] = quote_unit c"
| "quote_body (c # d # cs) =
     (if high_surrogate c \<and> low_surrogate d then c # d # quote_body cs
      else quote_unit c @ quote_body (d # cs))"

definition quote_json :: "js_string \<Rightarrow> js_string" where
  "quote_json s = [34] @ quote_body s @ [34]"

section \<open>The canonical text\<close>

fun join :: "js_string list \<Rightarrow> js_string" where
  "join [] = []"
| "join [x] = x"
| "join (x # y # ys) = x @ [44] @ join (y # ys)"

fun canonical_json :: "json \<Rightarrow> js_string" where
  "canonical_json JNull = js ''null''"
| "canonical_json (JBool b) = js (if b then ''true'' else ''false'')"
| "canonical_json (JNum n) = decimal n"
| "canonical_json (JStr s) = quote_json s"
| "canonical_json (JArr vs) = [91] @ join (map canonical_json vs) @ [93]"
| "canonical_json (JObj kvs) =
     [123] @ join (map (\<lambda>(k, t). quote_json k @ [58] @ t)
        (sort_key fst (map (\<lambda>(k, v). (k, canonical_json v)) kvs))) @ [125]"

section \<open>Bytes\<close>

text \<open>\<open>Buffer.from(s, 'utf8')\<close>: surrogate pairs are one code point, lone surrogates U+FFFD.\<close>

definition utf8_point :: "nat \<Rightarrow> byte_string" where
  "utf8_point c =
     (if c < 128 then [c]
      else if c < 2048 then [192 + c div 64, 128 + c mod 64]
      else if c < 65536 then [224 + c div 4096, 128 + c div 64 mod 64, 128 + c mod 64]
      else [240 + c div 262144, 128 + c div 4096 mod 64, 128 + c div 64 mod 64, 128 + c mod 64])"

fun code_points :: "js_string \<Rightarrow> nat list" where
  "code_points [] = []"
| "code_points [c] = [c]"
| "code_points (c # d # cs) =
     (if high_surrogate c \<and> low_surrogate d
      then (65536 + (c - 55296) * 1024 + (d - 56320)) # code_points cs
      else c # code_points (d # cs))"

definition utf8 :: "js_string \<Rightarrow> byte_string" where
  "utf8 s = concat (map (\<lambda>c. utf8_point (if high_surrogate c \<or> low_surrogate c then 65533 else c))
     (code_points s))"

definition canonical_bytes :: "json \<Rightarrow> byte_string" where
  "canonical_bytes v = utf8 (canonical_json v)"

text \<open>ASCII text has one byte for each code unit.\<close>

lemma code_points_ascii: "\<forall>c\<in>set s. c < 128 \<Longrightarrow> code_points s = s"
  by (induction s rule: code_points.induct) (auto simp: high_surrogate_def)

lemma utf8_ascii: "\<forall>c\<in>set s. c < 128 \<Longrightarrow> utf8 s = s"
proof -
  assume a: "\<forall>c\<in>set s. c < 128"
  then have "map (\<lambda>c. utf8_point (if high_surrogate c \<or> low_surrogate c then 65533 else c)) s = map (\<lambda>c. [c]) s"
    by (intro map_cong) (auto simp: high_surrogate_def low_surrogate_def utf8_point_def)
  then show ?thesis unfolding utf8_def code_points_ascii [OF a] by (simp only: concat_map_singleton list.map_ident)
qed

definition EDGE_REPORT_SIGNATURE_DOMAIN_V1 :: js_string where
  "EDGE_REPORT_SIGNATURE_DOMAIN_V1 = js ''workbuddy-buddy/edge-report/v1'' @ [0]"

definition without_key :: "js_string \<Rightarrow> json \<Rightarrow> json" where
  "without_key k v = (case v of JObj kvs \<Rightarrow> JObj (filter (\<lambda>(k', _). k' \<noteq> k) kvs) | _ \<Rightarrow> JObj [])"

definition create_edge_report_signing_payload :: "json \<Rightarrow> byte_string" where
  "create_edge_report_signing_payload envelope =
     utf8 EDGE_REPORT_SIGNATURE_DOMAIN_V1 @ canonical_bytes (without_key (js ''signature'') envelope)"

section \<open>Dates\<close>

text \<open>
  A calendar date is the number of its day counted from 1970-01-01. The renderings are those of
  \<open>Temporal.PlainDate\<close> and \<open>Date.prototype.toISOString\<close> for the years 0 to 9999.
\<close>

type_synonym local_date = int

definition pad_digits :: "nat \<Rightarrow> int \<Rightarrow> js_string" where
  "pad_digits width n = (let d = decimal n in replicate (width - length d) 48 @ d)"

definition civil_date :: "local_date \<Rightarrow> int \<times> int \<times> int" where
  "civil_date day =
     (let z = day + 719468; era = z div 146097; doe = z mod 146097;
          yoe = (doe - doe div 1460 + doe div 36524 - doe div 146096) div 365;
          doy = doe - (365 * yoe + yoe div 4 - yoe div 100);
          mp = (5 * doy + 2) div 153;
          d = doy - (153 * mp + 2) div 5 + 1;
          m = (if mp < 10 then mp + 3 else mp - 9)
      in (yoe + era * 400 + (if m \<le> 2 then 1 else 0), m, d))"

definition date_text :: "local_date \<Rightarrow> js_string" where
  "date_text day = (case civil_date day of (y, m, d) \<Rightarrow>
     pad_digits 4 y @ [45] @ pad_digits 2 m @ [45] @ pad_digits 2 d)"

definition to_iso_string :: "date_ms \<Rightarrow> js_string" where
  "to_iso_string t =
     (let day = t div 86400000; ms = t mod 86400000 in
      date_text day @ [84] @ pad_digits 2 (ms div 3600000) @ [58]
        @ pad_digits 2 (ms div 60000 mod 60) @ [58] @ pad_digits 2 (ms div 1000 mod 60) @ [46]
        @ pad_digits 3 (ms mod 1000) @ [90])"

definition day_of_week :: "local_date \<Rightarrow> int" where
  "day_of_week day = (day + 3) mod 7 + 1"

section \<open>Decimal texts\<close>

lemma digits_nat_digits: "c \<in> set (digits_nat n) \<Longrightarrow> 48 \<le> c \<and> c \<le> 57"
proof (induction n rule: digits_nat.induct)
  case (1 n)
  from "1.prems" have "c \<in> set (if n < 10 then [48 + n] else digits_nat (n div 10) @ [48 + n mod 10])"
    by (simp add: digits_nat.simps [of n] split del: if_split)
  with "1.IH" show ?case by (auto split: if_splits)
qed

lemma digits_nat_nonempty [simp]: "digits_nat n \<noteq> []"
  by (subst digits_nat.simps) simp

lemma digits_nat_inj: "digits_nat m = digits_nat n \<Longrightarrow> m = n"
proof (induction m arbitrary: n rule: digits_nat.induct)
  case (1 m)
  have m: "digits_nat m = (if m < 10 then [48 + m] else digits_nat (m div 10) @ [48 + m mod 10])"
    and n: "digits_nat n = (if n < 10 then [48 + n] else digits_nat (n div 10) @ [48 + n mod 10])"
    by (subst digits_nat.simps, rule refl)+
  show ?case
  proof (cases "m < 10 \<or> n < 10")
    case True
    with "1.prems" digits_nat_nonempty show ?thesis unfolding m n
      by (auto split: if_splits simp del: digits_nat_nonempty) (metis digits_nat_nonempty)+
  next
    case False
    with "1.prems" have "digits_nat (m div 10) = digits_nat (n div 10)" "m mod 10 = n mod 10"
      unfolding m n by auto
    with "1.IH" [of "n div 10"] False have "m div 10 = n div 10" "m mod 10 = n mod 10" by simp_all
    then show ?thesis by (metis div_mult_mod_eq)
  qed
qed

lemma decimal_chars: "c \<in> set (decimal n) \<Longrightarrow> c = 45 \<or> 48 \<le> c \<and> c \<le> 57"
  by (auto simp: decimal_def dest: digits_nat_digits split: if_splits)

lemma decimal_inj: "decimal m = decimal n \<longleftrightarrow> m = n"
proof
  assume eq: "decimal m = decimal n"
  have minus: "digits_nat k \<noteq> 45 # ds" for k ds
    using digits_nat_digits [of 45 k] by auto
  show "m = n"
  proof (cases "m < 0"; cases "n < 0")
    assume "m < 0" "n < 0"
    with eq have "nat (- m) = nat (- n)" by (auto simp: decimal_def dest: digits_nat_inj)
    with \<open>m < 0\<close> \<open>n < 0\<close> show ?thesis by simp
  next
    assume "\<not> m < 0" "\<not> n < 0"
    with eq have "nat m = nat n" by (auto simp: decimal_def dest: digits_nat_inj)
    with \<open>\<not> m < 0\<close> \<open>\<not> n < 0\<close> show ?thesis by simp
  qed (use eq minus in \<open>auto simp: decimal_def\<close>, metis minus)
qed simp

lemma js_inj [simp]: "js a = js b \<longleftrightarrow> a = b"
  by (simp add: js_def inj_map_eq_map inj_of_char)

end
