(* ===== verification/Problem.thy ===== *)
theory Problem
  imports Json
begin

text \<open>
  The errors of the protocol and of the onboarding flow (presence/domain/problem.ts,
  onboarding/domain/problem.ts) and what a transaction can fail with: one of these, or any
  other exception (a driver error, a violated constraint, a failed internal check), which the
  callers only distinguish from a problem.
\<close>

datatype problem_code =
    Invalid_request
  | Protocol_version_unsupported
  | Invalid_signature
  | Instance_not_found
  | Device_revoked
  | Stale_boot
  | Sequence_gap
  | Sequence_overlap
  | Sequence_conflict
  | Report_semantics_invalid
  | Payload_too_large
  | Rate_limited
  | Temporarily_unavailable
  | Internal_error

definition problem_code_text :: "problem_code \<Rightarrow> string" where
  "problem_code_text c = (case c of
     Invalid_request \<Rightarrow> ''invalid_request''
   | Protocol_version_unsupported \<Rightarrow> ''protocol_version_unsupported''
   | Invalid_signature \<Rightarrow> ''invalid_signature''
   | Instance_not_found \<Rightarrow> ''instance_not_found''
   | Device_revoked \<Rightarrow> ''device_revoked''
   | Stale_boot \<Rightarrow> ''stale_boot''
   | Sequence_gap \<Rightarrow> ''sequence_gap''
   | Sequence_overlap \<Rightarrow> ''sequence_overlap''
   | Sequence_conflict \<Rightarrow> ''sequence_conflict''
   | Report_semantics_invalid \<Rightarrow> ''report_semantics_invalid''
   | Payload_too_large \<Rightarrow> ''payload_too_large''
   | Rate_limited \<Rightarrow> ''rate_limited''
   | Temporarily_unavailable \<Rightarrow> ''temporarily_unavailable''
   | Internal_error \<Rightarrow> ''internal_error'')"

definition title_for :: "problem_code \<Rightarrow> string" where
  "title_for c = (case c of
     Invalid_request \<Rightarrow> ''Invalid request''
   | Protocol_version_unsupported \<Rightarrow> ''Protocol upgrade required''
   | Invalid_signature \<Rightarrow> ''Invalid device signature''
   | Instance_not_found \<Rightarrow> ''Agent instance not found''
   | Device_revoked \<Rightarrow> ''Device credential is unavailable''
   | Stale_boot \<Rightarrow> ''Agent boot has been fenced''
   | Sequence_gap \<Rightarrow> ''Sequence gap''
   | Sequence_overlap \<Rightarrow> ''Sequence overlap''
   | Sequence_conflict \<Rightarrow> ''Sequence conflict''
   | Report_semantics_invalid \<Rightarrow> ''Report semantics are invalid''
   | Payload_too_large \<Rightarrow> ''Payload too large''
   | Rate_limited \<Rightarrow> ''Rate limit exceeded''
   | Temporarily_unavailable \<Rightarrow> ''Temporarily unavailable''
   | Internal_error \<Rightarrow> ''Internal server error'')"

record protocol_problem =
  pp_code :: problem_code
  pp_status :: int
  pp_detail :: string
  pp_expectedSequence :: "int option"
  pp_retryAfterSeconds :: "int option"

definition protocol_problem :: "problem_code \<Rightarrow> int \<Rightarrow> string \<Rightarrow> protocol_problem" where
  "protocol_problem c st detail = \<lparr>pp_code = c, pp_status = st, pp_detail = detail,
     pp_expectedSequence = None, pp_retryAfterSeconds = None\<rparr>"

record problem_body =
  pb_type :: string
  pb_title :: string
  pb_status :: int
  pb_code :: problem_code
  pb_detail :: string
  pb_expected_sequence :: "int option"
  pb_current_protocol :: "int option"
  pb_min_supported_protocol :: "int option"
  pb_retry_after_seconds :: "int option"

definition to_body :: "protocol_problem \<Rightarrow> problem_body" where
  "to_body p =
     (let unsupported = (pp_code p = Protocol_version_unsupported) in
      \<lparr>pb_type = ''https://workbuddy-buddy.invalid/problems/'' @ problem_code_text (pp_code p),
       pb_title = title_for (pp_code p),
       pb_status = pp_status p,
       pb_code = pp_code p,
       pb_detail = pp_detail p,
       pb_expected_sequence = pp_expectedSequence p,
       pb_current_protocol = (if unsupported then Some 1 else None),
       pb_min_supported_protocol = (if unsupported then Some 1 else None),
       pb_retry_after_seconds = pp_retryAfterSeconds p\<rparr>)"

datatype onboarding_problem_code =
    Onboarding_invalid_request
  | Pairing_not_found
  | Pairing_expired
  | Pairing_conflict
  | Onboarding_rate_limited

record onboarding_problem =
  op_code :: onboarding_problem_code
  op_status :: int
  op_message :: string
  op_retryAfterSeconds :: "int option"

datatype tx_error =
    Problem protocol_problem
  | Onboarding onboarding_problem
  | Failure string

type_synonym 'a tx = "(tx_error, 'a) result"

definition problem :: "problem_code \<Rightarrow> int \<Rightarrow> string \<Rightarrow> tx_error" where
  "problem c st detail = Problem (protocol_problem c st detail)"

definition parse_integer_range :: "int \<Rightarrow> int \<Rightarrow> int \<Rightarrow> string \<Rightarrow> int tx" where
  "parse_integer_range lo hi n label = (if lo \<le> n \<and> n \<le> hi then Inr n else Inl (Failure label))"

lemma parse_integer_range_eq_Inr [result_simps]:
  "parse_integer_range lo hi n label = Inr m \<longleftrightarrow> lo \<le> n \<and> n \<le> hi \<and> m = n"
  by (auto simp: parse_integer_range_def)

lemma parse_integer_range_ok [simp]:
  "lo \<le> n \<Longrightarrow> n \<le> hi \<Longrightarrow> parse_integer_range lo hi n label = Inr n"
  by (simp add: parse_integer_range_def)

end
