(* ===== verification/Edge_Types.thy ===== *)
theory Edge_Types
  imports Problem
begin

text \<open>
  The data of the Edge protocol (presence/domain/types.ts): reports, their events, the
  acknowledgement, the verified identity and the prepared report the ingestor receives.
\<close>

definition MAX_SAFE_SEQUENCE :: int where
  "MAX_SAFE_SEQUENCE = 9007199254740991"

datatype display_state = D_idle | D_working | D_waiting | D_done | D_failed

datatype activity_state = A_unknown | A_active | A_eligible_idle | A_waiting | A_failed

record state_transition_event =
  st_sequence :: int
  st_observed_at :: string
  st_display_state :: display_state
  st_activity_state :: activity_state
  st_pet_id :: string

record heartbeat_event =
  hb_sequence :: int
  hb_observed_at :: string

datatype edge_event =
    State_transition state_transition_event
  | Heartbeat heartbeat_event

definition event_sequence :: "edge_event \<Rightarrow> int" where
  "event_sequence e = (case e of State_transition s \<Rightarrow> st_sequence s | Heartbeat h \<Rightarrow> hb_sequence h)"

definition is_state_transition :: "edge_event \<Rightarrow> bool" where
  "is_state_transition e = (case e of State_transition _ \<Rightarrow> True | Heartbeat _ \<Rightarrow> False)"

datatype edge_endpoint = Batch_endpoint | Heartbeat_endpoint

record edge_report_envelope =
  en_instance_id :: string
  en_key_id :: string
  en_boot_id :: string
  en_previous_boot_id :: "string option"
  en_first_sequence :: int
  en_events :: "edge_event list"
  en_sent_at :: string
  en_client_version :: string
  en_signature :: string

record canonical_event =
  ce_event :: edge_event
  ce_bytes :: byte_string
  ce_hash :: byte_string

record prepared_edge_report =
  pr_envelope :: edge_report_envelope
  pr_endpoint :: edge_endpoint
  pr_signingPayload :: byte_string
  pr_canonicalPayload :: byte_string
  pr_canonicalPayloadHash :: byte_string
  pr_canonicalEvents :: "canonical_event list"

datatype verification_kind = Ed25519 | Development_bypass

record verified_edge_context =
  vf_instanceId :: string
  vf_keyId :: string
  vf_verification :: verification_kind
  vf_credentialPublicKeySha256 :: "byte_string option"

record edge_report_ack =
  ak_current_protocol :: int
  ak_min_supported_protocol :: int
  ak_instance_id :: uuid
  ak_boot_id :: uuid
  ak_accepted_through_sequence :: int
  ak_server_received_at :: date_ms
  ak_lease_expires_at :: date_ms

text \<open>The pairs of states that the schema and the table constraints admit.\<close>

definition allowed_pair :: "display_state \<Rightarrow> activity_state \<Rightarrow> bool" where
  "allowed_pair d a = (case d of
     D_idle \<Rightarrow> a = A_unknown \<or> a = A_eligible_idle
   | D_working \<Rightarrow> a = A_active
   | D_waiting \<Rightarrow> a = A_waiting \<or> a = A_active \<or> a = A_eligible_idle
   | D_done \<Rightarrow> a = A_eligible_idle
   | D_failed \<Rightarrow> a = A_failed)"

lemma event_sequence_simps [simp]:
  "event_sequence (State_transition s) = st_sequence s"
  "event_sequence (Heartbeat h) = hb_sequence h"
  "is_state_transition (State_transition s)"
  "\<not> is_state_transition (Heartbeat h)"
  by (simp_all add: event_sequence_def is_state_transition_def)

end
