(* ===== verification/Scoring.thy ===== *)
theory Scoring
  imports Prelude
begin

text \<open>
  The slacking score (src/apps/control-plane/src/modules/public-office/domain/scoring.ts and
  presence/domain/idle-stage.ts): the visual idle stage, the score of an eligibility interval
  and of a candidate, and the ranking. Every \<open>RangeError\<close> is a value of \<open>scoring_error\<close>.
  The lemmas relate the loops to sums and maxima, the overlap check to disjointness of the
  intervals as sets of instants, and show that the reported instant is the first at which the
  score was reached.
\<close>

section \<open>Data\<close>

definition PER_SEGMENT_GRACE_SECONDS :: int where
  "PER_SEGMENT_GRACE_SECONDS = 15 * 60"

datatype idle_stage = Stage_none | Fresh | Salted | Costume | Fish

definition stage_threshold :: "idle_stage \<Rightarrow> int" where
  "stage_threshold s = (case s of Stage_none \<Rightarrow> 0 | Fresh \<Rightarrow> 15 * 60 | Salted \<Rightarrow> 25 * 60
     | Costume \<Rightarrow> 35 * 60 | Fish \<Rightarrow> 60 * 60)"

record eligibility_interval =
  startedAtMs :: int
  endedAtMs :: "int option"

record leaderboard_candidate =
  cand_logicalAgentId :: string
  cand_mountId :: string
  cand_intervals :: "eligibility_interval list"

record interval_score =
  is_slackingSeconds :: int
  is_scoreReachedAtMs :: "int option"

record candidate_score =
  cs_logicalAgentId :: string
  cs_mountId :: string
  cs_slackingSeconds :: int
  cs_scoreReachedAtMs :: "int option"

record ranked_candidate = candidate_score +
  rk_rank :: int

datatype scoring_error =
    Bad_timestamp string
  | Bad_identifier string
  | End_precedes_start
  | Unsafe_score_reached
  | Unsafe_slacking_seconds
  | Duplicate_agent string
  | Overlapping_intervals

section \<open>Operations\<close>

definition assert_timestamp :: "int \<Rightarrow> string \<Rightarrow> (scoring_error, unit) result" where
  "assert_timestamp value name =
     guard_r (is_safe_integer value \<and> 0 \<le> value) (Bad_timestamp name)"

definition assert_identifier :: "string \<Rightarrow> string \<Rightarrow> (scoring_error, unit) result" where
  "assert_identifier value name =
     guard_r (value \<noteq> [] \<and> js_trim value = value) (Bad_identifier name)"

definition assert_interval :: "eligibility_interval \<Rightarrow> (scoring_error, unit) result" where
  "assert_interval i =
     rbind (assert_timestamp (startedAtMs i) ''interval.startedAtMs'') (\<lambda>_.
       case endedAtMs i of
         None \<Rightarrow> Inr ()
       | Some e \<Rightarrow>
           rbind (assert_timestamp e ''interval.endedAtMs'') (\<lambda>_.
             guard_r (startedAtMs i \<le> e) End_precedes_start))"

definition whole_seconds_between :: "int \<Rightarrow> int \<Rightarrow> int" where
  "whole_seconds_between s e = (e - s) div 1000"

definition stage_of_seconds :: "int \<Rightarrow> idle_stage" where
  "stage_of_seconds seconds =
     (if seconds \<ge> stage_threshold Fish then Fish
      else if seconds \<ge> stage_threshold Costume then Costume
      else if seconds \<ge> stage_threshold Salted then Salted
      else if seconds \<ge> stage_threshold Fresh then Fresh
      else Stage_none)"

definition derive_idle_stage ::
  "eligibility_interval option \<Rightarrow> int \<Rightarrow> (scoring_error, idle_stage) result" where
  "derive_idle_stage interval asOfMs =
     rbind (assert_timestamp asOfMs ''asOfMs'') (\<lambda>_.
       case interval of
         None \<Rightarrow> Inr Stage_none
       | Some i \<Rightarrow>
           rbind (assert_interval i) (\<lambda>_.
             if asOfMs < startedAtMs i
                \<or> (case endedAtMs i of None \<Rightarrow> False | Some e \<Rightarrow> e \<le> asOfMs)
             then Inr Stage_none
             else Inr (stage_of_seconds (whole_seconds_between (startedAtMs i) asOfMs))))"

text \<open>The presence module keeps a second copy, on Dates and without the assertions.\<close>

definition presence_derive_idle_stage :: "date_ms option \<Rightarrow> date_ms \<Rightarrow> idle_stage" where
  "presence_derive_idle_stage eligibleSince at =
     (case eligibleSince of
        None \<Rightarrow> Stage_none
      | Some s \<Rightarrow>
          let seconds = max 0 ((at - s) div 1000) in
          if seconds \<ge> 3600 then Fish
          else if seconds \<ge> 2100 then Costume
          else if seconds \<ge> 1500 then Salted
          else if seconds \<ge> 900 then Fresh
          else Stage_none)"

definition score_eligibility_interval ::
  "eligibility_interval \<Rightarrow> int \<Rightarrow> (scoring_error, interval_score) result" where
  "score_eligibility_interval i asOfMs =
     rbind (assert_timestamp asOfMs ''asOfMs'') (\<lambda>_.
     rbind (assert_interval i) (\<lambda>_.
       let effectiveEndMs = (case endedAtMs i of None \<Rightarrow> asOfMs | Some e \<Rightarrow> min e asOfMs) in
       if effectiveEndMs \<le> startedAtMs i
       then Inr \<lparr>is_slackingSeconds = 0, is_scoreReachedAtMs = None\<rparr>
       else
         let elapsedSeconds = whole_seconds_between (startedAtMs i) effectiveEndMs;
             slackingSeconds = max 0 (elapsedSeconds - PER_SEGMENT_GRACE_SECONDS) in
         if slackingSeconds = 0
         then Inr \<lparr>is_slackingSeconds = slackingSeconds, is_scoreReachedAtMs = None\<rparr>
         else
           let scoreReachedAtMs =
                 startedAtMs i + (PER_SEGMENT_GRACE_SECONDS + slackingSeconds) * 1000 in
           if \<not> is_safe_integer scoreReachedAtMs then Inl Unsafe_score_reached
           else Inr \<lparr>is_slackingSeconds = slackingSeconds,
                     is_scoreReachedAtMs = Some scoreReachedAtMs\<rparr>))"

text \<open>The value of \<open>endedAtMs ?? Infinity\<close>, and a difference of two such, as its sign.\<close>

datatype ext_number = Fin int | PosInf

fun ext_sub :: "ext_number \<Rightarrow> ext_number \<Rightarrow> int" where
  "ext_sub (Fin a) (Fin b) = a - b"
| "ext_sub (Fin a) PosInf = - 1"
| "ext_sub PosInf (Fin b) = 1"
| "ext_sub PosInf PosInf = 0"

definition or_infinity :: "int option \<Rightarrow> ext_number" where
  "or_infinity v = (case v of None \<Rightarrow> PosInf | Some n \<Rightarrow> Fin n)"

definition compare_intervals :: "eligibility_interval \<Rightarrow> eligibility_interval \<Rightarrow> int" where
  "compare_intervals left right =
     (if startedAtMs left \<noteq> startedAtMs right
      then startedAtMs left - startedAtMs right
      else ext_sub (or_infinity (endedAtMs left)) (or_infinity (endedAtMs right)))"

fun assert_non_overlapping ::
  "ext_number option \<Rightarrow> eligibility_interval list \<Rightarrow> (scoring_error, unit) result" where
  "assert_non_overlapping previousEndMs [] = Inr ()"
| "assert_non_overlapping previousEndMs (i # rest) =
     (if endedAtMs i = Some (startedAtMs i) then assert_non_overlapping previousEndMs rest
      else if (case previousEndMs of None \<Rightarrow> False
               | Some p \<Rightarrow> ext_sub (Fin (startedAtMs i)) p < 0)
      then Inl Overlapping_intervals
      else assert_non_overlapping (Some (or_infinity (endedAtMs i))) rest)"

fun score_intervals ::
  "eligibility_interval list \<Rightarrow> int \<Rightarrow> int \<Rightarrow> int option
   \<Rightarrow> (scoring_error, int \<times> int option) result" where
  "score_intervals [] asOfMs slackingSeconds scoreReachedAtMs =
     Inr (slackingSeconds, scoreReachedAtMs)"
| "score_intervals (i # rest) asOfMs slackingSeconds scoreReachedAtMs =
     rbind (score_eligibility_interval i asOfMs) (\<lambda>s.
       let total = slackingSeconds + is_slackingSeconds s in
       if \<not> is_safe_integer total then Inl Unsafe_slacking_seconds
       else
         score_intervals rest asOfMs total
           (case is_scoreReachedAtMs s of
              None \<Rightarrow> scoreReachedAtMs
            | Some r \<Rightarrow>
                (case scoreReachedAtMs of
                   None \<Rightarrow> Some r
                 | Some r0 \<Rightarrow> if r0 < r then Some r else Some r0)))"

definition score_candidate ::
  "leaderboard_candidate \<Rightarrow> int \<Rightarrow> (scoring_error, candidate_score) result" where
  "score_candidate c asOfMs =
     rbind (assert_timestamp asOfMs ''asOfMs'') (\<lambda>_.
     rbind (assert_identifier (cand_logicalAgentId c) ''logicalAgentId'') (\<lambda>_.
     rbind (assert_identifier (cand_mountId c) ''mountId'') (\<lambda>_.
     rbind (mapM_r assert_interval (cand_intervals c)) (\<lambda>_.
     let intervals = sort_by compare_intervals (cand_intervals c) in
     rbind (assert_non_overlapping None intervals) (\<lambda>_.
     rbind (score_intervals intervals asOfMs 0 None) (\<lambda>(total, reached).
       Inr \<lparr>cs_logicalAgentId = cand_logicalAgentId c, cs_mountId = cand_mountId c,
            cs_slackingSeconds = total, cs_scoreReachedAtMs = reached\<rparr>))))))"

definition compare_candidate_scores :: "candidate_score \<Rightarrow> candidate_score \<Rightarrow> int" where
  "compare_candidate_scores left right =
     (if cs_slackingSeconds left \<noteq> cs_slackingSeconds right
      then cs_slackingSeconds right - cs_slackingSeconds left
      else
        let l = or_infinity (cs_scoreReachedAtMs left);
            r = or_infinity (cs_scoreReachedAtMs right) in
        if l \<noteq> r then ext_sub l r
        else
          let la = to_lower_case (cs_logicalAgentId left);
              ra = to_lower_case (cs_logicalAgentId right) in
          if la < ra then - 1 else if ra < la then 1 else 0)"

fun score_candidates ::
  "string list \<Rightarrow> leaderboard_candidate list \<Rightarrow> int
   \<Rightarrow> (scoring_error, candidate_score list) result" where
  "score_candidates seen [] asOfMs = Inr []"
| "score_candidates seen (c # cs) asOfMs =
     (let key = to_lower_case (cand_logicalAgentId c) in
      if key \<in> set seen then Inl (Duplicate_agent (cand_logicalAgentId c))
      else
        rbind (score_candidate c asOfMs) (\<lambda>s.
        rbind (score_candidates (key # seen) cs asOfMs) (\<lambda>ss. Inr (s # ss))))"

definition with_rank :: "candidate_score \<Rightarrow> nat \<Rightarrow> ranked_candidate" where
  "with_rank s index =
     \<lparr>cs_logicalAgentId = cs_logicalAgentId s, cs_mountId = cs_mountId s,
      cs_slackingSeconds = cs_slackingSeconds s, cs_scoreReachedAtMs = cs_scoreReachedAtMs s,
      rk_rank = int index + 1\<rparr>"

definition rank_leaderboard_candidates ::
  "leaderboard_candidate list \<Rightarrow> int \<Rightarrow> (scoring_error, ranked_candidate list) result" where
  "rank_leaderboard_candidates candidates asOfMs =
     rbind (assert_timestamp asOfMs ''asOfMs'') (\<lambda>_.
     rbind (score_candidates [] candidates asOfMs) (\<lambda>scores.
       let kept = sort_by compare_candidate_scores
                    (filter (\<lambda>s. 0 < cs_slackingSeconds s) scores) in
       Inr (map2 with_rank kept [0..<length kept])))"

section \<open>The specification: intervals as sets of instants, the score as a closed form\<close>

definition valid_timestamp :: "int \<Rightarrow> bool" where
  "valid_timestamp t \<longleftrightarrow> is_safe_integer t \<and> 0 \<le> t"

definition valid_interval :: "eligibility_interval \<Rightarrow> bool" where
  "valid_interval i \<longleftrightarrow> valid_timestamp (startedAtMs i)
     \<and> (\<forall>e. endedAtMs i = Some e \<longrightarrow> valid_timestamp e \<and> startedAtMs i \<le> e)"

definition instants :: "eligibility_interval \<Rightarrow> int set" where
  "instants i = {t. startedAtMs i \<le> t \<and> (\<forall>e. endedAtMs i = Some e \<longrightarrow> t < e)}"

definition effective_end :: "eligibility_interval \<Rightarrow> int \<Rightarrow> int" where
  "effective_end i t = (case endedAtMs i of None \<Rightarrow> t | Some e \<Rightarrow> min e t)"

definition slack :: "eligibility_interval \<Rightarrow> int \<Rightarrow> int" where
  "slack i t = max 0 ((effective_end i t - startedAtMs i) div 1000 - 900)"

definition reached :: "eligibility_interval \<Rightarrow> int \<Rightarrow> int option" where
  "reached i t = (if slack i t = 0 then None else Some (startedAtMs i + (900 + slack i t) * 1000))"

definition latest :: "int option list \<Rightarrow> int option" where
  "latest rs = (let xs = concat (map (\<lambda>r. case r of None \<Rightarrow> [] | Some x \<Rightarrow> [x]) rs) in
     if xs = [] then None else Some (Max (set xs)))"

lemma assert_timestamp_iff [result_simps]:
  "assert_timestamp t n = Inr u \<longleftrightarrow> valid_timestamp t"
  by (simp add: assert_timestamp_def valid_timestamp_def guard_r_def)

lemma assert_timestamp_ok [simp]: "valid_timestamp t \<Longrightarrow> assert_timestamp t n = Inr ()"
  by (simp add: assert_timestamp_def valid_timestamp_def)

lemma assert_interval_iff [result_simps]: "assert_interval i = Inr u \<longleftrightarrow> valid_interval i"
  by (auto simp: assert_interval_def valid_interval_def result_simps split: option.splits)

lemma assert_interval_ok [simp]: "valid_interval i \<Longrightarrow> assert_interval i = Inr ()"
  by (simp add: assert_interval_iff)

lemma slack_nonneg [simp]: "0 \<le> slack i t"
  by (simp add: slack_def)

lemma slack_mono: "t \<le> u \<Longrightarrow> slack i t \<le> slack i u"
proof -
  assume "t \<le> u"
  then have "effective_end i t \<le> effective_end i u"
    by (auto simp: effective_end_def split: option.splits)
  then have "(effective_end i t - startedAtMs i) div 1000 \<le> (effective_end i u - startedAtMs i) div 1000"
    by (intro zdiv_mono1) auto
  then show ?thesis by (simp add: slack_def)
qed

lemma slack_ge_iff:
  "0 < n \<Longrightarrow> n \<le> slack i t \<longleftrightarrow> startedAtMs i + (900 + n) * 1000 \<le> effective_end i t"
  by (auto simp: slack_def)

text \<open>The instant reported with a score is the first at which the interval has that score.\<close>

lemma reached_first:
  assumes "reached i t = Some r"
  shows "r \<le> effective_end i t" and "slack i u = slack i t \<or> u < r \<or> t < u"
    and "u < r \<Longrightarrow> slack i u < slack i t"
proof -
  from assms have n: "0 < slack i t" and r: "r = startedAtMs i + (900 + slack i t) * 1000"
    by (auto simp: reached_def split: if_splits intro: le_neq_trans)
  from slack_ge_iff [OF n, of i t] r show r_le: "r \<le> effective_end i t" by simp
  have "r \<le> u \<Longrightarrow> r \<le> effective_end i u"
    using r_le by (auto simp: effective_end_def split: option.splits)
  with slack_ge_iff [OF n, of i u] r have "r \<le> u \<Longrightarrow> slack i t \<le> slack i u" by auto
  then show "slack i u = slack i t \<or> u < r \<or> t < u"
    using slack_mono [of u t i] by (meson linorder_not_less order_antisym_conv)
  have "effective_end i u \<le> u" by (auto simp: effective_end_def split: option.splits)
  then show "u < r \<Longrightarrow> slack i u < slack i t"
    using slack_ge_iff [OF n, of i u] r by linarith
qed

lemma slack_zero_before: "effective_end i t \<le> startedAtMs i \<Longrightarrow> slack i t = 0"
  by (auto simp: slack_def max_def div_le_mono intro: antisym)

lemma score_eligibility_interval_ok:
  assumes t: "valid_timestamp t" and i: "valid_interval i"
  shows "score_eligibility_interval i t =
    Inr \<lparr>is_slackingSeconds = slack i t, is_scoreReachedAtMs = reached i t\<rparr>"
proof -
  have eff: "(case endedAtMs i of None \<Rightarrow> t | Some e \<Rightarrow> min e t) = effective_end i t"
    by (simp add: effective_end_def)
  have grace: "PER_SEGMENT_GRACE_SECONDS = 900" by (simp add: PER_SEGMENT_GRACE_SECONDS_def)
  have slack: "max 0 (whole_seconds_between (startedAtMs i) (effective_end i t) - 900) = slack i t"
    by (simp add: slack_def whole_seconds_between_def)
  have safe: "is_safe_integer r" if "reached i t = Some r" for r
  proof -
    have "r \<le> t" using reached_first(1) [OF that]
      by (auto simp: effective_end_def split: option.splits)
    moreover have "0 \<le> r"
      using that i by (auto simp: reached_def valid_interval_def valid_timestamp_def split: if_splits)
    ultimately show ?thesis
      using t by (auto simp: valid_timestamp_def is_safe_integer_def)
  qed
  show ?thesis
  proof (cases "effective_end i t \<le> startedAtMs i")
    case True
    then have "slack i t = 0" by (rule slack_zero_before)
    with True t i show ?thesis
      by (simp add: score_eligibility_interval_def eff reached_def Let_def)
  next
    case False
    then show ?thesis
      using t i safe
      by (auto simp: score_eligibility_interval_def eff reached_def Let_def grace slack
          split: if_splits)
  qed
qed

lemma score_eligibility_interval_Inr:
  "score_eligibility_interval i t = Inr s \<Longrightarrow> valid_timestamp t \<and> valid_interval i"
  by (auto simp: score_eligibility_interval_def result_simps)

section \<open>The comparators\<close>

lemma ext_sub_le: "ext_sub a b \<le> 0 \<longleftrightarrow> (b = PosInf \<or> (\<exists>x y. a = Fin x \<and> b = Fin y \<and> x \<le> y))"
  by (cases a; cases b) auto

lemma or_infinity_eq [simp]: "or_infinity a = or_infinity b \<longleftrightarrow> a = b"
  by (auto simp: or_infinity_def split: option.splits)

interpretation intervals_cmp: comparator compare_intervals "\<lambda>_. True"
proof
  show "compare_intervals x y \<le> 0 \<or> compare_intervals y x \<le> 0" for x y
    by (cases "endedAtMs x"; cases "endedAtMs y")
      (auto simp: compare_intervals_def or_infinity_def ext_sub_le)
  show "compare_intervals x y \<le> 0 \<Longrightarrow> compare_intervals y z \<le> 0 \<Longrightarrow> compare_intervals x z \<le> 0"
    for x y z
    by (auto simp: compare_intervals_def ext_sub_le split: if_splits)
qed

lemma compare_candidate_le:
  "compare_candidate_scores a b \<le> 0 \<longleftrightarrow>
     cs_slackingSeconds b < cs_slackingSeconds a
     \<or> cs_slackingSeconds b = cs_slackingSeconds a
       \<and> (ext_sub (or_infinity (cs_scoreReachedAtMs a)) (or_infinity (cs_scoreReachedAtMs b)) < 0
          \<or> cs_scoreReachedAtMs a = cs_scoreReachedAtMs b
            \<and> to_lower_case (cs_logicalAgentId a) \<le> to_lower_case (cs_logicalAgentId b))"
  by (cases "cs_scoreReachedAtMs a"; cases "cs_scoreReachedAtMs b")
    (auto simp: compare_candidate_scores_def Let_def or_infinity_def)

lemma ext_sub_neg: "ext_sub a b < 0 \<longleftrightarrow> (\<exists>x. a = Fin x \<and> (b = PosInf \<or> (\<exists>y. b = Fin y \<and> x < y)))"
  by (cases a; cases b) auto

interpretation scores_cmp: comparator compare_candidate_scores "\<lambda>_. True"
proof
  show "compare_candidate_scores x y \<le> 0 \<or> compare_candidate_scores y x \<le> 0" for x y
    by (cases "cs_scoreReachedAtMs x"; cases "cs_scoreReachedAtMs y")
      (auto simp: compare_candidate_le or_infinity_def ext_sub_neg)
  show "compare_candidate_scores x y \<le> 0 \<Longrightarrow> compare_candidate_scores y z \<le> 0
      \<Longrightarrow> compare_candidate_scores x z \<le> 0" for x y z
    by (cases "cs_scoreReachedAtMs x"; cases "cs_scoreReachedAtMs y"; cases "cs_scoreReachedAtMs z")
      (auto simp: compare_candidate_le or_infinity_def ext_sub_neg)
qed

lemma compare_candidate_antisym:
  "compare_candidate_scores a b \<le> 0 \<Longrightarrow> compare_candidate_scores b a \<le> 0
   \<Longrightarrow> to_lower_case (cs_logicalAgentId a) = to_lower_case (cs_logicalAgentId b)"
  by (auto simp: compare_candidate_le ext_sub_neg)

section \<open>Candidates: overlap, totals and the instant the total was reached\<close>

definition disjoint_intervals :: "eligibility_interval \<Rightarrow> eligibility_interval \<Rightarrow> bool" where
  "disjoint_intervals a b \<longleftrightarrow> instants a \<inter> instants b = {}"

lemma instants_empty_iff:
  "valid_interval i \<Longrightarrow> instants i = {} \<longleftrightarrow> endedAtMs i = Some (startedAtMs i)"
proof
  assume "instants i = {}"
  then have "startedAtMs i \<notin> instants i" by simp
  then show "valid_interval i \<Longrightarrow> endedAtMs i = Some (startedAtMs i)"
    by (auto simp: instants_def valid_interval_def)
qed (auto simp: instants_def)

lemma disjoint_ordered:
  assumes "valid_interval a" "valid_interval b" "startedAtMs a \<le> startedAtMs b" "instants a \<noteq> {}"
  shows "disjoint_intervals a b \<longleftrightarrow>
    instants b = {} \<or> \<not> ext_sub (Fin (startedAtMs b)) (or_infinity (endedAtMs a)) < 0"
proof (cases "instants b = {}")
  case True
  then show ?thesis by (simp add: disjoint_intervals_def)
next
  case False
  then have b: "startedAtMs b \<in> instants b"
    using instants_empty_iff [OF assms(2)] assms(2) by (auto simp: instants_def valid_interval_def)
  show ?thesis
  proof (cases "endedAtMs a")
    case None
    with b assms(3) have "startedAtMs b \<in> instants a \<inter> instants b" by (auto simp: instants_def)
    with None False show ?thesis by (auto simp: disjoint_intervals_def or_infinity_def)
  next
    case (Some e)
    with b assms(3) False show ?thesis
      by (auto simp: disjoint_intervals_def instants_def or_infinity_def disjoint_iff)
  qed
qed

lemma disjoint_empty: "instants a = {} \<Longrightarrow> disjoint_intervals a b"
  by (simp add: disjoint_intervals_def)

definition clear_of :: "ext_number option \<Rightarrow> eligibility_interval \<Rightarrow> bool" where
  "clear_of p i \<longleftrightarrow> (case p of None \<Rightarrow> True | Some e \<Rightarrow> \<not> ext_sub (Fin (startedAtMs i)) e < 0)"

lemma assert_non_overlapping_iff:
  assumes "sorted_wrt (\<lambda>a b. startedAtMs a \<le> startedAtMs b) xs" "\<forall>i\<in>set xs. valid_interval i"
  shows "assert_non_overlapping p xs = Inr u \<longleftrightarrow>
    (\<forall>i\<in>set xs. instants i \<noteq> {} \<longrightarrow> clear_of p i) \<and> sorted_wrt disjoint_intervals xs"
  using assms
proof (induction xs arbitrary: p)
  case Nil
  then show ?case by simp
next
  case (Cons x xs)
  show ?case
  proof (cases "instants x = {}")
    case True
    with Cons instants_empty_iff [of x] disjoint_empty [OF True] show ?thesis by simp
  next
    case False
    then have ne: "endedAtMs x \<noteq> Some (startedAtMs x)"
      using Cons.prems instants_empty_iff by auto
    have head: "(case p of None \<Rightarrow> False | Some p \<Rightarrow> ext_sub (Fin (startedAtMs x)) p < 0)
        \<longleftrightarrow> \<not> clear_of p x"
      by (simp add: clear_of_def split: option.splits)
    have after: "clear_of p i" if "clear_of p x" "i \<in> set xs" for i
      using that Cons.prems
      by (cases p; cases "the p") (auto simp: clear_of_def)
    have disj: "disjoint_intervals x i \<longleftrightarrow>
        instants i = {} \<or> clear_of (Some (or_infinity (endedAtMs x))) i" if "i \<in> set xs" for i
      using Cons.prems that False by (subst disjoint_ordered) (auto simp: clear_of_def)
    have "assert_non_overlapping p (x # xs) = Inr u \<longleftrightarrow>
        clear_of p x \<and> assert_non_overlapping (Some (or_infinity (endedAtMs x))) xs = Inr u"
      using ne head by auto
    also have "\<dots> \<longleftrightarrow> clear_of p x
        \<and> (\<forall>i\<in>set xs. instants i \<noteq> {} \<longrightarrow> clear_of (Some (or_infinity (endedAtMs x))) i)
        \<and> sorted_wrt disjoint_intervals xs"
      using Cons by simp
    finally show ?thesis using False after disj by auto
  qed
qed

lemma sorted_starts:
  "sorted_wrt (\<lambda>a b. startedAtMs a \<le> startedAtMs b) (sort_by compare_intervals xs)"
proof -
  have le: "compare_intervals a b \<le> 0 \<Longrightarrow> startedAtMs a \<le> startedAtMs b" for a b
    by (auto simp: compare_intervals_def split: if_splits)
  show ?thesis
    by (rule sorted_wrt_mono_rel [OF _ intervals_cmp.sorted_sort_by]) (auto intro: le)
qed

lemma sorted_wrt_symmetric_perm:
  assumes "mset xs = mset ys" "\<And>a b. P a b \<longleftrightarrow> P b a" "sorted_wrt P xs"
  shows "sorted_wrt P ys"
  using assms
proof (induction xs arbitrary: ys)
  case Nil
  then show ?case by simp
next
  case (Cons x xs)
  have "x \<in> set ys" using Cons.prems(1) by (metis list.set_intros(1) set_mset_mset)
  then obtain us vs where ys: "ys = us @ x # vs" by (meson split_list)
  with Cons.prems(1) have m: "mset xs = mset (us @ vs)" by simp
  with Cons have "sorted_wrt P (us @ vs)" by (metis sorted_wrt.simps(2))
  moreover have "set xs = set (us @ vs)" using m by (metis set_mset_mset)
  ultimately show ?case using Cons.prems(2,3) ys by (auto simp: sorted_wrt_append)
qed

lemma slack_total_bound:
  assumes "assert_non_overlapping p xs = Inr u" "\<forall>i\<in>set xs. valid_interval i" "0 \<le> t"
  shows "1000 * (\<Sum>i\<leftarrow>xs. slack i t) \<le>
    (case p of None \<Rightarrow> t | Some PosInf \<Rightarrow> 0 | Some (Fin e) \<Rightarrow> max 0 (t - e))"
  using assms(1,2)
proof (induction xs arbitrary: p)
  case Nil
  then show ?case using assms(3) by (auto split: option.splits ext_number.splits)
next
  case (Cons x xs)
  show ?case
  proof (cases "endedAtMs x = Some (startedAtMs x)")
    case True
    then have "slack x t = 0" by (intro slack_zero_before) (simp add: effective_end_def)
    with True Cons show ?thesis by simp
  next
    case False
    with Cons.prems have rec: "assert_non_overlapping (Some (or_infinity (endedAtMs x))) xs = Inr u"
      and clear: "clear_of p x"
      by (auto simp: clear_of_def split: if_splits option.splits)
    have "1000 * (d div 1000) \<le> d" for d :: int by presburger
    then have slack: "1000 * slack x t \<le> max 0 (effective_end x t - startedAtMs x)"
      by (smt (verit) slack_def)
    from Cons.prems have "valid_interval x" by simp
    then have v: "0 \<le> startedAtMs x" "\<And>e. endedAtMs x = Some e \<Longrightarrow> startedAtMs x \<le> e"
      by (auto simp: valid_interval_def valid_timestamp_def)
    have "1000 * (\<Sum>i\<leftarrow>x # xs. slack i t) \<le> max 0 (t - startedAtMs x)"
      using Cons.IH [OF rec] Cons.prems(2) slack v
      by (cases "endedAtMs x") (auto simp: or_infinity_def effective_end_def split: if_splits)
    with clear v(1) show ?thesis using assms(3)
      by (auto simp: clear_of_def split: option.splits ext_number.splits)
  qed
qed

lemma latest_Nil [simp]: "latest [] = None"
  by (simp add: latest_def)

lemma latest_None [simp]: "latest (rs @ None # ss) = latest (rs @ ss)"
  by (simp add: latest_def)

lemma latest_Some:
  "latest (rs @ [Some x]) =
     (case latest rs of None \<Rightarrow> Some x | Some r \<Rightarrow> if r < x then Some x else Some r)"
proof -
  define A where "A = concat (map (\<lambda>r. case r of None \<Rightarrow> [] | Some x \<Rightarrow> [x :: int]) rs)"
  have rs: "latest rs = (if A = [] then None else Some (Max (set A)))"
    and snoc: "latest (rs @ [Some x]) = Some (Max (insert x (set A)))"
    by (simp_all add: latest_def A_def)
  show ?thesis
  proof (cases "A = []")
    case True
    with rs snoc show ?thesis by simp
  next
    case False
    define m where "m = Max (set A)"
    from False have "Max (insert x (set A)) = max x m" by (simp add: m_def)
    with rs snoc False show ?thesis by (simp add: max_def flip: m_def)
  qed
qed

lemma score_intervals_ok:
  assumes "valid_timestamp t" "\<forall>i\<in>set xs. valid_interval i" "0 \<le> a"
    and "a + (\<Sum>i\<leftarrow>xs. slack i t) \<le> MAX_SAFE_INTEGER"
  shows "score_intervals xs t a (latest rs) =
    Inr (a + (\<Sum>i\<leftarrow>xs. slack i t), latest (rs @ map (\<lambda>i. reached i t) xs))"
  using assms
proof (induction xs arbitrary: a rs)
  case Nil
  then show ?case by simp
next
  case (Cons x xs)
  have nonneg: "0 \<le> (\<Sum>i\<leftarrow>xs. slack i t)" by (intro sum_list_nonneg) auto
  with Cons.prems have safe: "is_safe_integer (a + slack x t)"
    by (auto simp: is_safe_integer_def MAX_SAFE_INTEGER_def add_nonneg_nonneg intro: order_trans [of _ 0])
  have acc: "(case reached x t of None \<Rightarrow> latest rs
      | Some r \<Rightarrow> (case latest rs of None \<Rightarrow> Some r | Some r0 \<Rightarrow> if r0 < r then Some r else Some r0))
      = latest (rs @ [reached x t])"
    using latest_None [of rs "[]"] by (auto simp: latest_Some split: option.splits)
  show ?case
    using Cons.prems safe acc Cons.IH [of "a + slack x t" "rs @ [reached x t]"]
    by (simp add: score_eligibility_interval_ok Let_def add.assoc)
qed

definition valid_candidate :: "leaderboard_candidate \<Rightarrow> bool" where
  "valid_candidate c \<longleftrightarrow>
     cand_logicalAgentId c \<noteq> [] \<and> js_trim (cand_logicalAgentId c) = cand_logicalAgentId c
     \<and> cand_mountId c \<noteq> [] \<and> js_trim (cand_mountId c) = cand_mountId c
     \<and> (\<forall>i\<in>set (cand_intervals c). valid_interval i)
     \<and> sorted_wrt disjoint_intervals (cand_intervals c)"

definition candidate_total :: "leaderboard_candidate \<Rightarrow> int \<Rightarrow> int" where
  "candidate_total c t = (\<Sum>i\<leftarrow>cand_intervals c. slack i t)"

definition score_of :: "leaderboard_candidate \<Rightarrow> int \<Rightarrow> candidate_score" where
  "score_of c t = \<lparr>cs_logicalAgentId = cand_logicalAgentId c, cs_mountId = cand_mountId c,
     cs_slackingSeconds = candidate_total c t,
     cs_scoreReachedAtMs = latest (map (\<lambda>i. reached i t) (cand_intervals c))\<rparr>"

lemma latest_perm: "mset rs = mset ss \<Longrightarrow> latest rs = latest ss"
proof -
  define f where "f = (\<lambda>r :: int option. case r of None \<Rightarrow> [] | Some x \<Rightarrow> [x])"
  assume "mset rs = mset ss"
  then have "set rs = set ss" by (metis set_mset_mset)
  then have "set (concat (map f rs)) = set (concat (map f ss))" by simp
  then show "latest rs = latest ss"
    unfolding latest_def f_def [symmetric] Let_def by (metis set_empty)
qed

lemma assert_non_overlapping_sorted_iff:
  assumes "\<forall>i\<in>set is. valid_interval i"
  shows "assert_non_overlapping None (sort_by compare_intervals is) = Inr u
    \<longleftrightarrow> sorted_wrt disjoint_intervals is"
proof -
  let ?xs = "sort_by compare_intervals is"
  have sym: "disjoint_intervals a b \<longleftrightarrow> disjoint_intervals b a" for a b
    by (auto simp: disjoint_intervals_def)
  have "assert_non_overlapping None ?xs = Inr u \<longleftrightarrow> sorted_wrt disjoint_intervals ?xs"
    using assms sorted_starts assert_non_overlapping_iff [of ?xs None u] by (simp add: clear_of_def)
  then show ?thesis
    using sorted_wrt_symmetric_perm [OF _ sym, of ?xs "is"]
      sorted_wrt_symmetric_perm [OF _ sym, of "is" ?xs] by auto
qed

lemma candidate_total_sorted:
  "(\<Sum>i\<leftarrow>sort_by compare_intervals (cand_intervals c). slack i t) = candidate_total c t"
  unfolding candidate_total_def by (metis mset_map mset_sort_by sum_mset_sum_list)

lemma candidate_total_bound:
  assumes "valid_timestamp t" "\<forall>i\<in>set (cand_intervals c). valid_interval i"
    "sorted_wrt disjoint_intervals (cand_intervals c)"
  shows "candidate_total c t \<le> MAX_SAFE_INTEGER"
proof -
  let ?xs = "sort_by compare_intervals (cand_intervals c)"
  have "assert_non_overlapping None ?xs = Inr ()" "\<forall>i\<in>set ?xs. valid_interval i" "0 \<le> t"
    using assms by (simp_all add: assert_non_overlapping_sorted_iff valid_timestamp_def)
  from slack_total_bound [OF this] have "1000 * candidate_total c t \<le> t"
    by (simp add: candidate_total_sorted)
  with assms(1) show ?thesis by (auto simp: valid_timestamp_def is_safe_integer_def)
qed

lemma score_candidate_iff:
  "score_candidate c t = Inr s \<longleftrightarrow> valid_timestamp t \<and> valid_candidate c \<and> s = score_of c t"
proof (cases "valid_timestamp t \<and> (\<forall>i\<in>set (cand_intervals c). valid_interval i)
    \<and> cand_logicalAgentId c \<noteq> [] \<and> js_trim (cand_logicalAgentId c) = cand_logicalAgentId c
    \<and> cand_mountId c \<noteq> [] \<and> js_trim (cand_mountId c) = cand_mountId c")
  case False
  have "\<not> (\<exists>us. mapM_r assert_interval (cand_intervals c) = Inr us)"
    if "\<not> (\<forall>i\<in>set (cand_intervals c). valid_interval i)"
    using that by (auto simp: mapM_r_eq_Inr assert_interval_iff list_all2_conv_all_nth in_set_conv_nth)
  with False show ?thesis
    by (auto simp: score_candidate_def result_simps assert_identifier_def valid_candidate_def)
next
  case True
  define xs where "xs = sort_by compare_intervals (cand_intervals c)"
  note sum = candidate_total_sorted [of t c, folded xs_def]
  have latest: "latest (map (\<lambda>i. reached i t) xs) = latest (map (\<lambda>i. reached i t) (cand_intervals c))"
    by (rule latest_perm) (simp add: xs_def)
  have all: "mapM_r assert_interval (cand_intervals c) = Inr (map (\<lambda>_. ()) (cand_intervals c))"
    using True by (auto simp: mapM_r_eq_Inr list_all2_conv_all_nth assert_interval_iff)
  have valid: "\<forall>i\<in>set xs. valid_interval i" using True by (simp add: xs_def)
  have overlap: "assert_non_overlapping None xs = Inr u \<longleftrightarrow> sorted_wrt disjoint_intervals (cand_intervals c)"
    for u using True assert_non_overlapping_sorted_iff [of "cand_intervals c" u] by (simp add: xs_def)
  show ?thesis
  proof (cases "sorted_wrt disjoint_intervals (cand_intervals c)")
    case False
    then show ?thesis
      by (auto simp: score_candidate_def result_simps Let_def xs_def [symmetric] overlap valid_candidate_def)
  next
    case disj: True
    then have ok: "assert_non_overlapping None xs = Inr ()" by (simp add: overlap)
    have "candidate_total c t \<le> MAX_SAFE_INTEGER"
      using candidate_total_bound [of t c] True disj by simp
    then have "score_intervals xs t 0 None =
        Inr (candidate_total c t, latest (map (\<lambda>i. reached i t) (cand_intervals c)))"
      using score_intervals_ok [of t xs 0 "[]"] True valid by (simp add: sum latest)
    with True all ok disj show ?thesis
      by (auto simp: score_candidate_def Let_def xs_def [symmetric] score_of_def valid_candidate_def
          assert_identifier_def)
  qed
qed

lemma candidate_total_nonneg [simp]: "0 \<le> candidate_total c t"
  unfolding candidate_total_def by (intro sum_list_nonneg) auto

lemma latest_SomeD:
  assumes "latest rs = Some r"
  shows "Some r \<in> set rs" and "\<And>x. Some x \<in> set rs \<Longrightarrow> x \<le> r"
proof -
  define A where "A = concat (map (\<lambda>r. case r of None \<Rightarrow> [] | Some x \<Rightarrow> [x :: int]) rs)"
  have A: "A \<noteq> []" "r = Max (set A)"
    using assms by (auto simp: latest_def A_def [symmetric] Let_def split: if_splits)
  have mem: "x \<in> set A \<longleftrightarrow> Some x \<in> set rs" for x
    by (force simp: A_def split: option.splits)
  from A Max_in [of "set A"] show "Some r \<in> set rs" by (simp flip: mem)
  from A show "\<And>x. Some x \<in> set rs \<Longrightarrow> x \<le> r" by (simp flip: mem)
qed

lemma candidate_total_less:
  assumes "\<forall>i\<in>set xs. f i \<le> (g i :: int)" "j \<in> set xs" "f j < g j"
  shows "(\<Sum>i\<leftarrow>xs. f i) < (\<Sum>i\<leftarrow>xs. g i)"
  using assms
proof (induction xs)
  case (Cons x xs)
  have "(\<Sum>i\<leftarrow>xs. f i) \<le> (\<Sum>i\<leftarrow>xs. g i)"
    using Cons.prems by (intro sum_list_mono) auto
  with Cons show ?case by (cases "j = x") (auto intro: add_less_le_mono add_le_less_mono)
qed simp

lemma score_candidates_iff:
  "score_candidates seen cs t = Inr ss \<longleftrightarrow>
     (cs = [] \<or> valid_timestamp t) \<and> (\<forall>c\<in>set cs. valid_candidate c)
     \<and> distinct (map (\<lambda>c. to_lower_case (cand_logicalAgentId c)) cs)
     \<and> set (map (\<lambda>c. to_lower_case (cand_logicalAgentId c)) cs) \<inter> set seen = {}
     \<and> ss = map (\<lambda>c. score_of c t) cs"
  by (induction cs arbitrary: seen ss)
    (auto simp: Let_def result_simps score_candidate_iff)

definition positive_scores :: "leaderboard_candidate list \<Rightarrow> int \<Rightarrow> candidate_score list" where
  "positive_scores cs t =
     sort_by compare_candidate_scores (filter (\<lambda>s. 0 < cs_slackingSeconds s) (map (\<lambda>c. score_of c t) cs))"

lemma rank_leaderboard_iff:
  "rank_leaderboard_candidates cs t = Inr rs \<longleftrightarrow>
     valid_timestamp t \<and> (\<forall>c\<in>set cs. valid_candidate c)
     \<and> distinct (map (\<lambda>c. to_lower_case (cand_logicalAgentId c)) cs)
     \<and> rs = map2 with_rank (positive_scores cs t) [0..<length (positive_scores cs t)]"
  by (auto simp: rank_leaderboard_candidates_def result_simps score_candidates_iff Let_def
      positive_scores_def)

lemma score_of_agent [simp]: "cs_logicalAgentId (score_of c t) = cand_logicalAgentId c"
  by (simp add: score_of_def)

lemma positive_scores_perm:
  assumes "mset cs = mset ds" "distinct (map (\<lambda>c. to_lower_case (cand_logicalAgentId c)) cs)"
  shows "positive_scores cs t = positive_scores ds t"
  unfolding positive_scores_def
proof (rule scores_cmp.sort_by_perm)
  show "mset (filter (\<lambda>s. 0 < cs_slackingSeconds s) (map (\<lambda>c. score_of c t) cs)) =
      mset (filter (\<lambda>s. 0 < cs_slackingSeconds s) (map (\<lambda>c. score_of c t) ds))"
    using assms(1) by (simp add: mset_filter)
next
  fix a b
  assume mem: "a \<in> set (filter (\<lambda>s. 0 < cs_slackingSeconds s) (map (\<lambda>c. score_of c t) cs))"
    "b \<in> set (filter (\<lambda>s. 0 < cs_slackingSeconds s) (map (\<lambda>c. score_of c t) cs))"
    and "compare_candidate_scores a b \<le> 0" "compare_candidate_scores b a \<le> 0"
  then have "to_lower_case (cs_logicalAgentId a) = to_lower_case (cs_logicalAgentId b)"
    by (intro compare_candidate_antisym)
  moreover from mem obtain c d where "c \<in> set cs" "a = score_of c t" "d \<in> set cs" "b = score_of d t"
    by auto
  ultimately show "a = b" using assms(2) by (metis distinct_map inj_onD score_of_agent)
qed simp

lemma score_of_reached_least:
  assumes "valid_candidate c" "cs_scoreReachedAtMs (score_of c t) = Some r" "u \<le> t"
  shows "candidate_total c u = candidate_total c t \<longleftrightarrow> r \<le> u"
proof -
  let ?is = "cand_intervals c"
  have last: "latest (map (\<lambda>i. reached i t) ?is) = Some r"
    using assms(2) by (simp add: score_of_def)
  then obtain j where j: "j \<in> set ?is" "reached j t = Some r"
    using latest_SomeD(1) by fastforce
  have le: "\<forall>i\<in>set ?is. slack i u \<le> slack i t" using assms(3) by (simp add: slack_mono)
  show ?thesis
  proof
    assume eq: "candidate_total c u = candidate_total c t"
    show "r \<le> u"
    proof (rule ccontr)
      assume "\<not> r \<le> u"
      then have "slack j u < slack j t" using reached_first(3) [OF j(2)] by simp
      with le j(1) have "candidate_total c u < candidate_total c t"
        unfolding candidate_total_def by (rule candidate_total_less)
      with eq show False by simp
    qed
  next
    assume ru: "r \<le> u"
    have "slack i u = slack i t" if i: "i \<in> set ?is" for i
    proof (cases "reached i t")
      case None
      then have "slack i t = 0" by (simp add: reached_def split: if_splits)
      moreover have "slack i u \<le> slack i t" using le i by blast
      ultimately show ?thesis using slack_nonneg [of i u] by linarith
    next
      case (Some q)
      with i have "q \<le> r" by (intro latest_SomeD(2) [OF last]) force
      then show ?thesis using reached_first(2) [OF Some, of u] ru assms(3) by auto
    qed
    then have "map (\<lambda>i. slack i u) ?is = map (\<lambda>i. slack i t) ?is" by simp
    then show "candidate_total c u = candidate_total c t" by (simp only: candidate_total_def)
  qed
qed

section \<open>Properties\<close>

text \<open>
  Scoring a candidate succeeds exactly on a safe non-negative cutoff and a candidate
  whose ids are trimmed and non-empty and whose intervals are well formed and pairwise disjoint
  as sets of instants; its score is then the sum over the intervals of their whole seconds
  before the cutoff less the fifteen minutes of grace each interval pays. In particular neither
  safe-integer check inside the loops can fail.
\<close>

theorem score_candidate_spec:
  "score_candidate c t = Inr s \<longleftrightarrow>
     valid_timestamp t \<and> valid_candidate c
     \<and> s = \<lparr>cs_logicalAgentId = cand_logicalAgentId c, cs_mountId = cand_mountId c,
            cs_slackingSeconds =
              (\<Sum>i\<leftarrow>cand_intervals c. max 0 ((effective_end i t - startedAtMs i) div 1000 - 900)),
            cs_scoreReachedAtMs = latest (map (\<lambda>i. reached i t) (cand_intervals c))\<rparr>"
  by (simp add: score_candidate_iff score_of_def candidate_total_def slack_def)

text \<open>
  C5: The instant reported with a candidate's score is the first one at which the candidate
  had that score: scored as of any earlier or later cutoff up to the original one, the total is
  the same exactly from that instant on. The leaderboard's tie break is therefore fair.
\<close>

theorem score_reached_at_first:
  assumes "score_candidate c t = Inr s" and "cs_scoreReachedAtMs s = Some r"
    and "0 \<le> u" and "u \<le> t"
  shows "\<exists>s'. score_candidate c u = Inr s'
    \<and> (cs_slackingSeconds s' = cs_slackingSeconds s \<longleftrightarrow> r \<le> u)"
proof -
  from assms(1) have v: "valid_timestamp t" "valid_candidate c" and s: "s = score_of c t"
    by (simp_all add: score_candidate_iff)
  from v(1) assms(3,4) have "valid_timestamp u"
    by (auto simp: valid_timestamp_def is_safe_integer_def)
  with v(2) have "score_candidate c u = Inr (score_of c u)" by (simp add: score_candidate_iff)
  moreover have "candidate_total c u = candidate_total c t \<longleftrightarrow> r \<le> u"
    using score_of_reached_least [OF v(2) _ assms(4), of r] assms(2) s by simp
  ultimately show ?thesis using s by (simp add: score_of_def)
qed

definition sample_candidate :: leaderboard_candidate where
  "sample_candidate = \<lparr>cand_logicalAgentId = ''a'', cand_mountId = ''m'',
     cand_intervals = [\<lparr>startedAtMs = 0, endedAtMs = Some 905500\<rparr>]\<rparr>"

lemma score_reached_at_first_witness:
  "\<exists>s'. score_candidate sample_candidate 904999 = Inr s'
    \<and> (cs_slackingSeconds s' = 5 \<longleftrightarrow> (905000::int) \<le> 904999)"
proof -
  have "score_candidate sample_candidate 1000000 = Inr
    \<lparr>cs_logicalAgentId = ''a'', cs_mountId = ''m'', cs_slackingSeconds = 5,
     cs_scoreReachedAtMs = Some 905000\<rparr>"
    by code_simp
  from score_reached_at_first [OF this, of 905000 904999] show ?thesis by simp
qed

text \<open>
  A ranking that succeeds numbers its entries 1, 2, 3, ... without gaps, holds exactly
  the candidates with a positive score, each once, and is in leaderboard order: more slacking
  seconds first, then the earlier instant at which the score was reached, then the
  case-insensitive agent id.
\<close>

theorem rank_leaderboard_order:
  assumes "rank_leaderboard_candidates cs t = Inr rs"
  shows "map rk_rank rs = map int [1..<Suc (length rs)]
    \<and> mset (map (\<lambda>r. (cs_logicalAgentId r, cs_mountId r, cs_slackingSeconds r)) rs)
      = mset (map (\<lambda>c. (cand_logicalAgentId c, cand_mountId c, candidate_total c t))
          (filter (\<lambda>c. 0 < candidate_total c t) cs))
    \<and> sorted_wrt (\<lambda>a b. cs_slackingSeconds b < cs_slackingSeconds a
        \<or> cs_slackingSeconds b = cs_slackingSeconds a
          \<and> (ext_sub (or_infinity (cs_scoreReachedAtMs a)) (or_infinity (cs_scoreReachedAtMs b)) < 0
             \<or> cs_scoreReachedAtMs a = cs_scoreReachedAtMs b
               \<and> to_lower_case (cs_logicalAgentId a) \<le> to_lower_case (cs_logicalAgentId b))) rs"
proof -
  let ?ps = "positive_scores cs t"
  from assms have rs: "rs = map2 with_rank ?ps [0..<length ?ps]" by (simp add: rank_leaderboard_iff)
  then have len: "length rs = length ?ps" by simp
  have nth: "rs ! i = with_rank (?ps ! i) i" if "i < length rs" for i
    using that len by (simp add: rs)
  have ranks: "map rk_rank rs = map int [1..<Suc (length rs)]"
    by (rule nth_equalityI) (auto simp: nth with_rank_def simp del: upt_Suc)
  define key where "key = (\<lambda>s :: candidate_score. (cs_logicalAgentId s, cs_mountId s, cs_slackingSeconds s))"
  have "map (\<lambda>r. (cs_logicalAgentId r, cs_mountId r, cs_slackingSeconds r)) rs = map key ?ps"
    by (rule nth_equalityI) (auto simp: len nth with_rank_def key_def)
  moreover have "mset (map key ?ps) = mset (map key (filter (\<lambda>s. 0 < cs_slackingSeconds s)
      (map (\<lambda>c. score_of c t) cs)))"
    unfolding mset_map positive_scores_def mset_sort_by ..
  moreover have "map key (filter (\<lambda>s. 0 < cs_slackingSeconds s) (map (\<lambda>c. score_of c t) cs))
      = map (\<lambda>c. (cand_logicalAgentId c, cand_mountId c, candidate_total c t))
          (filter (\<lambda>c. 0 < candidate_total c t) cs)"
    by (simp add: filter_map comp_def score_of_def key_def)
  ultimately have content: "mset (map (\<lambda>r. (cs_logicalAgentId r, cs_mountId r, cs_slackingSeconds r)) rs)
      = mset (map (\<lambda>c. (cand_logicalAgentId c, cand_mountId c, candidate_total c t))
          (filter (\<lambda>c. 0 < candidate_total c t) cs))"
    by simp
  have "sorted_wrt (\<lambda>a b. compare_candidate_scores a b \<le> 0) ?ps"
    unfolding positive_scores_def by (rule scores_cmp.sorted_sort_by) simp
  then show ?thesis
    using ranks content
    by (simp add: compare_candidate_le sorted_wrt_iff_nth_less len nth with_rank_def)
qed

lemma rank_leaderboard_order_witness:
  "\<exists>rs. rank_leaderboard_candidates [sample_candidate] 1000000 = Inr rs
    \<and> map rk_rank rs = map int [1..<Suc (length rs)]"
proof -
  have "rank_leaderboard_candidates [sample_candidate] 1000000 = Inr
    [\<lparr>cs_logicalAgentId = ''a'', cs_mountId = ''m'', cs_slackingSeconds = 5,
      cs_scoreReachedAtMs = Some 905000, rk_rank = 1\<rparr>]"
    by code_simp
  with rank_leaderboard_order [OF this] show ?thesis by blast
qed

text \<open>
  The ranking does not depend on the order in which the candidates are submitted: a
  permutation of them that was ranked is ranked to the same list.
\<close>

theorem rank_leaderboard_perm:
  assumes "rank_leaderboard_candidates cs t = Inr rs" and "mset ds = mset cs"
  shows "rank_leaderboard_candidates ds t = Inr rs"
proof -
  from assms(1) have d: "distinct (map (\<lambda>c. to_lower_case (cand_logicalAgentId c)) cs)"
    and rs: "rs = map2 with_rank (positive_scores cs t) [0..<length (positive_scores cs t)]"
    and v: "valid_timestamp t" "\<forall>c\<in>set cs. valid_candidate c"
    by (simp_all add: rank_leaderboard_iff)
  have sets: "set ds = set cs" using assms(2) by (metis set_mset_mset)
  have d': "distinct (map (\<lambda>c. to_lower_case (cand_logicalAgentId c)) ds)"
    using d assms(2) by (metis mset_eq_imp_distinct_iff mset_map)
  have same: "positive_scores ds t = positive_scores cs t"
    using positive_scores_perm [OF assms(2) d', of t] .
  show ?thesis unfolding rank_leaderboard_iff same using v sets d' rs by simp
qed

definition sample_rival :: leaderboard_candidate where
  "sample_rival = \<lparr>cand_logicalAgentId = ''B'', cand_mountId = ''n'',
     cand_intervals = [\<lparr>startedAtMs = 0, endedAtMs = None\<rparr>]\<rparr>"

lemma rank_leaderboard_perm_witness:
  "rank_leaderboard_candidates [sample_rival, sample_candidate] 1000000
   = rank_leaderboard_candidates [sample_candidate, sample_rival] 1000000"
proof -
  have ok: "rank_leaderboard_candidates [sample_candidate, sample_rival] 1000000 = Inr
    [\<lparr>cs_logicalAgentId = ''B'', cs_mountId = ''n'', cs_slackingSeconds = 100,
      cs_scoreReachedAtMs = Some 1000000, rk_rank = 1\<rparr>,
     \<lparr>cs_logicalAgentId = ''a'', cs_mountId = ''m'', cs_slackingSeconds = 5,
      cs_scoreReachedAtMs = Some 905000, rk_rank = 2\<rparr>]"
    by code_simp
  have "mset [sample_rival, sample_candidate] = mset [sample_candidate, sample_rival]" by simp
  from rank_leaderboard_perm [OF ok this] ok show ?thesis by simp
qed

lemma idle_stage_ok:
  assumes "valid_timestamp s" and "valid_timestamp t"
  shows "derive_idle_stage (Some \<lparr>startedAtMs = s, endedAtMs = None\<rparr>) t
    = Inr (presence_derive_idle_stage (Some s) t)"
proof (cases "t < s")
  case True
  then have "(t - s) div 1000 \<le> 0" by (simp add: div_nonpos_pos_le0)
  with True assms show ?thesis
    by (simp add: derive_idle_stage_def valid_interval_def presence_derive_idle_stage_def)
next
  case False
  then have "0 \<le> (t - s) div 1000" by (simp add: pos_imp_zdiv_nonneg_iff)
  with False assms show ?thesis
    by (simp add: derive_idle_stage_def valid_interval_def presence_derive_idle_stage_def
        stage_of_seconds_def stage_threshold_def whole_seconds_between_def Let_def)
qed

text \<open>
  The two copies of the idle stage agree: for an open eligibility interval and a cutoff
  that are non-negative safe integers, the scoring module's checked function returns what the
  presence module computes from the same two instants.
\<close>

theorem idle_stage_copies_agree:
  assumes "valid_timestamp s" and "valid_timestamp t"
  shows "derive_idle_stage (Some \<lparr>startedAtMs = s, endedAtMs = None\<rparr>) t
    = Inr (presence_derive_idle_stage (Some s) t)"
  using assms by (rule idle_stage_ok)

lemma idle_stage_copies_agree_witness:
  "derive_idle_stage (Some \<lparr>startedAtMs = 0, endedAtMs = None\<rparr>) 1500000
    = Inr (presence_derive_idle_stage (Some 0) 1500000)"
  by (rule idle_stage_copies_agree)
    (simp_all add: valid_timestamp_def is_safe_integer_def MAX_SAFE_INTEGER_def)

end
