(* ===== verification/Store.thy ===== *)
theory Store
  imports Edge_Types Scoring
begin

text \<open>
  The database: one record per table of apps/control-plane/migrations, with the columns the
  TypeScript statements read or write. Tables whose every statement is restricted to one
  \<open>instance_id\<close> are kept per instance in an \<open>edge_store\<close>; the column itself is the key.
  Constraints of the migrations that a statement of the sources can violate are predicates
  here, and the operations fail where the database would.
\<close>

section \<open>Per-instance tables\<close>

record head_row =
  hd_current_boot_id :: "uuid option"
  hd_current_boot_generation :: int
  hd_last_server_received_at :: "date_ms option"

record boot_row =
  bt_generation :: int
  bt_boot_id :: uuid
  bt_previous_boot_id :: "uuid option"
  bt_next_sequence :: int
  bt_first_accepted_at :: date_ms
  bt_last_accepted_at :: date_ms
  bt_fenced_at :: "date_ms option"

record receipt_row =
  rc_id :: uuid
  rc_boot_generation :: int
  rc_boot_id :: uuid
  rc_key_id :: uuid
  rc_first_sequence :: int
  rc_last_sequence :: int
  rc_event_count :: int
  rc_canonical_sha256 :: byte_string
  rc_canonical_payload :: byte_string
  rc_sent_at :: string
  rc_client_version :: string
  rc_server_received_at :: date_ms
  rc_lease_expires_at :: date_ms
  rc_current_protocol :: int
  rc_min_supported_protocol :: int

record fingerprint_row =
  fp_boot_generation :: int
  fp_sequence :: int
  fp_receipt_id :: uuid
  fp_event :: edge_event
  fp_canonical_sha256 :: byte_string
  fp_canonical_event :: byte_string

record presence_row =
  pn_boot_generation :: int
  pn_boot_id :: uuid
  pn_last_accepted_sequence :: int
  pn_last_state_sequence :: int
  pn_display_state :: display_state
  pn_activity_state :: activity_state
  pn_pet_id :: string
  pn_display_since :: date_ms
  pn_activity_since :: date_ms
  pn_eligible_since :: "date_ms option"
  pn_last_report_received_at :: date_ms
  pn_lease_expires_at :: date_ms
  pn_lease_closed_at :: "date_ms option"

datatype close_reason =
    State_changed | Lease_expired | Boot_replaced | Instance_revoked | Retention

record interval_row =
  iv_boot_generation :: int
  iv_activity_state :: activity_state
  iv_started_at :: date_ms
  iv_ended_at :: "date_ms option"
  iv_start_sequence :: int
  iv_end_sequence :: "int option"
  iv_close_reason :: "close_reason option"

record edge_store =
  es_head :: "head_row option"
  es_boots :: "boot_row list"
  es_receipts :: "receipt_row list"
  es_fingerprints :: "fingerprint_row list"
  es_presence :: "presence_row option"
  es_intervals :: "interval_row list"

definition empty_edge_store :: edge_store where
  "empty_edge_store = \<lparr>es_head = None, es_boots = [], es_receipts = [], es_fingerprints = [],
     es_presence = None, es_intervals = []\<rparr>"

definition presence_constraints :: "presence_row \<Rightarrow> bool" where
  "presence_constraints p \<longleftrightarrow>
     1 \<le> pn_last_accepted_sequence p \<and> pn_last_accepted_sequence p \<le> MAX_SAFE_SEQUENCE
     \<and> 1 \<le> pn_last_state_sequence p \<and> pn_last_state_sequence p \<le> MAX_SAFE_SEQUENCE
     \<and> allowed_pair (pn_display_state p) (pn_activity_state p)
     \<and> (pn_activity_state p = A_eligible_idle \<longleftrightarrow> pn_eligible_since p \<noteq> None)
     \<and> pn_last_state_sequence p \<le> pn_last_accepted_sequence p
     \<and> pn_last_report_received_at p < pn_lease_expires_at p
     \<and> (pn_lease_closed_at p = None \<or> pn_lease_closed_at p = Some (pn_lease_expires_at p))"

definition interval_constraints :: "interval_row \<Rightarrow> bool" where
  "interval_constraints i \<longleftrightarrow>
     1 \<le> iv_start_sequence i \<and> iv_start_sequence i \<le> MAX_SAFE_SEQUENCE
     \<and> (case iv_ended_at i of
          None \<Rightarrow> iv_end_sequence i = None \<and> iv_close_reason i = None
        | Some e \<Rightarrow> iv_started_at i \<le> e \<and> iv_close_reason i \<noteq> None
            \<and> (case iv_end_sequence i of None \<Rightarrow> False
               | Some n \<Rightarrow> iv_start_sequence i \<le> n \<and> n \<le> MAX_SAFE_SEQUENCE))"

definition interval_overlap :: "interval_row \<Rightarrow> interval_row \<Rightarrow> bool" where
  "interval_overlap a b \<longleftrightarrow>
     (case iv_ended_at a of None \<Rightarrow> True | Some e \<Rightarrow> iv_started_at a < e)
     \<and> (case iv_ended_at b of None \<Rightarrow> True | Some e \<Rightarrow> iv_started_at b < e)
     \<and> (case iv_ended_at b of None \<Rightarrow> True | Some e \<Rightarrow> iv_started_at a < e)
     \<and> (case iv_ended_at a of None \<Rightarrow> True | Some e \<Rightarrow> iv_started_at b < e)"

definition interval_table_ok :: "interval_row list \<Rightarrow> bool" where
  "interval_table_ok t \<longleftrightarrow>
     list_all interval_constraints t
     \<and> sorted_wrt (\<lambda>a b. \<not> interval_overlap a b) t
     \<and> row_count (\<lambda>i. iv_ended_at i = None) t \<le> 1"

section \<open>Offices, agents and mounts\<close>

record office_row =
  of_id :: uuid
  of_owner_account_id :: uuid
  of_name :: js_string
  of_timezone :: string
  of_demo_data :: bool
  of_revision :: int
  of_minimum_replay_revision :: int
  of_created_at :: date_ms
  of_deletion_requested_at :: "date_ms option"

record room_row =
  rm_id :: uuid
  rm_office_id :: uuid
  rm_name :: js_string
  rm_scene_capacity :: int
  rm_created_at :: date_ms

record agent_row =
  ag_id :: uuid
  ag_owner_account_id :: uuid
  ag_alias :: js_string
  ag_pet_id :: string
  ag_active_reporting_instance_id :: "uuid option"

datatype instance_status = Instance_active | Instance_is_revoked

record instance_row =
  in_id :: uuid
  in_logical_agent_id :: uuid
  in_status :: instance_status
  in_revoked_at :: "date_ms option"

record credential_row =
  cr_key_id :: uuid
  cr_instance_id :: uuid
  cr_public_key :: byte_string
  cr_valid_until :: date_ms
  cr_revoked_at :: "date_ms option"

record mount_row =
  mt_id :: uuid
  mt_office_id :: uuid
  mt_logical_agent_id :: uuid
  mt_room_id :: uuid
  mt_active :: bool
  mt_scene_slot :: "int option"
  mt_presence_visible :: bool
  mt_stats_opt_in :: bool
  mt_poster_opt_in :: bool
  mt_updated_at :: date_ms

datatype qualification_close =
  Stats_opt_out | Mount_deactivated | Mount_removed | Account_deleted

record qualification_row =
  ql_office_id :: uuid
  ql_mount_id :: uuid
  ql_started_at :: date_ms
  ql_ended_at :: "date_ms option"
  ql_close_reason :: "qualification_close option"

section \<open>Schedules\<close>

record schedule_version_row =
  sv_id :: uuid
  sv_office_id :: uuid
  sv_version :: int
  sv_timezone :: string
  sv_effective_from_local_date :: local_date

text \<open>A local time is the number of its nanosecond in the day.\<close>

type_synonym local_time = int

record schedule_rule_row =
  sr_id :: uuid
  sr_office_id :: uuid
  sr_schedule_version_id :: uuid
  sr_iso_weekday :: int
  sr_start_local_time :: local_time
  sr_end_local_time :: local_time
  sr_end_day_offset :: int

record occurrence_row =
  oc_id :: uuid
  oc_office_id :: uuid
  oc_schedule_version_id :: uuid
  oc_schedule_rule_id :: uuid
  oc_office_local_date :: local_date
  oc_starts_at :: date_ms
  oc_ends_at :: date_ms

section \<open>Public projection\<close>

record public_room =
  pu_room_id :: uuid
  pu_room_name :: js_string
  pu_scene_capacity :: int

datatype public_presence = Online | Offline

record public_agent =
  pa_mount_id :: uuid
  pa_room_id :: uuid
  pa_alias :: js_string
  pa_pet_id :: string
  pa_presence :: public_presence
  pa_display_state :: "display_state option"
  pa_idle_stage :: idle_stage
  pa_scene_slot :: "int option"

record public_leaderboard_entry =
  le_rank :: int
  le_mount_id :: uuid
  le_alias :: js_string
  le_pet_id :: string
  le_slacking_seconds :: int

record public_daily_award =
  aw_office_local_date :: local_date
  aw_awarded_at :: date_ms
  aw_mount_id :: uuid
  aw_alias :: js_string
  aw_pet_id :: string
  aw_slacking_seconds :: int

datatype leaderboard_status = Provisional | Final

record public_office_snapshot =
  ps_office_revision :: int
  ps_generated_at :: date_ms
  ps_office_name :: js_string
  ps_local_date :: local_date
  ps_timezone :: string
  ps_rooms :: "public_room list"
  ps_agents :: "public_agent list"
  ps_leaderboard_local_date :: local_date
  ps_leaderboard_status :: leaderboard_status
  ps_leaderboard_as_of :: date_ms
  ps_leaderboard_entries :: "public_leaderboard_entry list"
  ps_daily_award :: "public_daily_award option"
  ps_demo_data :: bool

datatype public_event_type =
    Projection_initialized
  | Projection_ticked
  | Presence_changed
  | Presence_removed
  | Consent_changed
  | Schedule_changed
  | Office_day_settled

datatype source_kind =
    Projection_seed
  | Edge_receipt
  | Lease_expiry
  | Consent_change
  | Schedule_change
  | Projection_tick
  | Office_day_settlement

record revision_event_row =
  re_office_id :: uuid
  re_revision :: int
  re_event_type :: public_event_type
  re_public_payload :: public_office_snapshot
  re_canonical_payload :: "byte_string option"
  re_created_at :: date_ms
  re_projection_format_version :: int

record projection_row =
  pj_office_id :: uuid
  pj_revision :: int
  pj_snapshot_payload :: public_office_snapshot
  pj_canonical_payload :: byte_string
  pj_generated_at :: date_ms

record outbox_row =
  ob_id :: uuid
  ob_office_id :: uuid
  ob_office_revision :: int
  ob_source_kind :: source_kind
  ob_source_key :: js_string
  ob_source_receipt_id :: "uuid option"
  ob_created_at :: date_ms
  ob_published_at :: "date_ms option"

record day_winner =
  wn_mount_id :: uuid
  wn_logical_agent_id :: uuid
  wn_alias :: js_string
  wn_pet_id :: string
  wn_slacking_seconds :: int
  wn_score_reached_at :: date_ms

text \<open>The outcome column is \<open>winner\<close> exactly when the winner columns are not null.\<close>

record day_result_row =
  dr_office_id :: uuid
  dr_office_local_date :: local_date
  dr_schedule_version_id :: uuid
  dr_winner :: "day_winner option"
  dr_settled_at :: date_ms

record view_token_row =
  vt_id :: uuid
  vt_office_id :: uuid
  vt_token_hash :: byte_string
  vt_created_at :: date_ms
  vt_expires_at :: "date_ms option"
  vt_revoked_at :: "date_ms option"

section \<open>The database\<close>

record db =
  db_offices :: "office_row list"
  db_rooms :: "room_row list"
  db_agents :: "agent_row list"
  db_instances :: "instance_row list"
  db_credentials :: "credential_row list"
  db_edge :: "uuid \<Rightarrow> edge_store"
  db_mounts :: "mount_row list"
  db_qualifications :: "qualification_row list"
  db_schedule_versions :: "schedule_version_row list"
  db_schedule_rules :: "schedule_rule_row list"
  db_occurrences :: "occurrence_row list"
  db_revision_events :: "revision_event_row list"
  db_projections :: "projection_row list"
  db_outbox :: "outbox_row list"
  db_day_results :: "day_result_row list"
  db_view_tokens :: "view_token_row list"
  db_notifications :: "(uuid \<times> int) list"

definition empty_db :: db where
  "empty_db = \<lparr>db_offices = [], db_rooms = [], db_agents = [], db_instances = [],
     db_credentials = [], db_edge = (\<lambda>_. empty_edge_store), db_mounts = [],
     db_qualifications = [], db_schedule_versions = [], db_schedule_rules = [],
     db_occurrences = [], db_revision_events = [], db_projections = [], db_outbox = [],
     db_day_results = [], db_view_tokens = [], db_notifications = []\<rparr>"

definition find_office :: "db \<Rightarrow> uuid \<Rightarrow> office_row option" where
  "find_office d oid = select_one (\<lambda>o'. of_id o' = oid) (db_offices d)"

definition find_projection :: "db \<Rightarrow> uuid \<Rightarrow> projection_row option" where
  "find_projection d oid = select_one (\<lambda>p. pj_office_id p = oid) (db_projections d)"

definition find_agent :: "db \<Rightarrow> uuid \<Rightarrow> agent_row option" where
  "find_agent d aid = select_one (\<lambda>a. ag_id a = aid) (db_agents d)"

text \<open>A column value cast to \<open>uuid\<close>: the text is folded to lower case.\<close>

definition uuid_of_text :: "string \<Rightarrow> uuid" where
  "uuid_of_text s = to_lower_case s"

end
