(* ===== verification/Leaderboard.thy ===== *)
theory Leaderboard
  imports Store
begin

text \<open>
  The office leaderboard (public-office/application/office-leaderboard-query.ts): the SQL
  statement, one definition per common table expression, and the mapping of its rows. The
  lemmas show that the gaps-and-islands query merges the overlapping segments of a mount into
  disjoint ones covering the same instants, and that what it scores and orders is what the
  reference implementation in the theory Scoring computes from the merged intervals.
\<close>

record segment =
  sg_mount_id :: uuid
  sg_logical_agent_id :: uuid
  sg_alias :: js_string
  sg_pet_id :: string
  sg_start :: date_ms
  sg_end :: date_ms

record leaderboard_total =
  lt_logical_agent_id :: uuid
  lt_mount_id :: uuid
  lt_alias :: js_string
  lt_pet_id :: string
  lt_slacking_seconds :: int
  lt_score_reached_at :: "date_ms option"

record office_leaderboard_score =
  ls_rank :: int
  ls_logicalAgentId :: uuid
  ls_mountId :: uuid
  ls_alias :: js_string
  ls_petId :: string
  ls_slackingSeconds :: int
  ls_scoreReachedAt :: "date_ms option"

section \<open>The query\<close>

definition coalesce :: "'a option \<Rightarrow> 'a \<Rightarrow> 'a" where
  "coalesce v d = (case v of None \<Rightarrow> d | Some x \<Rightarrow> x)"

definition live_presence :: "db \<Rightarrow> uuid \<Rightarrow> interval_row \<Rightarrow> presence_row option" where
  "live_presence d iid a =
     (case es_presence (db_edge d iid) of
        None \<Rightarrow> None
      | Some p \<Rightarrow> if iv_ended_at a = None \<and> pn_lease_closed_at p = None then Some p else None)"

definition segment_of ::
  "db \<Rightarrow> date_ms \<Rightarrow> mount_row \<Rightarrow> agent_row \<Rightarrow> uuid \<Rightarrow> interval_row \<Rightarrow> qualification_row
   \<Rightarrow> occurrence_row \<Rightarrow> segment" where
  "segment_of d asOf m g iid a q occ =
     \<lparr>sg_mount_id = mt_id m, sg_logical_agent_id = mt_logical_agent_id m,
      sg_alias = ag_alias g, sg_pet_id = ag_pet_id g,
      sg_start = max (max (iv_started_at a) (ql_started_at q)) (oc_starts_at occ),
      sg_end = min (min (min
        (coalesce (iv_ended_at a)
          (case live_presence d iid a of
             None \<Rightarrow> iv_started_at a
           | Some p \<Rightarrow> min (pn_lease_expires_at p) asOf))
        (coalesce (ql_ended_at q) asOf)) (oc_ends_at occ)) asOf\<rparr>"

definition raw_intersections :: "db \<Rightarrow> uuid \<Rightarrow> local_date \<Rightarrow> date_ms \<Rightarrow> segment list" where
  "raw_intersections d officeId officeLocalDate asOf =
     [segment_of d asOf m g (in_id n) a q occ.
        m \<leftarrow> db_mounts d, mt_office_id m = officeId, mt_active m, mt_stats_opt_in m,
        g \<leftarrow> db_agents d, ag_id g = mt_logical_agent_id m,
        n \<leftarrow> db_instances d, in_logical_agent_id n = ag_id g,
        a \<leftarrow> es_intervals (db_edge d (in_id n)), iv_activity_state a = A_eligible_idle,
        q \<leftarrow> db_qualifications d, ql_office_id q = mt_office_id m, ql_mount_id q = mt_id m,
        occ \<leftarrow> db_occurrences d, oc_office_id occ = mt_office_id m,
        oc_office_local_date occ = officeLocalDate,
        iv_started_at a < oc_ends_at occ, oc_starts_at occ < coalesce (iv_ended_at a) asOf,
        ql_started_at q < oc_ends_at occ, oc_starts_at occ < coalesce (ql_ended_at q) asOf]"

definition valid_intersections :: "db \<Rightarrow> uuid \<Rightarrow> local_date \<Rightarrow> date_ms \<Rightarrow> segment list" where
  "valid_intersections d officeId officeLocalDate asOf =
     filter (\<lambda>s. sg_start s < sg_end s) (raw_intersections d officeId officeLocalDate asOf)"

text \<open>The rows of one partition in the order of its windows.\<close>

definition compare_segments :: "segment \<Rightarrow> segment \<Rightarrow> int" where
  "compare_segments a b =
     (if sg_start a \<noteq> sg_start b then sg_start a - sg_start b else sg_end a - sg_end b)"

definition ordered_intersections :: "segment list \<Rightarrow> segment list" where
  "ordered_intersections part = sort_by compare_segments part"

text \<open>
  \<open>starts_new_island\<close> and its running sum: the second argument is the maximum of the ends of
  the preceding rows, null for the first row, the third the sum so far.
\<close>

fun islanded :: "date_ms option \<Rightarrow> nat \<Rightarrow> segment list \<Rightarrow> (nat \<times> segment) list" where
  "islanded previous_max_end n [] = []"
| "islanded previous_max_end n (s # ss) =
     (let island_id = n + (case previous_max_end of None \<Rightarrow> 1
                           | Some m \<Rightarrow> if m \<le> sg_start s then 1 else 0) in
      (island_id, s)
        # islanded (Some (case previous_max_end of None \<Rightarrow> sg_end s | Some m \<Rightarrow> max m (sg_end s)))
            island_id ss)"

definition merge_groups :: "(nat \<times> segment) list \<Rightarrow> (date_ms \<times> date_ms) list" where
  "merge_groups rows =
     map (\<lambda>k. let g = map snd (filter (\<lambda>r. fst r = k) rows) in
            (Min (set (map sg_start g)), Max (set (map sg_end g))))
       (remdups (map fst rows))"

definition merged_segments :: "segment list \<Rightarrow> (date_ms \<times> date_ms) list" where
  "merged_segments part = merge_groups (islanded None 0 (ordered_intersections part))"

definition contribution :: "date_ms \<times> date_ms \<Rightarrow> int" where
  "contribution seg = max ((snd seg - fst seg) div 1000 - 900) 0"

text \<open>
  The totals of one mount. Agent, alias and pet are columns of the mount's single agent row,
  so grouping by them together with \<open>mount_id\<close> is grouping by \<open>mount_id\<close>.
\<close>

definition total_of :: "segment list \<Rightarrow> leaderboard_total" where
  "total_of part =
     (let segs = merged_segments part; s = hd part;
          reached_at = map (\<lambda>seg. fst seg + (900 + contribution seg) * 1000)
                         (filter (\<lambda>seg. 0 < contribution seg) segs) in
      \<lparr>lt_logical_agent_id = sg_logical_agent_id s, lt_mount_id = sg_mount_id s,
       lt_alias = sg_alias s, lt_pet_id = sg_pet_id s,
       lt_slacking_seconds = (\<Sum>seg\<leftarrow>segs. contribution seg),
       lt_score_reached_at = (if reached_at = [] then None else Some (Max (set reached_at)))\<rparr>)"

definition partitions :: "segment list \<Rightarrow> segment list list" where
  "partitions segs =
     map (\<lambda>mid. filter (\<lambda>s. sg_mount_id s = mid) segs) (remdups (map sg_mount_id segs))"

definition totals :: "db \<Rightarrow> uuid \<Rightarrow> local_date \<Rightarrow> date_ms \<Rightarrow> leaderboard_total list" where
  "totals d officeId officeLocalDate asOf =
     filter (\<lambda>t. 0 < lt_slacking_seconds t)
       (map total_of (partitions (valid_intersections d officeId officeLocalDate asOf)))"

definition compare_totals :: "leaderboard_total \<Rightarrow> leaderboard_total \<Rightarrow> int" where
  "compare_totals a b =
     (if lt_slacking_seconds a \<noteq> lt_slacking_seconds b
      then lt_slacking_seconds b - lt_slacking_seconds a
      else if lt_score_reached_at a \<noteq> lt_score_reached_at b
      then ext_sub (or_infinity (lt_score_reached_at a)) (or_infinity (lt_score_reached_at b))
      else if lt_logical_agent_id a < lt_logical_agent_id b then - 1
      else if lt_logical_agent_id b < lt_logical_agent_id a then 1 else 0)"

definition parse_safe_positive_integer :: "int \<Rightarrow> string \<Rightarrow> int tx" where
  "parse_safe_positive_integer value field = parse_integer_range 1 MAX_SAFE_INTEGER value field"

definition leaderboard_score :: "leaderboard_total \<Rightarrow> nat \<Rightarrow> office_leaderboard_score tx" where
  "leaderboard_score row index =
     rbind (parse_safe_positive_integer (lt_slacking_seconds row) ''slacking seconds'') (\<lambda>n.
       Inr \<lparr>ls_rank = int index + 1, ls_logicalAgentId = lt_logical_agent_id row,
            ls_mountId = lt_mount_id row, ls_alias = lt_alias row, ls_petId = lt_pet_id row,
            ls_slackingSeconds = n, ls_scoreReachedAt = lt_score_reached_at row\<rparr>)"

definition query_office_leaderboard ::
  "db \<Rightarrow> uuid \<Rightarrow> local_date \<Rightarrow> date_ms \<Rightarrow> int \<Rightarrow> office_leaderboard_score list tx" where
  "query_office_leaderboard d officeId officeLocalDate asOf limit =
     rbind (guard_r (1 \<le> limit \<and> limit \<le> 500)
              (Failure ''Leaderboard limit must be between 1 and 500'')) (\<lambda>_.
       let rows = take (nat limit)
                    (sort_by compare_totals (totals d officeId officeLocalDate asOf)) in
       mapM_r (\<lambda>(row, index). leaderboard_score row index) (zip rows [0..<length rows]))"

section \<open>Islands\<close>

interpretation segments_cmp: comparator compare_segments "\<lambda>_. True"
  by unfold_locales (auto simp: compare_segments_def split: if_splits)

definition starts_sorted :: "segment list \<Rightarrow> bool" where
  "starts_sorted = sorted_wrt (\<lambda>a b. sg_start a \<le> sg_start b)"

lemma starts_sorted_ordered: "starts_sorted (ordered_intersections part)"
  unfolding starts_sorted_def ordered_intersections_def
  by (rule sorted_wrt_mono_rel [OF _ segments_cmp.sorted_sort_by])
    (auto simp: compare_segments_def split: if_splits)

text \<open>The one-pass merge that the window functions compute.\<close>

fun sweep :: "date_ms \<Rightarrow> date_ms \<Rightarrow> segment list \<Rightarrow> (date_ms \<times> date_ms) list" where
  "sweep lo hi [] = [(lo, hi)]"
| "sweep lo hi (s # ss) =
     (if hi \<le> sg_start s then (lo, hi) # sweep (sg_start s) (max hi (sg_end s)) ss
      else sweep lo (max hi (sg_end s)) ss)"

lemma islanded_ids: "r \<in> set (islanded (Some m) n ss) \<Longrightarrow> n \<le> fst r"
  by (induction "Some m" n ss arbitrary: m rule: islanded.induct)
    (fastforce simp: Let_def split: if_splits)+

lemma remdups_constant_prefix:
  "g \<noteq> [] \<Longrightarrow> n \<notin> set ns \<Longrightarrow> remdups (map (\<lambda>_. n) g @ ns) = n # remdups ns"
  by (induction g rule: list_nonempty_induct) (auto simp: neq_Nil_conv)

lemma merge_groups_prefix:
  assumes "g \<noteq> []" "n \<notin> fst ` set rows"
  shows "merge_groups (map (Pair n) g @ rows) =
    (Min (set (map sg_start g)), Max (set (map sg_end g))) # merge_groups rows"
proof -
  have ids: "remdups (map fst (map (Pair n) g @ rows)) = n # remdups (map fst rows)"
    using remdups_constant_prefix [OF assms(1), of n "map fst rows"] assms(2)
    by (simp add: comp_def)
  have here: "map snd (filter (\<lambda>r. fst r = n) (map (Pair n) g @ rows)) = g"
    using assms(2) by (auto simp: comp_def filter_map filter_empty_conv image_iff)
  have there: "filter (\<lambda>r. fst r = k) (map (Pair n) g @ rows) = filter (\<lambda>r. fst r = k) rows"
    if "k \<in> set (map fst rows)" for k
    using that assms(2) by (auto simp: filter_map filter_empty_conv)
  define f where "f rs k = (Min (set (map sg_start (map snd (filter (\<lambda>r. fst r = k) rs)))),
      Max (set (map sg_end (map snd (filter (\<lambda>r. fst r = k) rs)))))" for rs :: "(nat \<times> segment) list" and k
  have mg: "merge_groups rs = map (f rs) (remdups (map fst rs))" for rs
    unfolding merge_groups_def f_def Let_def ..
  have "f (map (Pair n) g @ rows) n = (Min (set (map sg_start g)), Max (set (map sg_end g)))"
    by (simp only: f_def here)
  moreover have "map (f (map (Pair n) g @ rows)) (remdups (map fst rows)) = map (f rows) (remdups (map fst rows))"
    by (rule map_cong) (simp_all only: f_def there set_remdups)
  ultimately show ?thesis by (simp only: mg ids list.map)
qed

lemma merge_groups_islanded:
  assumes "g \<noteq> []" "Min (set (map sg_start g)) = lo" "Max (set (map sg_end g)) = hi"
    and "starts_sorted ss" "\<forall>s\<in>set ss. lo \<le> sg_start s \<and> sg_start s < sg_end s"
  shows "merge_groups (map (Pair n) g @ islanded (Some hi) n ss) = sweep lo hi ss"
  using assms
proof (induction ss arbitrary: g n lo hi)
  case Nil
  then show ?case using merge_groups_prefix [of g n "[]"]
    by (simp add: merge_groups_def)
next
  case (Cons s ss)
  have sorted: "starts_sorted ss" "\<forall>x\<in>set ss. sg_start s \<le> sg_start x"
    using Cons.prems(4) by (simp_all add: starts_sorted_def)
  have max: "hi \<le> sg_start s \<Longrightarrow> max hi (sg_end s) = sg_end s" using Cons.prems(5) by auto
  show ?case
  proof (cases "hi \<le> sg_start s")
    case True
    let ?rest = "islanded (Some (max hi (sg_end s))) (Suc n) ss"
    have "n \<notin> fst ` set (map (Pair (Suc n)) [s] @ ?rest)"
      using islanded_ids by fastforce
    from merge_groups_prefix [OF Cons.prems(1) this] True
    have "merge_groups (map (Pair n) g @ islanded (Some hi) n (s # ss)) =
        (lo, hi) # merge_groups (map (Pair (Suc n)) [s] @ ?rest)"
      using Cons.prems(2,3) by simp
    moreover have "merge_groups (map (Pair (Suc n)) [s] @ islanded (Some (sg_end s)) (Suc n) ss) =
        sweep (sg_start s) (sg_end s) ss"
      by (rule Cons.IH) (use sorted Cons.prems(5) in auto)
    ultimately show ?thesis using True max by simp
  next
    case False
    have "merge_groups (map (Pair n) (g @ [s]) @ islanded (Some (max hi (sg_end s))) n ss) =
        sweep lo (max hi (sg_end s)) ss"
    proof (rule Cons.IH)
      show "Min (set (map sg_start (g @ [s]))) = lo"
        using Cons.prems(1,2,5) by (simp add: min_def)
      show "Max (set (map sg_end (g @ [s]))) = max hi (sg_end s)"
        using Cons.prems(1,3) by (simp add: max_def)
    qed (use sorted Cons.prems(5) in auto)
    with False show ?thesis by simp
  qed
qed

definition instants_of :: "(date_ms \<times> date_ms) list \<Rightarrow> int set" where
  "instants_of segs = (\<Union>seg\<in>set segs. {fst seg..<snd seg})"

lemma merged_segments_sweep:
  assumes "part \<noteq> []" "\<forall>s\<in>set part. sg_start s < sg_end s"
  shows "\<exists>s ss. ordered_intersections part = s # ss \<and> starts_sorted (s # ss)
    \<and> merged_segments part = sweep (sg_start s) (sg_end s) ss"
proof -
  have "ordered_intersections part \<noteq> []"
    using assms(1) by (metis length_0_conv length_sort_by ordered_intersections_def)
  then obtain s ss where o: "ordered_intersections part = s # ss" by (cases "ordered_intersections part") auto
  have sorted: "starts_sorted (s # ss)" using starts_sorted_ordered [of part] by (simp add: o)
  have "set (s # ss) = set part" by (metis o ordered_intersections_def set_sort_by)
  with assms(2) have "\<forall>x\<in>set (s # ss). sg_start x < sg_end x" by simp
  then have "merge_groups (map (Pair 1) [s] @ islanded (Some (sg_end s)) 1 ss) =
      sweep (sg_start s) (sg_end s) ss"
    using sorted by (intro merge_groups_islanded) (auto simp: starts_sorted_def)
  with o sorted show ?thesis by (simp add: merged_segments_def)
qed

lemma sweep_correct:
  assumes "starts_sorted ss" "\<forall>s\<in>set ss. lo \<le> sg_start s \<and> sg_start s < sg_end s" "lo < hi"
  shows "instants_of (sweep lo hi ss) = {lo..<hi} \<union> (\<Union>s\<in>set ss. {sg_start s..<sg_end s})
    \<and> (\<forall>seg\<in>set (sweep lo hi ss). lo \<le> fst seg \<and> fst seg < snd seg)
    \<and> sorted_wrt (\<lambda>a b. snd a \<le> fst b) (sweep lo hi ss)"
  using assms
proof (induction ss arbitrary: lo hi)
  case Nil
  then show ?case by (simp add: instants_of_def)
next
  case (Cons s ss)
  have s: "lo \<le> sg_start s" "sg_start s < sg_end s" using Cons.prems(2) by auto
  have sorted: "starts_sorted ss" "\<forall>x\<in>set ss. sg_start s \<le> sg_start x \<and> sg_start x < sg_end x"
    using Cons.prems(1,2) by (simp_all add: starts_sorted_def)
  show ?case
  proof (cases "hi \<le> sg_start s")
    case True
    with s have m: "max hi (sg_end s) = sg_end s" by simp
    note IH = Cons.IH [OF sorted s(2)]
    then have inst: "instants_of (sweep (sg_start s) (sg_end s) ss) =
        {sg_start s..<sg_end s} \<union> (\<Union>s\<in>set ss. {sg_start s..<sg_end s})"
      and ran: "\<forall>seg\<in>set (sweep (sg_start s) (sg_end s) ss). sg_start s \<le> fst seg \<and> fst seg < snd seg"
      and ord: "sorted_wrt (\<lambda>a b. snd a \<le> fst b) (sweep (sg_start s) (sg_end s) ss)"
      by blast+
    have "sweep lo hi (s # ss) = (lo, hi) # sweep (sg_start s) (sg_end s) ss"
      using True m by simp
    moreover have "\<forall>seg\<in>set (sweep (sg_start s) (sg_end s) ss). hi \<le> fst seg \<and> lo \<le> fst seg"
      using ran True s(1) by force
    ultimately show ?thesis
      using inst ran ord Cons.prems(3) by (simp add: instants_of_def)
  next
    case False
    have "\<forall>x\<in>set ss. lo \<le> sg_start x \<and> sg_start x < sg_end x" "lo < max hi (sg_end s)"
      using Cons.prems by auto
    note IH = Cons.IH [OF sorted(1) this]
    moreover have "{lo..<max hi (sg_end s)} = {lo..<hi} \<union> {sg_start s..<sg_end s}"
      using False s by (auto simp: max_def)
    ultimately show ?thesis using False by (simp add: Un_assoc)
  qed
qed

lemma sweep_ends:
  assumes "\<forall>s\<in>set ss. sg_end s \<le> t" "hi \<le> t" "seg \<in> set (sweep lo hi ss)"
  shows "snd seg \<le> t"
  using assms
proof (induction ss arbitrary: lo hi)
  case (Cons s ss)
  have m: "max hi (sg_end s) \<le> t" using Cons.prems by simp
  have ss: "\<forall>s\<in>set ss. sg_end s \<le> t" using Cons.prems(1) by simp
  from Cons.prems(2,3) Cons.IH [OF ss m] show ?case by (auto simp del: max.bounded_iff split: if_splits)
qed simp

lemma merged_segments_facts:
  assumes "part \<noteq> []" "\<forall>s\<in>set part. sg_start s < sg_end s"
  shows "instants_of (merged_segments part) = (\<Union>s\<in>set part. {sg_start s..<sg_end s})"
    and "sorted_wrt (\<lambda>a b. snd a \<le> fst b) (merged_segments part)"
    and "\<forall>seg\<in>set (merged_segments part). fst seg < snd seg"
    and "\<forall>s\<in>set part. lo \<le> sg_start s \<and> sg_end s \<le> t \<Longrightarrow>
      \<forall>seg\<in>set (merged_segments part). lo \<le> fst seg \<and> snd seg \<le> t"
proof -
  from merged_segments_sweep [OF assms] obtain s ss where
    o: "ordered_intersections part = s # ss" and sorted: "starts_sorted (s # ss)"
    and m: "merged_segments part = sweep (sg_start s) (sg_end s) ss" by blast
  have set: "set part = insert s (set ss)"
    using o by (metis list.simps(15) ordered_intersections_def set_sort_by)
  have s: "sg_start s < sg_end s" using assms(2) set by simp
  have b: "\<forall>x\<in>set ss. sg_start s \<le> sg_start x \<and> sg_start x < sg_end x"
    using sorted assms(2) set by (simp add: starts_sorted_def)
  have ss: "starts_sorted ss" using sorted by (simp add: starts_sorted_def)
  note sweep_correct [OF ss b s]
  then have facts: "instants_of (merged_segments part) =
        {sg_start s..<sg_end s} \<union> (\<Union>s\<in>set ss. {sg_start s..<sg_end s})"
      "\<forall>seg\<in>set (merged_segments part). sg_start s \<le> fst seg \<and> fst seg < snd seg"
      "sorted_wrt (\<lambda>a b. snd a \<le> fst b) (merged_segments part)"
    unfolding m by blast+
  from facts(1) set show "instants_of (merged_segments part) = (\<Union>s\<in>set part. {sg_start s..<sg_end s})"
    by simp
  from facts(3) show "sorted_wrt (\<lambda>a b. snd a \<le> fst b) (merged_segments part)" .
  from facts(2) show "\<forall>seg\<in>set (merged_segments part). fst seg < snd seg" by blast
  assume b: "\<forall>s\<in>set part. lo \<le> sg_start s \<and> sg_end s \<le> t"
  with set have "\<forall>seg\<in>set (merged_segments part). snd seg \<le> t"
    unfolding m by (auto dest!: sweep_ends [rotated 2])
  with b facts(2) set show "\<forall>seg\<in>set (merged_segments part). lo \<le> fst seg \<and> snd seg \<le> t"
    by fastforce
qed

section \<open>Agreement with the reference scoring\<close>

definition merged_candidate :: "segment list \<Rightarrow> leaderboard_candidate" where
  "merged_candidate part =
     \<lparr>cand_logicalAgentId = sg_logical_agent_id (hd part), cand_mountId = sg_mount_id (hd part),
      cand_intervals = map (\<lambda>seg. \<lparr>startedAtMs = fst seg, endedAtMs = Some (snd seg)\<rparr>)
        (merged_segments part)\<rparr>"

definition part_ok :: "date_ms \<Rightarrow> segment list \<Rightarrow> bool" where
  "part_ok t part \<longleftrightarrow> part \<noteq> [] \<and> valid_timestamp t
     \<and> (\<forall>s\<in>set part. sg_start s < sg_end s \<and> 0 \<le> sg_start s \<and> sg_end s \<le> t)"

lemma contribution_slack:
  "fst seg \<le> snd seg \<Longrightarrow> snd seg \<le> t \<Longrightarrow>
   slack \<lparr>startedAtMs = fst seg, endedAtMs = Some (snd seg)\<rparr> t = contribution seg"
  by (simp add: slack_def contribution_def effective_end_def max.commute)

lemma total_of_score:
  assumes "part_ok t part"
  shows "lt_slacking_seconds (total_of part) = candidate_total (merged_candidate part) t"
    and "lt_score_reached_at (total_of part) =
      latest (map (\<lambda>i. reached i t) (cand_intervals (merged_candidate part)))"
proof -
  let ?i = "\<lambda>seg. \<lparr>startedAtMs = fst seg, endedAtMs = Some (snd seg)\<rparr>"
  from assms have p: "part \<noteq> []" "\<forall>s\<in>set part. sg_start s < sg_end s"
    and b: "\<forall>s\<in>set part. 0 \<le> sg_start s \<and> sg_end s \<le> t"
    by (auto simp: part_ok_def)
  have slack: "\<forall>seg\<in>set (merged_segments part). slack (?i seg) t = contribution seg"
    using merged_segments_facts(3) [OF p] merged_segments_facts(4) [OF p b]
    by (auto intro: contribution_slack less_imp_le)
  then show "lt_slacking_seconds (total_of part) = candidate_total (merged_candidate part) t"
    by (simp add: total_of_def candidate_total_def merged_candidate_def Let_def comp_def cong: map_cong)
  have "concat (map (\<lambda>r. case r of None \<Rightarrow> [] | Some x \<Rightarrow> [x]) (map (\<lambda>seg. reached (?i seg) t) segs))
      = map (\<lambda>seg. fst seg + (900 + contribution seg) * 1000) (filter (\<lambda>seg. 0 < contribution seg) segs)"
    if "\<forall>seg\<in>set segs. slack (?i seg) t = contribution seg" for segs
    using that by (induction segs) (auto simp: reached_def contribution_def)
  from this [OF slack] show "lt_score_reached_at (total_of part) =
      latest (map (\<lambda>i. reached i t) (cand_intervals (merged_candidate part)))"
    by (simp add: total_of_def latest_def merged_candidate_def Let_def comp_def)
qed

lemma merged_candidate_valid:
  assumes "part_ok t part" "sg_logical_agent_id (hd part) \<noteq> []" "sg_mount_id (hd part) \<noteq> []"
    "js_trim (sg_logical_agent_id (hd part)) = sg_logical_agent_id (hd part)"
    "js_trim (sg_mount_id (hd part)) = sg_mount_id (hd part)"
  shows "valid_candidate (merged_candidate part)"
proof -
  from assms have p: "part \<noteq> []" "\<forall>s\<in>set part. sg_start s < sg_end s"
    and b: "\<forall>s\<in>set part. 0 \<le> sg_start s \<and> sg_end s \<le> t" and t: "valid_timestamp t"
    by (auto simp: part_ok_def)
  have "valid_interval \<lparr>startedAtMs = fst seg, endedAtMs = Some (snd seg)\<rparr>"
    if "seg \<in> set (merged_segments part)" for seg
    using that t merged_segments_facts(3) [OF p] merged_segments_facts(4) [OF p b]
    by (fastforce simp: valid_interval_def valid_timestamp_def is_safe_integer_def)
  moreover have "sorted_wrt disjoint_intervals
      (map (\<lambda>seg. \<lparr>startedAtMs = fst seg, endedAtMs = Some (snd seg)\<rparr>) (merged_segments part))"
    unfolding sorted_wrt_map
    by (rule sorted_wrt_mono_rel [OF _ merged_segments_facts(2) [OF p]])
      (auto simp: disjoint_intervals_def instants_def)
  ultimately show ?thesis
    using assms by (auto simp: valid_candidate_def merged_candidate_def)
qed

lemma map_sort_by:
  assumes "\<And>a b. a \<in> set xs \<Longrightarrow> b \<in> set xs \<Longrightarrow> c (f a) (f b) = (c' a b :: int)"
  shows "map f (sort_by c' xs) = sort_by c (map f xs)"
proof -
  have ins: "map f (insort_by c' x ys) = insort_by c (f x) (map f ys)"
    if "x \<in> set xs" "set ys \<subseteq> set xs" for x ys
    using that by (induction ys) (auto simp: assms)
  have "set ys \<subseteq> set xs \<Longrightarrow> map f (sort_by c' ys) = sort_by c (map f ys)" for ys
    by (induction ys) (auto simp: sort_by_Cons ins)
  then show ?thesis by simp
qed

definition uuid_form :: "uuid \<Rightarrow> bool" where
  "uuid_form u \<longleftrightarrow> u \<noteq> [] \<and> js_trim u = u \<and> to_lower_case u = u"

definition leaderboard_wf :: "db \<Rightarrow> date_ms \<Rightarrow> bool" where
  "leaderboard_wf d t \<longleftrightarrow> valid_timestamp t
     \<and> (\<forall>q\<in>set (db_qualifications d). 0 \<le> ql_started_at q)
     \<and> (\<forall>m\<in>set (db_mounts d). uuid_form (mt_id m) \<and> uuid_form (mt_logical_agent_id m))
     \<and> (\<forall>m\<in>set (db_mounts d). \<forall>m'\<in>set (db_mounts d).
          (mt_id m = mt_id m' \<or> mt_office_id m = mt_office_id m'
             \<and> mt_logical_agent_id m = mt_logical_agent_id m') \<longrightarrow> m = m')"

lemma valid_intersections_mount:
  assumes "s \<in> set (valid_intersections d oid day t)"
  shows "\<exists>m\<in>set (db_mounts d). mt_office_id m = oid \<and> mt_active m \<and> mt_stats_opt_in m
    \<and> sg_mount_id s = mt_id m \<and> sg_logical_agent_id s = mt_logical_agent_id m"
proof -
  have raw: "s \<in> set (raw_intersections d oid day t)"
    using assms by (simp add: valid_intersections_def)
  have mount: "sg_mount_id (segment_of d t m g iid a q occ) = mt_id m"
      "sg_logical_agent_id (segment_of d t m g iid a q occ) = mt_logical_agent_id m" for m g iid a q occ
    by (simp_all add: segment_of_def)
  from raw show ?thesis
    unfolding raw_intersections_def by (auto simp: mount split: if_splits)
qed

lemma valid_intersections_row:
  assumes "leaderboard_wf d t" "s \<in> set (valid_intersections d oid day t)"
  shows "\<exists>m\<in>set (db_mounts d). mt_office_id m = oid \<and> mt_active m \<and> mt_stats_opt_in m
    \<and> sg_mount_id s = mt_id m \<and> sg_logical_agent_id s = mt_logical_agent_id m"
    and "0 \<le> sg_start s \<and> sg_start s < sg_end s \<and> sg_end s \<le> t"
proof -
  have raw: "s \<in> set (raw_intersections d oid day t)" and lt: "sg_start s < sg_end s"
    using assms(2) by (simp_all add: valid_intersections_def)
  have start: "ql_started_at q \<le> sg_start (segment_of d t m g iid a q occ)"
    and upto: "sg_end (segment_of d t m g iid a q occ) \<le> t" for m g iid a q occ
    by (simp_all add: segment_of_def)
  from valid_intersections_mount [OF assms(2)]
  show "\<exists>m\<in>set (db_mounts d). mt_office_id m = oid \<and> mt_active m \<and> mt_stats_opt_in m
    \<and> sg_mount_id s = mt_id m \<and> sg_logical_agent_id s = mt_logical_agent_id m" .
  from raw have "\<exists>q\<in>set (db_qualifications d). ql_started_at q \<le> sg_start s"
    unfolding raw_intersections_def by (auto intro: start split: if_splits)
  moreover have "sg_end s \<le> t"
    using raw unfolding raw_intersections_def by (auto intro: upto split: if_splits)
  moreover have "\<forall>q\<in>set (db_qualifications d). 0 \<le> ql_started_at q"
    using assms(1) by (simp add: leaderboard_wf_def)
  ultimately show "0 \<le> sg_start s \<and> sg_start s < sg_end s \<and> sg_end s \<le> t"
    using lt by force
qed

lemma partitionsE:
  assumes "part \<in> set (partitions segs)"
  obtains "part \<noteq> []" "part = filter (\<lambda>s. sg_mount_id s = sg_mount_id (hd part)) segs"
    "hd part \<in> set segs"
proof -
  from assms obtain s where s: "s \<in> set segs"
    and part: "part = filter (\<lambda>x. sg_mount_id x = sg_mount_id s) segs"
    by (auto simp: partitions_def)
  from s part have ne: "part \<noteq> []" by (auto simp: filter_empty_conv)
  then have "hd part \<in> set part" by simp
  with part have "sg_mount_id (hd part) = sg_mount_id s" "hd part \<in> set segs" by auto
  with that ne part show thesis by simp
qed

lemma distinct_partitions: "distinct (map (\<lambda>part. sg_mount_id (hd part)) (partitions segs))"
proof -
  have "sg_mount_id (hd (filter (\<lambda>s. sg_mount_id s = mid) segs)) = mid"
    if "mid \<in> set (map sg_mount_id segs)" for mid
  proof -
    from that have "filter (\<lambda>s. sg_mount_id s = mid) segs \<noteq> []" by (auto simp: filter_empty_conv)
    from hd_in_set [OF this] show ?thesis by simp
  qed
  then have "map (\<lambda>part. sg_mount_id (hd part)) (partitions segs) = remdups (map sg_mount_id segs)"
    by (auto simp: partitions_def intro!: map_idI)
  then show ?thesis by simp
qed

lemma part_ok_partitions:
  assumes "leaderboard_wf d t" "part \<in> set (partitions (valid_intersections d oid day t))"
  shows "part_ok t part" and "valid_candidate (merged_candidate part)"
    and "to_lower_case (sg_logical_agent_id (hd part)) = sg_logical_agent_id (hd part)"
proof -
  from assms(2) obtain ne: "part \<noteq> []"
    and part: "part = filter (\<lambda>s. sg_mount_id s = sg_mount_id (hd part)) (valid_intersections d oid day t)"
    and hd: "hd part \<in> set (valid_intersections d oid day t)"
    by (rule partitionsE)
  have "s \<in> set (valid_intersections d oid day t)" if "s \<in> set part" for s
    using that part by (metis filter_is_subset subsetD)
  then show ok: "part_ok t part"
    using ne valid_intersections_row(2) [OF assms(1)] assms(1)
    by (auto simp: part_ok_def leaderboard_wf_def)
  from valid_intersections_row(1) [OF assms(1) hd] assms(1)
  have "uuid_form (sg_mount_id (hd part))" "uuid_form (sg_logical_agent_id (hd part))"
    by (auto simp: leaderboard_wf_def)
  then show "valid_candidate (merged_candidate part)"
    and "to_lower_case (sg_logical_agent_id (hd part)) = sg_logical_agent_id (hd part)"
    using merged_candidate_valid [OF ok] by (auto simp: uuid_form_def)
qed

definition score_key :: "leaderboard_total \<Rightarrow> candidate_score" where
  "score_key t = \<lparr>cs_logicalAgentId = lt_logical_agent_id t, cs_mountId = lt_mount_id t,
     cs_slackingSeconds = lt_slacking_seconds t, cs_scoreReachedAtMs = lt_score_reached_at t\<rparr>"

lemma score_key_total_of: "part_ok t part \<Longrightarrow> score_key (total_of part) = score_of (merged_candidate part) t"
  using total_of_score [of t part]
  by (simp add: score_key_def score_of_def merged_candidate_def total_of_def Let_def)

lemma compare_totals_score_key:
  "to_lower_case (lt_logical_agent_id a) = lt_logical_agent_id a
   \<Longrightarrow> to_lower_case (lt_logical_agent_id b) = lt_logical_agent_id b
   \<Longrightarrow> compare_candidate_scores (score_key a) (score_key b) = compare_totals a b"
  by (simp add: compare_candidate_scores_def compare_totals_def score_key_def Let_def)

definition leaderboard_candidates :: "db \<Rightarrow> uuid \<Rightarrow> local_date \<Rightarrow> date_ms \<Rightarrow> leaderboard_candidate list" where
  "leaderboard_candidates d oid day t =
     map merged_candidate (partitions (valid_intersections d oid day t))"

lemma totals_positive_scores:
  assumes "leaderboard_wf d t"
  shows "map score_key (sort_by compare_totals (totals d oid day t)) =
    positive_scores (leaderboard_candidates d oid day t) t"
proof -
  let ?parts = "partitions (valid_intersections d oid day t)"
  note ok = part_ok_partitions [OF assms, of _ oid day]
  have low: "to_lower_case (lt_logical_agent_id r) = lt_logical_agent_id r"
    if "r \<in> set (totals d oid day t)" for r
    using that ok(3) by (auto simp: totals_def total_of_def Let_def)
  have keys: "map (\<lambda>part. score_key (total_of part)) ?parts =
      map (\<lambda>c. score_of c t) (leaderboard_candidates d oid day t)"
    using ok(1) by (auto simp: leaderboard_candidates_def score_key_total_of)
  have "map score_key (sort_by compare_totals (totals d oid day t)) =
      sort_by compare_candidate_scores (map score_key (totals d oid day t))"
    by (rule map_sort_by) (simp add: compare_totals_score_key low)
  also have "map score_key (totals d oid day t) =
      filter (\<lambda>s. 0 < cs_slackingSeconds s) (map (\<lambda>part. score_key (total_of part)) ?parts)"
    by (simp add: totals_def filter_map comp_def score_key_def)
  finally show ?thesis by (simp add: positive_scores_def keys)
qed

lemma leaderboard_candidates_ranked:
  assumes wf: "leaderboard_wf d t"
  shows "rank_leaderboard_candidates (leaderboard_candidates d oid day t) t =
    Inr (map2 with_rank (positive_scores (leaderboard_candidates d oid day t) t)
      [0..<length (positive_scores (leaderboard_candidates d oid day t) t)])"
proof -
  let ?segs = "valid_intersections d oid day t"
  note ok = part_ok_partitions [OF wf, of _ oid day]
  have agent: "sg_mount_id (hd p) = sg_mount_id (hd q)"
    if pq: "p \<in> set (partitions ?segs)" "q \<in> set (partitions ?segs)"
      and eq: "sg_logical_agent_id (hd p) = sg_logical_agent_id (hd q)" for p q
  proof -
    from pq have hd: "hd p \<in> set ?segs" "hd q \<in> set ?segs" by (auto elim: partitionsE)
    from valid_intersections_row(1) [OF wf hd(1)] obtain m where
      m: "m \<in> set (db_mounts d)" "mt_office_id m = oid" "sg_mount_id (hd p) = mt_id m"
        "sg_logical_agent_id (hd p) = mt_logical_agent_id m" by blast
    from valid_intersections_row(1) [OF wf hd(2)] obtain m' where
      m': "m' \<in> set (db_mounts d)" "mt_office_id m' = oid" "sg_mount_id (hd q) = mt_id m'"
        "sg_logical_agent_id (hd q) = mt_logical_agent_id m'" by blast
    from m m' eq wf have "m = m'" unfolding leaderboard_wf_def by metis
    with m m' show ?thesis by simp
  qed
  have "distinct (map (\<lambda>part. sg_logical_agent_id (hd part)) (partitions ?segs))"
  proof -
    have "distinct (partitions ?segs)"
      using distinct_partitions [of ?segs] by (simp add: distinct_map)
    moreover have "inj_on (\<lambda>part. sg_logical_agent_id (hd part)) (set (partitions ?segs))"
    proof (rule inj_onI)
      fix p q assume pq: "p \<in> set (partitions ?segs)" "q \<in> set (partitions ?segs)"
        and "sg_logical_agent_id (hd p) = sg_logical_agent_id (hd q)"
      then have "sg_mount_id (hd p) = sg_mount_id (hd q)" by (rule agent)
      with distinct_partitions [of ?segs] pq show "p = q"
        unfolding distinct_map by (blast dest: inj_onD)
    qed
    ultimately show ?thesis by (simp add: distinct_map)
  qed
  moreover have "map (\<lambda>c. to_lower_case (cand_logicalAgentId c)) (leaderboard_candidates d oid day t)
      = map (\<lambda>part. sg_logical_agent_id (hd part)) (partitions ?segs)"
    using ok(3) by (auto simp: leaderboard_candidates_def merged_candidate_def)
  ultimately have "distinct (map (\<lambda>c. to_lower_case (cand_logicalAgentId c)) (leaderboard_candidates d oid day t))"
    by simp
  moreover have "\<forall>c\<in>set (leaderboard_candidates d oid day t). valid_candidate c"
    using ok(2) by (auto simp: leaderboard_candidates_def)
  moreover have "valid_timestamp t" using wf by (simp add: leaderboard_wf_def)
  ultimately show ?thesis by (simp add: rank_leaderboard_iff)
qed

definition entry_ranking :: "office_leaderboard_score \<Rightarrow> ranked_candidate" where
  "entry_ranking s = \<lparr>cs_logicalAgentId = ls_logicalAgentId s, cs_mountId = ls_mountId s,
     cs_slackingSeconds = ls_slackingSeconds s, cs_scoreReachedAtMs = ls_scoreReachedAt s,
     rk_rank = ls_rank s\<rparr>"

definition score_row :: "leaderboard_total \<Rightarrow> nat \<Rightarrow> office_leaderboard_score" where
  "score_row row index = \<lparr>ls_rank = int index + 1, ls_logicalAgentId = lt_logical_agent_id row,
     ls_mountId = lt_mount_id row, ls_alias = lt_alias row, ls_petId = lt_pet_id row,
     ls_slackingSeconds = lt_slacking_seconds row, ls_scoreReachedAt = lt_score_reached_at row\<rparr>"

lemma entry_ranking_score_row: "entry_ranking (score_row r i) = with_rank (score_key r) i"
  by (simp add: entry_ranking_def score_row_def with_rank_def score_key_def)

lemma totals_safe:
  assumes "leaderboard_wf d t" "r \<in> set (totals d oid day t)"
  shows "1 \<le> lt_slacking_seconds r" "lt_slacking_seconds r \<le> MAX_SAFE_INTEGER"
proof -
  from assms(2) obtain part where part: "part \<in> set (partitions (valid_intersections d oid day t))"
    and r: "r = total_of part" and pos: "0 < lt_slacking_seconds r"
    by (auto simp: totals_def)
  note ok = part_ok_partitions [OF assms(1) part]
  have "valid_timestamp t" using assms(1) by (simp add: leaderboard_wf_def)
  then have "candidate_total (merged_candidate part) t \<le> MAX_SAFE_INTEGER"
    using ok(2) by (intro candidate_total_bound) (auto simp: valid_candidate_def)
  with pos total_of_score(1) [OF ok(1)] r
  show "1 \<le> lt_slacking_seconds r" "lt_slacking_seconds r \<le> MAX_SAFE_INTEGER" by simp_all
qed

lemma query_office_leaderboard_ok:
  assumes "leaderboard_wf d t" "1 \<le> limit" "limit \<le> 500"
  shows "query_office_leaderboard d oid day t limit =
    (let rows = take (nat limit) (sort_by compare_totals (totals d oid day t))
     in Inr (map2 score_row rows [0..<length rows]))"
proof -
  define rows where "rows = take (nat limit) (sort_by compare_totals (totals d oid day t))"
  have "leaderboard_score r i = Inr (score_row r i)" if "r \<in> set rows" for r i
    using that totals_safe [OF assms(1), of r oid day]
    by (auto simp: rows_def leaderboard_score_def parse_safe_positive_integer_def score_row_def
        dest: in_set_takeD)
  then have "mapM_r (\<lambda>(r, i). leaderboard_score r i) (zip rows is) = Inr (map2 score_row rows is)" for "is"
    by (auto simp: mapM_r_eq_Inr list_all2_conv_all_nth)
  then show ?thesis
    using assms(2,3) by (simp add: query_office_leaderboard_def Let_def flip: rows_def)
qed

text \<open>
  C4: The leaderboard SQL agrees with the reference scorer. For a database whose mounts have
  unique ids and are unique per office and agent, and whose qualifications do not start before
  1970, querying an office day with a limit from 1 to 500 succeeds, and the rank, agent,
  mount, seconds and score time of the rows are those of the first entries of
  \<open>rankLeaderboardCandidates\<close> on the merged interval intersections of every mount.
\<close>

theorem leaderboard_matches_scoring:
  assumes "leaderboard_wf d t" "1 \<le> limit" "limit \<le> 500"
  shows "\<exists>entries ranked. query_office_leaderboard d oid day t limit = Inr entries
    \<and> rank_leaderboard_candidates (leaderboard_candidates d oid day t) t = Inr ranked
    \<and> map entry_ranking entries = take (nat limit) ranked"
proof -
  define ts where "ts = sort_by compare_totals (totals d oid day t)"
  have ps: "positive_scores (leaderboard_candidates d oid day t) t = map score_key ts"
    using totals_positive_scores [OF assms(1), of oid day] by (simp add: ts_def)
  have "map entry_ranking (map2 score_row (take (nat limit) ts) [0..<length (take (nat limit) ts)])
      = take (nat limit) (map2 with_rank (map score_key ts) [0..<length ts])"
    by (rule nth_equalityI) (simp_all add: entry_ranking_score_row)
  then show ?thesis
    using query_office_leaderboard_ok [OF assms] leaderboard_candidates_ranked [OF assms(1)]
    by (simp add: Let_def ps ts_def [symmetric] del: length_take)
qed

text \<open>
  What the reference scorer is given for a mount is faithful to the raw data: the merged
  intervals of a partition are non-empty, pairwise disjoint, in increasing order, and cover
  exactly the instants of its raw segments, so overlapping eligibility is counted once.
\<close>

theorem merged_segments_cover:
  assumes "part \<in> set (partitions (valid_intersections d oid day t))"
  shows "instants_of (merged_segments part) =
      (\<Union>s\<in>{s \<in> set (raw_intersections d oid day t). sg_mount_id s = sg_mount_id (hd part)}.
         {sg_start s..<sg_end s})
    \<and> sorted_wrt (\<lambda>a b. snd a \<le> fst b) (merged_segments part)
    \<and> (\<forall>seg\<in>set (merged_segments part). fst seg < snd seg)"
proof -
  from assms obtain ne: "part \<noteq> []"
    and part: "part = filter (\<lambda>s. sg_mount_id s = sg_mount_id (hd part)) (valid_intersections d oid day t)"
    by (rule partitionsE)
  have sp: "set part = {s \<in> set (raw_intersections d oid day t).
      sg_mount_id s = sg_mount_id (hd part) \<and> sg_start s < sg_end s}"
    by (subst part) (auto simp: valid_intersections_def)
  then have "\<forall>s\<in>set part. sg_start s < sg_end s" by blast
  note facts = merged_segments_facts [OF ne this]
  have "(\<Union>s\<in>set part. {sg_start s..<sg_end s}) =
      (\<Union>s\<in>{s \<in> set (raw_intersections d oid day t). sg_mount_id s = sg_mount_id (hd part)}.
         {sg_start s..<sg_end s})"
    unfolding sp by fastforce
  with facts(1-3) show ?thesis by simp
qed

section \<open>A sample office\<close>

definition sample_interval :: "date_ms \<Rightarrow> date_ms \<Rightarrow> interval_row" where
  "sample_interval s e = \<lparr>iv_boot_generation = 1, iv_activity_state = A_eligible_idle,
     iv_started_at = s, iv_ended_at = Some e, iv_start_sequence = 1, iv_end_sequence = Some 1,
     iv_close_reason = Some State_changed\<rparr>"

definition sample_db :: db where
  "sample_db = empty_db\<lparr>
     db_agents := [\<lparr>ag_id = ''a'', ag_owner_account_id = ''o'', ag_alias = js ''Ann'',
       ag_pet_id = ''cat'', ag_active_reporting_instance_id = Some ''i''\<rparr>],
     db_instances := [\<lparr>in_id = ''i'', in_logical_agent_id = ''a'', in_status = Instance_active,
       in_revoked_at = None\<rparr>],
     db_edge := (\<lambda>iid. if iid = ''i'' then empty_edge_store\<lparr>
       es_intervals := [sample_interval 0 1000000, sample_interval 500000 2000000]\<rparr>
       else empty_edge_store),
     db_mounts := [\<lparr>mt_id = ''m'', mt_office_id = ''f'', mt_logical_agent_id = ''a'',
       mt_room_id = ''r'', mt_active = True, mt_scene_slot = Some 0, mt_presence_visible = True,
       mt_stats_opt_in = True, mt_poster_opt_in = True, mt_updated_at = 0\<rparr>],
     db_qualifications := [\<lparr>ql_office_id = ''f'', ql_mount_id = ''m'', ql_started_at = 0,
       ql_ended_at = None, ql_close_reason = None\<rparr>],
     db_occurrences := [\<lparr>oc_id = ''c'', oc_office_id = ''f'', oc_schedule_version_id = ''v'',
       oc_schedule_rule_id = ''u'', oc_office_local_date = 0, oc_starts_at = 0,
       oc_ends_at = 86400000\<rparr>]\<rparr>"

lemma sample_db_wf: "leaderboard_wf sample_db 3000000"
  by (simp add: leaderboard_wf_def sample_db_def empty_db_def valid_timestamp_def is_safe_integer_def
      MAX_SAFE_INTEGER_def uuid_form_def js_trim_def white_char_def to_lower_case_def lower_char_def)

lemma leaderboard_matches_scoring_witness:
  "\<exists>entries ranked. query_office_leaderboard sample_db ''f'' 0 3000000 20 = Inr entries
    \<and> rank_leaderboard_candidates (leaderboard_candidates sample_db ''f'' 0 3000000) 3000000 = Inr ranked
    \<and> map entry_ranking entries = take 20 ranked \<and> length entries = 1"
proof -
  have "query_office_leaderboard sample_db ''f'' 0 3000000 20 = Inr
    [\<lparr>ls_rank = 1, ls_logicalAgentId = ''a'', ls_mountId = ''m'', ls_alias = js ''Ann'',
      ls_petId = ''cat'', ls_slackingSeconds = 1100, ls_scoreReachedAt = Some 2000000\<rparr>]"
    by code_simp
  with leaderboard_matches_scoring [OF sample_db_wf, of 20 "''f''" 0] show ?thesis by auto
qed

lemma merged_segments_cover_witness:
  "\<exists>part. partitions (valid_intersections sample_db ''f'' 0 3000000) = [part]
    \<and> instants_of (merged_segments part) = {0..<2000000}"
proof -
  have "map merged_segments (partitions (valid_intersections sample_db ''f'' 0 3000000)) = [[(0, 2000000)]]"
    by code_simp
  then obtain part where p: "partitions (valid_intersections sample_db ''f'' 0 3000000) = [part]"
    and m: "merged_segments part = [(0, 2000000)]" by (auto simp: map_eq_Cons_conv)
  from p have "part \<in> set (partitions (valid_intersections sample_db ''f'' 0 3000000))" by simp
  from merged_segments_cover [OF this] m p show ?thesis by (auto simp: instants_of_def)
qed

end
