(* ===== verification/Schedule.thy ===== *)
theory Schedule
  imports Store
begin

text \<open>
  The office schedule (public-office/domain/schedule.ts): the resolution of a local boundary in
  a time zone, the occurrence of a rule on a date and the materialisation of the occurrences
  around an instant. The time zone database is a parameter: \<open>tz_plain\<close> is the local date and
  time of an instant, \<open>tz_instant\<close> is \<open>Temporal.ZonedDateTime.from\<close> with a disambiguation and
  \<open>tz_sql_date\<close> the date of PostgreSQL's \<open>AT TIME ZONE\<close>; an unknown zone is \<open>None\<close>. Instants of
  Temporal are counted in nanoseconds. The lemmas show which instants a boundary resolves to
  when local times repeat, that the constraints of the occurrence table are kept and that
  materialising twice changes nothing.
\<close>

section \<open>Time zones\<close>

datatype disambiguation = Earlier | Later | Compatible

record time_zones =
  tz_plain :: "string \<Rightarrow> int \<Rightarrow> (local_date \<times> local_time) option"
  tz_instant :: "string \<Rightarrow> local_date \<Rightarrow> local_time \<Rightarrow> disambiguation \<Rightarrow> int option"
  tz_sql_date :: "string \<Rightarrow> date_ms \<Rightarrow> local_date option"

definition from_option :: "string \<Rightarrow> 'a option \<Rightarrow> 'a tx" where
  "from_option msg v = (case v of None \<Rightarrow> Inl (Failure msg) | Some x \<Rightarrow> Inr x)"

lemma from_option_simps [simp]: "from_option m (Some x) = Inr x" "from_option m None = Inl (Failure m)"
  by (simp_all add: from_option_def)

lemma from_option_eq_Inr [result_simps]: "from_option m v = Inr x \<longleftrightarrow> v = Some x"
  by (cases v) auto

section \<open>Occurrences\<close>

datatype boundary = Start | End

record materialized_occurrence =
  mo_officeLocalDate :: local_date
  mo_startsAt :: date_ms
  mo_endsAt :: date_ms

definition resolve_local_boundary ::
  "time_zones \<Rightarrow> string \<Rightarrow> local_date \<Rightarrow> local_time \<Rightarrow> boundary \<Rightarrow> int tx" where
  "resolve_local_boundary zones timezone date time boundary =
     rbind (from_option ''RangeError'' (tz_instant zones timezone date time Earlier)) (\<lambda>earlier.
     rbind (from_option ''RangeError'' (tz_instant zones timezone date time Later)) (\<lambda>later.
       if earlier \<noteq> later \<and> tz_plain zones timezone earlier = Some (date, time)
           \<and> tz_plain zones timezone later = Some (date, time)
       then Inr (if boundary = Start then earlier else later)
       else from_option ''RangeError'' (tz_instant zones timezone date time Compatible)))"

definition occurrence_for_rule ::
  "time_zones \<Rightarrow> string \<Rightarrow> local_date \<Rightarrow> local_time \<Rightarrow> local_time \<Rightarrow> int \<Rightarrow> materialized_occurrence tx" where
  "occurrence_for_rule zones timezone officeLocalDate startLocalTime endLocalTime endDayOffset =
     rbind (resolve_local_boundary zones timezone officeLocalDate startLocalTime Start) (\<lambda>start.
     rbind (resolve_local_boundary zones timezone (officeLocalDate + endDayOffset) endLocalTime End) (\<lambda>end.
     rbind (guard_r (start < end) (Failure ''A schedule occurrence must have a positive duration'')) (\<lambda>_.
       Inr \<lparr>mo_officeLocalDate = officeLocalDate, mo_startsAt = start div 1000000,
            mo_endsAt = end div 1000000\<rparr>)))"

definition occurrence_overlap :: "occurrence_row \<Rightarrow> occurrence_row \<Rightarrow> bool" where
  "occurrence_overlap a b \<longleftrightarrow> oc_office_id a = oc_office_id b
     \<and> oc_starts_at a < oc_ends_at b \<and> oc_starts_at b < oc_ends_at a"

definition other_version_same_day :: "occurrence_row \<Rightarrow> occurrence_row \<Rightarrow> bool" where
  "other_version_same_day a b \<longleftrightarrow> oc_office_id a = oc_office_id b
     \<and> oc_office_local_date a = oc_office_local_date b
     \<and> oc_schedule_version_id a \<noteq> oc_schedule_version_id b"

definition same_occurrence_key :: "occurrence_row \<Rightarrow> occurrence_row \<Rightarrow> bool" where
  "same_occurrence_key a b \<longleftrightarrow> oc_schedule_rule_id a = oc_schedule_rule_id b
     \<and> oc_office_local_date a = oc_office_local_date b"

definition occurrence_table_ok :: "occurrence_row list \<Rightarrow> bool" where
  "occurrence_table_ok t \<longleftrightarrow> (\<forall>r\<in>set t. oc_starts_at r < oc_ends_at r)
     \<and> sorted_wrt (\<lambda>a b. \<not> same_occurrence_key a b \<and> \<not> occurrence_overlap a b
          \<and> \<not> other_version_same_day a b \<and> oc_id a \<noteq> oc_id b) t"

text \<open>\<open>INSERT ... ON CONFLICT (schedule_rule_id, office_local_date) DO NOTHING\<close>.\<close>

definition insert_occurrence :: "occurrence_row \<Rightarrow> occurrence_row list \<Rightarrow> occurrence_row list tx" where
  "insert_occurrence r t =
     (if \<not> oc_starts_at r < oc_ends_at r then Inl (Failure ''check_violation'')
      else if list_ex (\<lambda>x. same_occurrence_key x r) t then Inr t
      else if list_ex (\<lambda>x. occurrence_overlap x r \<or> other_version_same_day x r \<or> oc_id x = oc_id r) t
      then Inl (Failure ''exclusion_violation'')
      else Inr (t @ [r]))"

section \<open>Materialisation\<close>

definition compare_versions :: "schedule_version_row \<Rightarrow> schedule_version_row \<Rightarrow> int" where
  "compare_versions a b =
     (if sv_effective_from_local_date a \<noteq> sv_effective_from_local_date b
      then sv_effective_from_local_date b - sv_effective_from_local_date a
      else sv_version b - sv_version a)"

definition version_for_date :: "db \<Rightarrow> uuid \<Rightarrow> local_date \<Rightarrow> schedule_version_row option" where
  "version_for_date d officeId date =
     first_row (sort_by compare_versions
       (filter (\<lambda>v. sv_office_id v = officeId \<and> sv_effective_from_local_date v \<le> date)
         (db_schedule_versions d)))"

definition compare_rules :: "schedule_rule_row \<Rightarrow> schedule_rule_row \<Rightarrow> int" where
  "compare_rules a b =
     (if sr_start_local_time a \<noteq> sr_start_local_time b
      then sr_start_local_time a - sr_start_local_time b
      else if sr_id a < sr_id b then - 1 else if sr_id b < sr_id a then 1 else 0)"

definition rules_for_day :: "db \<Rightarrow> uuid \<Rightarrow> uuid \<Rightarrow> int \<Rightarrow> schedule_rule_row list" where
  "rules_for_day d officeId versionId weekday =
     sort_by compare_rules
       (filter (\<lambda>r. sr_office_id r = officeId \<and> sr_schedule_version_id r = versionId
            \<and> sr_iso_weekday r = weekday) (db_schedule_rules d))"

text \<open>\<open>fresh_id\<close> stands for the random uuid drawn for the occurrence of a rule on a date.\<close>

definition materialize_rule ::
  "time_zones \<Rightarrow> (uuid \<Rightarrow> local_date \<Rightarrow> uuid) \<Rightarrow> uuid \<Rightarrow> schedule_version_row \<Rightarrow> local_date
   \<Rightarrow> schedule_rule_row \<Rightarrow> occurrence_row list \<Rightarrow> occurrence_row list tx" where
  "materialize_rule zones fresh_id officeId version localDate rule t =
     rbind (guard_r (sr_end_day_offset rule = 0 \<or> sr_end_day_offset rule = 1)
              (Failure ''Invalid persisted schedule day offset'')) (\<lambda>_.
     rbind (occurrence_for_rule zones (sv_timezone version) localDate (sr_start_local_time rule)
              (sr_end_local_time rule) (sr_end_day_offset rule)) (\<lambda>occurrence.
       insert_occurrence
         \<lparr>oc_id = fresh_id (sr_id rule) localDate, oc_office_id = officeId,
          oc_schedule_version_id = sv_id version, oc_schedule_rule_id = sr_id rule,
          oc_office_local_date = mo_officeLocalDate occurrence,
          oc_starts_at = mo_startsAt occurrence, oc_ends_at = mo_endsAt occurrence\<rparr> t))"

definition materialize_date ::
  "time_zones \<Rightarrow> (uuid \<Rightarrow> local_date \<Rightarrow> uuid) \<Rightarrow> db \<Rightarrow> uuid \<Rightarrow> local_date
   \<Rightarrow> occurrence_row list \<Rightarrow> occurrence_row list tx" where
  "materialize_date zones fresh_id d officeId localDate t =
     (case version_for_date d officeId localDate of
        None \<Rightarrow> Inr t
      | Some version \<Rightarrow>
          foldM_r (materialize_rule zones fresh_id officeId version localDate)
            (rules_for_day d officeId (sv_id version) (day_of_week localDate)) t)"

definition ensure_schedule_occurrences_around ::
  "time_zones \<Rightarrow> (uuid \<Rightarrow> local_date \<Rightarrow> uuid) \<Rightarrow> uuid \<Rightarrow> date_ms \<Rightarrow> db \<Rightarrow> db tx" where
  "ensure_schedule_occurrences_around zones fresh_id officeId at d =
     rbind (from_option ''Office disappeared while materializing its schedule'' (find_office d officeId))
       (\<lambda>office.
     rbind (from_option ''RangeError'' (tz_plain zones (of_timezone office) (at * 1000000)))
       (\<lambda>(today, _).
     rbind (foldM_r (materialize_date zones fresh_id d officeId) [today - 1, today] (db_occurrences d))
       (\<lambda>t. Inr (d\<lparr>db_occurrences := t\<rparr>))))"

section \<open>Boundaries\<close>

definition valid_local_time :: "local_time \<Rightarrow> bool" where
  "valid_local_time time \<longleftrightarrow> 0 \<le> time \<and> time < 86400000000000"

definition local_instants :: "time_zones \<Rightarrow> string \<Rightarrow> local_date \<Rightarrow> local_time \<Rightarrow> int set" where
  "local_instants zones timezone date time = {x. tz_plain zones timezone x = Some (date, time)}"

text \<open>
  What Temporal documents for local times: those of an instant are within a day; when it names some instant,
  the earlier one is the first and the later one the last of them; a time that is skipped
  resolves, to be compatible, as the later one does.
\<close>

definition temporal_disambiguates :: "time_zones \<Rightarrow> string \<Rightarrow> bool" where
  "temporal_disambiguates zones timezone \<longleftrightarrow>
     (\<forall>x date time. tz_plain zones timezone x = Some (date, time) \<longrightarrow> valid_local_time time)
     \<and> (\<forall>date time. valid_local_time time \<longrightarrow>
     (local_instants zones timezone date time = {} \<longrightarrow>
        (\<exists>e l. tz_instant zones timezone date time Earlier = Some e
          \<and> tz_instant zones timezone date time Later = Some l
          \<and> tz_instant zones timezone date time Compatible = Some l))
     \<and> (local_instants zones timezone date time \<noteq> {} \<longrightarrow>
        (\<exists>e\<in>local_instants zones timezone date time. \<exists>l\<in>local_instants zones timezone date time.
          (\<forall>x\<in>local_instants zones timezone date time. e \<le> x \<and> x \<le> l)
          \<and> tz_instant zones timezone date time Earlier = Some e
          \<and> tz_instant zones timezone date time Later = Some l
          \<and> tz_instant zones timezone date time Compatible = Some e)))"

lemma resolve_existing:
  assumes "temporal_disambiguates zones tz" "local_instants zones tz date time \<noteq> {}"
  obtains e l where "resolve_local_boundary zones tz date time Start = Inr e"
    "resolve_local_boundary zones tz date time End = Inr l"
    "e \<in> local_instants zones tz date time" "l \<in> local_instants zones tz date time"
    "\<forall>x\<in>local_instants zones tz date time. e \<le> x \<and> x \<le> l"
proof -
  have "valid_local_time time"
    using assms unfolding temporal_disambiguates_def local_instants_def by blast
  with assms obtain e l where el: "e \<in> local_instants zones tz date time"
    "l \<in> local_instants zones tz date time" "\<forall>x\<in>local_instants zones tz date time. e \<le> x \<and> x \<le> l"
    and inst: "tz_instant zones tz date time Earlier = Some e"
      "tz_instant zones tz date time Later = Some l" "tz_instant zones tz date time Compatible = Some e"
    unfolding temporal_disambiguates_def by meson
  from el(1,2) have "tz_plain zones tz e = Some (date, time)" "tz_plain zones tz l = Some (date, time)"
    by (simp_all add: local_instants_def)
  with inst have "resolve_local_boundary zones tz date time Start = Inr e"
    "resolve_local_boundary zones tz date time End = Inr l"
    by (auto simp: resolve_local_boundary_def)
  with that el show thesis by blast
qed

lemma resolve_skipped:
  assumes "temporal_disambiguates zones tz" "local_instants zones tz date time = {}"
    "valid_local_time time"
  shows "resolve_local_boundary zones tz date time b =
    Inr (the (tz_instant zones tz date time Later))"
proof -
  from assms obtain e l where inst: "tz_instant zones tz date time Earlier = Some e"
      "tz_instant zones tz date time Later = Some l" "tz_instant zones tz date time Compatible = Some l"
    unfolding temporal_disambiguates_def by meson
  moreover have "tz_plain zones tz e \<noteq> Some (date, time)"
    using assms(2) by (auto simp: local_instants_def)
  ultimately show ?thesis by (simp add: resolve_local_boundary_def)
qed

section \<open>The occurrence table\<close>

lemma sorted_wrt_snoc: "sorted_wrt R (xs @ [x]) \<longleftrightarrow> sorted_wrt R xs \<and> (\<forall>y\<in>set xs. R y x)"
  by (simp add: sorted_wrt_append)

lemma insert_occurrence_ok:
  assumes "insert_occurrence r t = Inr u" "occurrence_table_ok t"
  shows "occurrence_table_ok u"
  using assms
  by (auto simp: insert_occurrence_def occurrence_table_ok_def sorted_wrt_snoc list_ex_iff
      split: if_splits)

lemma insert_occurrence_extends:
  "insert_occurrence r t = Inr u \<Longrightarrow> \<exists>rs. u = t @ rs"
  by (auto simp: insert_occurrence_def split: if_splits)

lemma insert_occurrence_present:
  assumes "insert_occurrence r t = Inr u" "set u \<subseteq> set v"
  shows "insert_occurrence r v = Inr v"
proof -
  have "same_occurrence_key r r" by (simp add: same_occurrence_key_def)
  with assms show ?thesis
    by (fastforce simp: insert_occurrence_def list_ex_iff split: if_splits)
qed

lemma materialize_rule_cases:
  assumes "materialize_rule zones f oid v day rule t = Inr u"
  obtains r where "insert_occurrence r t = Inr u"
    "\<And>t'. materialize_rule zones f oid v day rule t' = insert_occurrence r t'"
    "oc_office_id r = oid"
  using assms by (auto simp: materialize_rule_def result_simps)

lemma materialize_extends:
  "foldM_r (materialize_rule zones f oid v day) rules t = Inr u \<Longrightarrow> set t \<subseteq> set u"
proof (induction rules arbitrary: t)
  case (Cons rule rules)
  from Cons.prems obtain w where w: "materialize_rule zones f oid v day rule t = Inr w"
    "foldM_r (materialize_rule zones f oid v day) rules w = Inr u" by (auto simp: result_simps)
  from w(1) have "set t \<subseteq> set w"
    by (elim materialize_rule_cases) (auto dest!: insert_occurrence_extends)
  with Cons.IH [OF w(2)] show ?case by blast
qed simp

lemma materialize_repeat:
  "foldM_r (materialize_rule zones f oid v day) rules t = Inr u \<Longrightarrow> set u \<subseteq> set w
   \<Longrightarrow> foldM_r (materialize_rule zones f oid v day) rules w = Inr w"
proof (induction rules arbitrary: t)
  case (Cons rule rules)
  from Cons.prems(1) obtain x where x: "materialize_rule zones f oid v day rule t = Inr x"
    "foldM_r (materialize_rule zones f oid v day) rules x = Inr u" by (auto simp: result_simps)
  have "set x \<subseteq> set w" using materialize_extends [OF x(2)] Cons.prems(2) by blast
  with x(1) have "materialize_rule zones f oid v day rule w = Inr w"
    by (elim materialize_rule_cases) (simp add: insert_occurrence_present)
  with Cons.IH [OF x(2) Cons.prems(2)] show ?case by simp
qed simp

lemma materialize_date_extends:
  "materialize_date zones f d oid day t = Inr u \<Longrightarrow> set t \<subseteq> set u"
  by (auto simp: materialize_date_def split: option.splits dest: materialize_extends)

lemma materialize_date_repeat:
  "materialize_date zones f d oid day t = Inr u \<Longrightarrow> set u \<subseteq> set w
   \<Longrightarrow> materialize_date zones f d oid day w = Inr w"
  by (auto simp: materialize_date_def split: option.splits dest: materialize_repeat)

lemma materialize_date_ok:
  assumes "materialize_date zones f d oid day t = Inr u" "occurrence_table_ok t"
  shows "occurrence_table_ok u"
proof (cases "version_for_date d oid day")
  case None
  with assms show ?thesis by (simp add: materialize_date_def)
next
  case (Some v)
  with assms(1) have fold: "foldM_r (materialize_rule zones f oid v day)
      (rules_for_day d oid (sv_id v) (day_of_week day)) t = Inr u"
    by (simp add: materialize_date_def)
  show ?thesis
    by (rule foldM_r_invariant [where P = occurrence_table_ok, OF fold assms(2)]) (metis materialize_rule_cases insert_occurrence_ok)
qed

lemma materialize_date_cong:
  "db_schedule_versions d = db_schedule_versions e \<Longrightarrow> db_schedule_rules d = db_schedule_rules e
   \<Longrightarrow> materialize_date zones f d = materialize_date zones f e"
  by (intro ext) (simp add: materialize_date_def version_for_date_def rules_for_day_def split: option.splits)

lemma ensure_occurrences_only:
  "ensure_schedule_occurrences_around zones f oid at d = Inr e
   \<Longrightarrow> \<exists>t. e = d\<lparr>db_occurrences := t\<rparr>"
  by (auto simp: ensure_schedule_occurrences_around_def result_simps)

text \<open>
  C6: Where an occurrence starts and ends when clocks change. If the zone database
  disambiguates as Temporal documents and both requested local times name some instant, the
  occurrence starts at the first instant showing the start time and ends at the last instant
  showing the end time, in milliseconds, provided the first precedes the last.
\<close>

theorem occurrence_spans_local_times:
  assumes "temporal_disambiguates zones tz"
    and "s \<in> local_instants zones tz date st" "e \<in> local_instants zones tz (date + offset) et"
    and "\<forall>x\<in>local_instants zones tz date st. s \<le> x"
    and "\<forall>x\<in>local_instants zones tz (date + offset) et. x \<le> e"
  shows "occurrence_for_rule zones tz date st et offset =
    (if s < e then Inr \<lparr>mo_officeLocalDate = date, mo_startsAt = s div 1000000, mo_endsAt = e div 1000000\<rparr>
     else Inl (Failure ''A schedule occurrence must have a positive duration''))"
proof -
  from resolve_existing [OF assms(1), of date st] assms(2,4)
  have "resolve_local_boundary zones tz date st Start = Inr s"
    by (metis empty_iff order_antisym)
  moreover from resolve_existing [OF assms(1), of "date + offset" et] assms(3,5)
  have "resolve_local_boundary zones tz (date + offset) et End = Inr e"
    by (metis empty_iff order_antisym)
  ultimately show ?thesis by (simp add: occurrence_for_rule_def)
qed

text \<open>A zone whose clocks go back by one hour at the epoch.\<close>

definition hour_ns :: int where "hour_ns = 3600000000000"
definition day_ns :: int where "day_ns = 86400000000000"

definition fold_zone :: time_zones where
  "fold_zone = \<lparr>
     tz_plain = (\<lambda>_ x. let l = (if x < 0 then x + hour_ns else x) in Some (l div day_ns, l mod day_ns)),
     tz_instant = (\<lambda>_ date time dis. let l = date * day_ns + time in
       Some (case dis of Later \<Rightarrow> if 0 \<le> l then l else l - hour_ns
             | _ \<Rightarrow> if l < hour_ns then l - hour_ns else l)),
     tz_sql_date = (\<lambda>_ x. let l = (if x < 0 then x * 1000000 + hour_ns else x * 1000000) in Some (l div day_ns))\<rparr>"

lemma fold_zone_instants:
  "0 \<le> time \<Longrightarrow> time < day_ns \<Longrightarrow> local_instants fold_zone tz date time =
    {x. \<exists>l. l = date * day_ns + time \<and> (x = l - hour_ns \<and> l < hour_ns \<or> x = l \<and> 0 \<le> l)}"
proof -
  assume t: "0 \<le> time" "time < day_ns"
  have split: "l div day_ns = date \<and> l mod day_ns = time \<longleftrightarrow> l = date * day_ns + time" for l
    using t by (auto simp: day_ns_def)
  show ?thesis
    by (auto simp: local_instants_def fold_zone_def Let_def split)
qed

lemma fold_zone_disambiguates: "temporal_disambiguates fold_zone tz"
proof -
  have "\<exists>e\<in>local_instants fold_zone tz date time. \<exists>l\<in>local_instants fold_zone tz date time.
      (\<forall>x\<in>local_instants fold_zone tz date time. e \<le> x \<and> x \<le> l)
      \<and> tz_instant fold_zone tz date time Earlier = Some e
      \<and> tz_instant fold_zone tz date time Later = Some l
      \<and> tz_instant fold_zone tz date time Compatible = Some e"
    if t: "0 \<le> time" "time < day_ns" for date time
  proof -
    let ?l = "date * day_ns + time"
    show ?thesis
      unfolding fold_zone_instants [OF t]
      by (rule bexI [of _ "if ?l < hour_ns then ?l - hour_ns else ?l"],
          rule bexI [of _ "if 0 \<le> ?l then ?l else ?l - hour_ns"])
        (auto simp: fold_zone_def Let_def hour_ns_def)
  qed
  moreover have "valid_local_time time" if "tz_plain fold_zone tz x = Some (date, time)" for x date time
    using that by (auto simp: fold_zone_def Let_def valid_local_time_def day_ns_def)
  ultimately show ?thesis
    unfolding temporal_disambiguates_def valid_local_time_def day_ns_def by blast
qed

lemma occurrence_spans_local_times_witness:
  "occurrence_for_rule fold_zone ''z'' 0 1800000000000 2700000000000 0 =
    Inr \<lparr>mo_officeLocalDate = 0, mo_startsAt = - 1800000, mo_endsAt = 2700000\<rparr>"
proof -
  have "- 1800000000000 \<in> local_instants fold_zone ''z'' 0 1800000000000"
    "2700000000000 \<in> local_instants fold_zone ''z'' (0 + 0) 2700000000000"
    "\<forall>x\<in>local_instants fold_zone ''z'' 0 1800000000000. - 1800000000000 \<le> x"
    "\<forall>x\<in>local_instants fold_zone ''z'' (0 + 0) 2700000000000. x \<le> 2700000000000"
    by (auto simp: fold_zone_instants day_ns_def hour_ns_def)
  from occurrence_spans_local_times [OF fold_zone_disambiguates this] show ?thesis by simp
qed

text \<open>
  Materialising the schedule is idempotent and keeps the table's constraints. When the
  occurrences around an instant have been materialised, doing it again at the same instant
  succeeds and changes nothing, whatever ids would be drawn; nothing but the occurrence table
  has changed, no row was removed, and rows have positive length, do not overlap within an
  office and belong to one schedule version per office day if that was so before.
\<close>

theorem ensure_occurrences_idempotent:
  assumes "ensure_schedule_occurrences_around zones f oid at d = Inr e"
  shows "ensure_schedule_occurrences_around zones f oid at e = Inr e
    \<and> e = d\<lparr>db_occurrences := db_occurrences e\<rparr> \<and> set (db_occurrences d) \<subseteq> set (db_occurrences e)
    \<and> (occurrence_table_ok (db_occurrences d) \<longrightarrow> occurrence_table_ok (db_occurrences e))"
proof -
  from assms obtain office today time where office: "find_office d oid = Some office"
    and today: "tz_plain zones (of_timezone office) (at * 1000000) = Some (today, time)"
    and t: "foldM_r (materialize_date zones f d oid) [today - 1, today] (db_occurrences d) = Inr (db_occurrences e)"
    and e: "e = d\<lparr>db_occurrences := db_occurrences e\<rparr>"
    by (auto simp: ensure_schedule_occurrences_around_def result_simps)
  from t obtain u where u: "materialize_date zones f d oid (today - 1) (db_occurrences d) = Inr u"
    "materialize_date zones f d oid today u = Inr (db_occurrences e)"
    by (auto simp: result_simps)
  have sub: "set (db_occurrences d) \<subseteq> set u" "set u \<subseteq> set (db_occurrences e)"
    using u by (auto dest: materialize_date_extends)
  have again: "materialize_date zones f e oid day (db_occurrences e) = Inr (db_occurrences e)"
    if "day = today - 1 \<or> day = today" for day
  proof -
    have "materialize_date zones f e = materialize_date zones f d"
      by (rule materialize_date_cong; subst e; simp)
    with that u sub show ?thesis by (auto dest: materialize_date_repeat)
  qed
  have "find_office e oid = Some office" using office by (subst e) (simp add: find_office_def)
  with today again have "ensure_schedule_occurrences_around zones f oid at e = Inr e"
    by (simp add: ensure_schedule_occurrences_around_def)
  with e u sub show ?thesis by (auto dest: materialize_date_ok)
qed

definition sample_schedule_db :: db where
  "sample_schedule_db = empty_db\<lparr>
     db_offices := [\<lparr>of_id = ''f'', of_owner_account_id = ''o'', of_name = js ''Lab'',
       of_timezone = ''z'', of_demo_data = False, of_revision = 0, of_minimum_replay_revision = 0,
       of_created_at = 0, of_deletion_requested_at = None\<rparr>],
     db_schedule_versions := [\<lparr>sv_id = ''v'', sv_office_id = ''f'', sv_version = 1,
       sv_timezone = ''z'', sv_effective_from_local_date = 0\<rparr>],
     db_schedule_rules := [\<lparr>sr_id = ''u'', sr_office_id = ''f'', sr_schedule_version_id = ''v'',
       sr_iso_weekday = 4, sr_start_local_time = 1800000000000, sr_end_local_time = 2700000000000,
       sr_end_day_offset = 0\<rparr>]\<rparr>"

lemma ensure_occurrences_idempotent_witness:
  "\<exists>e. ensure_schedule_occurrences_around fold_zone (\<lambda>u _. u) ''f'' 3600000 sample_schedule_db = Inr e
    \<and> ensure_schedule_occurrences_around fold_zone (\<lambda>u _. u) ''f'' 3600000 e = Inr e
    \<and> length (db_occurrences e) = 1"
proof -
  have "ensure_schedule_occurrences_around fold_zone (\<lambda>u _. u) ''f'' 3600000 sample_schedule_db =
    Inr (sample_schedule_db\<lparr>db_occurrences := [\<lparr>oc_id = ''u'', oc_office_id = ''f'',
      oc_schedule_version_id = ''v'', oc_schedule_rule_id = ''u'', oc_office_local_date = 0,
      oc_starts_at = - 1800000, oc_ends_at = 2700000\<rparr>]\<rparr>)"
    by (simp add: ensure_schedule_occurrences_around_def sample_schedule_db_def empty_db_def
        find_office_def fold_zone_def day_ns_def hour_ns_def materialize_date_def version_for_date_def
        rules_for_day_def sort_by_def day_of_week_def materialize_rule_def occurrence_for_rule_def
        resolve_local_boundary_def insert_occurrence_def Let_def)
  with ensure_occurrences_idempotent [OF this] show ?thesis by auto
qed

section \<open>The version in force\<close>

interpretation versions_cmp: comparator compare_versions "\<lambda>_. True"
  by unfold_locales (auto simp: compare_versions_def split: if_splits)

interpretation rules_cmp: comparator compare_rules "\<lambda>_. True"
  by unfold_locales (auto simp: compare_rules_def split: if_splits)

lemma version_for_date_latest:
  assumes "version_for_date d oid date = Some v"
  shows "v \<in> set (db_schedule_versions d) \<and> sv_office_id v = oid
    \<and> sv_effective_from_local_date v \<le> date
    \<and> (\<forall>w\<in>set (db_schedule_versions d). sv_office_id w = oid \<and> sv_effective_from_local_date w \<le> date
        \<longrightarrow> (sv_effective_from_local_date w, sv_version w) = (sv_effective_from_local_date v, sv_version v)
          \<or> sv_effective_from_local_date w < sv_effective_from_local_date v
          \<or> sv_effective_from_local_date w = sv_effective_from_local_date v \<and> sv_version w < sv_version v)"
proof -
  let ?vs = "filter (\<lambda>v. sv_office_id v = oid \<and> sv_effective_from_local_date v \<le> date)
    (db_schedule_versions d)"
  from assms obtain ws where ws: "sort_by compare_versions ?vs = v # ws"
    by (auto simp: version_for_date_def first_row_def split: list.splits)
  then have set: "set (v # ws) = set ?vs" by (metis set_sort_by)
  have "sorted_wrt (\<lambda>a b. compare_versions a b \<le> 0) (v # ws)"
    using versions_cmp.sorted_sort_by [of ?vs] by (simp add: ws)
  then have "\<forall>w\<in>set ?vs. w = v \<or> compare_versions v w \<le> 0"
    unfolding set [symmetric] by auto
  moreover have "v \<in> set ?vs" unfolding set [symmetric] by simp
  ultimately show ?thesis by (fastforce simp: compare_versions_def split: if_splits)
qed

end
