(* ===== verification/Snapshot_Validator.thy ===== *)
theory Snapshot_Validator
  imports Store
begin

text \<open>
  The contract check of a public snapshot (platform/contracts/public-office-snapshot-validator.ts).
  The compiled JSON schema is a parameter, a predicate on snapshots; the semantic checks are
  translated. The lemma \<open>assert_semantic_invariants_iff\<close> states what the loops over agents and
  leaderboard entries check together.
\<close>

section \<open>Checks\<close>

text \<open>A map built from a list of rooms keeps the last room of each id.\<close>

definition room_by_id :: "public_room list \<Rightarrow> uuid \<Rightarrow> public_room option" where
  "room_by_id rooms rid = select_one (\<lambda>r. pu_room_id r = rid) (rev rooms)"

definition slot_key :: "uuid \<Rightarrow> int \<Rightarrow> js_string" where
  "slot_key room slot = js room @ [58] @ decimal slot"

fun assert_agents ::
  "public_room list \<Rightarrow> uuid list \<Rightarrow> js_string list \<Rightarrow> public_agent list \<Rightarrow> unit tx" where
  "assert_agents rooms mountIds occupiedSlots [] = Inr ()"
| "assert_agents rooms mountIds occupiedSlots (agent # agents) =
     (case room_by_id rooms (pa_room_id agent) of
        None \<Rightarrow> Inl (Failure ''Public projection Agent references an unknown Room'')
      | Some room \<Rightarrow>
          rbind (guard_r (pa_mount_id agent \<notin> set mountIds)
                   (Failure ''Public projection contains a duplicate Mount'')) (\<lambda>_.
          rbind (case pa_scene_slot agent of
                   None \<Rightarrow> Inr occupiedSlots
                 | Some slot \<Rightarrow>
                     rbind (guard_r (slot < pu_scene_capacity room)
                              (Failure ''Public projection scene slot exceeds Room capacity'')) (\<lambda>_.
                     rbind (guard_r (slot_key (pa_room_id agent) slot \<notin> set occupiedSlots)
                              (Failure ''Public projection contains an occupied scene slot'')) (\<lambda>_.
                       Inr (slot_key (pa_room_id agent) slot # occupiedSlots)))) (\<lambda>slots.
            assert_agents rooms (pa_mount_id agent # mountIds) slots agents)))"

text \<open>The previous score starts at infinity.\<close>

fun assert_entries ::
  "int \<Rightarrow> uuid list \<Rightarrow> int option \<Rightarrow> public_leaderboard_entry list \<Rightarrow> unit tx" where
  "assert_entries index rankedMounts previousScore [] = Inr ()"
| "assert_entries index rankedMounts previousScore (entry # entries) =
     rbind (guard_r (le_rank entry = index + 1)
              (Failure ''Public projection ranks are not contiguous'')) (\<lambda>_.
     rbind (guard_r (le_mount_id entry \<notin> set rankedMounts)
              (Failure ''Public projection leaderboard repeats a Mount'')) (\<lambda>_.
     rbind (guard_r (case previousScore of None \<Rightarrow> True | Some s \<Rightarrow> le_slacking_seconds entry \<le> s)
              (Failure ''Public projection leaderboard is not score ordered'')) (\<lambda>_.
       assert_entries (index + 1) (le_mount_id entry # rankedMounts)
         (Some (le_slacking_seconds entry)) entries)))"

definition assert_semantic_invariants :: "public_office_snapshot \<Rightarrow> unit tx" where
  "assert_semantic_invariants s =
     rbind (guard_r (ps_local_date s = ps_leaderboard_local_date s)
              (Failure ''Public projection has mismatched Office days'')) (\<lambda>_.
     rbind (guard_r (length (remdups (map pu_room_id (ps_rooms s))) = length (ps_rooms s))
              (Failure ''Public projection contains duplicate Rooms'')) (\<lambda>_.
     rbind (assert_agents (ps_rooms s) [] [] (ps_agents s)) (\<lambda>_.
       assert_entries 0 [] None (ps_leaderboard_entries s))))"

definition validator_assert ::
  "(public_office_snapshot \<Rightarrow> bool) \<Rightarrow> public_office_snapshot \<Rightarrow> unit tx" where
  "validator_assert schema s =
     rbind (guard_r (schema s) (Failure ''Public projection violates its JSON contract'')) (\<lambda>_.
       assert_semantic_invariants s)"

section \<open>What the checks accept\<close>

definition agent_slots :: "public_agent list \<Rightarrow> (uuid \<times> int) list" where
  "agent_slots agents =
     concat (map (\<lambda>a. case pa_scene_slot a of None \<Rightarrow> [] | Some s \<Rightarrow> [(pa_room_id a, s)]) agents)"

definition agent_placed :: "public_room list \<Rightarrow> public_agent \<Rightarrow> bool" where
  "agent_placed rooms a \<longleftrightarrow> (\<exists>r\<in>set rooms. pu_room_id r = pa_room_id a
     \<and> (case pa_scene_slot a of None \<Rightarrow> True | Some s \<Rightarrow> s < pu_scene_capacity r))"

definition snapshot_consistent :: "public_office_snapshot \<Rightarrow> bool" where
  "snapshot_consistent s \<longleftrightarrow>
     ps_local_date s = ps_leaderboard_local_date s
     \<and> distinct (map pu_room_id (ps_rooms s))
     \<and> (\<forall>a\<in>set (ps_agents s). agent_placed (ps_rooms s) a)
     \<and> distinct (map pa_mount_id (ps_agents s))
     \<and> distinct (agent_slots (ps_agents s))
     \<and> map le_rank (ps_leaderboard_entries s) = map int [1..<Suc (length (ps_leaderboard_entries s))]
     \<and> distinct (map le_mount_id (ps_leaderboard_entries s))
     \<and> sorted_wrt (\<lambda>a b. le_slacking_seconds b \<le> le_slacking_seconds a) (ps_leaderboard_entries s)"

lemma slot_key_inj [simp]: "slot_key r s = slot_key r' s' \<longleftrightarrow> r = r' \<and> s = s'"
proof
  assume eq: "slot_key r s = slot_key r' s'"
  define f where "f = (\<lambda>xs :: nat list. (takeWhile (\<lambda>c. c \<noteq> 58) (rev xs), dropWhile (\<lambda>c. c \<noteq> 58) (rev xs)))"
  have key: "f (slot_key r s) = (rev (decimal s), 58 # rev (js r))" for r s
  proof -
    have "\<forall>c\<in>set (rev (decimal s)). c \<noteq> 58" by (auto dest: decimal_chars)
    then have "takeWhile (\<lambda>c. c \<noteq> 58) (rev (decimal s) @ 58 # rev (js r)) = rev (decimal s)"
      "dropWhile (\<lambda>c. c \<noteq> 58) (rev (decimal s) @ 58 # rev (js r)) = 58 # rev (js r)"
      by (subst takeWhile_append2 dropWhile_append2; simp)+
    then show ?thesis by (simp add: f_def slot_key_def)
  qed
  from arg_cong [OF eq, of f] show "r = r' \<and> s = s'" by (simp add: key decimal_inj)
qed simp

lemma room_by_id_distinct:
  assumes "distinct (map pu_room_id rooms)"
  shows "room_by_id rooms rid = Some r \<longleftrightarrow> r \<in> set rooms \<and> pu_room_id r = rid"
proof
  assume "room_by_id rooms rid = Some r"
  then show "r \<in> set rooms \<and> pu_room_id r = rid"
    by (auto simp: room_by_id_def dest: select_one_SomeD)
next
  assume "r \<in> set rooms \<and> pu_room_id r = rid"
  with assms show "room_by_id rooms rid = Some r"
    unfolding room_by_id_def
    by (intro select_one_unique) (auto simp: distinct_map dest: inj_onD)
qed

lemma assert_agents_iff:
  assumes "distinct (map pu_room_id rooms)"
  shows "assert_agents rooms ms (map (\<lambda>(r, s). slot_key r s) slots) agents = Inr u \<longleftrightarrow>
    (\<forall>a\<in>set agents. agent_placed rooms a)
    \<and> distinct (map pa_mount_id agents) \<and> set (map pa_mount_id agents) \<inter> set ms = {}
    \<and> distinct (agent_slots agents) \<and> set (agent_slots agents) \<inter> set slots = {}"
proof (induction agents arbitrary: ms slots)
  case Nil
  then show ?case by (simp add: agent_slots_def)
next
  case (Cons a agents)
  show ?case
  proof (cases "room_by_id rooms (pa_room_id a)")
    case None
    then have "\<not> agent_placed rooms a"
      using room_by_id_distinct [OF assms] unfolding agent_placed_def by (metis option.distinct(1))
    with None show ?thesis by simp
  next
    case (Some r)
    then have placed: "agent_placed rooms a \<longleftrightarrow>
        (case pa_scene_slot a of None \<Rightarrow> True | Some s \<Rightarrow> s < pu_scene_capacity r)"
      using room_by_id_distinct [OF assms] unfolding agent_placed_def by (metis option.inject)
    show ?thesis
    proof (cases "pa_scene_slot a")
      case None
      with Some placed Cons.IH [of "pa_mount_id a # ms" slots] show ?thesis
        by (auto simp: result_simps agent_slots_def)
    next
      case slot: (Some s)
      have "slot_key (pa_room_id a) s \<in> set (map (\<lambda>(r, s). slot_key r s) slots)
          \<longleftrightarrow> (pa_room_id a, s) \<in> set slots" by force
      with Some slot placed Cons.IH [of "pa_mount_id a # ms" "(pa_room_id a, s) # slots"]
      show ?thesis by (auto simp: result_simps agent_slots_def simp del: set_map)
    qed
  qed
qed

lemma assert_entries_iff:
  "assert_entries i ms p es = Inr u \<longleftrightarrow>
     map le_rank es = map (\<lambda>k. i + int k) [1..<Suc (length es)]
     \<and> distinct (map le_mount_id es) \<and> set (map le_mount_id es) \<inter> set ms = {}
     \<and> sorted_wrt (\<lambda>a b. le_slacking_seconds b \<le> le_slacking_seconds a) es
     \<and> (case p of None \<Rightarrow> True | Some s \<Rightarrow> \<forall>e\<in>set es. le_slacking_seconds e \<le> s)"
proof (induction es arbitrary: i ms p)
  case Nil
  then show ?case by (cases p) simp_all
next
  case (Cons e es)
  have "map (\<lambda>k. i + int k) [1..<Suc (length (e # es))]
      = (i + 1) # map (\<lambda>k. i + 1 + int k) [1..<Suc (length es)]"
    by (rule nth_equalityI) (auto simp: nth_Cons simp del: upt_Suc split: nat.splits)
  then have ranks: "map le_rank (e # es) = map (\<lambda>k. i + int k) [1..<Suc (length (e # es))] \<longleftrightarrow>
      le_rank e = i + 1 \<and> map le_rank es = map (\<lambda>k. i + 1 + int k) [1..<Suc (length es)]"
    by (simp del: upt_Suc)
  have step: "assert_entries i ms p (e # es) = Inr u \<longleftrightarrow>
      le_rank e = i + 1 \<and> le_mount_id e \<notin> set ms
      \<and> (case p of None \<Rightarrow> True | Some s \<Rightarrow> le_slacking_seconds e \<le> s)
      \<and> assert_entries (i + 1) (le_mount_id e # ms) (Some (le_slacking_seconds e)) es = Inr u"
    by (auto simp: result_simps)
  show ?case
    unfolding step ranks Cons.IH
    by (cases p) (auto simp del: upt_Suc intro: order_trans)
qed

lemma assert_semantic_invariants_iff:
  "assert_semantic_invariants s = Inr u \<longleftrightarrow> snapshot_consistent s"
proof -
  have card: "length (remdups (map pu_room_id (ps_rooms s))) = length (ps_rooms s)
      \<longleftrightarrow> distinct (map pu_room_id (ps_rooms s))"
    by (metis length_map length_remdups_eq remdups_id_iff_distinct)
  show ?thesis
  proof (cases "distinct (map pu_room_id (ps_rooms s))")
    case True
    show ?thesis
      using card assert_agents_iff [OF True, of "[]" "[]"] assert_entries_iff [of 0 "[]" None]
      by (auto simp: assert_semantic_invariants_def snapshot_consistent_def result_simps)
  next
    case False
    with card show ?thesis
      by (auto simp: assert_semantic_invariants_def snapshot_consistent_def result_simps)
  qed
qed

end
