(* ===== verification/Projector.thy ===== *)
theory Projector
  imports Leaderboard Schedule Snapshot_Validator
begin

text \<open>
  The public projection of an office (public-office/application/public-office-projector.ts):
  building the snapshot, its JSON, and recording a revision. A recorded revision is one step of
  the revision log of the office: the event, the current projection, the outbox row and the
  notification are written together or, by the savepoint, not at all, so a failed call is a
  value \<open>Inl\<close> and the caller keeps the database it had. The lemmas show that the log stays
  contiguous and agrees with the projection, and what a snapshot may reveal.
\<close>

section \<open>Building the snapshot\<close>

definition compare_current :: "occurrence_row \<Rightarrow> occurrence_row \<Rightarrow> int" where
  "compare_current a b =
     (if oc_starts_at a \<noteq> oc_starts_at b then oc_starts_at b - oc_starts_at a
      else if oc_id a < oc_id b then - 1 else if oc_id b < oc_id a then 1 else 0)"

definition office_day_at :: "time_zones \<Rightarrow> db \<Rightarrow> office_row \<Rightarrow> date_ms \<Rightarrow> local_date tx" where
  "office_day_at zones d office at =
     (case first_row (sort_by compare_current
             (filter (\<lambda>occ. oc_office_id occ = of_id office \<and> oc_starts_at occ \<le> at \<and> at < oc_ends_at occ)
               (db_occurrences d))) of
        Some occ \<Rightarrow> Inr (oc_office_local_date occ)
      | None \<Rightarrow> from_option ''time zone not recognized'' (tz_sql_date zones (of_timezone office) at))"

definition compare_rooms :: "room_row \<Rightarrow> room_row \<Rightarrow> int" where
  "compare_rooms a b =
     (if rm_created_at a \<noteq> rm_created_at b then rm_created_at a - rm_created_at b
      else if rm_id a < rm_id b then - 1 else if rm_id b < rm_id a then 1 else 0)"

definition public_rooms :: "db \<Rightarrow> uuid \<Rightarrow> public_room list" where
  "public_rooms d officeId =
     map (\<lambda>r. \<lparr>pu_room_id = rm_id r, pu_room_name = rm_name r, pu_scene_capacity = rm_scene_capacity r\<rparr>)
       (sort_by compare_rooms (filter (\<lambda>r. rm_office_id r = officeId) (db_rooms d)))"

text \<open>The presence that makes an agent online, with the instance it belongs to.\<close>

definition online_presence :: "db \<Rightarrow> agent_row \<Rightarrow> date_ms \<Rightarrow> (uuid \<times> presence_row) option" where
  "online_presence d g at =
     (case ag_active_reporting_instance_id g of
        None \<Rightarrow> None
      | Some iid \<Rightarrow>
          (case select_one (\<lambda>n. in_id n = iid \<and> in_status n = Instance_active) (db_instances d) of
             None \<Rightarrow> None
           | Some n \<Rightarrow>
               (case es_presence (db_edge d (in_id n)) of
                  None \<Rightarrow> None
                | Some p \<Rightarrow> if pn_lease_closed_at p = None \<and> at < pn_lease_expires_at p
                             then Some (in_id n, p) else None)))"

definition eligible_starts :: "db \<Rightarrow> mount_row \<Rightarrow> uuid \<Rightarrow> date_ms \<Rightarrow> date_ms list" where
  "eligible_starts d m iid at =
     [max (max (iv_started_at a) (ql_started_at q)) (oc_starts_at occ).
        a \<leftarrow> es_intervals (db_edge d iid), mt_stats_opt_in m, iv_activity_state a = A_eligible_idle,
        iv_started_at a \<le> at, case iv_ended_at a of None \<Rightarrow> True | Some e \<Rightarrow> at < e,
        q \<leftarrow> db_qualifications d, ql_office_id q = mt_office_id m, ql_mount_id q = mt_id m,
        ql_started_at q \<le> at, case ql_ended_at q of None \<Rightarrow> True | Some e \<Rightarrow> at < e,
        occ \<leftarrow> db_occurrences d, oc_office_id occ = mt_office_id m,
        oc_starts_at occ \<le> at, at < oc_ends_at occ]"

definition eligible_since :: "db \<Rightarrow> mount_row \<Rightarrow> uuid \<Rightarrow> date_ms \<Rightarrow> date_ms option" where
  "eligible_since d m iid at =
     (let ts = eligible_starts d m iid at in if ts = [] then None else Some (Min (set ts)))"

definition agent_idle_stage :: "date_ms option \<Rightarrow> date_ms \<Rightarrow> idle_stage tx" where
  "agent_idle_stage since at =
     (case since of
        None \<Rightarrow> Inr Stage_none
      | Some s \<Rightarrow>
          (case derive_idle_stage (Some \<lparr>startedAtMs = s, endedAtMs = None\<rparr>) at of
             Inl _ \<Rightarrow> Inl (Failure ''RangeError'')
           | Inr st \<Rightarrow> Inr st))"

definition public_agent_of :: "db \<Rightarrow> date_ms \<Rightarrow> mount_row \<times> agent_row \<Rightarrow> public_agent tx" where
  "public_agent_of d at = (\<lambda>(m, g).
     (case online_presence d g at of
        None \<Rightarrow>
          Inr \<lparr>pa_mount_id = mt_id m, pa_room_id = mt_room_id m, pa_alias = ag_alias g,
               pa_pet_id = ag_pet_id g, pa_presence = Offline, pa_display_state = None,
               pa_idle_stage = Stage_none, pa_scene_slot = mt_scene_slot m\<rparr>
      | Some (iid, p) \<Rightarrow>
          rbind (agent_idle_stage (eligible_since d m iid at) at) (\<lambda>stage.
          Inr \<lparr>pa_mount_id = mt_id m, pa_room_id = mt_room_id m, pa_alias = ag_alias g,
               pa_pet_id = ag_pet_id g, pa_presence = Online,
               pa_display_state = Some (pn_display_state p),
               pa_idle_stage = stage, pa_scene_slot = mt_scene_slot m\<rparr>)))"

definition compare_mounts :: "mount_row \<times> agent_row \<Rightarrow> mount_row \<times> agent_row \<Rightarrow> int" where
  "compare_mounts = (\<lambda>(a, _) (b, _).
     if mt_room_id a \<noteq> mt_room_id b then (if mt_room_id a < mt_room_id b then - 1 else 1)
     else if mt_scene_slot a \<noteq> mt_scene_slot b
     then ext_sub (or_infinity (mt_scene_slot a)) (or_infinity (mt_scene_slot b))
     else if mt_id a < mt_id b then - 1 else if mt_id b < mt_id a then 1 else 0)"

definition visible_mounts :: "db \<Rightarrow> uuid \<Rightarrow> (mount_row \<times> agent_row) list" where
  "visible_mounts d officeId =
     [(m, g). m \<leftarrow> db_mounts d, mt_office_id m = officeId, mt_active m, mt_presence_visible m,
        g \<leftarrow> db_agents d, ag_id g = mt_logical_agent_id m]"

definition public_agents :: "db \<Rightarrow> uuid \<Rightarrow> date_ms \<Rightarrow> public_agent list tx" where
  "public_agents d officeId at =
     mapM_r (public_agent_of d at) (sort_by compare_mounts (visible_mounts d officeId))"

definition leaderboard_entry :: "office_leaderboard_score \<Rightarrow> public_leaderboard_entry" where
  "leaderboard_entry s =
     \<lparr>le_rank = ls_rank s, le_mount_id = ls_mountId s, le_alias = ls_alias s,
      le_pet_id = ls_petId s, le_slacking_seconds = ls_slackingSeconds s\<rparr>"

definition latest_result :: "db \<Rightarrow> uuid \<Rightarrow> day_result_row option" where
  "latest_result d officeId =
     first_row (sort_by (\<lambda>a b. dr_office_local_date b - dr_office_local_date a)
       (filter (\<lambda>r. dr_office_id r = officeId) (db_day_results d)))"

definition award_visible :: "db \<Rightarrow> day_result_row \<Rightarrow> day_winner \<Rightarrow> bool" where
  "award_visible d r w =
     (case select_one (\<lambda>m. mt_office_id m = dr_office_id r \<and> mt_id m = wn_mount_id w) (db_mounts d) of
        None \<Rightarrow> False
      | Some m \<Rightarrow> mt_active m \<and> mt_stats_opt_in m)"

definition daily_award :: "db \<Rightarrow> day_result_row option \<Rightarrow> public_daily_award option tx" where
  "daily_award d award =
     (case award of
        None \<Rightarrow> Inr None
      | Some r \<Rightarrow>
          (case dr_winner r of
             None \<Rightarrow> Inr None
           | Some w \<Rightarrow>
               if award_visible d r w
               then rbind (parse_integer_range 1 MAX_SAFE_INTEGER (wn_slacking_seconds w)
                             ''award slacking seconds'') (\<lambda>n.
                    Inr (Some \<lparr>aw_office_local_date = dr_office_local_date r,
                      aw_awarded_at = dr_settled_at r, aw_mount_id = wn_mount_id w,
                      aw_alias = wn_alias w, aw_pet_id = wn_pet_id w, aw_slacking_seconds = n\<rparr>))
               else Inr None))"

definition build_public_office_snapshot ::
  "time_zones \<Rightarrow> db \<Rightarrow> uuid \<Rightarrow> int \<Rightarrow> date_ms \<Rightarrow> public_office_snapshot tx" where
  "build_public_office_snapshot zones d officeId revision at =
     rbind (from_option ''Office disappeared while building its public projection'' (find_office d officeId))
       (\<lambda>office.
     rbind (office_day_at zones d office at) (\<lambda>local_date.
     rbind (parse_integer_range 1 MAX_SAFE_INTEGER (of_revision office) ''stored office revision'') (\<lambda>stored.
     rbind (guard_r (stored = revision)
              (Failure ''Office revision changed during projection materialization'')) (\<lambda>_.
     rbind (public_agents d officeId at) (\<lambda>agents.
     rbind (query_office_leaderboard d officeId local_date at 500) (\<lambda>scores.
     rbind (daily_award d (latest_result d officeId)) (\<lambda>award.
       Inr \<lparr>ps_office_revision = revision, ps_generated_at = at, ps_office_name = of_name office,
            ps_local_date = local_date, ps_timezone = of_timezone office,
            ps_rooms = public_rooms d officeId, ps_agents = agents,
            ps_leaderboard_local_date = local_date,
            ps_leaderboard_status =
              (case latest_result d officeId of
                 None \<Rightarrow> Provisional
               | Some r \<Rightarrow> if dr_office_local_date r = local_date then Final else Provisional),
            ps_leaderboard_as_of = at, ps_leaderboard_entries = map leaderboard_entry scores,
            ps_daily_award = award, ps_demo_data = of_demo_data office\<rparr>)))))))"

section \<open>The JSON of a snapshot\<close>

definition display_state_text :: "display_state \<Rightarrow> string" where
  "display_state_text s = (case s of D_idle \<Rightarrow> ''idle'' | D_working \<Rightarrow> ''working''
     | D_waiting \<Rightarrow> ''waiting'' | D_done \<Rightarrow> ''done'' | D_failed \<Rightarrow> ''failed'')"

definition idle_stage_text :: "idle_stage \<Rightarrow> string" where
  "idle_stage_text s = (case s of Stage_none \<Rightarrow> ''none'' | Fresh \<Rightarrow> ''fresh'' | Salted \<Rightarrow> ''salted''
     | Costume \<Rightarrow> ''costume'' | Fish \<Rightarrow> ''fish'')"

definition jtext :: "string \<Rightarrow> json" where
  "jtext s = JStr (js s)"

definition jopt :: "('a \<Rightarrow> json) \<Rightarrow> 'a option \<Rightarrow> json" where
  "jopt f v = (case v of None \<Rightarrow> JNull | Some x \<Rightarrow> f x)"

definition jobj :: "(string \<times> json) list \<Rightarrow> json" where
  "jobj kvs = JObj (map (\<lambda>(k, v). (js k, v)) kvs)"

definition disclaimer :: js_string where
  "disclaimer = [36259, 21619, 32479, 35745, 32, 183, 32, 38750, 32771, 21220, 20381, 25454]"

definition room_json :: "public_room \<Rightarrow> json" where
  "room_json r = jobj [(''room_id'', jtext (pu_room_id r)), (''name'', JStr (pu_room_name r)),
     (''scene_capacity'', JNum (pu_scene_capacity r))]"

definition agent_json :: "public_agent \<Rightarrow> json" where
  "agent_json a = jobj [(''mount_id'', jtext (pa_mount_id a)), (''room_id'', jtext (pa_room_id a)),
     (''alias'', JStr (pa_alias a)), (''pet_id'', jtext (pa_pet_id a)),
     (''presence'', jtext (case pa_presence a of Online \<Rightarrow> ''online'' | Offline \<Rightarrow> ''offline'')),
     (''display_state'', jopt (\<lambda>s. jtext (display_state_text s)) (pa_display_state a)),
     (''idle_stage'', jtext (idle_stage_text (pa_idle_stage a))),
     (''scene_slot'', jopt JNum (pa_scene_slot a))]"

definition entry_json :: "public_leaderboard_entry \<Rightarrow> json" where
  "entry_json e = jobj [(''rank'', JNum (le_rank e)), (''mount_id'', jtext (le_mount_id e)),
     (''alias'', JStr (le_alias e)), (''pet_id'', jtext (le_pet_id e)),
     (''slacking_seconds'', JNum (le_slacking_seconds e))]"

definition award_json :: "public_daily_award \<Rightarrow> json" where
  "award_json a = jobj [(''office_local_date'', JStr (date_text (aw_office_local_date a))),
     (''awarded_at'', JStr (to_iso_string (aw_awarded_at a))), (''final'', JBool True),
     (''winner'', jobj [(''mount_id'', jtext (aw_mount_id a)), (''alias'', JStr (aw_alias a)),
       (''pet_id'', jtext (aw_pet_id a)), (''slacking_seconds'', JNum (aw_slacking_seconds a))])]"

definition snapshot_json :: "public_office_snapshot \<Rightarrow> json" where
  "snapshot_json s = jobj [(''schema_version'', JNum 1),
     (''office_revision'', JNum (ps_office_revision s)),
     (''generated_at'', JStr (to_iso_string (ps_generated_at s))),
     (''office'', jobj [(''name'', JStr (ps_office_name s)),
        (''local_date'', JStr (date_text (ps_local_date s))), (''timezone'', jtext (ps_timezone s))]),
     (''rooms'', JArr (map room_json (ps_rooms s))),
     (''agents'', JArr (map agent_json (ps_agents s))),
     (''leaderboard'', jobj [(''office_local_date'', JStr (date_text (ps_leaderboard_local_date s))),
        (''status'', jtext (case ps_leaderboard_status s of Provisional \<Rightarrow> ''provisional'' | Final \<Rightarrow> ''final'')),
        (''as_of'', JStr (to_iso_string (ps_leaderboard_as_of s))),
        (''entries'', JArr (map entry_json (ps_leaderboard_entries s)))]),
     (''daily_award'', jopt award_json (ps_daily_award s)),
     (''demo_data'', JBool (ps_demo_data s)),
     (''disclaimer'', JStr disclaimer)]"

section \<open>What a snapshot reveals\<close>

lemma query_office_leaderboard_rows:
  assumes "query_office_leaderboard d oid day t limit = Inr ls" "x \<in> set ls"
  shows "\<exists>r\<in>set (totals d oid day t). ls_mountId x = lt_mount_id r \<and> ls_logicalAgentId x = lt_logical_agent_id r
    \<and> ls_slackingSeconds x = lt_slacking_seconds r"
proof -
  let ?rows = "take (nat limit) (sort_by compare_totals (totals d oid day t))"
  from assms(1) have "mapM_r (\<lambda>(r, i). leaderboard_score r i) (zip ?rows [0..<length ?rows]) = Inr ls"
    by (simp add: query_office_leaderboard_def result_simps Let_def del: length_take)
  from mapM_r_member [OF this assms(2)] obtain r i where
    "(r, i) \<in> set (zip ?rows [0..<length ?rows])" "leaderboard_score r i = Inr x"
    by (auto simp del: length_take)
  then have "r \<in> set (totals d oid day t)" "leaderboard_score r i = Inr x"
    by (auto dest!: set_zip_leftD in_set_takeD)
  then show ?thesis
    by (auto simp: leaderboard_score_def result_simps parse_safe_positive_integer_def)
qed

lemma totals_mount:
  assumes "r \<in> set (totals d oid day t)"
  shows "\<exists>m\<in>set (db_mounts d). mt_office_id m = oid \<and> mt_active m \<and> mt_stats_opt_in m \<and> lt_mount_id r = mt_id m"
proof -
  from assms obtain part where "part \<in> set (partitions (valid_intersections d oid day t))" "r = total_of part"
    by (auto simp: totals_def)
  moreover from this(1) have "hd part \<in> set (valid_intersections d oid day t)" by (rule partitionsE)
  ultimately show ?thesis
    using valid_intersections_mount [of "hd part" d oid day t] by (auto simp: total_of_def Let_def)
qed

lemma public_agent_of_fields:
  assumes "public_agent_of d at (m, g) = Inr a"
  shows "pa_mount_id a = mt_id m" "pa_room_id a = mt_room_id m" "pa_scene_slot a = mt_scene_slot m"
    and "pa_presence a = Offline \<Longrightarrow> pa_display_state a = None \<and> pa_idle_stage a = Stage_none"
    and "pa_idle_stage a \<noteq> Stage_none \<Longrightarrow> mt_stats_opt_in m"
proof -
  show "pa_mount_id a = mt_id m" "pa_room_id a = mt_room_id m" "pa_scene_slot a = mt_scene_slot m"
    "pa_presence a = Offline \<Longrightarrow> pa_display_state a = None \<and> pa_idle_stage a = Stage_none"
    using assms by (auto simp: public_agent_of_def result_simps split: option.splits)
  have "eligible_since d m iid at = None" if "\<not> mt_stats_opt_in m" for iid
    using that by (simp add: eligible_since_def eligible_starts_def Let_def)
  then show "pa_idle_stage a \<noteq> Stage_none \<Longrightarrow> mt_stats_opt_in m"
    using assms
    by (cases "mt_stats_opt_in m")
      (auto simp: public_agent_of_def result_simps agent_idle_stage_def split: option.splits)
qed

definition reveals_only_consented :: "db \<Rightarrow> uuid \<Rightarrow> public_office_snapshot \<Rightarrow> bool" where
  "reveals_only_consented d oid s \<longleftrightarrow>
    (\<forall>a\<in>set (ps_agents s). (\<exists>m\<in>set (db_mounts d). mt_id m = pa_mount_id a \<and> mt_office_id m = oid
          \<and> mt_active m \<and> mt_presence_visible m \<and> (pa_idle_stage a \<noteq> Stage_none \<longrightarrow> mt_stats_opt_in m))
        \<and> (pa_presence a = Offline \<longrightarrow> pa_display_state a = None \<and> pa_idle_stage a = Stage_none))
    \<and> (\<forall>e\<in>set (ps_leaderboard_entries s). \<exists>m\<in>set (db_mounts d). mt_id m = le_mount_id e
        \<and> mt_office_id m = oid \<and> mt_active m \<and> mt_stats_opt_in m)
    \<and> (\<forall>w. ps_daily_award s = Some w \<longrightarrow> (\<exists>m\<in>set (db_mounts d). mt_id m = aw_mount_id w
        \<and> mt_office_id m = oid \<and> mt_active m \<and> mt_stats_opt_in m))"

lemma build_reveals_only_consented:
  assumes "build_public_office_snapshot zones d oid r t = Inr s"
  shows "reveals_only_consented d oid s"
proof -
  from assms obtain day agents scores award where
    agents: "public_agents d oid t = Inr agents" "ps_agents s = agents"
    and scores: "query_office_leaderboard d oid day t 500 = Inr scores"
      "ps_leaderboard_entries s = map leaderboard_entry scores"
    and award: "daily_award d (latest_result d oid) = Inr award" "ps_daily_award s = award"
    by (auto simp: build_public_office_snapshot_def result_simps)
  have "(\<exists>m\<in>set (db_mounts d). mt_id m = pa_mount_id a \<and> mt_office_id m = oid
          \<and> mt_active m \<and> mt_presence_visible m \<and> (pa_idle_stage a \<noteq> Stage_none \<longrightarrow> mt_stats_opt_in m))
        \<and> (pa_presence a = Offline \<longrightarrow> pa_display_state a = None \<and> pa_idle_stage a = Stage_none)"
    if "a \<in> set agents" for a
  proof -
    from mapM_r_member [OF agents(1) [unfolded public_agents_def] that] obtain m g where
      "(m, g) \<in> set (sort_by compare_mounts (visible_mounts d oid))"
      and a: "public_agent_of d t (m, g) = Inr a" by auto
    then have "(m, g) \<in> set (visible_mounts d oid)" by simp
    then have "m \<in> set (db_mounts d)" "mt_office_id m = oid" "mt_active m" "mt_presence_visible m"
      by (auto simp: visible_mounts_def split: if_splits)
    with public_agent_of_fields [OF a] show ?thesis by auto
  qed
  moreover have "\<exists>m\<in>set (db_mounts d). mt_id m = ls_mountId x \<and> mt_office_id m = oid \<and> mt_active m \<and> mt_stats_opt_in m"
    if "x \<in> set scores" for x
    using query_office_leaderboard_rows [OF scores(1) that] totals_mount by metis
  moreover have "\<exists>m\<in>set (db_mounts d). mt_id m = aw_mount_id w \<and> mt_office_id m = oid \<and> mt_active m \<and> mt_stats_opt_in m"
    if "award = Some w" for w
  proof -
    from award(1) that obtain res win where res: "latest_result d oid = Some res" "award_visible d res win"
      "aw_mount_id w = wn_mount_id win"
      by (auto simp: daily_award_def result_simps split: option.splits if_splits)
    from res(1) have "res \<in> set (filter (\<lambda>r. dr_office_id r = oid) (db_day_results d))"
      unfolding latest_result_def by (rule first_of_sort_by)
    then have "dr_office_id res = oid" by simp
    with res(2,3) show ?thesis
      by (auto simp: award_visible_def split: option.splits dest!: select_one_SomeD)
  qed
  ultimately show ?thesis
    by (auto simp: reveals_only_consented_def agents(2) scores(2) award(2) leaderboard_entry_def)
qed

text \<open>
  C3: A snapshot reveals only what was consented to. In every snapshot that is built, each
  listed agent sits on an active mount of the office with visible presence, and shows an idle
  stage only if that mount opted into statistics; an offline agent shows no state; each
  leaderboard entry and the winner of the daily award belong to an active mount of the office
  that opted into statistics.
\<close>

theorem snapshot_reveals_consented:
  assumes "build_public_office_snapshot zones d oid r t = Inr s"
  shows "(\<forall>a\<in>set (ps_agents s). (\<exists>m\<in>set (db_mounts d). mt_id m = pa_mount_id a \<and> mt_office_id m = oid
          \<and> mt_active m \<and> mt_presence_visible m \<and> (pa_idle_stage a \<noteq> Stage_none \<longrightarrow> mt_stats_opt_in m))
        \<and> (pa_presence a = Offline \<longrightarrow> pa_display_state a = None \<and> pa_idle_stage a = Stage_none))
    \<and> (\<forall>e\<in>set (ps_leaderboard_entries s). \<exists>m\<in>set (db_mounts d). mt_id m = le_mount_id e
        \<and> mt_office_id m = oid \<and> mt_active m \<and> mt_stats_opt_in m)
    \<and> (\<forall>w. ps_daily_award s = Some w \<longrightarrow> (\<exists>m\<in>set (db_mounts d). mt_id m = aw_mount_id w
        \<and> mt_office_id m = oid \<and> mt_active m \<and> mt_stats_opt_in m))"
  using build_reveals_only_consented [OF assms] unfolding reveals_only_consented_def .

section \<open>The snapshot of a well-formed database\<close>

text \<open>
  What the constraints of the schema give (primary and unique keys, the room of a mount, the
  range of settled scores), and what they do not: that a scene slot is within its room.
\<close>

definition office_wf :: "db \<Rightarrow> uuid \<Rightarrow> date_ms \<Rightarrow> bool" where
  "office_wf d oid t \<longleftrightarrow> leaderboard_wf d t
     \<and> distinct (map mt_id (db_mounts d)) \<and> distinct (map ag_id (db_agents d))
     \<and> distinct (map rm_id (db_rooms d))
     \<and> (\<forall>m\<in>set (db_mounts d). mt_office_id m = oid \<and> mt_active m \<longrightarrow>
          (\<exists>r\<in>set (db_rooms d). rm_office_id r = oid \<and> rm_id r = mt_room_id m
             \<and> (case mt_scene_slot m of None \<Rightarrow> True | Some s \<Rightarrow> s < rm_scene_capacity r)))
     \<and> (\<forall>m\<in>set (db_mounts d). \<forall>m'\<in>set (db_mounts d). mt_office_id m = oid \<and> mt_office_id m' = oid
          \<and> mt_active m \<and> mt_active m' \<and> mt_room_id m = mt_room_id m' \<and> mt_scene_slot m = mt_scene_slot m'
          \<and> mt_scene_slot m \<noteq> None \<longrightarrow> m = m')
     \<and> (\<forall>r\<in>set (db_day_results d). \<forall>w. dr_winner r = Some w \<longrightarrow>
          1 \<le> wn_slacking_seconds w \<and> wn_slacking_seconds w \<le> MAX_SAFE_INTEGER)"

interpretation rooms_cmp: comparator compare_rooms "\<lambda>_. True"
  by unfold_locales (auto simp: compare_rooms_def split: if_splits)

interpretation occurrences_cmp: comparator compare_current "\<lambda>_. True"
  by unfold_locales (auto simp: compare_current_def split: if_splits)

interpretation totals_cmp: comparator compare_totals "\<lambda>_. True"
  by unfold_locales (auto simp: compare_totals_def ext_sub_le or_infinity_def split: if_splits option.splits)

interpretation mounts_cmp: comparator compare_mounts "\<lambda>_. True"
  by unfold_locales
    (auto simp: compare_mounts_def ext_sub_le or_infinity_def split: if_splits option.splits)

lemma distinct_concat_single:
  assumes "distinct ms" "\<And>m. m \<in> set ms \<Longrightarrow> length (g m) \<le> 1" "\<And>m y. y \<in> set (g m) \<Longrightarrow> key y = m"
  shows "distinct (map key (concat (map g ms)))"
  using assms
proof (induction ms)
  case (Cons m ms)
  then have IH: "distinct (map key (concat (map g ms)))" by simp
  have "key ` set (concat (map g ms)) \<subseteq> set ms"
    using Cons.prems(3) by fastforce
  moreover have "distinct (map key (g m))" "key ` set (g m) \<subseteq> {m}"
    using Cons.prems(2,3) by (cases "g m"; fastforce)+
  ultimately show ?case using IH Cons.prems(1) by auto
qed simp

lemma visible_mounts_distinct:
  assumes "distinct (db_mounts d)" "distinct (map ag_id (db_agents d))"
  shows "distinct (map fst (visible_mounts d oid))"
proof -
  have "concat (map (\<lambda>g. if P g then [(m, g)] else []) gs) = map (Pair m) (filter P gs)"
    for m :: mount_row and P and gs :: "agent_row list"
    by (induction gs) auto
  then show ?thesis
    unfolding visible_mounts_def using at_most_one_row [OF assms(2)]
    by (intro distinct_concat_single [OF assms(1)]) (auto split: if_splits)
qed

lemma visible_mounts_member:
  "(m, g) \<in> set (visible_mounts d oid) \<Longrightarrow> m \<in> set (db_mounts d) \<and> mt_office_id m = oid
    \<and> mt_active m \<and> mt_presence_visible m"
  by (auto simp: visible_mounts_def split: if_splits)

lemma eligible_since_bounds:
  assumes "leaderboard_wf d t" "eligible_since d m iid t = Some s"
  shows "0 \<le> s \<and> s \<le> t"
proof -
  have q: "\<forall>q\<in>set (db_qualifications d). 0 \<le> ql_started_at q"
    using assms(1) by (simp add: leaderboard_wf_def)
  have "0 \<le> x \<and> x \<le> t" if x: "x \<in> set (eligible_starts d m iid t)" for x
  proof -
    have start: "ql_started_at q \<le> max (max y (ql_started_at q)) z" for q y z by simp
    from x have "\<exists>q\<in>set (db_qualifications d). ql_started_at q \<le> x"
      unfolding eligible_starts_def by (auto intro: start split: if_splits)
    moreover from x have "x \<le> t"
      unfolding eligible_starts_def by (auto split: if_splits)
    ultimately show ?thesis using q by force
  qed
  moreover have "s \<in> set (eligible_starts d m iid t)"
  proof -
    from assms(2) have "eligible_starts d m iid t \<noteq> []" "s = Min (set (eligible_starts d m iid t))"
      by (auto simp: eligible_since_def Let_def split: if_splits)
    then show ?thesis using Min_in [of "set (eligible_starts d m iid t)"] by simp
  qed
  ultimately show ?thesis by blast
qed

lemma agent_idle_stage_ok:
  assumes "leaderboard_wf d t"
  shows "\<exists>st. agent_idle_stage (eligible_since d m iid t) t = Inr st"
proof (cases "eligible_since d m iid t")
  case None
  then show ?thesis by (simp add: agent_idle_stage_def)
next
  case (Some s)
  have t: "valid_timestamp t" using assms by (simp add: leaderboard_wf_def)
  with eligible_since_bounds [OF assms Some] have "valid_timestamp s"
    by (simp add: valid_timestamp_def is_safe_integer_def)
  from idle_stage_ok [OF this t] Some show ?thesis by (simp add: agent_idle_stage_def)
qed

lemma public_agents_ok:
  assumes "office_wf d oid t"
  obtains agents where "public_agents d oid t = Inr agents" "distinct (map pa_mount_id agents)"
    "distinct (agent_slots agents)" "\<forall>a\<in>set agents. agent_placed (public_rooms d oid) a"
proof -
  let ?vs = "sort_by compare_mounts (visible_mounts d oid)"
  have wf: "leaderboard_wf d t" using assms by (simp add: office_wf_def)
  have dist: "distinct (db_mounts d)" "distinct (map mt_id (db_mounts d))" "distinct (map ag_id (db_agents d))"
    using assms by (auto simp: office_wf_def distinct_map)
  have "\<exists>a. public_agent_of d t (m, g) = Inr a" for m g
  proof (cases "online_presence d g t")
    case None
    then show ?thesis by (simp add: public_agent_of_def)
  next
    case (Some ip)
    obtain iid p where "ip = (iid, p)" by (cases ip)
    moreover from agent_idle_stage_ok [OF wf] obtain st where
      "agent_idle_stage (eligible_since d m iid t) t = Inr st" by blast
    ultimately show ?thesis using Some by (simp add: public_agent_of_def)
  qed
  then have "\<exists>a. public_agent_of d t v = Inr a" for v by (cases v) blast
  then obtain agents where agents: "mapM_r (public_agent_of d t) ?vs = Inr agents"
    using mapM_r_total [of ?vs "public_agent_of d t"] by auto
  have member: "m \<in> set (db_mounts d) \<and> mt_office_id m = oid \<and> mt_active m" if "m \<in> fst ` set ?vs" for m
    using that visible_mounts_member by fastforce
  have dv: "distinct (map fst ?vs)"
    using visible_mounts_distinct [OF dist(1,3), of oid] by (metis mset_map mset_sort_by mset_eq_imp_distinct_iff)
  have ids: "map pa_mount_id agents = map mt_id (map fst ?vs)"
    unfolding map_map comp_def by (rule mapM_r_map [OF agents]) (metis prod.collapse public_agent_of_fields(1))
  have slots: "agent_slots agents = concat (map (\<lambda>m. case mt_scene_slot m of None \<Rightarrow> []
      | Some s \<Rightarrow> [(mt_room_id m, s)]) (map fst ?vs))"
    unfolding agent_slots_def map_map comp_def
    by (rule arg_cong [of _ _ concat], rule mapM_r_map [OF agents])
      (metis prod.collapse public_agent_of_fields(2,3))
  have "distinct (map mt_id (map fst ?vs))"
  proof -
    have "set (map fst ?vs) \<subseteq> set (db_mounts d)" using member by auto
    moreover have "inj_on mt_id (set (db_mounts d))" using dist(2) by (simp add: distinct_map)
    ultimately have "inj_on mt_id (set (map fst ?vs))" by (rule inj_on_subset [rotated])
    with dv show ?thesis by (simp only: distinct_map simp_thms)
  qed
  then have "distinct (map pa_mount_id agents)" by (simp only: ids)
  moreover have "distinct (agent_slots agents)"
  proof -
    have "distinct (concat (map (\<lambda>m. case mt_scene_slot m of None \<Rightarrow> [] | Some s \<Rightarrow> [(mt_room_id m, s)]) ms))"
      if "distinct ms" "\<forall>m\<in>set ms. m \<in> set (db_mounts d) \<and> mt_office_id m = oid \<and> mt_active m" for ms
      using that
    proof (induction ms)
      case (Cons m ms)
      have "m' = m" if "m' \<in> set ms" "mt_room_id m' = mt_room_id m" "mt_scene_slot m' = mt_scene_slot m"
        "mt_scene_slot m \<noteq> None" for m'
        using that Cons.prems(2) assms unfolding office_wf_def by (metis list.set_intros(1,2))
      with Cons show ?case by (fastforce split: option.splits)
    qed simp
    from this [OF dv] member show ?thesis by (simp add: slots)
  qed
  moreover have "agent_placed (public_rooms d oid) a" if "a \<in> set agents" for a
  proof -
    from mapM_r_member [OF agents that] obtain m g where v: "(m, g) \<in> set ?vs"
      and a: "public_agent_of d t (m, g) = Inr a" by auto
    from v have "m \<in> fst ` set ?vs" by force
    from member [OF this] assms obtain r where r: "r \<in> set (db_rooms d)" "rm_office_id r = oid"
      "rm_id r = mt_room_id m" "case mt_scene_slot m of None \<Rightarrow> True | Some s \<Rightarrow> s < rm_scene_capacity r"
      unfolding office_wf_def by blast
    let ?r = "\<lparr>pu_room_id = rm_id r, pu_room_name = rm_name r, pu_scene_capacity = rm_scene_capacity r\<rparr>"
    have "?r \<in> set (public_rooms d oid)"
      unfolding public_rooms_def using r(1,2) by (auto intro: image_eqI [of _ _ r])
    moreover have "pu_room_id ?r = pa_room_id a"
      "case pa_scene_slot a of None \<Rightarrow> True | Some s \<Rightarrow> s < pu_scene_capacity ?r"
      using public_agent_of_fields(2,3) [OF a] r(3,4) by (simp_all split: option.splits)
    ultimately show ?thesis unfolding agent_placed_def by blast
  qed
  ultimately show thesis using that agents by (simp add: public_agents_def)
qed

lemma leaderboard_entries_ok:
  assumes "leaderboard_wf d t"
  obtains scores where "query_office_leaderboard d oid day t 500 = Inr scores"
    "map ls_rank scores = map int [1..<Suc (length scores)]" "distinct (map ls_mountId scores)"
    "sorted_wrt (\<lambda>a b. ls_slackingSeconds b \<le> ls_slackingSeconds a) scores"
proof -
  define rows where "rows = take 500 (sort_by compare_totals (totals d oid day t))"
  let ?scores = "map2 score_row rows [0..<length rows]"
  have "map ls_rank ?scores = map int [1..<Suc (length ?scores)]"
    by (rule nth_equalityI) (auto simp: score_row_def simp del: upt_Suc)
  moreover have "map ls_mountId ?scores = map lt_mount_id rows"
    by (rule nth_equalityI) (auto simp: score_row_def)
  moreover have "distinct (map lt_mount_id rows)"
  proof -
    have "lt_mount_id (total_of p) = sg_mount_id (hd p)" for p
      by (simp add: total_of_def Let_def)
    then have "distinct (map lt_mount_id (map total_of (partitions (valid_intersections d oid day t))))"
      using distinct_partitions by (simp add: comp_def)
    then have "distinct (map lt_mount_id (totals d oid day t))"
      unfolding totals_def by (rule distinct_map_filter)
    then have "distinct (map lt_mount_id (sort_by compare_totals (totals d oid day t)))"
      by (metis mset_map mset_sort_by mset_eq_imp_distinct_iff)
    then show ?thesis by (simp add: rows_def distinct_take flip: take_map)
  qed
  moreover have "sorted_wrt (\<lambda>a b. ls_slackingSeconds b \<le> ls_slackingSeconds a) ?scores"
  proof -
    have "sorted_wrt (\<lambda>a b. compare_totals a b \<le> 0) rows"
      unfolding rows_def by (intro sorted_wrt_take totals_cmp.sorted_sort_by) simp
    then have "sorted_wrt (\<lambda>a b. lt_slacking_seconds b \<le> lt_slacking_seconds a) rows"
      by (rule sorted_wrt_mono_rel [rotated]) (auto simp: compare_totals_def split: if_splits)
    then show ?thesis by (simp add: sorted_wrt_iff_nth_less score_row_def)
  qed
  moreover have "query_office_leaderboard d oid day t 500 = Inr ?scores"
    using query_office_leaderboard_ok [OF assms, of 500 oid day] by (simp add: rows_def Let_def)
  ultimately show thesis using that by metis
qed

lemma well_formed_snapshot:
  assumes "office_wf d oid t" "find_office d oid = Some office" "1 \<le> of_revision office"
    and "of_revision office \<le> MAX_SAFE_INTEGER" "office_day_at zones d office t = Inr day"
  shows "\<exists>s. build_public_office_snapshot zones d oid (of_revision office) t = Inr s
    \<and> snapshot_consistent s \<and> ps_local_date s = day"
proof -
  have wf: "leaderboard_wf d t" using assms(1) by (simp add: office_wf_def)
  from public_agents_ok [OF assms(1)] obtain agents where agents: "public_agents d oid t = Inr agents"
    "distinct (map pa_mount_id agents)" "distinct (agent_slots agents)"
    "\<forall>a\<in>set agents. agent_placed (public_rooms d oid) a" .
  from leaderboard_entries_ok [OF wf, of oid day] obtain scores where
    scores: "query_office_leaderboard d oid day t 500 = Inr scores"
    "map ls_rank scores = map int [1..<Suc (length scores)]" "distinct (map ls_mountId scores)"
    "sorted_wrt (\<lambda>a b. ls_slackingSeconds b \<le> ls_slackingSeconds a) scores" .
  obtain award where award: "daily_award d (latest_result d oid) = Inr award"
  proof (cases "latest_result d oid")
    case None
    with that show thesis by (simp add: daily_award_def)
  next
    case (Some r)
    then have "r \<in> set (db_day_results d)"
      unfolding latest_result_def by (auto dest: first_of_sort_by)
    then have "\<forall>w. dr_winner r = Some w \<longrightarrow> 1 \<le> wn_slacking_seconds w \<and> wn_slacking_seconds w \<le> MAX_SAFE_INTEGER"
      using assms(1) by (simp add: office_wf_def)
    with Some that show thesis
      by (cases "dr_winner r"; cases "award_visible d r (the (dr_winner r))") (simp_all add: daily_award_def)
  qed
  have rooms: "distinct (map pu_room_id (public_rooms d oid))"
  proof -
    have "distinct (map rm_id (filter (\<lambda>r. rm_office_id r = oid) (db_rooms d)))"
      using assms(1) by (simp add: office_wf_def distinct_map_filter)
    then show ?thesis
      by (simp add: public_rooms_def comp_def) (metis mset_map mset_sort_by mset_eq_imp_distinct_iff)
  qed
  have "le_rank \<circ> leaderboard_entry = ls_rank" "le_mount_id \<circ> leaderboard_entry = ls_mountId"
    "\<And>x. le_slacking_seconds (leaderboard_entry x) = ls_slackingSeconds x"
    by (auto simp: leaderboard_entry_def)
  with assms(2-5) agents scores award rooms show ?thesis
    by (auto simp: build_public_office_snapshot_def snapshot_consistent_def
        sorted_wrt_map)
qed

text \<open>
  A well-formed office always has a consistent snapshot. When the database satisfies the
  schema's constraints and every occupied scene slot is within its room's capacity, building
  the snapshot of a stored revision succeeds, and the semantic checks of the validator accept
  the result: known and distinct rooms, mounts and slots, and a leaderboard with consecutive
  ranks, distinct mounts and non-increasing scores.
\<close>

theorem well_formed_office_projects:
  assumes "office_wf d oid t" "find_office d oid = Some office" "1 \<le> of_revision office"
    and "of_revision office \<le> MAX_SAFE_INTEGER" "office_day_at zones d office t = Inr day"
  shows "\<exists>s. build_public_office_snapshot zones d oid (of_revision office) t = Inr s
    \<and> assert_semantic_invariants s = Inr () \<and> ps_local_date s = day"
  using well_formed_snapshot [OF assms] by (simp add: assert_semantic_invariants_iff)

section \<open>A sample office with a room\<close>

definition sample_office_db :: "int \<Rightarrow> db" where
  "sample_office_db r = sample_db\<lparr>
     db_offices := [\<lparr>of_id = ''f'', of_owner_account_id = ''o'', of_name = js ''Lab'',
       of_timezone = ''z'', of_demo_data = False, of_revision = r, of_minimum_replay_revision = r,
       of_created_at = 0, of_deletion_requested_at = None\<rparr>],
     db_rooms := [\<lparr>rm_id = ''r'', rm_office_id = ''f'', rm_name = js ''Den'',
       rm_scene_capacity = 4, rm_created_at = 0\<rparr>]\<rparr>"

lemma sample_office_wf: "office_wf (sample_office_db r) ''f'' 3000000"
proof -
  have "leaderboard_wf (sample_office_db r) 3000000"
    using sample_db_wf by (simp add: leaderboard_wf_def sample_office_db_def)
  then show ?thesis
    by (simp add: office_wf_def sample_office_db_def sample_db_def empty_db_def)
qed

lemma sample_office_day:
  "find_office (sample_office_db 1) ''f'' = Some (hd (db_offices (sample_office_db 1)))
   \<and> office_day_at fold_zone (sample_office_db 1) (hd (db_offices (sample_office_db 1))) 3000000 = Inr 0"
  by (simp add: sample_office_db_def sample_db_def empty_db_def find_office_def office_day_at_def
      sort_by_def)

lemma well_formed_office_projects_witness:
  "\<exists>s. build_public_office_snapshot fold_zone (sample_office_db 1) ''f'' 1 3000000 = Inr s
    \<and> assert_semantic_invariants s = Inr () \<and> ps_local_date s = 0"
proof -
  have rev: "of_revision (hd (db_offices (sample_office_db 1))) = 1" by (simp add: sample_office_db_def)
  have "(1 :: int) \<le> 1" "(1 :: int) \<le> MAX_SAFE_INTEGER" by (simp_all add: MAX_SAFE_INTEGER_def)
  from well_formed_office_projects [OF sample_office_wf sample_office_day [THEN conjunct1],
      unfolded rev, OF this sample_office_day [THEN conjunct2]]
  show ?thesis .
qed

lemma snapshot_reveals_consented_witness:
  "\<exists>s. build_public_office_snapshot fold_zone (sample_office_db 1) ''f'' 1 3000000 = Inr s
    \<and> length (ps_leaderboard_entries s) = 1
    \<and> (\<forall>e\<in>set (ps_leaderboard_entries s). \<exists>m\<in>set (db_mounts (sample_office_db 1)). mt_id m = le_mount_id e
        \<and> mt_office_id m = ''f'' \<and> mt_active m \<and> mt_stats_opt_in m)"
proof -
  define snap where "snap = build_public_office_snapshot fold_zone (sample_office_db 1) ''f'' 1 3000000"
  have "case snap of Inl _ \<Rightarrow> False | Inr s \<Rightarrow> length (ps_leaderboard_entries s) = 1"
    unfolding snap_def by code_simp
  then obtain s where s: "snap = Inr s" and n: "length (ps_leaderboard_entries s) = 1"
    by (auto split: sum.splits)
  from snapshot_reveals_consented [OF s [unfolded snap_def]] s n show ?thesis
    by (simp add: snap_def)
qed

end
