(* ===== verification/Revision_Log.thy ===== *)
theory Revision_Log
  imports Projector
begin

text \<open>
  Recording a revision (recordPublicRevision and createPublicOfficeProjector of
  public-office/application/public-office-projector.ts) and the revision log of an office: its
  revision counter, the retained events, the current projection and the outbox. The locale
  \<open>replay_log\<close> is the contract on which readers of the log rely: the retained events are the
  consecutive revisions after the replay floor, up to the current one.
\<close>

section \<open>Recording\<close>

record revision_input =
  ri_officeId :: uuid
  ri_eventType :: public_event_type
  ri_sourceKind :: source_kind
  ri_sourceKey :: js_string
  ri_sourceReceiptId :: "uuid option"
  ri_at :: date_ms

text \<open>
  What a call reads from outside: the time zones, the schema of the validator when there is one,
  the database clock at the revision update and the random uuids it draws.
\<close>

record projector_env =
  px_zones :: time_zones
  px_schema :: "(public_office_snapshot \<Rightarrow> bool) option"
  px_clock :: timestamp_us
  px_outbox_id :: uuid
  px_occurrence_id :: "uuid \<Rightarrow> local_date \<Rightarrow> uuid"

definition projection_clock :: "projector_env \<Rightarrow> revision_input \<Rightarrow> db \<Rightarrow> date_ms" where
  "projection_clock env input d =
     (let latest = max (px_clock env) (to_timestamp (ri_at input)) in
      to_date (case find_projection d (ri_officeId input) of
                 None \<Rightarrow> latest
               | Some p \<Rightarrow> max latest (to_timestamp (pj_generated_at p))))"

definition advance_revision :: "uuid \<Rightarrow> db \<Rightarrow> (int \<times> db) tx" where
  "advance_revision officeId d =
     (case select_one (\<lambda>o'. of_id o' = officeId \<and> of_revision o' < 9007199254740991) (db_offices d) of
        None \<Rightarrow> Inl (Failure ''Office revision could not advance'')
      | Some o' \<Rightarrow>
          rbind (parse_integer_range 1 MAX_SAFE_INTEGER (of_revision o' + 1) ''office revision'') (\<lambda>revision.
          Inr (revision, d\<lparr>db_offices :=
            update_where (\<lambda>x. of_id x = officeId \<and> of_revision x < 9007199254740991)
              (\<lambda>x. x\<lparr>of_revision := of_revision x + 1\<rparr>) (db_offices d)\<rparr>)))"

definition insert_revision_event :: "revision_event_row \<Rightarrow> db \<Rightarrow> db tx" where
  "insert_revision_event e d =
     (if list_ex (\<lambda>x. re_office_id x = re_office_id e \<and> re_revision x = re_revision e) (db_revision_events d)
      then Inl (Failure ''unique_violation'')
      else Inr (d\<lparr>db_revision_events := db_revision_events d @ [e]\<rparr>))"

definition upsert_projection :: "projection_row \<Rightarrow> db \<Rightarrow> db" where
  "upsert_projection p d = d\<lparr>db_projections :=
     (if has_key pj_office_id (pj_office_id p) (db_projections d)
      then update_where (\<lambda>x. pj_office_id x = pj_office_id p) (\<lambda>_. p) (db_projections d)
      else db_projections d @ [p])\<rparr>"

definition insert_outbox :: "outbox_row \<Rightarrow> db \<Rightarrow> db tx" where
  "insert_outbox r d =
     (if \<not> (1 \<le> length (ob_source_key r) \<and> length (ob_source_key r) \<le> 160)
      then Inl (Failure ''check_violation'')
      else if list_ex (\<lambda>x. ob_id x = ob_id r \<or> ob_office_id x = ob_office_id r
                \<and> ob_source_kind x = ob_source_kind r \<and> ob_source_key x = ob_source_key r) (db_outbox d)
      then Inl (Failure ''unique_violation'')
      else if list_ex (\<lambda>e. re_office_id e = ob_office_id r \<and> re_revision e = ob_office_revision r)
                (db_revision_events d)
      then Inr (d\<lparr>db_outbox := db_outbox d @ [r]\<rparr>)
      else Inl (Failure ''foreign_key_violation''))"

text \<open>Deleting revision events deletes the outbox rows that reference them.\<close>

definition delete_revision_events :: "(revision_event_row \<Rightarrow> bool) \<Rightarrow> db \<Rightarrow> db" where
  "delete_revision_events P d =
     (let gone = filter P (db_revision_events d) in
      d\<lparr>db_revision_events := delete_where P (db_revision_events d),
        db_outbox := delete_where (\<lambda>b. list_ex (\<lambda>e. re_office_id e = ob_office_id b
            \<and> re_revision e = ob_office_revision b) gone) (db_outbox d)\<rparr>)"

definition set_minimum_replay :: "uuid \<Rightarrow> int \<Rightarrow> db \<Rightarrow> db" where
  "set_minimum_replay officeId n d = d\<lparr>db_offices :=
     update_where (\<lambda>x. of_id x = officeId) (\<lambda>x. x\<lparr>of_minimum_replay_revision := n\<rparr>) (db_offices d)\<rparr>"

definition invalidate_history :: "uuid \<Rightarrow> int \<Rightarrow> db \<Rightarrow> db" where
  "invalidate_history officeId revision d =
     set_minimum_replay officeId (revision - 1)
       (delete_revision_events (\<lambda>e. re_office_id e = officeId \<and> re_revision e < revision) d)"

definition validate_optional :: "(public_office_snapshot \<Rightarrow> bool) option \<Rightarrow> public_office_snapshot \<Rightarrow> unit tx" where
  "validate_optional v s = (case v of None \<Rightarrow> Inr () | Some schema \<Rightarrow> validator_assert schema s)"

definition publish_snapshot ::
  "projector_env \<Rightarrow> revision_input \<Rightarrow> int \<Rightarrow> date_ms \<Rightarrow> public_office_snapshot \<Rightarrow> db \<Rightarrow> db tx" where
  "publish_snapshot env input revision projectionAt snapshot d =
     (let payload = canonical_bytes (snapshot_json snapshot) in
      rbind (insert_revision_event
        \<lparr>re_office_id = ri_officeId input, re_revision = revision, re_event_type = ri_eventType input,
         re_public_payload = snapshot, re_canonical_payload = Some payload,
         re_created_at = projectionAt, re_projection_format_version = 1\<rparr> d) (\<lambda>d1.
      rbind (insert_outbox
        \<lparr>ob_id = px_outbox_id env, ob_office_id = ri_officeId input, ob_office_revision = revision,
         ob_source_kind = ri_sourceKind input, ob_source_key = ri_sourceKey input,
         ob_source_receipt_id = ri_sourceReceiptId input, ob_created_at = projectionAt,
         ob_published_at = None\<rparr>
        (upsert_projection
           \<lparr>pj_office_id = ri_officeId input, pj_revision = revision, pj_snapshot_payload = snapshot,
            pj_canonical_payload = payload, pj_generated_at = projectionAt\<rparr> d1)) (\<lambda>d2.
      Inr (d2\<lparr>db_outbox := update_where
        (\<lambda>b. ob_office_id b = ri_officeId input \<and> ob_office_revision b = revision \<and> ob_published_at b = None)
        (\<lambda>b. b\<lparr>ob_published_at := Some projectionAt\<rparr>) (db_outbox d2)\<rparr>))))"

definition record_public_revision ::
  "projector_env \<Rightarrow> revision_input \<Rightarrow> bool \<Rightarrow> db \<Rightarrow> (public_office_snapshot \<times> db) tx" where
  "record_public_revision env input invalidateReplayHistory d =
     (let officeId = ri_officeId input; projectionAt = projection_clock env input d in
      rbind (advance_revision officeId d) (\<lambda>(revision, d1).
      rbind (ensure_schedule_occurrences_around (px_zones env) (px_occurrence_id env) officeId
               projectionAt d1) (\<lambda>d2.
      rbind (build_public_office_snapshot (px_zones env) d2 officeId revision projectionAt) (\<lambda>snapshot.
      rbind (validate_optional (px_schema env) snapshot) (\<lambda>_.
      rbind (publish_snapshot env input revision projectionAt snapshot d2) (\<lambda>d3.
        let d4 = (if invalidateReplayHistory then invalidate_history officeId revision d3 else d3) in
        Inr (snapshot, d4\<lparr>db_notifications := db_notifications d4 @ [(officeId, revision)]\<rparr>)))))))"

definition record_revision :: "projector_env \<Rightarrow> revision_input \<Rightarrow> db \<Rightarrow> (public_office_snapshot \<times> db) tx" where
  "record_revision env input d =
     (if ri_eventType input = Consent_changed \<or> ri_sourceKind input = Consent_change
      then Inl (Failure ''Consent changes must use an explicit consent projection path'')
      else record_public_revision env input False d)"

definition record_consent_expansion_revision ::
  "projector_env \<Rightarrow> revision_input \<Rightarrow> db \<Rightarrow> (public_office_snapshot \<times> db) tx" where
  "record_consent_expansion_revision env input d = record_public_revision env input False d"

definition record_privacy_lowering_revision ::
  "projector_env \<Rightarrow> revision_input \<Rightarrow> db \<Rightarrow> (public_office_snapshot \<times> db) tx" where
  "record_privacy_lowering_revision env input d = record_public_revision env input True d"

section \<open>The log of an office\<close>

definition office_events :: "db \<Rightarrow> uuid \<Rightarrow> revision_event_row list" where
  "office_events d oid = filter (\<lambda>e. re_office_id e = oid) (db_revision_events d)"

definition office_rows :: "db \<Rightarrow> uuid \<Rightarrow> office_row list" where
  "office_rows d oid = filter (\<lambda>o'. of_id o' = oid) (db_offices d)"

definition projection_rows :: "db \<Rightarrow> uuid \<Rightarrow> projection_row list" where
  "projection_rows d oid = filter (\<lambda>p. pj_office_id p = oid) (db_projections d)"

definition event_sound :: "revision_event_row \<Rightarrow> bool" where
  "event_sound e \<longleftrightarrow> ps_office_revision (re_public_payload e) = re_revision e
     \<and> re_canonical_payload e = Some (canonical_bytes (snapshot_json (re_public_payload e)))
     \<and> re_created_at e = ps_generated_at (re_public_payload e)
     \<and> re_projection_format_version e = 1"

definition projects :: "projection_row \<Rightarrow> revision_event_row \<Rightarrow> bool" where
  "projects p e \<longleftrightarrow> pj_revision p = re_revision e \<and> pj_snapshot_payload p = re_public_payload e
     \<and> Some (pj_canonical_payload p) = re_canonical_payload e \<and> pj_generated_at p = re_created_at e"

definition log_floor :: "db \<Rightarrow> uuid \<Rightarrow> int" where
  "log_floor d oid = (case office_rows d oid of [] \<Rightarrow> 0 | o' # _ \<Rightarrow> of_minimum_replay_revision o')"

definition log_head :: "db \<Rightarrow> uuid \<Rightarrow> int" where
  "log_head d oid = (case office_rows d oid of [] \<Rightarrow> 0 | o' # _ \<Rightarrow> of_revision o')"

definition log_ok :: "db \<Rightarrow> uuid \<Rightarrow> bool" where
  "log_ok d oid \<longleftrightarrow>
     length (office_rows d oid) = 1
     \<and> 0 \<le> log_floor d oid \<and> log_floor d oid \<le> log_head d oid \<and> log_head d oid \<le> MAX_SAFE_INTEGER
     \<and> map re_revision (office_events d oid) = [log_floor d oid + 1..log_head d oid]
     \<and> (\<forall>e\<in>set (office_events d oid). event_sound e)
     \<and> sorted (map re_created_at (office_events d oid))
     \<and> (if office_events d oid = [] then projection_rows d oid = []
        else \<exists>p. projection_rows d oid = [p] \<and> projects p (last (office_events d oid)))"

lemma find_office_rows: "find_office d oid = first_row (office_rows d oid)"
  by (simp add: find_office_def select_one_def office_rows_def)

lemma find_projection_rows: "find_projection d oid = first_row (projection_rows d oid)"
  by (simp add: find_projection_def select_one_def projection_rows_def)

text \<open>The parts of the database that make up the log of an office.\<close>

lemma log_cong:
  assumes "office_rows e oid = office_rows d oid" "office_events e oid = office_events d oid"
    "projection_rows e oid = projection_rows d oid"
  shows "log_ok e oid = log_ok d oid" "log_floor e oid = log_floor d oid" "log_head e oid = log_head d oid"
  by (simp_all add: log_ok_def log_floor_def log_head_def assms)

section \<open>The log contract\<close>

locale replay_log =
  fixes ok :: "'s \<Rightarrow> 'k \<Rightarrow> bool" and floor_of head_of :: "'s \<Rightarrow> 'k \<Rightarrow> int"
    and events :: "'s \<Rightarrow> 'k \<Rightarrow> 'e list" and rev_of :: "'e \<Rightarrow> int"
  assumes contiguous: "ok s k \<Longrightarrow> map rev_of (events s k) = [floor_of s k + 1..head_of s k]"
    and floor_le_head: "ok s k \<Longrightarrow> floor_of s k \<le> head_of s k"
begin

lemma revision_range: "ok s k \<Longrightarrow> e \<in> set (events s k) \<Longrightarrow> floor_of s k < rev_of e \<and> rev_of e \<le> head_of s k"
proof -
  assume "ok s k" "e \<in> set (events s k)"
  then have "rev_of e \<in> set [floor_of s k + 1..head_of s k]"
    by (metis contiguous image_eqI image_set)
  then show ?thesis by simp
qed

lemma replay_after:
  assumes "ok s k" "floor_of s k \<le> c"
  shows "map rev_of (filter (\<lambda>e. c < rev_of e) (events s k)) = [c + 1..head_of s k]"
proof -
  have "filter ((<) c) (map rev_of (events s k)) = [c + 1..head_of s k]"
    using assms by (simp add: contiguous filter_greater_upto max_def)
  then show ?thesis by (simp add: filter_map comp_def)
qed

lemma revision_determines:
  assumes "ok s k" "e \<in> set (events s k)" "e' \<in> set (events s k)" "rev_of e = rev_of e'"
  shows "e = e'"
proof -
  have "distinct (map rev_of (events s k))" by (simp add: contiguous [OF assms(1)])
  with assms(2-) show ?thesis by (auto simp: distinct_map dest: inj_onD)
qed

end

interpretation office_log: replay_log log_ok log_floor log_head office_events re_revision
  by unfold_locales (simp_all add: log_ok_def)

section \<open>One recorded revision\<close>

lemma filter_update_other:
  "(\<And>x. P x \<Longrightarrow> \<not> Q x) \<Longrightarrow> (\<And>x. P x \<Longrightarrow> Q (f x) = Q x) \<Longrightarrow> filter Q (update_where P f t) = filter Q t"
  by (induction t) (auto simp: update_where_def)

lemma advance_revision_facts:
  assumes "advance_revision oid d = Inr (r, d1)" "length (office_rows d oid) = 1"
  shows "r = log_head d oid + 1" "log_head d oid < MAX_SAFE_INTEGER"
    and "office_rows d1 oid = map (\<lambda>o'. o'\<lparr>of_revision := r\<rparr>) (office_rows d oid)"
    and "oid' \<noteq> oid \<Longrightarrow> office_rows d1 oid' = office_rows d oid'"
    and "d1 = d\<lparr>db_offices := db_offices d1\<rparr>"
proof -
  from assms(2) obtain o' where rows: "office_rows d oid = [o']" by (auto simp: length_Suc_conv)
  let ?P = "\<lambda>x. of_id x = oid \<and> of_revision x < 9007199254740991"
  have sub: "filter ?P (db_offices d) = filter (\<lambda>x. of_revision x < 9007199254740991) [o']"
    unfolding rows [symmetric] office_rows_def filter_filter ..
  have sel: "select_one ?P (db_offices d) =
      (if of_revision o' < 9007199254740991 then Some o' else None)"
    by (simp add: select_one_def sub)
  with assms(1) have lt: "of_revision o' < 9007199254740991"
    by (auto simp: advance_revision_def split: if_splits)
  with assms(1) sel have r: "r = of_revision o' + 1"
    and d1: "d1 = d\<lparr>db_offices := update_where ?P (\<lambda>x. x\<lparr>of_revision := of_revision x + 1\<rparr>) (db_offices d)\<rparr>"
    by (simp_all add: advance_revision_def result_simps)
  from r rows show "r = log_head d oid + 1" by (simp add: log_head_def)
  from lt rows show "log_head d oid < MAX_SAFE_INTEGER" by (simp add: log_head_def MAX_SAFE_INTEGER_def)
  have "office_rows d1 oid = update_where ?P (\<lambda>x. x\<lparr>of_revision := of_revision x + 1\<rparr>) (office_rows d oid)"
    unfolding d1 office_rows_def by (simp add: filter_update_where)
  moreover have "o' \<in> set (office_rows d oid)" by (simp add: rows)
  then have "of_id o' = oid" by (simp add: office_rows_def)
  ultimately show "office_rows d1 oid = map (\<lambda>o'. o'\<lparr>of_revision := r\<rparr>) (office_rows d oid)"
    using rows lt r by (simp add: update_where_def)
  show "oid' \<noteq> oid \<Longrightarrow> office_rows d1 oid' = office_rows d oid'"
    unfolding d1 office_rows_def by (simp, rule filter_update_other) auto
  show "d1 = d\<lparr>db_offices := db_offices d1\<rparr>" unfolding d1 by simp
qed

lemma insert_outbox_facts:
  "insert_outbox r d = Inr e \<Longrightarrow> e = d\<lparr>db_outbox := db_outbox d @ [r]\<rparr>"
  by (auto simp: insert_outbox_def split: if_splits)

definition published_event :: "revision_input \<Rightarrow> int \<Rightarrow> date_ms \<Rightarrow> public_office_snapshot \<Rightarrow> revision_event_row" where
  "published_event input revision at snapshot =
     \<lparr>re_office_id = ri_officeId input, re_revision = revision, re_event_type = ri_eventType input,
      re_public_payload = snapshot, re_canonical_payload = Some (canonical_bytes (snapshot_json snapshot)),
      re_created_at = at, re_projection_format_version = 1\<rparr>"

definition published_projection :: "revision_input \<Rightarrow> int \<Rightarrow> date_ms \<Rightarrow> public_office_snapshot \<Rightarrow> projection_row" where
  "published_projection input revision at snapshot =
     \<lparr>pj_office_id = ri_officeId input, pj_revision = revision, pj_snapshot_payload = snapshot,
      pj_canonical_payload = canonical_bytes (snapshot_json snapshot), pj_generated_at = at\<rparr>"

text \<open>The database after publishing, with the outbox row that was inserted.\<close>

definition published_db ::
  "revision_input \<Rightarrow> int \<Rightarrow> date_ms \<Rightarrow> public_office_snapshot \<Rightarrow> outbox_row \<Rightarrow> db \<Rightarrow> db" where
  "published_db input r at snap row d =
     (let d2 = upsert_projection (published_projection input r at snap)
          (d\<lparr>db_revision_events := db_revision_events d @ [published_event input r at snap]\<rparr>) in
      d2\<lparr>db_outbox := update_where (\<lambda>b. ob_office_id b = ri_officeId input
        \<and> ob_office_revision b = r \<and> ob_published_at b = None)
        (\<lambda>b. b\<lparr>ob_published_at := Some at\<rparr>) (db_outbox d @ [row])\<rparr>)"

lemma publish_snapshot_cases:
  assumes "publish_snapshot env input r at snap d = Inr e"
  obtains row where
    "\<not> list_ex (\<lambda>x. re_office_id x = ri_officeId input \<and> re_revision x = r) (db_revision_events d)"
    "e = published_db input r at snap row d"
    "ob_office_id row = ri_officeId input" "ob_office_revision row = r"
proof -
  from assms obtain d2 where
    new: "\<not> list_ex (\<lambda>x. re_office_id x = ri_officeId input \<and> re_revision x = r) (db_revision_events d)"
    and d2: "insert_outbox \<lparr>ob_id = px_outbox_id env, ob_office_id = ri_officeId input, ob_office_revision = r,
         ob_source_kind = ri_sourceKind input, ob_source_key = ri_sourceKey input,
         ob_source_receipt_id = ri_sourceReceiptId input, ob_created_at = at, ob_published_at = None\<rparr>
        (upsert_projection (published_projection input r at snap)
          (d\<lparr>db_revision_events := db_revision_events d @ [published_event input r at snap]\<rparr>)) = Inr d2"
    and e: "e = d2\<lparr>db_outbox := update_where (\<lambda>b. ob_office_id b = ri_officeId input
        \<and> ob_office_revision b = r \<and> ob_published_at b = None)
        (\<lambda>b. b\<lparr>ob_published_at := Some at\<rparr>) (db_outbox d2)\<rparr>"
    by (auto simp: publish_snapshot_def Let_def result_simps insert_revision_event_def
        published_event_def published_projection_def split: if_splits)
  show thesis
    by (rule that [OF new, of "\<lparr>ob_id = px_outbox_id env, ob_office_id = ri_officeId input, ob_office_revision = r,
         ob_source_kind = ri_sourceKind input, ob_source_key = ri_sourceKey input,
         ob_source_receipt_id = ri_sourceReceiptId input, ob_created_at = at, ob_published_at = None\<rparr>"])
      (simp_all add: e insert_outbox_facts [OF d2] published_db_def upsert_projection_def)
qed

lemma publish_snapshot_facts:
  assumes "publish_snapshot env input r at snap d = Inr e" "length (projection_rows d (ri_officeId input)) \<le> 1"
  shows "\<forall>x\<in>set (office_events d (ri_officeId input)). re_revision x \<noteq> r"
    and "office_events e oid = office_events d oid
      @ (if oid = ri_officeId input then [published_event input r at snap] else [])"
    and "projection_rows e oid = (if oid = ri_officeId input then [published_projection input r at snap]
      else projection_rows d oid)"
    and "e = d\<lparr>db_revision_events := db_revision_events e, db_projections := db_projections e,
      db_outbox := db_outbox e\<rparr>"
proof -
  let ?ev = "published_event input r at snap" and ?pj = "published_projection input r at snap"
  from assms(1) obtain row where
    new: "\<not> list_ex (\<lambda>x. re_office_id x = ri_officeId input \<and> re_revision x = r) (db_revision_events d)"
    and e: "e = published_db input r at snap row d"
    by (rule publish_snapshot_cases)
  note e = e [unfolded published_db_def Let_def]
  from new show "\<forall>x\<in>set (office_events d (ri_officeId input)). re_revision x \<noteq> r"
    by (auto simp: list_ex_iff office_events_def)
  show "office_events e oid = office_events d oid @ (if oid = ri_officeId input then [?ev] else [])"
    by (simp add: e upsert_projection_def office_events_def published_event_def)
  have id: "pj_office_id ?pj = ri_officeId input" by (simp add: published_projection_def)
  show "projection_rows e oid = (if oid = ri_officeId input then [?pj] else projection_rows d oid)"
  proof (cases "has_key pj_office_id (ri_officeId input) (db_projections d)")
    case False
    then have "projection_rows d (ri_officeId input) = []"
      by (auto simp: has_key_def projection_rows_def filter_empty_conv image_iff)
    with False show ?thesis
      by (simp add: e upsert_projection_def id projection_rows_def)
  next
    case True
    then obtain p where p: "projection_rows d (ri_officeId input) = [p]"
      using assms(2) by (auto simp: has_key_def projection_rows_def filter_empty_conv le_Suc_eq length_Suc_conv)
    have "projection_rows e oid = filter (\<lambda>p. pj_office_id p = oid)
        (update_where (\<lambda>x. pj_office_id x = ri_officeId input) (\<lambda>_. ?pj) (db_projections d))"
      using True by (simp add: e upsert_projection_def id projection_rows_def)
    also have "\<dots> = (if oid = ri_officeId input
        then update_where (\<lambda>x. pj_office_id x = ri_officeId input) (\<lambda>_. ?pj) (projection_rows d oid)
        else projection_rows d oid)"
    proof (cases "oid = ri_officeId input")
      case True
      then show ?thesis by (simp add: filter_update_where id projection_rows_def)
    next
      case False
      then show ?thesis by (simp add: filter_update_other id projection_rows_def)
    qed
    also have "\<dots> = (if oid = ri_officeId input then [?pj] else projection_rows d oid)"
    proof -
      have "p \<in> set (projection_rows d (ri_officeId input))" by (simp add: p)
      then have "pj_office_id p = ri_officeId input" by (simp add: projection_rows_def)
      with p show ?thesis by (simp add: update_where_def)
    qed
    finally show ?thesis .
  qed
  show "e = d\<lparr>db_revision_events := db_revision_events e, db_projections := db_projections e,
      db_outbox := db_outbox e\<rparr>"
    by (simp add: e upsert_projection_def)
qed

lemma build_snapshot_stamps:
  "build_public_office_snapshot zones d oid r at = Inr snap
   \<Longrightarrow> ps_office_revision snap = r \<and> ps_generated_at snap = at"
  by (auto simp: build_public_office_snapshot_def result_simps)

lemma record_public_revision_cases:
  assumes "record_public_revision env input lowering d = Inr (snap, e)"
  obtains r d1 d2 d3 where "advance_revision (ri_officeId input) d = Inr (r, d1)"
    "ensure_schedule_occurrences_around (px_zones env) (px_occurrence_id env) (ri_officeId input)
      (projection_clock env input d) d1 = Inr d2"
    "build_public_office_snapshot (px_zones env) d2 (ri_officeId input) r (projection_clock env input d) = Inr snap"
    "validate_optional (px_schema env) snap = Inr ()"
    "publish_snapshot env input r (projection_clock env input d) snap d2 = Inr d3"
    "e = (if lowering then invalidate_history (ri_officeId input) r d3 else d3)
      \<lparr>db_notifications := db_notifications d3 @ [(ri_officeId input, r)]\<rparr>"
proof -
  have "db_notifications (invalidate_history oid r d3) = db_notifications d3" for oid r d3
    by (simp add: invalidate_history_def set_minimum_replay_def delete_revision_events_def Let_def)
  with assms that show thesis
    by (auto simp: record_public_revision_def Let_def result_simps split: if_splits)
qed

lemma invalidate_history_facts:
  shows "office_events (invalidate_history oid r d) oid =
      filter (\<lambda>e. r \<le> re_revision e) (office_events d oid)"
    and "office_rows (invalidate_history oid r d) oid =
      map (\<lambda>o'. o'\<lparr>of_minimum_replay_revision := r - 1\<rparr>) (office_rows d oid)"
    and "oid' \<noteq> oid \<Longrightarrow> office_events (invalidate_history oid r d) oid' = office_events d oid'"
    and "oid' \<noteq> oid \<Longrightarrow> office_rows (invalidate_history oid r d) oid' = office_rows d oid'"
    and "projection_rows (invalidate_history oid r d) oid' = projection_rows d oid'"
proof -
  show "office_events (invalidate_history oid r d) oid =
      filter (\<lambda>e. r \<le> re_revision e) (office_events d oid)"
    by (auto simp: invalidate_history_def set_minimum_replay_def delete_revision_events_def Let_def
        office_events_def delete_where_def intro: filter_cong)
  show "oid' \<noteq> oid \<Longrightarrow> office_events (invalidate_history oid r d) oid' = office_events d oid'"
    by (auto simp: invalidate_history_def set_minimum_replay_def delete_revision_events_def Let_def
        office_events_def delete_where_def intro: filter_cong)
  have rows: "db_offices (invalidate_history oid r d) = update_where (\<lambda>x. of_id x = oid)
      (\<lambda>x. x\<lparr>of_minimum_replay_revision := r - 1\<rparr>) (db_offices d)"
    by (simp add: invalidate_history_def set_minimum_replay_def delete_revision_events_def Let_def)
  show "office_rows (invalidate_history oid r d) oid =
      map (\<lambda>o'. o'\<lparr>of_minimum_replay_revision := r - 1\<rparr>) (office_rows d oid)"
    by (simp add: office_rows_def rows filter_update_where) (simp add: update_where_def)
  show "oid' \<noteq> oid \<Longrightarrow> office_rows (invalidate_history oid r d) oid' = office_rows d oid'"
    unfolding office_rows_def rows by (rule filter_update_other) auto
  show "projection_rows (invalidate_history oid r d) oid' = projection_rows d oid'"
    by (simp add: projection_rows_def invalidate_history_def set_minimum_replay_def
        delete_revision_events_def Let_def)
qed

lemma notifications_log [simp]:
  "office_events (d\<lparr>db_notifications := ns\<rparr>) = office_events d"
  "office_rows (d\<lparr>db_notifications := ns\<rparr>) = office_rows d"
  "projection_rows (d\<lparr>db_notifications := ns\<rparr>) = projection_rows d"
  by (simp_all add: fun_eq_iff office_events_def office_rows_def projection_rows_def)

text \<open>What recording a revision does to the rows of the log.\<close>

lemma record_rows:
  assumes rec: "record_public_revision env input lowering d = Inr (snap, e)"
    and ok: "log_ok d (ri_officeId input)"
  defines "oid \<equiv> ri_officeId input" and "at \<equiv> projection_clock env input d"
  defines "r \<equiv> log_head d oid + 1"
  shows "office_events e oid = (if lowering then [] else office_events d oid) @ [published_event input r at snap]"
    and "projection_rows e oid = [published_projection input r at snap]"
    and "office_rows e oid = map (\<lambda>o'. o'\<lparr>of_revision := r,
      of_minimum_replay_revision := (if lowering then log_head d oid else of_minimum_replay_revision o')\<rparr>) (office_rows d oid)"
    and "oid' \<noteq> oid \<Longrightarrow> office_events e oid' = office_events d oid'
      \<and> office_rows e oid' = office_rows d oid' \<and> projection_rows e oid' = projection_rows d oid'"
    and "log_head d oid < MAX_SAFE_INTEGER"
    and "ps_office_revision snap = r \<and> ps_generated_at snap = at"
proof -
  from rec obtain r' d1 d2 d3 where adv: "advance_revision oid d = Inr (r', d1)"
    and ens: "ensure_schedule_occurrences_around (px_zones env) (px_occurrence_id env) oid at d1 = Inr d2"
    and bld: "build_public_office_snapshot (px_zones env) d2 oid r' at = Inr snap"
    and pub: "publish_snapshot env input r' at snap d2 = Inr d3"
    and e: "e = (if lowering then invalidate_history oid r' d3 else d3)
      \<lparr>db_notifications := db_notifications d3 @ [(oid, r')]\<rparr>"
    unfolding oid_def at_def by (rule record_public_revision_cases)
  have one: "length (office_rows d oid) = 1" using ok by (simp add: log_ok_def oid_def)
  note adv = advance_revision_facts [OF adv one]
  have r: "r' = r" using adv(1) by (simp add: r_def)
  from ens obtain t where d2: "d2 = d1\<lparr>db_occurrences := t\<rparr>"
    by (blast dest: ensure_occurrences_only)
  have ev2: "office_events d2 k = office_events d k" and pj2: "projection_rows d2 k = projection_rows d k"
    and of2: "office_rows d2 k = office_rows d1 k" for k
    unfolding d2 by (subst adv(5), simp add: office_events_def projection_rows_def office_rows_def)+
  have "length (projection_rows d oid) \<le> 1"
    using ok by (auto simp: log_ok_def oid_def split: if_splits)
  then have pj: "length (projection_rows d2 (ri_officeId input)) \<le> 1" by (simp add: pj2 oid_def)
  note pub = publish_snapshot_facts [OF pub pj, folded oid_def]
  have of3: "office_rows d3 k = office_rows d1 k" for k
    by (subst pub(4)) (simp add: office_rows_def d2)
  have old: "\<forall>x\<in>set (office_events d oid). re_revision x < r"
    using office_log.revision_range [OF ok [folded oid_def]] by (auto simp: r_def)
  show "office_events e oid = (if lowering then [] else office_events d oid) @ [published_event input r at snap]"
    using old by (auto simp: e invalidate_history_facts pub(2) ev2 r published_event_def filter_empty_conv)
  show "projection_rows e oid = [published_projection input r at snap]"
    by (simp add: e invalidate_history_facts pub(3) r)
  show "office_rows e oid = map (\<lambda>o'. o'\<lparr>of_revision := r,
      of_minimum_replay_revision := (if lowering then log_head d oid else of_minimum_replay_revision o')\<rparr>) (office_rows d oid)"
    using adv(3) by (simp add: e invalidate_history_facts of3 r comp_def) (simp add: r_def)
  show "oid' \<noteq> oid \<Longrightarrow> office_events e oid' = office_events d oid'
      \<and> office_rows e oid' = office_rows d oid' \<and> projection_rows e oid' = projection_rows d oid'"
    by (simp add: e invalidate_history_facts pub(2,3) ev2 pj2 of3 adv(4))
  show "log_head d oid < MAX_SAFE_INTEGER" by (rule adv(2))
  show "ps_office_revision snap = r \<and> ps_generated_at snap = at"
    using build_snapshot_stamps [OF bld] r by simp
qed

lemma projection_clock_bounds:
  shows "ri_at input \<le> projection_clock env input d" "to_date (px_clock env) \<le> projection_clock env input d"
    and "find_projection d (ri_officeId input) = Some p \<Longrightarrow> pj_generated_at p \<le> projection_clock env input d"
  by (auto simp: projection_clock_def Let_def to_date_max le_max_iff_disj split: option.splits)

lemma record_log_step:
  assumes "record_public_revision env input lowering d = Inr (snap, e)" and "log_ok d (ri_officeId input)"
  shows "log_ok e (ri_officeId input)
    \<and> log_head e (ri_officeId input) = log_head d (ri_officeId input) + 1
    \<and> log_floor e (ri_officeId input) =
        (if lowering then log_head d (ri_officeId input) else log_floor d (ri_officeId input))
    \<and> (\<exists>ev. office_events e (ri_officeId input) =
          (if lowering then [] else office_events d (ri_officeId input)) @ [ev]
        \<and> re_public_payload ev = snap \<and> re_event_type ev = ri_eventType input
        \<and> ri_at input \<le> re_created_at ev \<and> to_date (px_clock env) \<le> re_created_at ev
        \<and> (\<forall>old\<in>set (office_events d (ri_officeId input)). re_created_at old \<le> re_created_at ev))
    \<and> (\<forall>oid. oid \<noteq> ri_officeId input \<longrightarrow> log_ok e oid = log_ok d oid
        \<and> log_floor e oid = log_floor d oid \<and> log_head e oid = log_head d oid
        \<and> office_events e oid = office_events d oid)"
proof -
  define oid where "oid = ri_officeId input"
  define at where "at = projection_clock env input d"
  define ev where "ev = published_event input (log_head d oid + 1) at snap"
  note rows = record_rows [OF assms, folded oid_def at_def]
  note ok = assms(2) [folded oid_def]
  from ok obtain o' where o': "office_rows d oid = [o']" by (auto simp: log_ok_def length_Suc_conv)
  have head: "log_head e oid = log_head d oid + 1"
    and floor: "log_floor e oid = (if lowering then log_head d oid else log_floor d oid)"
    by (simp_all add: log_head_def log_floor_def rows(3) o')
  have last: "re_created_at old \<le> at" if "old \<in> set (office_events d oid)" for old
  proof -
    from that ok obtain p where p: "projection_rows d oid = [p]" "projects p (last (office_events d oid))"
      and sorted: "sorted (map re_created_at (office_events d oid))"
      by (auto simp: log_ok_def split: if_splits)
    have "re_created_at old \<le> re_created_at (last (office_events d oid))"
      using sorted that by (rule sorted_map_le_last)
    also have "\<dots> = pj_generated_at p" using p(2) by (simp add: projects_def)
    also have "\<dots> \<le> at"
      unfolding at_def by (rule projection_clock_bounds(3)) (simp add: find_projection_rows p oid_def [symmetric])
    finally show ?thesis .
  qed
  have evs: "office_events e oid = (if lowering then [] else office_events d oid) @ [ev]"
    using rows(1) by (simp add: ev_def)
  have range: "map re_revision (office_events d oid) = [log_floor d oid + 1..log_head d oid]"
    "0 \<le> log_floor d oid" "log_floor d oid \<le> log_head d oid"
    using ok by (simp_all add: log_ok_def)
  have "[log_floor d oid + 1..log_head d oid + 1] = [log_floor d oid + 1..log_head d oid] @ [log_head d oid + 1]"
    using range(3) by (simp add: upto_rec2)
  then have "map re_revision (office_events e oid) = [log_floor e oid + 1..log_head e oid]"
    using range(1) by (auto simp: evs head floor ev_def published_event_def)
  moreover have "event_sound ev"
    using rows(6) by (simp add: event_sound_def ev_def published_event_def)
  moreover have "sorted (map re_created_at (office_events e oid))"
    using ok last by (auto simp: evs log_ok_def sorted_append ev_def published_event_def)
  moreover have "projects (published_projection input (log_head d oid + 1) at snap) ev"
    by (simp add: projects_def ev_def published_event_def published_projection_def)
  ultimately have "log_ok e oid"
    using ok rows(2,5) range(2,3)
    by (auto simp: log_ok_def evs head floor rows(3) o')
  moreover have "re_public_payload ev = snap" "re_event_type ev = ri_eventType input" "re_created_at ev = at"
    by (simp_all add: ev_def published_event_def)
  moreover have "log_ok e k = log_ok d k \<and> log_floor e k = log_floor d k \<and> log_head e k = log_head d k
      \<and> office_events e k = office_events d k" if "k \<noteq> oid" for k
    using rows(4) [OF that] log_cong [of e k d] by simp
  ultimately show ?thesis
    using head floor evs last projection_clock_bounds(1,2) [where input = input and env = env and d = d]
    unfolding oid_def [symmetric] at_def [symmetric] by blast
qed

text \<open>
  C1: Recording a revision extends the log of its office by exactly one revision. If the log
  was contiguous and in agreement with the projection, it still is; the counter has advanced
  by one; the new event carries the returned snapshot, stamped with the new revision and an
  instant no earlier than the input's, the clock's or any retained event's; the other retained
  events are kept as they were, except that lowering privacy drops all of them and raises the
  replay floor to the previous revision. The logs of other offices are unchanged.
\<close>

theorem record_extends_log:
  assumes "record_public_revision env input lowering d = Inr (snap, e)" and "log_ok d (ri_officeId input)"
  shows "log_ok e (ri_officeId input)
    \<and> log_head e (ri_officeId input) = log_head d (ri_officeId input) + 1
    \<and> log_floor e (ri_officeId input) =
        (if lowering then log_head d (ri_officeId input) else log_floor d (ri_officeId input))
    \<and> (\<exists>ev. office_events e (ri_officeId input) =
          (if lowering then [] else office_events d (ri_officeId input)) @ [ev]
        \<and> re_public_payload ev = snap \<and> re_event_type ev = ri_eventType input
        \<and> ri_at input \<le> re_created_at ev \<and> to_date (px_clock env) \<le> re_created_at ev
        \<and> (\<forall>old\<in>set (office_events d (ri_officeId input)). re_created_at old \<le> re_created_at ev))
    \<and> (\<forall>oid. oid \<noteq> ri_officeId input \<longrightarrow> log_ok e oid = log_ok d oid
        \<and> log_floor e oid = log_floor d oid \<and> log_head e oid = log_head d oid
        \<and> office_events e oid = office_events d oid)"
  using assms by (rule record_log_step)

section \<open>Recording succeeds\<close>

lemma office_wf_cong:
  assumes "db_qualifications e = db_qualifications d" "db_mounts e = db_mounts d" "db_agents e = db_agents d"
    "db_rooms e = db_rooms d" "db_day_results e = db_day_results d"
  shows "office_wf e oid t = office_wf d oid t"
  by (simp add: office_wf_def leaderboard_wf_def assms)

lemma ensure_cong:
  assumes "ensure_schedule_occurrences_around zones f oid at d = Inr d'"
    "db_schedule_versions e = db_schedule_versions d" "db_schedule_rules e = db_schedule_rules d"
    "db_occurrences e = db_occurrences d" "find_office d oid = Some o'" "find_office e oid = Some o''"
    "of_timezone o'' = of_timezone o'"
  shows "ensure_schedule_occurrences_around zones f oid at e = Inr (e\<lparr>db_occurrences := db_occurrences d'\<rparr>)"
  using assms materialize_date_cong [of e d]
  by (auto simp: ensure_schedule_occurrences_around_def result_simps)

lemma advance_revision_ok:
  assumes "log_ok d oid" "log_head d oid < MAX_SAFE_INTEGER" "find_office d oid = Some office"
  shows "\<exists>d1. advance_revision oid d = Inr (log_head d oid + 1, d1)
    \<and> find_office d1 oid = Some (office\<lparr>of_revision := log_head d oid + 1\<rparr>)
    \<and> d1 = d\<lparr>db_offices := db_offices d1\<rparr>"
proof -
  have one: "length (office_rows d oid) = 1" using assms(1) by (simp add: log_ok_def)
  with assms(3) have rows: "office_rows d oid = [office]"
    by (auto simp: find_office_rows length_Suc_conv)
  let ?P = "\<lambda>x. of_id x = oid \<and> of_revision x < 9007199254740991"
  have "filter ?P (db_offices d) = filter (\<lambda>x. of_revision x < 9007199254740991) [office]"
    unfolding rows [symmetric] office_rows_def filter_filter ..
  then have "select_one ?P (db_offices d) = Some office"
    using assms(2) by (simp add: select_one_def log_head_def rows MAX_SAFE_INTEGER_def)
  moreover have "log_head d oid = of_revision office" by (simp add: log_head_def rows)
  moreover have "0 \<le> log_head d oid" using assms(1) by (simp add: log_ok_def)
  ultimately obtain d1 where d1: "advance_revision oid d = Inr (log_head d oid + 1, d1)"
    using assms(2) by (simp add: advance_revision_def)
  from advance_revision_facts [OF this one] rows show ?thesis
    by (intro exI [of _ d1]) (auto simp: d1 find_office_rows)
qed

lemma publish_snapshot_ok:
  assumes "\<forall>x\<in>set (office_events d (ri_officeId input)). re_revision x \<noteq> r"
    "1 \<le> length (ri_sourceKey input)" "length (ri_sourceKey input) \<le> 160"
    "\<forall>b\<in>set (db_outbox d). ob_id b \<noteq> px_outbox_id env \<and> (ob_office_id b, ob_source_kind b, ob_source_key b)
      \<noteq> (ri_officeId input, ri_sourceKind input, ri_sourceKey input)"
  shows "\<exists>e. publish_snapshot env input r at snap d = Inr e"
proof -
  have "\<not> list_ex (\<lambda>x. re_office_id x = ri_officeId input \<and> re_revision x = r) (db_revision_events d)"
    using assms(1) by (auto simp: list_ex_iff office_events_def)
  moreover have "\<not> list_ex (\<lambda>x. ob_id x = px_outbox_id env \<or> ob_office_id x = ri_officeId input
      \<and> ob_source_kind x = ri_sourceKind input \<and> ob_source_key x = ri_sourceKey input) (db_outbox d)"
    using assms(4) by (auto simp: list_ex_iff)
  ultimately show ?thesis
    using assms(2,3)
    by (simp add: publish_snapshot_def insert_revision_event_def insert_outbox_def upsert_projection_def Let_def)
qed

lemma recording_total:
  assumes "log_ok d (ri_officeId input)" "log_head d (ri_officeId input) < MAX_SAFE_INTEGER"
    and "find_office d (ri_officeId input) = Some office"
    and "ensure_schedule_occurrences_around (px_zones env) (px_occurrence_id env) (ri_officeId input)
      (projection_clock env input d) d = Inr d'"
    and "office_day_at (px_zones env) d' office (projection_clock env input d) = Inr day"
    and "office_wf d (ri_officeId input) (projection_clock env input d)"
    and "\<forall>schema s. px_schema env = Some schema \<and> snapshot_consistent s
      \<and> ps_office_revision s = log_head d (ri_officeId input) + 1 \<longrightarrow> schema s"
    and "1 \<le> length (ri_sourceKey input)" "length (ri_sourceKey input) \<le> 160"
    and "\<forall>b\<in>set (db_outbox d). ob_id b \<noteq> px_outbox_id env \<and> (ob_office_id b, ob_source_kind b, ob_source_key b)
      \<noteq> (ri_officeId input, ri_sourceKind input, ri_sourceKey input)"
  shows "\<exists>snap e. record_public_revision env input lowering d = Inr (snap, e)"
proof -
  let ?oid = "ri_officeId input" and ?at = "projection_clock env input d"
  let ?r = "log_head d ?oid + 1"
  from advance_revision_ok [OF assms(1-3)] obtain d1 where d1: "advance_revision ?oid d = Inr (?r, d1)"
    "find_office d1 ?oid = Some (office\<lparr>of_revision := ?r\<rparr>)" "d1 = d\<lparr>db_offices := db_offices d1\<rparr>"
    by blast
  define d2 where "d2 = d1\<lparr>db_occurrences := db_occurrences d'\<rparr>"
  have "ensure_schedule_occurrences_around (px_zones env) (px_occurrence_id env) ?oid ?at d1 = Inr d2"
    unfolding d2_def by (rule ensure_cong [OF assms(4) _ _ _ assms(3) d1(2)]) (simp | subst d1(3), simp)+
  note ens = this
  have wf: "office_wf d2 ?oid ?at"
    using assms(6) by (subst office_wf_cong [of _ d]) (subst d2_def, subst d1(3), simp)+
  have fo: "find_office d2 ?oid = Some (office\<lparr>of_revision := ?r\<rparr>)"
    using d1(2) by (simp add: d2_def find_office_def)
  have day: "office_day_at (px_zones env) d2 (office\<lparr>of_revision := ?r\<rparr>) ?at = Inr day"
    using assms(5) by (simp add: office_day_at_def d2_def cong: option.case_cong)
  have "1 \<le> ?r" "?r \<le> MAX_SAFE_INTEGER" using assms(1,2) by (auto simp: log_ok_def)
  with well_formed_snapshot [OF wf fo _ _ day] obtain s where
    s: "build_public_office_snapshot (px_zones env) d2 ?oid ?r ?at = Inr s" "snapshot_consistent s"
    by auto
  have "validate_optional (px_schema env) s = Inr ()"
    using s(2) assms(7) build_snapshot_stamps [OF s(1)]
    by (auto simp: validate_optional_def validator_assert_def assert_semantic_invariants_iff split: option.splits)
  moreover have "\<exists>e. publish_snapshot env input ?r ?at s d2 = Inr e"
  proof (rule publish_snapshot_ok)
    have "office_events d2 ?oid = office_events d ?oid"
      by (subst d2_def, subst d1(3)) (simp add: office_events_def)
    then show "\<forall>x\<in>set (office_events d2 ?oid). re_revision x \<noteq> ?r"
      using office_log.revision_range [OF assms(1)] by force
    have "db_outbox d2 = db_outbox d" by (subst d2_def, subst d1(3)) simp
    then show "\<forall>b\<in>set (db_outbox d2). ob_id b \<noteq> px_outbox_id env \<and> (ob_office_id b, ob_source_kind b, ob_source_key b)
      \<noteq> (ri_officeId input, ri_sourceKind input, ri_sourceKey input)"
      using assms(10) by simp
  qed (use assms in auto)
  ultimately show ?thesis
    using d1(1) ens s(1) by (auto simp: record_public_revision_def Let_def)
qed


section \<open>A sample revision\<close>

definition sample_projector_env :: projector_env where
  "sample_projector_env = \<lparr>px_zones = fold_zone, px_schema = Some (\<lambda>_. True), px_clock = 3000000000,
     px_outbox_id = ''x'', px_occurrence_id = (\<lambda>u _. u)\<rparr>"

definition sample_revision_input :: revision_input where
  "sample_revision_input = \<lparr>ri_officeId = ''f'', ri_eventType = Presence_changed,
     ri_sourceKind = Edge_receipt, ri_sourceKey = js ''k'', ri_sourceReceiptId = None, ri_at = 2999000\<rparr>"

lemma sample_log_ok: "log_ok (sample_office_db 1) ''f''"
  by (simp add: log_ok_def log_floor_def log_head_def office_rows_def office_events_def projection_rows_def
      sample_office_db_def sample_db_def empty_db_def MAX_SAFE_INTEGER_def)

lemma sample_recorded:
  "\<exists>snap e. record_public_revision sample_projector_env sample_revision_input lowering (sample_office_db 1)
    = Inr (snap, e)"
proof -
  let ?d = "sample_office_db 1"
  have oid: "ri_officeId sample_revision_input = ''f''" by (simp add: sample_revision_input_def)
  have at: "projection_clock sample_projector_env sample_revision_input ?d = 3000000"
    by (simp add: projection_clock_def sample_projector_env_def sample_revision_input_def find_projection_def
        sample_office_db_def sample_db_def empty_db_def to_timestamp_def to_date_def)
  have "ensure_schedule_occurrences_around fold_zone (\<lambda>u _. u) ''f'' 3000000 ?d = Inr ?d"
    by (simp add: ensure_schedule_occurrences_around_def sample_office_db_def sample_db_def empty_db_def
        find_office_def fold_zone_def day_ns_def hour_ns_def materialize_date_def version_for_date_def Let_def)
  then have ens: "ensure_schedule_occurrences_around (px_zones sample_projector_env)
      (px_occurrence_id sample_projector_env) ''f'' 3000000 ?d = Inr ?d"
    by (simp add: sample_projector_env_def)
  have zones: "px_zones sample_projector_env = fold_zone" by (simp add: sample_projector_env_def)
  show ?thesis
    by (rule recording_total [OF _ _ _ ens [folded at oid] _ _ _ _ _, unfolded oid at zones,
          OF sample_log_ok _ sample_office_day [THEN conjunct1] sample_office_day [THEN conjunct2] sample_office_wf])
      (simp_all add: log_head_def office_rows_def sample_office_db_def MAX_SAFE_INTEGER_def
        sample_projector_env_def sample_revision_input_def js_def sample_db_def empty_db_def)
qed


lemma record_extends_log_witness:
  "\<exists>snap e. record_public_revision sample_projector_env sample_revision_input True (sample_office_db 1)
      = Inr (snap, e) \<and> log_ok e ''f'' \<and> log_head e ''f'' = 2 \<and> log_floor e ''f'' = 1"
proof -
  have oid: "ri_officeId sample_revision_input = ''f''" by (simp add: sample_revision_input_def)
  from sample_recorded obtain snap e where
    rec: "record_public_revision sample_projector_env sample_revision_input True (sample_office_db 1) = Inr (snap, e)"
    by blast
  from record_extends_log [OF rec] sample_log_ok have
    "log_ok e ''f'' \<and> log_head e ''f'' = log_head (sample_office_db 1) ''f'' + 1
      \<and> log_floor e ''f'' = log_head (sample_office_db 1) ''f''"
    by (auto simp: oid)
  moreover have "log_head (sample_office_db 1) ''f'' = 1"
    by (simp add: log_head_def office_rows_def sample_office_db_def)
  ultimately show ?thesis using rec by auto
qed

end
