(* ===== verification/Ingest_Store.thy ===== *)
theory Ingest_Store
  imports Store
begin

text \<open>
  The ingestion of a report on the tables of one instance (presence/application/
  ingest-edge-report.ts): resolving the boot, classifying the sequence range, fencing, boot
  rollover, receipts and fingerprints, the interpretation of the events as activity intervals
  and the presence row. Statements that may violate a constraint fail as the database would.
  The composition over the whole database is in the theory Ingest.
\<close>

section \<open>Checked numbers and names\<close>

definition parse_sequence :: "int \<Rightarrow> string \<Rightarrow> int tx" where
  "parse_sequence value label = parse_integer_range 0 MAX_SAFE_SEQUENCE value label"

definition parse_sequence_or_next :: "int \<Rightarrow> string \<Rightarrow> int tx" where
  "parse_sequence_or_next value label = parse_integer_range 0 (MAX_SAFE_SEQUENCE + 1) value label"

definition normalize_uuid :: "string \<Rightarrow> string" where
  "normalize_uuid s = to_lower_case s"

definition normalize_nullable_uuid :: "string option \<Rightarrow> string option" where
  "normalize_nullable_uuid s = (case s of None \<Rightarrow> None | Some v \<Rightarrow> Some (normalize_uuid v))"

definition stale_boot :: tx_error where
  "stale_boot = problem Stale_boot 409 ''The report boot is not the instance's current CAS-linked boot.''"

definition sequence_problem :: "problem_code \<Rightarrow> int \<Rightarrow> string \<Rightarrow> tx_error" where
  "sequence_problem code expectedSequence detail =
     Problem ((protocol_problem code 409 detail)
       \<lparr>pp_expectedSequence := (if expectedSequence \<le> MAX_SAFE_SEQUENCE then Some expectedSequence else None)\<rparr>)"

section \<open>Boot and sequence\<close>

definition find_boot :: "edge_store \<Rightarrow> uuid \<Rightarrow> boot_row option" where
  "find_boot es bootId = select_one (\<lambda>b. bt_boot_id b = bootId) (es_boots es)"

definition first_is_transition :: "edge_event list \<Rightarrow> bool" where
  "first_is_transition events = (case events of [] \<Rightarrow> False | e # _ \<Rightarrow> is_state_transition e)"

text \<open>The generation, whether the boot is new, and the row of a boot that is not.\<close>

definition resolve_boot ::
  "prepared_edge_report \<Rightarrow> edge_store \<Rightarrow> head_row \<Rightarrow> int \<Rightarrow> (int \<times> bool \<times> boot_row option) tx" where
  "resolve_boot report es head currentGeneration =
     (let envelope = pr_envelope report;
          requestedBootId = normalize_uuid (en_boot_id envelope);
          requestedPreviousBootId = normalize_nullable_uuid (en_previous_boot_id envelope);
          requestedBoot = find_boot es requestedBootId in
      if hd_current_boot_id head \<noteq> Some requestedBootId then
        if requestedBoot \<noteq> None then Inl stale_boot
        else if requestedPreviousBootId \<noteq> hd_current_boot_id head then Inl stale_boot
        else if pr_endpoint report = Heartbeat_endpoint then
          Inl (problem Report_semantics_invalid 422 ''A heartbeat cannot establish a new boot.'')
        else if en_first_sequence envelope \<noteq> 1 then
          Inl (Problem ((protocol_problem Sequence_gap 409 ''A new boot must start at sequence 1.'')
                 \<lparr>pp_expectedSequence := Some 1\<rparr>))
        else if \<not> first_is_transition (en_events envelope) then
          Inl (problem Report_semantics_invalid 422
                 ''A new boot must start with a complete state transition snapshot.'')
        else if currentGeneration \<ge> MAX_SAFE_SEQUENCE then
          Inl (problem Report_semantics_invalid 422
                 ''The instance has exhausted its boot generation range.'')
        else Inr (currentGeneration + 1, True, None)
      else
        (case requestedBoot of
           None \<Rightarrow> Inl (problem Internal_error 500 ''The current boot head is inconsistent.'')
         | Some boot \<Rightarrow>
             if requestedPreviousBootId \<noteq> bt_previous_boot_id boot then Inl stale_boot
             else rbind (parse_sequence (bt_generation boot) ''Invalid boot generation'')
                    (\<lambda>g. Inr (g, False, Some boot))))"

definition last_sequence :: "prepared_edge_report \<Rightarrow> int" where
  "last_sequence report =
     en_first_sequence (pr_envelope report) + int (length (en_events (pr_envelope report))) - 1"

definition find_receipt :: "edge_store \<Rightarrow> int \<Rightarrow> int \<Rightarrow> int \<Rightarrow> receipt_row option" where
  "find_receipt es bootGeneration first lastSequence =
     select_one (\<lambda>r. rc_boot_generation r = bootGeneration \<and> rc_first_sequence r = first
       \<and> rc_last_sequence r = lastSequence) (es_receipts es)"

definition find_fingerprints :: "edge_store \<Rightarrow> int \<Rightarrow> int \<Rightarrow> int \<Rightarrow> fingerprint_row list" where
  "find_fingerprints es bootGeneration first lastSequence =
     sort_key fp_sequence
       (filter (\<lambda>f. fp_boot_generation f = bootGeneration \<and> first \<le> fp_sequence f \<and> fp_sequence f \<le> lastSequence)
         (es_fingerprints es))"

definition submitted_by_sequence :: "prepared_edge_report \<Rightarrow> int \<Rightarrow> byte_string option" where
  "submitted_by_sequence report =
     map_of (rev (map (\<lambda>c. (event_sequence (ce_event c), ce_bytes c)) (pr_canonicalEvents report)))"

fun fingerprint_conflict :: "fingerprint_row list \<Rightarrow> (int \<Rightarrow> byte_string option) \<Rightarrow> bool tx" where
  "fingerprint_conflict [] submitted = Inr False"
| "fingerprint_conflict (stored # rows) submitted =
     rbind (parse_sequence (fp_sequence stored) ''Invalid stored sequence'') (\<lambda>s.
       case submitted s of
         Some bytes \<Rightarrow> if fp_canonical_event stored \<noteq> bytes then Inr True
                       else fingerprint_conflict rows submitted
       | None \<Rightarrow> fingerprint_conflict rows submitted)"

definition ack_from_receipt :: "uuid \<Rightarrow> receipt_row \<Rightarrow> edge_report_ack tx" where
  "ack_from_receipt instanceId r =
     rbind (parse_sequence (rc_current_protocol r) ''Invalid current protocol'') (\<lambda>current.
     rbind (parse_sequence (rc_min_supported_protocol r) ''Invalid minimum supported protocol'') (\<lambda>minimum.
     rbind (parse_sequence (rc_last_sequence r) ''Invalid last sequence'') (\<lambda>through.
       Inr \<lparr>ak_current_protocol = current, ak_min_supported_protocol = minimum,
            ak_instance_id = instanceId, ak_boot_id = rc_boot_id r,
            ak_accepted_through_sequence = through,
            ak_server_received_at = rc_server_received_at r, ak_lease_expires_at = rc_lease_expires_at r\<rparr>)))"

text \<open>The acknowledgement of a replay, or nothing when the report continues the boot.\<close>

definition check_sequence ::
  "uuid \<Rightarrow> prepared_edge_report \<Rightarrow> edge_store \<Rightarrow> int \<Rightarrow> bool \<Rightarrow> boot_row option
   \<Rightarrow> edge_report_ack option tx" where
  "check_sequence instanceId report es bootGeneration isNewBoot boot =
     (let first = en_first_sequence (pr_envelope report); lastSequence = last_sequence report in
      rbind (case boot of None \<Rightarrow> Inr 1
             | Some b \<Rightarrow> parse_sequence_or_next (bt_next_sequence b) ''Invalid next sequence'') (\<lambda>expected.
      if \<not> isNewBoot \<and> first < expected then
        (case find_receipt es bootGeneration first lastSequence of
           Some replay \<Rightarrow>
             if rc_canonical_sha256 replay = pr_canonicalPayloadHash report
                 \<and> rc_canonical_payload replay = pr_canonicalPayload report
             then rbind (ack_from_receipt instanceId replay) (\<lambda>ack. Inr (Some ack))
             else Inl (sequence_problem Sequence_conflict expected
                    ''The accepted sequence range has different canonical content.'')
         | None \<Rightarrow>
             (let fingerprints = find_fingerprints es bootGeneration first lastSequence in
              if fingerprints = [] then
                Inl (problem Internal_error 500 ''Accepted sequence state is internally inconsistent.'')
              else rbind (fingerprint_conflict fingerprints (submitted_by_sequence report)) (\<lambda>conflict.
                if conflict then Inl (sequence_problem Sequence_conflict expected
                    ''At least one accepted sequence has different canonical content.'')
                else Inl (sequence_problem Sequence_overlap expected
                    ''The batch partially overlaps accepted sequences.''))))
      else if first > expected then
        Inl (sequence_problem Sequence_gap expected ''The batch starts after the next expected sequence.'')
      else Inr None))"

section \<open>Activity intervals\<close>

definition store_intervals :: "interval_row list \<Rightarrow> edge_store \<Rightarrow> edge_store tx" where
  "store_intervals t es =
     (if interval_table_ok t then Inr (es\<lparr>es_intervals := t\<rparr>)
      else Inl (Failure ''constraint_violation''))"

definition close_open_activity_interval ::
  "date_ms \<Rightarrow> int \<Rightarrow> close_reason \<Rightarrow> edge_store \<Rightarrow> edge_store tx" where
  "close_open_activity_interval endedAt endSequence closeReason es =
     rbind (store_intervals
        (update_where (\<lambda>i. iv_ended_at i = None)
           (\<lambda>i. i\<lparr>iv_ended_at := Some endedAt, iv_end_sequence := Some endSequence,
                  iv_close_reason := Some closeReason\<rparr>) (es_intervals es)) es) (\<lambda>es'.
     rbind (guard_r (row_count (\<lambda>i. iv_ended_at i = None) (es_intervals es) = 1)
              (Failure ''Expected exactly one open activity interval'')) (\<lambda>_. Inr es'))"

definition open_activity_interval ::
  "int \<Rightarrow> activity_state \<Rightarrow> int \<Rightarrow> date_ms \<Rightarrow> edge_store \<Rightarrow> edge_store tx" where
  "open_activity_interval bootGeneration activityState startSequence startedAt es =
     store_intervals
       (es_intervals es @ [\<lparr>iv_boot_generation = bootGeneration, iv_activity_state = activityState,
          iv_started_at = startedAt, iv_ended_at = None, iv_start_sequence = startSequence,
          iv_end_sequence = None, iv_close_reason = None\<rparr>]) es"

definition move_open_activity_interval_to_boot :: "int \<Rightarrow> edge_store \<Rightarrow> edge_store tx" where
  "move_open_activity_interval_to_boot bootGeneration es =
     rbind (store_intervals
        (update_where (\<lambda>i. iv_ended_at i = None)
           (\<lambda>i. i\<lparr>iv_boot_generation := bootGeneration, iv_start_sequence := 1\<rparr>) (es_intervals es)) es) (\<lambda>es'.
     rbind (guard_r (row_count (\<lambda>i. iv_ended_at i = None) (es_intervals es) = 1)
              (Failure ''Seamless boot rollover requires one open activity interval'')) (\<lambda>_. Inr es'))"

section \<open>Boot rollover\<close>

definition can_roll_boot_without_breaking_activity ::
  "presence_row option \<Rightarrow> edge_event list \<Rightarrow> date_ms \<Rightarrow> bool" where
  "can_roll_boot_without_breaking_activity presence events serverReceivedAt =
     (case presence of
        None \<Rightarrow> False
      | Some p \<Rightarrow> pn_lease_closed_at p = None \<and> serverReceivedAt < pn_lease_expires_at p
          \<and> (case events of
               State_transition s # _ \<Rightarrow> st_activity_state s = pn_activity_state p
             | _ \<Rightarrow> False))"

text \<open>Deleting receipts deletes their fingerprints.\<close>

definition scrub_fenced_boot_replay_material :: "uuid \<Rightarrow> edge_store \<Rightarrow> edge_store" where
  "scrub_fenced_boot_replay_material bootId es =
     (let gone = map rc_id (filter (\<lambda>r. rc_boot_id r = bootId) (es_receipts es)) in
      es\<lparr>es_receipts := delete_where (\<lambda>r. rc_boot_id r = bootId) (es_receipts es),
         es_fingerprints := delete_where (\<lambda>f. fp_receipt_id f \<in> set gone) (es_fingerprints es)\<rparr>)"

definition fence_previous_boot_and_presence ::
  "uuid option \<Rightarrow> presence_row option \<Rightarrow> date_ms \<Rightarrow> bool \<Rightarrow> edge_store \<Rightarrow> edge_store tx" where
  "fence_previous_boot_and_presence previousBootId presence serverReceivedAt preserveLivePresence es =
     (let es1 = (case previousBootId of
           None \<Rightarrow> es
         | Some b \<Rightarrow> scrub_fenced_boot_replay_material b
             (es\<lparr>es_boots := update_where (\<lambda>r. bt_boot_id r = b \<and> bt_fenced_at r = None)
                (\<lambda>r. r\<lparr>bt_fenced_at := Some serverReceivedAt\<rparr>) (es_boots es)\<rparr>)) in
      if preserveLivePresence then Inr es1
      else (case presence of
        None \<Rightarrow> Inr es1
      | Some p \<Rightarrow>
          (let leaseExpired = (pn_lease_expires_at p \<le> serverReceivedAt) in
           rbind (if \<not> leaseExpired \<or> pn_lease_closed_at p = None
                  then rbind (parse_sequence (pn_last_accepted_sequence p) ''Invalid last accepted sequence'')
                         (\<lambda>n. close_open_activity_interval
                           (if leaseExpired then pn_lease_expires_at p else serverReceivedAt) n
                           (if leaseExpired then Lease_expired else Boot_replaced) es1)
                  else Inr es1) (\<lambda>es2. Inr (es2\<lparr>es_presence := None\<rparr>)))))"

definition boot_constraints :: "boot_row list \<Rightarrow> boot_row \<Rightarrow> bool" where
  "boot_constraints boots b \<longleftrightarrow>
     1 \<le> bt_generation b \<and> bt_generation b \<le> MAX_SAFE_SEQUENCE
     \<and> (bt_generation b = 1 \<longleftrightarrow> bt_previous_boot_id b = None)
     \<and> (\<forall>r\<in>set boots. bt_generation r \<noteq> bt_generation b \<and> bt_boot_id r \<noteq> bt_boot_id b
          \<and> (bt_previous_boot_id b \<noteq> None \<longrightarrow> bt_previous_boot_id r \<noteq> bt_previous_boot_id b))"

definition create_boot_and_advance_head ::
  "uuid \<Rightarrow> uuid option \<Rightarrow> int \<Rightarrow> int \<Rightarrow> date_ms \<Rightarrow> edge_store \<Rightarrow> edge_store tx" where
  "create_boot_and_advance_head bootId previousBootId previousGeneration generation serverReceivedAt es =
     (let b = \<lparr>bt_generation = generation, bt_boot_id = bootId, bt_previous_boot_id = previousBootId,
                bt_next_sequence = 1, bt_first_accepted_at = serverReceivedAt,
                bt_last_accepted_at = serverReceivedAt, bt_fenced_at = None\<rparr> in
      rbind (guard_r (boot_constraints (es_boots es) b) (Failure ''constraint_violation'')) (\<lambda>_.
        (case es_head es of
           None \<Rightarrow> Inl stale_boot
         | Some h \<Rightarrow>
             if hd_current_boot_generation h = previousGeneration \<and> hd_current_boot_id h = previousBootId
             then Inr (es\<lparr>es_boots := es_boots es @ [b],
                    es_head := Some (h\<lparr>hd_current_boot_id := Some bootId,
                      hd_current_boot_generation := generation\<rparr>)\<rparr>)
             else Inl stale_boot)))"

section \<open>Receipts\<close>

definition receipt_constraints :: "receipt_row list \<Rightarrow> receipt_row \<Rightarrow> bool" where
  "receipt_constraints receipts r \<longleftrightarrow>
     1 \<le> rc_first_sequence r \<and> rc_first_sequence r \<le> MAX_SAFE_SEQUENCE
     \<and> 1 \<le> rc_last_sequence r \<and> rc_last_sequence r \<le> MAX_SAFE_SEQUENCE
     \<and> 1 \<le> rc_event_count r \<and> rc_event_count r \<le> 64
     \<and> length (rc_canonical_sha256 r) = 32
     \<and> 5 \<le> length (rc_client_version r) \<and> length (rc_client_version r) \<le> 64
     \<and> rc_last_sequence r = rc_first_sequence r + rc_event_count r - 1
     \<and> (\<forall>x\<in>set receipts. rc_id x \<noteq> rc_id r
          \<and> (rc_boot_generation x, rc_first_sequence x, rc_last_sequence x)
            \<noteq> (rc_boot_generation r, rc_first_sequence r, rc_last_sequence r))"

definition insert_receipt ::
  "uuid \<Rightarrow> prepared_edge_report \<Rightarrow> verified_edge_context \<Rightarrow> int \<Rightarrow> int \<Rightarrow> date_ms \<Rightarrow> date_ms
   \<Rightarrow> edge_store \<Rightarrow> edge_store tx" where
  "insert_receipt receiptId report verified bootGeneration lastSequence serverReceivedAt leaseExpiresAt es =
     (let envelope = pr_envelope report;
          r = \<lparr>rc_id = receiptId, rc_boot_generation = bootGeneration,
               rc_boot_id = uuid_of_text (en_boot_id envelope), rc_key_id = uuid_of_text (vf_keyId verified),
               rc_first_sequence = en_first_sequence envelope, rc_last_sequence = lastSequence,
               rc_event_count = int (length (en_events envelope)),
               rc_canonical_sha256 = pr_canonicalPayloadHash report,
               rc_canonical_payload = pr_canonicalPayload report,
               rc_sent_at = en_sent_at envelope, rc_client_version = en_client_version envelope,
               rc_server_received_at = serverReceivedAt, rc_lease_expires_at = leaseExpiresAt,
               rc_current_protocol = 1, rc_min_supported_protocol = 1\<rparr> in
      rbind (guard_r (receipt_constraints (es_receipts es) r) (Failure ''constraint_violation'')) (\<lambda>_.
        Inr (es\<lparr>es_receipts := es_receipts es @ [r]\<rparr>)))"

definition fingerprint_constraints :: "fingerprint_row list \<Rightarrow> fingerprint_row \<Rightarrow> bool" where
  "fingerprint_constraints rows f \<longleftrightarrow>
     1 \<le> fp_sequence f \<and> fp_sequence f \<le> MAX_SAFE_SEQUENCE
     \<and> length (fp_canonical_sha256 f) = 32
     \<and> (case fp_event f of State_transition s \<Rightarrow> allowed_pair (st_display_state s) (st_activity_state s)
        | Heartbeat _ \<Rightarrow> True)
     \<and> (\<forall>x\<in>set rows. (fp_boot_generation x, fp_sequence x) \<noteq> (fp_boot_generation f, fp_sequence f))"

definition insert_fingerprint :: "uuid \<Rightarrow> int \<Rightarrow> canonical_event \<Rightarrow> edge_store \<Rightarrow> edge_store tx" where
  "insert_fingerprint receiptId bootGeneration c es =
     (let f = \<lparr>fp_boot_generation = bootGeneration, fp_sequence = event_sequence (ce_event c),
               fp_receipt_id = receiptId, fp_event = ce_event c, fp_canonical_sha256 = ce_hash c,
               fp_canonical_event = ce_bytes c\<rparr> in
      rbind (guard_r (fingerprint_constraints (es_fingerprints es) f) (Failure ''constraint_violation'')) (\<lambda>_.
        Inr (es\<lparr>es_fingerprints := es_fingerprints es @ [f]\<rparr>)))"

definition insert_fingerprints ::
  "uuid \<Rightarrow> int \<Rightarrow> prepared_edge_report \<Rightarrow> edge_store \<Rightarrow> edge_store tx" where
  "insert_fingerprints receiptId bootGeneration report es =
     foldM_r (insert_fingerprint receiptId bootGeneration) (pr_canonicalEvents report) es"

section \<open>Events\<close>

record mutable_presence =
  mp_lastAcceptedSequence :: int
  mp_lastStateSequence :: int
  mp_displayState :: display_state
  mp_activityState :: activity_state
  mp_petId :: string
  mp_displaySince :: date_ms
  mp_activitySince :: date_ms
  mp_eligibleSince :: "date_ms option"

definition mutable_presence_of :: "presence_row \<Rightarrow> mutable_presence tx" where
  "mutable_presence_of p =
     rbind (parse_sequence (pn_last_accepted_sequence p) ''Invalid last accepted sequence'') (\<lambda>a.
     rbind (parse_sequence (pn_last_state_sequence p) ''Invalid last state sequence'') (\<lambda>s.
       Inr \<lparr>mp_lastAcceptedSequence = a, mp_lastStateSequence = s,
            mp_displayState = pn_display_state p, mp_activityState = pn_activity_state p,
            mp_petId = pn_pet_id p, mp_displaySince = pn_display_since p,
            mp_activitySince = pn_activity_since p, mp_eligibleSince = pn_eligible_since p\<rparr>))"

definition apply_state_transition ::
  "mutable_presence option \<Rightarrow> state_transition_event \<Rightarrow> date_ms \<Rightarrow> bool \<Rightarrow> mutable_presence" where
  "apply_state_transition current event at resetEligibleBoundary =
     (let displayChanged = (case current of None \<Rightarrow> True
            | Some c \<Rightarrow> mp_displayState c \<noteq> st_display_state event);
          activityChanged = (case current of None \<Rightarrow> True
            | Some c \<Rightarrow> mp_activityState c \<noteq> st_activity_state event);
          eligibleSince =
            (if st_activity_state event = A_eligible_idle then
               (case current of
                  None \<Rightarrow> Some at
                | Some c \<Rightarrow>
                    if \<not> resetEligibleBoundary \<and> mp_activityState c = A_eligible_idle
                       \<and> mp_eligibleSince c \<noteq> None
                    then mp_eligibleSince c else Some at)
             else None) in
      \<lparr>mp_lastAcceptedSequence = st_sequence event, mp_lastStateSequence = st_sequence event,
       mp_displayState = st_display_state event, mp_activityState = st_activity_state event,
       mp_petId = st_pet_id event,
       mp_displaySince = (if displayChanged then at else
          (case current of None \<Rightarrow> at | Some c \<Rightarrow> mp_displaySince c)),
       mp_activitySince = (if activityChanged then at else
          (case current of None \<Rightarrow> at | Some c \<Rightarrow> mp_activitySince c)),
       mp_eligibleSince = eligibleSince\<rparr>)"

fun apply_events_loop ::
  "int \<Rightarrow> bool \<Rightarrow> date_ms \<Rightarrow> edge_event list \<Rightarrow> mutable_presence option \<Rightarrow> bool \<Rightarrow> edge_store
   \<Rightarrow> (mutable_presence option \<times> edge_store) tx" where
  "apply_events_loop g broken at [] current needsOpen es = Inr (current, es)"
| "apply_events_loop g broken at (Heartbeat h # events) current needsOpen es =
     (case current of
        None \<Rightarrow> Inl (problem Internal_error 500 ''A heartbeat has no current presence snapshot.'')
      | Some c \<Rightarrow>
          if needsOpen then
            rbind (open_activity_interval g (mp_activityState c) (hb_sequence h) at es) (\<lambda>es'.
              apply_events_loop g broken at events
                (Some (c\<lparr>mp_eligibleSince := (if mp_activityState c = A_eligible_idle then Some at
                                              else mp_eligibleSince c),
                         mp_lastAcceptedSequence := hb_sequence h\<rparr>)) False es')
          else
            apply_events_loop g broken at events
              (Some (c\<lparr>mp_lastAcceptedSequence := hb_sequence h\<rparr>)) False es)"
| "apply_events_loop g broken at (State_transition s # events) current needsOpen es =
     (let activityChanged = (case current of None \<Rightarrow> True
            | Some c \<Rightarrow> mp_activityState c \<noteq> st_activity_state s) in
      rbind (if activityChanged \<and> \<not> needsOpen \<and> current \<noteq> None
             then close_open_activity_interval at (st_sequence s) State_changed es else Inr es) (\<lambda>es1.
      rbind (if activityChanged \<or> needsOpen
             then open_activity_interval g (st_activity_state s) (st_sequence s) at es1 else Inr es1) (\<lambda>es2.
        apply_events_loop g broken at events
          (Some (apply_state_transition current s at (broken \<or> activityChanged))) False es2)))"

definition apply_events ::
  "int \<Rightarrow> edge_event list \<Rightarrow> presence_row option \<Rightarrow> bool \<Rightarrow> date_ms \<Rightarrow> edge_store
   \<Rightarrow> (mutable_presence \<times> edge_store) tx" where
  "apply_events g events prior leaseBoundaryBroken at es =
     rbind (case prior of None \<Rightarrow> Inr None
            | Some p \<Rightarrow> rbind (mutable_presence_of p) (\<lambda>c. Inr (Some c))) (\<lambda>current.
     rbind (apply_events_loop g leaseBoundaryBroken at events current leaseBoundaryBroken es) (\<lambda>(final, es').
       (case final of
          None \<Rightarrow> Inl (problem Internal_error 500 ''The report did not produce a current presence snapshot.'')
        | Some c \<Rightarrow> Inr (c, es'))))"

definition save_presence ::
  "int \<Rightarrow> uuid \<Rightarrow> mutable_presence \<Rightarrow> date_ms \<Rightarrow> date_ms \<Rightarrow> edge_store \<Rightarrow> edge_store tx" where
  "save_presence g bootId c serverReceivedAt leaseExpiresAt es =
     (let p = \<lparr>pn_boot_generation = g, pn_boot_id = bootId,
               pn_last_accepted_sequence = mp_lastAcceptedSequence c,
               pn_last_state_sequence = mp_lastStateSequence c,
               pn_display_state = mp_displayState c, pn_activity_state = mp_activityState c,
               pn_pet_id = mp_petId c, pn_display_since = mp_displaySince c,
               pn_activity_since = mp_activitySince c, pn_eligible_since = mp_eligibleSince c,
               pn_last_report_received_at = serverReceivedAt, pn_lease_expires_at = leaseExpiresAt,
               pn_lease_closed_at = None\<rparr> in
      rbind (guard_r (presence_constraints p) (Failure ''constraint_violation'')) (\<lambda>_.
        Inr (es\<lparr>es_presence := Some p\<rparr>)))"

section \<open>Accepting a report\<close>

text \<open>The lease of the presence is closed where it has run out; the second result says that it had.\<close>

definition close_expired_lease :: "presence_row option \<Rightarrow> date_ms \<Rightarrow> edge_store \<Rightarrow> (edge_store \<times> bool) tx" where
  "close_expired_lease presence serverReceivedAt es =
     (case presence of
        None \<Rightarrow> Inr (es, False)
      | Some p \<Rightarrow>
          if pn_lease_expires_at p \<le> serverReceivedAt then
            (if pn_lease_closed_at p = None
             then rbind (parse_sequence (pn_last_accepted_sequence p) ''Invalid last accepted sequence'') (\<lambda>n.
                  rbind (close_open_activity_interval (pn_lease_expires_at p) n Lease_expired es) (\<lambda>es'.
                    Inr (es', True)))
             else Inr (es, True))
          else Inr (es, False))"

text \<open>
  Fencing and creating a new boot; the presence that survives and whether the rollover was
  seamless.
\<close>

definition roll_boot ::
  "prepared_edge_report \<Rightarrow> head_row \<Rightarrow> int \<Rightarrow> int \<Rightarrow> date_ms \<Rightarrow> edge_store
   \<Rightarrow> (edge_store \<times> presence_row option \<times> bool) tx" where
  "roll_boot report head currentGeneration bootGeneration serverReceivedAt es =
     (let envelope = pr_envelope report; presence = es_presence es;
          seamless = can_roll_boot_without_breaking_activity presence (en_events envelope) serverReceivedAt in
      rbind (fence_previous_boot_and_presence (hd_current_boot_id head) presence serverReceivedAt seamless es) (\<lambda>es1.
      rbind (create_boot_and_advance_head (normalize_uuid (en_boot_id envelope))
               (normalize_nullable_uuid (en_previous_boot_id envelope)) currentGeneration bootGeneration
               serverReceivedAt es1) (\<lambda>es2.
      if seamless
      then rbind (move_open_activity_interval_to_boot bootGeneration es2) (\<lambda>es3. Inr (es3, presence, True))
      else Inr (es2, None, False))))"

definition advance_boot :: "int \<Rightarrow> int \<Rightarrow> date_ms \<Rightarrow> edge_store \<Rightarrow> edge_store tx" where
  "advance_boot g next serverReceivedAt es =
     rbind (guard_r (1 \<le> next \<and> next \<le> MAX_SAFE_SEQUENCE + 1) (Failure ''constraint_violation'')) (\<lambda>_.
       Inr (es\<lparr>es_boots := update_where (\<lambda>b. bt_generation b = g)
              (\<lambda>b. b\<lparr>bt_next_sequence := next, bt_last_accepted_at := serverReceivedAt\<rparr>) (es_boots es)\<rparr>))"

definition touch_head :: "date_ms \<Rightarrow> edge_store \<Rightarrow> edge_store" where
  "touch_head serverReceivedAt es =
     es\<lparr>es_head := (case es_head es of None \<Rightarrow> None
        | Some h \<Rightarrow> Some (h\<lparr>hd_last_server_received_at := Some serverReceivedAt\<rparr>))\<rparr>"

text \<open>The store after accepting, the pet of the presence and whether the lease had expired.\<close>

definition accept_on_store ::
  "uuid \<Rightarrow> prepared_edge_report \<Rightarrow> verified_edge_context \<Rightarrow> head_row \<Rightarrow> int \<Rightarrow> int \<Rightarrow> bool
   \<Rightarrow> date_ms \<Rightarrow> date_ms \<Rightarrow> edge_store \<Rightarrow> (edge_store \<times> string \<times> bool) tx" where
  "accept_on_store receiptId report verified head currentGeneration bootGeneration isNewBoot
      serverReceivedAt leaseExpiresAt es =
     (let lastSequence = last_sequence report in
      rbind (if isNewBoot then roll_boot report head currentGeneration bootGeneration serverReceivedAt es
             else Inr (es, es_presence es, False)) (\<lambda>(es1, presence, seamless).
      rbind (close_expired_lease presence serverReceivedAt es1) (\<lambda>(es2, leaseWasExpired).
      rbind (insert_receipt receiptId report verified bootGeneration lastSequence serverReceivedAt leaseExpiresAt es2) (\<lambda>es3.
      rbind (insert_fingerprints receiptId bootGeneration report es3) (\<lambda>es4.
      rbind (apply_events bootGeneration (en_events (pr_envelope report)) presence
               ((isNewBoot \<and> \<not> seamless) \<or> leaseWasExpired) serverReceivedAt es4) (\<lambda>(c, es5).
      rbind (save_presence bootGeneration (normalize_uuid (en_boot_id (pr_envelope report))) c
               serverReceivedAt leaseExpiresAt es5) (\<lambda>es6.
      rbind (advance_boot bootGeneration (lastSequence + 1) serverReceivedAt es6) (\<lambda>es7.
        Inr (touch_head serverReceivedAt es7, mp_petId c, leaseWasExpired)))))))))"

end
