(* ===== verification/Edge_Invariant.thy ===== *)
theory Edge_Invariant
  imports Ingest_Store
begin

text \<open>
  The invariant of the tables of one instance, and its preservation by an accepted report.
  \<open>boots_ok\<close>: the boots form one chain, every boot but the current one is fenced.
  \<open>replay_ok\<close>: the receipts of the current boot tile the sequences accepted so far and every
  accepted sequence has its fingerprint. \<open>presence_ok\<close> and \<open>activity_ok\<close>: the presence row is
  in step with the boot, and there is exactly one open interval, of the presented activity,
  while the lease is open and none afterwards.
\<close>

section \<open>The invariant\<close>

definition boots_ok :: "head_row \<Rightarrow> boot_row list \<Rightarrow> bool" where
  "boots_ok h boots \<longleftrightarrow>
     map bt_generation boots = [1..hd_current_boot_generation h]
     \<and> hd_current_boot_generation h \<le> MAX_SAFE_SEQUENCE \<and> 0 \<le> hd_current_boot_generation h
     \<and> distinct (map bt_boot_id boots)
     \<and> map bt_previous_boot_id boots = take (length boots) (None # map (\<lambda>b. Some (bt_boot_id b)) boots)
     \<and> (\<forall>b\<in>set (butlast boots). bt_fenced_at b \<noteq> None)
     \<and> hd_current_boot_id h = (if boots = [] then None else Some (bt_boot_id (last boots)))
     \<and> (boots \<noteq> [] \<longrightarrow> bt_fenced_at (last boots) = None)"

fun covers :: "int \<Rightarrow> receipt_row list \<Rightarrow> int \<Rightarrow> bool" where
  "covers a [] b \<longleftrightarrow> a = b"
| "covers a (r # rs) b \<longleftrightarrow> rc_first_sequence r = a \<and> a \<le> rc_last_sequence r \<and> covers (rc_last_sequence r + 1) rs b"

definition replay_upto :: "boot_row \<Rightarrow> int \<Rightarrow> receipt_row list \<Rightarrow> fingerprint_row list \<Rightarrow> bool" where
  "replay_upto b n receipts fps \<longleftrightarrow>
     covers 1 receipts n
     \<and> (\<forall>r\<in>set receipts. rc_boot_generation r = bt_generation b \<and> rc_boot_id r = bt_boot_id b
          \<and> rc_current_protocol r = 1 \<and> rc_min_supported_protocol r = 1)
     \<and> map fp_sequence fps = [1..n - 1]
     \<and> (\<forall>f\<in>set fps. fp_boot_generation f = bt_generation b
          \<and> (\<exists>r\<in>set receipts. rc_id r = fp_receipt_id f \<and> rc_first_sequence r \<le> fp_sequence f
               \<and> fp_sequence f \<le> rc_last_sequence r))"

definition replay_ok :: "boot_row \<Rightarrow> receipt_row list \<Rightarrow> fingerprint_row list \<Rightarrow> bool" where
  "replay_ok b receipts fps \<longleftrightarrow> replay_upto b (bt_next_sequence b) receipts fps
     \<and> 2 \<le> bt_next_sequence b \<and> bt_next_sequence b \<le> MAX_SAFE_SEQUENCE + 1"

definition presence_ok :: "head_row \<Rightarrow> boot_row \<Rightarrow> presence_row \<Rightarrow> bool" where
  "presence_ok h b p \<longleftrightarrow> presence_constraints p
     \<and> pn_boot_generation p = bt_generation b \<and> pn_boot_id p = bt_boot_id b
     \<and> pn_last_accepted_sequence p = bt_next_sequence b - 1
     \<and> hd_last_server_received_at h = Some (pn_last_report_received_at p)"

text \<open>The instant up to which the intervals of an instance may have been closed.\<close>

definition watermark :: "presence_row \<Rightarrow> date_ms" where
  "watermark p = (case pn_lease_closed_at p of None \<Rightarrow> pn_last_report_received_at p | Some _ \<Rightarrow> pn_lease_expires_at p)"

definition open_intervals :: "interval_row list \<Rightarrow> interval_row list" where
  "open_intervals t = filter (\<lambda>i. iv_ended_at i = None) t"

definition closed_by :: "date_ms \<Rightarrow> interval_row list \<Rightarrow> bool" where
  "closed_by at t \<longleftrightarrow> (\<forall>i\<in>set t. \<forall>e. iv_ended_at i = Some e \<longrightarrow> e \<le> at)"

text \<open>The open interval that shows an activity, from no later than a sequence and an instant.\<close>

definition shows_activity ::
  "interval_row \<Rightarrow> int \<Rightarrow> activity_state \<Rightarrow> date_ms option \<Rightarrow> int \<Rightarrow> date_ms \<Rightarrow> bool" where
  "shows_activity i g activity eligible n at \<longleftrightarrow>
     iv_activity_state i = activity \<and> iv_boot_generation i = g \<and> iv_start_sequence i \<le> n
     \<and> iv_started_at i \<le> at \<and> (activity = A_eligible_idle \<longrightarrow> eligible = Some (iv_started_at i))"

definition activity_ok :: "presence_row \<Rightarrow> interval_row list \<Rightarrow> bool" where
  "activity_ok p t \<longleftrightarrow> interval_table_ok t \<and> closed_by (watermark p) t
     \<and> (if pn_lease_closed_at p = None
        then \<exists>i. open_intervals t = [i] \<and> shows_activity i (pn_boot_generation p) (pn_activity_state p)
               (pn_eligible_since p) (pn_last_accepted_sequence p) (pn_last_report_received_at p)
        else open_intervals t = [])"

definition edge_ok :: "edge_store \<Rightarrow> bool" where
  "edge_ok es \<longleftrightarrow> (\<exists>h. es_head es = Some h \<and> boots_ok h (es_boots es)
     \<and> (if es_boots es = []
        then es_receipts es = [] \<and> es_fingerprints es = [] \<and> es_presence es = None
          \<and> es_intervals es = [] \<and> hd_last_server_received_at h = None
        else replay_ok (last (es_boots es)) (es_receipts es) (es_fingerprints es)
          \<and> (\<exists>p. es_presence es = Some p \<and> presence_ok h (last (es_boots es)) p
               \<and> activity_ok p (es_intervals es))))"

section \<open>The interval table\<close>

lemma open_intervals_simps [simp]:
  "open_intervals [] = []"
  "open_intervals (t @ u) = open_intervals t @ open_intervals u"
  by (simp_all add: open_intervals_def)

lemma open_intervals_single:
  assumes "open_intervals t = [i]"
  shows "i \<in> set t" "iv_ended_at i = None"
proof -
  have "i \<in> set (open_intervals t)" by (simp add: assms)
  then show "i \<in> set t" "iv_ended_at i = None" by (simp_all add: open_intervals_def)
qed

lemma row_count_open: "row_count (\<lambda>i. iv_ended_at i = None) t = length (open_intervals t)"
  by (simp add: row_count_def open_intervals_def)

lemma interval_table_ok_iff:
  "interval_table_ok t \<longleftrightarrow> (\<forall>i\<in>set t. interval_constraints i)
     \<and> sorted_wrt (\<lambda>a b. \<not> interval_overlap a b) t \<and> length (open_intervals t) \<le> 1"
  by (simp add: interval_table_ok_def list_all_iff row_count_open)

lemma open_interval_ok:
  assumes "interval_table_ok t" "open_intervals t = []" "closed_by at t" "1 \<le> n" "n \<le> MAX_SAFE_SEQUENCE"
  shows "\<exists>i. open_activity_interval g a n at (es\<lparr>es_intervals := t\<rparr>) = Inr (es\<lparr>es_intervals := t @ [i]\<rparr>)
    \<and> interval_table_ok (t @ [i]) \<and> open_intervals (t @ [i]) = [i] \<and> closed_by at (t @ [i])
    \<and> iv_boot_generation i = g \<and> iv_activity_state i = a \<and> iv_started_at i = at \<and> iv_start_sequence i = n"
proof -
  let ?i = "\<lparr>iv_boot_generation = g, iv_activity_state = a, iv_started_at = at, iv_ended_at = None,
    iv_start_sequence = n, iv_end_sequence = None, iv_close_reason = None\<rparr>"
  have "\<not> interval_overlap j ?i" if "j \<in> set t" for j
  proof -
    from that assms(2) obtain e where "iv_ended_at j = Some e"
      by (auto simp: open_intervals_def filter_empty_conv)
    with that assms(3) show ?thesis by (auto simp: interval_overlap_def closed_by_def)
  qed
  moreover have "interval_constraints ?i" using assms(4,5) by (simp add: interval_constraints_def)
  ultimately have "interval_table_ok (t @ [?i])"
    using assms(1,2) by (auto simp: interval_table_ok_iff sorted_wrt_append open_intervals_def)
  then show ?thesis
    using assms(2,3)
    by (intro exI [of _ ?i])
      (auto simp: open_activity_interval_def store_intervals_def open_intervals_def closed_by_def)
qed

lemma sorted_wrt_update_where:
  assumes "sorted_wrt R t" "\<And>a b. R a b \<Longrightarrow> R (if P a then f a else a) (if P b then f b else b)"
  shows "sorted_wrt R (update_where P f t)"
  unfolding update_where_def sorted_wrt_map
  by (rule sorted_wrt_mono_rel [OF _ assms(1)]) (rule assms(2))

lemma close_interval_ok:
  assumes "interval_table_ok t" "open_intervals t = [i]" "closed_by at t"
    "iv_started_at i \<le> e" "e \<le> at" "iv_start_sequence i \<le> n" "n \<le> MAX_SAFE_SEQUENCE"
  shows "\<exists>u. close_open_activity_interval e n reason (es\<lparr>es_intervals := t\<rparr>) = Inr (es\<lparr>es_intervals := u\<rparr>)
    \<and> interval_table_ok u \<and> open_intervals u = [] \<and> closed_by at u"
proof -
  let ?P = "\<lambda>i. iv_ended_at i = None"
  let ?f = "\<lambda>i. i\<lparr>iv_ended_at := Some e, iv_end_sequence := Some n, iv_close_reason := Some reason\<rparr>"
  let ?u = "update_where ?P ?f t"
  have i: "j = i" if "j \<in> set t" "?P j" for j
  proof -
    from that have "j \<in> set (open_intervals t)" by (simp add: open_intervals_def)
    with assms(2) show ?thesis by simp
  qed
  note it = open_intervals_single [OF assms(2)]
  have "\<forall>j\<in>set ?u. interval_constraints j"
  proof -
    have "interval_constraints i" using it assms(1) by (simp add: interval_table_ok_iff)
    then have "interval_constraints (?f i)" using it assms(4,6,7) by (simp add: interval_constraints_def)
    then show ?thesis using i assms(1) by (auto simp: set_update_where interval_table_ok_iff)
  qed
  moreover have "sorted_wrt (\<lambda>a b. \<not> interval_overlap a b) ?u"
    by (rule sorted_wrt_update_where)
      (use assms(1) in \<open>auto simp: interval_table_ok_iff interval_overlap_def split: option.splits\<close>)
  moreover have "open_intervals ?u = []"
    by (auto simp: open_intervals_def set_update_where filter_empty_conv)
  ultimately have ok: "interval_table_ok ?u" "open_intervals ?u = []" by (simp_all add: interval_table_ok_iff)
  moreover have "closed_by at ?u" using assms(3,5) by (auto simp: closed_by_def set_update_where)
  moreover have "close_open_activity_interval e n reason (es\<lparr>es_intervals := t\<rparr>) = Inr (es\<lparr>es_intervals := ?u\<rparr>)"
    using ok(1) assms(2) by (simp add: close_open_activity_interval_def store_intervals_def row_count_open)
  ultimately show ?thesis by blast
qed

lemma move_interval_ok:
  assumes "interval_table_ok t" "open_intervals t = [i]" "closed_by at t"
  shows "\<exists>u. move_open_activity_interval_to_boot g (es\<lparr>es_intervals := t\<rparr>) = Inr (es\<lparr>es_intervals := u\<rparr>)
    \<and> interval_table_ok u \<and> open_intervals u = [i\<lparr>iv_boot_generation := g, iv_start_sequence := 1\<rparr>]
    \<and> closed_by at u"
proof -
  let ?P = "\<lambda>i. iv_ended_at i = None"
  let ?f = "\<lambda>i. i\<lparr>iv_boot_generation := g, iv_start_sequence := 1\<rparr>"
  let ?u = "update_where ?P ?f t"
  have "open_intervals ?u = update_where ?P ?f (open_intervals t)"
    unfolding open_intervals_def by (rule filter_update_where) simp
  then have o: "open_intervals ?u = [?f i]"
  proof -
    have "?P i" by (rule open_intervals_single [OF assms(2)])
    with \<open>open_intervals ?u = _\<close> assms(2) show ?thesis by (simp add: sql_simps)
  qed
  have "interval_constraints (?f j)" if "interval_constraints j" "?P j" for j
    using that by (simp add: interval_constraints_def MAX_SAFE_SEQUENCE_def)
  then have "\<forall>j\<in>set ?u. interval_constraints j"
    using assms(1) by (auto simp: set_update_where interval_table_ok_iff)
  moreover have "sorted_wrt (\<lambda>a b. \<not> interval_overlap a b) ?u"
    by (rule sorted_wrt_update_where)
      (use assms(1) in \<open>auto simp: interval_table_ok_iff interval_overlap_def split: option.splits\<close>)
  ultimately have ok: "interval_table_ok ?u" by (simp add: interval_table_ok_iff o)
  moreover have "closed_by at ?u" using assms(3) by (auto simp: closed_by_def set_update_where)
  moreover have "move_open_activity_interval_to_boot g (es\<lparr>es_intervals := t\<rparr>) = Inr (es\<lparr>es_intervals := ?u\<rparr>)"
    using ok assms(2) by (simp add: move_open_activity_interval_to_boot_def store_intervals_def row_count_open)
  ultimately show ?thesis using o by blast
qed

section \<open>The events of a report\<close>

fun events_from :: "int \<Rightarrow> edge_event list \<Rightarrow> bool" where
  "events_from n [] \<longleftrightarrow> True"
| "events_from n (e # es) \<longleftrightarrow> event_sequence e = n \<and> 1 \<le> n \<and> n \<le> MAX_SAFE_SEQUENCE
     \<and> (case e of State_transition s \<Rightarrow> allowed_pair (st_display_state s) (st_activity_state s) | Heartbeat _ \<Rightarrow> True)
     \<and> events_from (n + 1) es"

definition presented_ok :: "mutable_presence \<Rightarrow> bool" where
  "presented_ok m \<longleftrightarrow> allowed_pair (mp_displayState m) (mp_activityState m)
     \<and> (mp_activityState m = A_eligible_idle \<longleftrightarrow> mp_eligibleSince m \<noteq> None)"

text \<open>The state before the event with sequence \<open>n\<close>: the open interval shows the presence.\<close>

definition ready ::
  "int \<Rightarrow> bool \<Rightarrow> date_ms \<Rightarrow> int \<Rightarrow> mutable_presence option \<Rightarrow> bool \<Rightarrow> interval_row list \<Rightarrow> bool" where
  "ready g broken at n c needsOpen t \<longleftrightarrow> interval_table_ok t \<and> closed_by at t
     \<and> (\<forall>m. c = Some m \<longrightarrow> presented_ok m)
     \<and> (if needsOpen then broken \<and> open_intervals t = []
        else \<exists>m i. c = Some m \<and> open_intervals t = [i]
          \<and> shows_activity i g (mp_activityState m) (mp_eligibleSince m) n at
          \<and> (broken \<longrightarrow> iv_started_at i = at))"

definition running ::
  "int \<Rightarrow> bool \<Rightarrow> date_ms \<Rightarrow> int \<Rightarrow> mutable_presence \<Rightarrow> interval_row list \<Rightarrow> bool" where
  "running g broken at n m t \<longleftrightarrow> ready g broken at n (Some m) False t
     \<and> mp_lastAcceptedSequence m = n \<and> 1 \<le> mp_lastStateSequence m \<and> mp_lastStateSequence m \<le> n"

lemma shows_activity_later: "shows_activity i g a e n at \<Longrightarrow> n \<le> n' \<Longrightarrow> shows_activity i g a e n' at"
  by (simp add: shows_activity_def)

lemma heartbeat_step:
  assumes "ready g broken at n (Some m) needsOpen t" "1 \<le> mp_lastStateSequence m" "mp_lastStateSequence m \<le> n"
    "hb_sequence h = n" "1 \<le> n" "n \<le> MAX_SAFE_SEQUENCE"
  shows "\<exists>m' u. apply_events_loop g broken at (Heartbeat h # events) (Some m) needsOpen (es\<lparr>es_intervals := t\<rparr>)
      = apply_events_loop g broken at events (Some m') False (es\<lparr>es_intervals := u\<rparr>)
    \<and> running g broken at n m' u"
proof (cases needsOpen)
  case True
  with assms(1) have t: "interval_table_ok t" "closed_by at t" "open_intervals t = []" "presented_ok m"
    by (simp_all add: ready_def)
  let ?m = "m\<lparr>mp_eligibleSince := (if mp_activityState m = A_eligible_idle then Some at else mp_eligibleSince m),
    mp_lastAcceptedSequence := n\<rparr>"
  from open_interval_ok [OF t(1,3,2) assms(5,6), of g "mp_activityState m" es] obtain i where
    i: "open_activity_interval g (mp_activityState m) n at (es\<lparr>es_intervals := t\<rparr>) = Inr (es\<lparr>es_intervals := t @ [i]\<rparr>)"
    "interval_table_ok (t @ [i])" "open_intervals (t @ [i]) = [i]" "closed_by at (t @ [i])"
    "iv_boot_generation i = g" "iv_activity_state i = mp_activityState m" "iv_started_at i = at" "iv_start_sequence i = n"
    by blast
  have "running g broken at n ?m (t @ [i])"
    using i t(4) assms(2,3) by (auto simp: running_def ready_def shows_activity_def presented_ok_def)
  with True i(1) assms(4) show ?thesis by (intro exI [of _ ?m] exI [of _ "t @ [i]"]) simp
next
  case False
  let ?m = "m\<lparr>mp_lastAcceptedSequence := n\<rparr>"
  have "running g broken at n ?m t"
    using assms(1-3) False by (auto simp: running_def ready_def presented_ok_def)
  with False assms(4) show ?thesis by (intro exI [of _ ?m] exI [of _ t]) simp
qed

lemma apply_state_transition_presented:
  "allowed_pair (st_display_state s) (st_activity_state s)
   \<Longrightarrow> presented_ok (apply_state_transition c s at reset)"
  by (auto simp: presented_ok_def apply_state_transition_def Let_def split: option.splits)

lemma apply_state_transition_fields [simp]:
  "mp_lastAcceptedSequence (apply_state_transition c s at reset) = st_sequence s"
  "mp_lastStateSequence (apply_state_transition c s at reset) = st_sequence s"
  "mp_activityState (apply_state_transition c s at reset) = st_activity_state s"
  "mp_petId (apply_state_transition c s at reset) = st_pet_id s"
  by (simp_all add: apply_state_transition_def Let_def)

lemma apply_state_transition_eligible:
  "st_activity_state s = A_eligible_idle \<Longrightarrow>
   mp_eligibleSince (apply_state_transition c s at reset) =
     (case c of None \<Rightarrow> Some at
      | Some m \<Rightarrow> if \<not> reset \<and> mp_activityState m = A_eligible_idle \<and> mp_eligibleSince m \<noteq> None
                  then mp_eligibleSince m else Some at)"
  by (simp add: apply_state_transition_def Let_def split: option.splits)

lemma transition_step:
  assumes r: "ready g broken at n c needsOpen t" and s: "st_sequence s = n" "1 \<le> n" "n \<le> MAX_SAFE_SEQUENCE"
    and pair: "allowed_pair (st_display_state s) (st_activity_state s)"
  shows "\<exists>m' u. apply_events_loop g broken at (State_transition s # events) c needsOpen (es\<lparr>es_intervals := t\<rparr>)
      = apply_events_loop g broken at events (Some m') False (es\<lparr>es_intervals := u\<rparr>)
    \<and> running g broken at n m' u"
proof -
  define changed where "changed = (case c of None \<Rightarrow> True | Some m \<Rightarrow> mp_activityState m \<noteq> st_activity_state s)"
  let ?m = "apply_state_transition c s at (broken \<or> changed)"
  have t: "interval_table_ok t" "closed_by at t" using r by (simp_all add: ready_def)
  have opens: ?thesis if v: "interval_table_ok v" "closed_by at v" "open_intervals v = []"
    and close: "(if changed \<and> \<not> needsOpen \<and> c \<noteq> None
      then close_open_activity_interval at (st_sequence s) State_changed (es\<lparr>es_intervals := t\<rparr>)
      else Inr (es\<lparr>es_intervals := t\<rparr>)) = Inr (es\<lparr>es_intervals := v\<rparr>)"
    and new: "changed \<or> needsOpen" and fresh: "changed \<or> broken \<or> c = None" for v
  proof -
    from open_interval_ok [OF v(1,3,2) s(2,3), of g "st_activity_state s" es] obtain i where
      i: "open_activity_interval g (st_activity_state s) n at (es\<lparr>es_intervals := v\<rparr>) = Inr (es\<lparr>es_intervals := v @ [i]\<rparr>)"
      "interval_table_ok (v @ [i])" "open_intervals (v @ [i]) = [i]" "closed_by at (v @ [i])"
      "iv_boot_generation i = g" "iv_activity_state i = st_activity_state s" "iv_started_at i = at" "iv_start_sequence i = n"
      by blast
    have "mp_eligibleSince ?m = Some at" if "st_activity_state s = A_eligible_idle"
      using that fresh by (auto simp: apply_state_transition_eligible split: option.splits)
    with i have "running g broken at n ?m (v @ [i])"
      using apply_state_transition_presented [OF pair] s
      by (auto simp: running_def ready_def shows_activity_def)
    moreover have "apply_events_loop g broken at (State_transition s # events) c needsOpen (es\<lparr>es_intervals := t\<rparr>)
      = apply_events_loop g broken at events (Some ?m) False (es\<lparr>es_intervals := v @ [i]\<rparr>)"
      using close i(1) new s(1) by (simp add: changed_def [symmetric] Let_def)
    ultimately show ?thesis by blast
  qed
  show ?thesis
  proof (cases needsOpen)
    case True
    then have "open_intervals t = []" "changed \<or> broken \<or> c = None" using r by (simp_all add: ready_def)
    then show ?thesis using opens [of t] t True by simp
  next
    case False
    with r obtain m i where m: "c = Some m" "open_intervals t = [i]"
      "shows_activity i g (mp_activityState m) (mp_eligibleSince m) n at" "broken \<longrightarrow> iv_started_at i = at"
      "presented_ok m"
      by (auto simp: ready_def)
    show ?thesis
    proof (cases changed)
      case True
      from close_interval_ok [OF t(1) m(2) t(2), of at n State_changed es] m(3) s(3) obtain v where
        "close_open_activity_interval at n State_changed (es\<lparr>es_intervals := t\<rparr>) = Inr (es\<lparr>es_intervals := v\<rparr>)"
        "interval_table_ok v" "open_intervals v = []" "closed_by at v"
        by (auto simp: shows_activity_def)
      with opens [of v] True False m(1) s(1) show ?thesis by simp
    next
      case same: False
      then have "mp_activityState m = st_activity_state s" by (simp add: changed_def m(1))
      note act = this
      have "mp_eligibleSince ?m = Some (iv_started_at i)" if e: "st_activity_state s = A_eligible_idle"
      proof -
        from m(3) act e have "mp_eligibleSince m = Some (iv_started_at i)" by (simp add: shows_activity_def)
        with m(4) same e act show ?thesis by (auto simp: apply_state_transition_eligible m(1))
      qed
      with m(3) act have "shows_activity i g (mp_activityState ?m) (mp_eligibleSince ?m) n at"
        by (simp add: shows_activity_def)
      with t m(2,4) s apply_state_transition_presented [OF pair] have "running g broken at n ?m t"
        by (simp add: running_def ready_def)
      moreover have "apply_events_loop g broken at (State_transition s # events) c needsOpen (es\<lparr>es_intervals := t\<rparr>)
        = apply_events_loop g broken at events (Some ?m) False (es\<lparr>es_intervals := t\<rparr>)"
        using same False act by (simp add: changed_def Let_def m(1))
      ultimately show ?thesis by blast
    qed
  qed
qed

lemma running_ready: "running g broken at n m t \<Longrightarrow> ready g broken at (n + 1) (Some m) False t"
  unfolding running_def ready_def by (auto elim!: shows_activity_later)

lemma events_loop_running:
  "running g broken at (n - 1) m t \<Longrightarrow> events_from n events \<Longrightarrow>
   \<exists>m' u. apply_events_loop g broken at events (Some m) False (es\<lparr>es_intervals := t\<rparr>)
      = Inr (Some m', es\<lparr>es_intervals := u\<rparr>)
    \<and> running g broken at (n + int (length events) - 1) m' u"
proof (induction events arbitrary: n m t)
  case Nil
  then show ?case by (intro exI [of _ m] exI [of _ t]) simp
next
  case (Cons e events)
  have r: "ready g broken at n (Some m) False t" using running_ready [OF Cons.prems(1)] by simp
  have ls: "1 \<le> mp_lastStateSequence m" "mp_lastStateSequence m \<le> n"
    using Cons.prems(1) by (simp_all add: running_def)
  have ev: "event_sequence e = n" "1 \<le> n" "n \<le> MAX_SAFE_SEQUENCE" "events_from (n + 1) events"
    using Cons.prems(2) by simp_all
  have "\<exists>m' u. apply_events_loop g broken at (e # events) (Some m) False (es\<lparr>es_intervals := t\<rparr>)
      = apply_events_loop g broken at events (Some m') False (es\<lparr>es_intervals := u\<rparr>)
    \<and> running g broken at n m' u"
  proof (cases e)
    case (State_transition s)
    with transition_step [OF r, of s events es] ev Cons.prems(2) show ?thesis by simp
  next
    case (Heartbeat h)
    with heartbeat_step [OF r ls, of h events es] ev show ?thesis by simp
  qed
  then obtain m' u where step: "apply_events_loop g broken at (e # events) (Some m) False (es\<lparr>es_intervals := t\<rparr>)
      = apply_events_loop g broken at events (Some m') False (es\<lparr>es_intervals := u\<rparr>)"
    and run: "running g broken at n m' u" by blast
  from Cons.IH [of "n + 1" m' u] run ev(4) obtain m'' v where
    "apply_events_loop g broken at events (Some m') False (es\<lparr>es_intervals := u\<rparr>)
      = Inr (Some m'', es\<lparr>es_intervals := v\<rparr>)"
    "running g broken at (n + int (length events)) m'' v" by auto
  with step show ?case by (intro exI [of _ m''] exI [of _ v]) (simp add: add.commute add.left_commute)
qed

text \<open>From a ready state a non-empty report is applied without failure.\<close>

lemma events_loop_ok:
  assumes "ready g broken at n c broken t" "events_from n events" "events \<noteq> []"
    and "first_is_transition events \<or> (\<exists>m. c = Some m \<and> 1 \<le> mp_lastStateSequence m \<and> mp_lastStateSequence m \<le> n)"
  shows "\<exists>m u. apply_events_loop g broken at events c broken (es\<lparr>es_intervals := t\<rparr>)
      = Inr (Some m, es\<lparr>es_intervals := u\<rparr>)
    \<and> running g broken at (n + int (length events) - 1) m u"
proof -
  obtain e rest where e: "events = e # rest" using assms(3) by (cases events) auto
  have ev: "event_sequence e = n" "1 \<le> n" "n \<le> MAX_SAFE_SEQUENCE" "events_from (n + 1) rest"
    using assms(2) by (simp_all add: e)
  have "\<exists>m' u. apply_events_loop g broken at (e # rest) c broken (es\<lparr>es_intervals := t\<rparr>)
      = apply_events_loop g broken at rest (Some m') False (es\<lparr>es_intervals := u\<rparr>)
    \<and> running g broken at n m' u"
  proof (cases e)
    case (State_transition s)
    with transition_step [OF assms(1), of s rest es] ev assms(2) e show ?thesis by simp
  next
    case (Heartbeat h)
    with assms(4) e obtain m where m: "c = Some m" "1 \<le> mp_lastStateSequence m" "mp_lastStateSequence m \<le> n"
      by (auto simp: first_is_transition_def)
    with heartbeat_step [OF assms(1) [unfolded m(1)] m(2,3), of h rest es] ev Heartbeat show ?thesis by simp
  qed
  then obtain m' u where step: "apply_events_loop g broken at (e # rest) c broken (es\<lparr>es_intervals := t\<rparr>)
      = apply_events_loop g broken at rest (Some m') False (es\<lparr>es_intervals := u\<rparr>)"
    and run: "running g broken at n m' u" by blast
  from events_loop_running [of g broken at "n + 1" m' u rest es] run ev(4) obtain m'' v where
    "apply_events_loop g broken at rest (Some m') False (es\<lparr>es_intervals := u\<rparr>)
      = Inr (Some m'', es\<lparr>es_intervals := v\<rparr>)"
    "running g broken at (n + int (length rest)) m'' v" by auto
  with step e show ?thesis by (intro exI [of _ m''] exI [of _ v]) (simp add: add.commute add.left_commute)
qed

section \<open>Rolling the boot\<close>

definition fence_boot :: "uuid option \<Rightarrow> date_ms \<Rightarrow> boot_row list \<Rightarrow> boot_row list" where
  "fence_boot prev at boots = (case prev of None \<Rightarrow> boots
     | Some b \<Rightarrow> update_where (\<lambda>r. bt_boot_id r = b \<and> bt_fenced_at r = None) (\<lambda>r. r\<lparr>bt_fenced_at := Some at\<rparr>) boots)"

lemma fence_boot_columns [simp]:
  "map bt_generation (fence_boot prev at boots) = map bt_generation boots"
  "map bt_boot_id (fence_boot prev at boots) = map bt_boot_id boots"
  "map bt_previous_boot_id (fence_boot prev at boots) = map bt_previous_boot_id boots"
  "length (fence_boot prev at boots) = length boots"
  by (auto simp: fence_boot_def map_update_where split: option.splits)

definition new_boot :: "int \<Rightarrow> uuid \<Rightarrow> uuid option \<Rightarrow> date_ms \<Rightarrow> boot_row" where
  "new_boot g bid prev at = \<lparr>bt_generation = g, bt_boot_id = bid, bt_previous_boot_id = prev,
     bt_next_sequence = 1, bt_first_accepted_at = at, bt_last_accepted_at = at, bt_fenced_at = None\<rparr>"

lemma boots_length: "boots_ok h boots \<Longrightarrow> int (length boots) = hd_current_boot_generation h"
proof -
  assume ok: "boots_ok h boots"
  then have "length (map bt_generation boots) = length [1..hd_current_boot_generation h]"
    by (simp only: boots_ok_def)
  then have "length boots = nat (hd_current_boot_generation h)" by simp
  moreover have "0 \<le> hd_current_boot_generation h" using ok by (simp add: boots_ok_def)
  ultimately show ?thesis by simp
qed

lemma previous_is_earlier:
  assumes "boots_ok h boots" "r \<in> set boots" "bt_previous_boot_id r = Some b"
  shows "\<exists>x\<in>set (butlast boots). bt_boot_id x = b"
proof -
  from assms(2) obtain i where i: "i < length boots" "r = boots ! i" by (auto simp: in_set_conv_nth)
  have "map bt_previous_boot_id boots ! i = (None # map (\<lambda>b. Some (bt_boot_id b)) boots) ! i"
    using assms(1) i(1) by (simp add: boots_ok_def)
  with i assms(3) have "Some b = (None # map (\<lambda>b. Some (bt_boot_id b)) boots) ! i" by simp
  then obtain j where j: "i = Suc j" by (cases i) auto
  with i(1) \<open>Some b = _\<close> have "bt_boot_id (boots ! j) = b" "j < length (butlast boots)" by simp_all
  then show ?thesis by (metis nth_butlast nth_mem)
qed

lemma boots_ok_roll:
  assumes ok: "boots_ok h boots" and fresh: "\<forall>b\<in>set boots. bt_boot_id b \<noteq> bid"
    and lt: "hd_current_boot_generation h < MAX_SAFE_SEQUENCE"
    and b: "b = new_boot (hd_current_boot_generation h + 1) bid (hd_current_boot_id h) at"
  shows "boot_constraints (fence_boot (hd_current_boot_id h) at boots) b"
    and "boots_ok (h\<lparr>hd_current_boot_id := Some bid, hd_current_boot_generation := hd_current_boot_generation h + 1\<rparr>)
      (fence_boot (hd_current_boot_id h) at boots @ [b])"
proof -
  let ?fs = "fence_boot (hd_current_boot_id h) at boots" and ?g = "hd_current_boot_generation h"
  have g: "int (length boots) = ?g" using boots_length [OF ok] .
  have cur: "hd_current_boot_id h = (if boots = [] then None else Some (bt_boot_id (last boots)))"
    using ok by (simp add: boots_ok_def)
  have gens: "map bt_generation boots = [1..?g]" and dist: "distinct (map bt_boot_id boots)"
    and prevs: "map bt_previous_boot_id boots = take (length boots) (None # map (\<lambda>b. Some (bt_boot_id b)) boots)"
    and fenced: "\<forall>b\<in>set (butlast boots). bt_fenced_at b \<noteq> None"
    using ok by (simp_all add: boots_ok_def)
  have cols: "bt_generation ` set ?fs = bt_generation ` set boots" "bt_boot_id ` set ?fs = bt_boot_id ` set boots"
    "bt_previous_boot_id ` set ?fs = bt_previous_boot_id ` set boots"
    by (metis fence_boot_columns image_set)+
  have "bt_generation r \<noteq> ?g + 1 \<and> bt_boot_id r \<noteq> bid
      \<and> (hd_current_boot_id h \<noteq> None \<longrightarrow> bt_previous_boot_id r \<noteq> hd_current_boot_id h)" if r: "r \<in> set ?fs" for r
  proof -
    from r cols(1) have "bt_generation r \<in> set (map bt_generation boots)" by (metis image_eqI image_set)
    then have "bt_generation r \<noteq> ?g + 1" by (simp only: gens) simp
    moreover from r cols(2) have "bt_boot_id r \<in> bt_boot_id ` set boots" by (metis image_eqI)
    with fresh have "bt_boot_id r \<noteq> bid" by auto
    moreover have "bt_previous_boot_id r \<noteq> hd_current_boot_id h" if c: "hd_current_boot_id h \<noteq> None"
    proof
      assume p: "bt_previous_boot_id r = hd_current_boot_id h"
      from r cols(3) obtain r' where r': "r' \<in> set boots" "bt_previous_boot_id r' = bt_previous_boot_id r"
        by (metis image_iff)
      from c cur have ne: "boots \<noteq> []" and l: "hd_current_boot_id h = Some (bt_boot_id (last boots))"
        by (auto split: if_splits)
      from previous_is_earlier [OF ok r'(1)] r'(2) p l obtain x where
        "x \<in> set (butlast boots)" "bt_boot_id x = bt_boot_id (last boots)" by auto
      then have "bt_boot_id (last boots) \<in> bt_boot_id ` set (butlast boots)" by (metis image_eqI)
      moreover have "boots = butlast boots @ [last boots]" using ne by simp
      then have "distinct (map bt_boot_id (butlast boots @ [last boots]))" using dist by simp
      ultimately show False by (auto simp: distinct_map)
    qed
    ultimately show ?thesis by blast
  qed
  then show "boot_constraints ?fs b"
    using g lt cur by (auto simp: boot_constraints_def b new_boot_def split: if_splits)
  have "\<forall>r\<in>set ?fs. bt_fenced_at r \<noteq> None"
  proof (cases "boots = []")
    case True
    with cur show ?thesis by (simp add: fence_boot_def)
  next
    case False
    have "r \<in> set (butlast boots) \<or> r = last boots" if "r \<in> set boots" for r
      using that False by (metis append_butlast_last_id in_set_butlastD rotate1.simps(2) set_ConsD set_rotate1)
    with fenced cur False show ?thesis
      by (fastforce simp: fence_boot_def set_update_where)
  qed
  moreover have "[1..?g + 1] = [1..?g] @ [?g + 1]"
    using g by (simp add: upto_rec2)
  moreover have "take (Suc (length boots)) (None # map (\<lambda>b. Some (bt_boot_id b)) boots)
      = take (length boots) (None # map (\<lambda>b. Some (bt_boot_id b)) boots) @ [hd_current_boot_id h]"
    using cur by (subst take_Suc_conv_app_nth) (auto simp: nth_Cons' last_conv_nth)
  moreover have ids: "map (\<lambda>b. Some (bt_boot_id b)) ?fs = map (\<lambda>b. Some (bt_boot_id b)) boots"
    using fence_boot_columns(2) [of "hd_current_boot_id h" at boots] by (metis (no_types, lifting) map_map comp_def map_eq_conv)
  moreover have "bid \<notin> bt_boot_id ` set ?fs" "bid \<notin> bt_boot_id ` set boots" using fresh cols(2) by auto
  moreover have "distinct (map bt_boot_id ?fs)" using dist by simp
  ultimately show "boots_ok (h\<lparr>hd_current_boot_id := Some bid, hd_current_boot_generation := ?g + 1\<rparr>) (?fs @ [b])"
    using lt g gens prevs
    by (simp add: boots_ok_def b new_boot_def)
qed

end
