(* ===== verification/Edge_Accept.thy ===== *)
theory Edge_Accept
  imports Edge_Invariant
begin

text \<open>
  An accepted report on the tables of an instance: from a state that satisfies the invariant, a
  report that the contract validator prepared, that continues the current boot or starts the
  next one, is stored without failure and leads to a state that satisfies the invariant, as
  long as the server time has not fallen behind the intervals already closed.
\<close>

section \<open>Prepared reports\<close>

text \<open>What the contract validator guarantees of a prepared report.\<close>

definition report_ok :: "prepared_edge_report \<Rightarrow> bool" where
  "report_ok r \<longleftrightarrow>
     map ce_event (pr_canonicalEvents r) = en_events (pr_envelope r)
     \<and> en_events (pr_envelope r) \<noteq> [] \<and> length (en_events (pr_envelope r)) \<le> 64
     \<and> events_from (en_first_sequence (pr_envelope r)) (en_events (pr_envelope r))
     \<and> length (pr_canonicalPayloadHash r) = 32 \<and> (\<forall>c\<in>set (pr_canonicalEvents r). length (ce_hash c) = 32)
     \<and> 5 \<le> length (en_client_version (pr_envelope r)) \<and> length (en_client_version (pr_envelope r)) \<le> 64"

lemma events_from_last: "events_from n events \<Longrightarrow> events \<noteq> [] \<Longrightarrow> n + int (length events) - 1 \<le> MAX_SAFE_SEQUENCE"
proof (induction events arbitrary: n)
  case (Cons e events)
  show ?case
  proof (cases "events = []")
    case True
    with Cons.prems show ?thesis by simp
  next
    case False
    from Cons.prems have "events_from (n + 1) events" by simp
    from Cons.IH [OF this False] show ?thesis by (simp add: algebra_simps)
  qed
qed simp

lemma events_from_first: "events_from n events \<Longrightarrow> events \<noteq> [] \<Longrightarrow> 1 \<le> n"
  by (cases events) auto

lemma report_ok_range:
  assumes "report_ok r"
  shows "1 \<le> en_first_sequence (pr_envelope r)" "en_first_sequence (pr_envelope r) \<le> last_sequence r"
    "last_sequence r \<le> MAX_SAFE_SEQUENCE"
proof -
  have ev: "events_from (en_first_sequence (pr_envelope r)) (en_events (pr_envelope r))"
    "en_events (pr_envelope r) \<noteq> []" using assms by (simp_all add: report_ok_def)
  then show "1 \<le> en_first_sequence (pr_envelope r)" "last_sequence r \<le> MAX_SAFE_SEQUENCE"
    using events_from_first events_from_last by (simp_all add: last_sequence_def)
  from ev(2) show "en_first_sequence (pr_envelope r) \<le> last_sequence r"
    by (cases "en_events (pr_envelope r)") (simp_all add: last_sequence_def)
qed

section \<open>Receipts and fingerprints\<close>

definition receipt_of ::
  "uuid \<Rightarrow> prepared_edge_report \<Rightarrow> verified_edge_context \<Rightarrow> int \<Rightarrow> date_ms \<Rightarrow> date_ms \<Rightarrow> receipt_row" where
  "receipt_of rid report verified g at lease =
     \<lparr>rc_id = rid, rc_boot_generation = g, rc_boot_id = uuid_of_text (en_boot_id (pr_envelope report)),
      rc_key_id = uuid_of_text (vf_keyId verified), rc_first_sequence = en_first_sequence (pr_envelope report),
      rc_last_sequence = last_sequence report, rc_event_count = int (length (en_events (pr_envelope report))),
      rc_canonical_sha256 = pr_canonicalPayloadHash report, rc_canonical_payload = pr_canonicalPayload report,
      rc_sent_at = en_sent_at (pr_envelope report), rc_client_version = en_client_version (pr_envelope report),
      rc_server_received_at = at, rc_lease_expires_at = lease, rc_current_protocol = 1,
      rc_min_supported_protocol = 1\<rparr>"

definition fingerprint_of :: "uuid \<Rightarrow> int \<Rightarrow> canonical_event \<Rightarrow> fingerprint_row" where
  "fingerprint_of rid g c =
     \<lparr>fp_boot_generation = g, fp_sequence = event_sequence (ce_event c), fp_receipt_id = rid,
      fp_event = ce_event c, fp_canonical_sha256 = ce_hash c, fp_canonical_event = ce_bytes c\<rparr>"

lemma covers_bounds: "covers a rs b \<Longrightarrow> a \<le> b \<and> (\<forall>r\<in>set rs. a \<le> rc_first_sequence r
    \<and> rc_first_sequence r \<le> rc_last_sequence r \<and> rc_last_sequence r < b)"
  by (induction a rs b rule: covers.induct) fastforce+

lemma covers_snoc: "covers a (rs @ [r]) b \<longleftrightarrow>
    covers a rs (rc_first_sequence r) \<and> rc_first_sequence r \<le> rc_last_sequence r \<and> b = rc_last_sequence r + 1"
  by (induction a rs b rule: covers.induct) auto

lemma insert_receipt_ok:
  assumes "report_ok report" "covers 1 (es_receipts es) (en_first_sequence (pr_envelope report))"
    "\<forall>r\<in>set (es_receipts es). rc_id r \<noteq> rid"
  shows "insert_receipt rid report verified g (last_sequence report) at lease es =
    Inr (es\<lparr>es_receipts := es_receipts es @ [receipt_of rid report verified g at lease]\<rparr>)"
proof -
  have "\<forall>r\<in>set (es_receipts es). rc_first_sequence r \<noteq> en_first_sequence (pr_envelope report)"
    using covers_bounds [OF assms(2)] by fastforce
  moreover obtain k where k: "length (en_events (pr_envelope report)) = Suc k"
    using assms(1) by (cases "en_events (pr_envelope report)") (simp_all add: report_ok_def)
  moreover have "last_sequence report = en_first_sequence (pr_envelope report) + int k"
    by (simp add: last_sequence_def k)
  moreover note report_ok_range [OF assms(1)]
  ultimately have "receipt_constraints (es_receipts es) (receipt_of rid report verified g at lease)"
    using assms(1,3) by (auto simp: receipt_constraints_def receipt_of_def report_ok_def)
  then show ?thesis by (simp add: insert_receipt_def receipt_of_def Let_def)
qed

lemma insert_fingerprints_ok:
  assumes "events_from n (map ce_event cs)" "\<forall>c\<in>set cs. length (ce_hash c) = 32"
    "\<forall>f\<in>set (es_fingerprints es). fp_boot_generation f = g \<longrightarrow> fp_sequence f < n"
  shows "foldM_r (insert_fingerprint rid g) cs es =
    Inr (es\<lparr>es_fingerprints := es_fingerprints es @ map (fingerprint_of rid g) cs\<rparr>)"
  using assms
proof (induction cs arbitrary: n es)
  case (Cons c cs)
  let ?es = "es\<lparr>es_fingerprints := es_fingerprints es @ [fingerprint_of rid g c]\<rparr>"
  have "fingerprint_constraints (es_fingerprints es) (fingerprint_of rid g c)"
    using Cons.prems by (fastforce simp: fingerprint_constraints_def fingerprint_of_def split: edge_event.splits)
  then have "insert_fingerprint rid g c es = Inr ?es"
    by (simp add: insert_fingerprint_def fingerprint_of_def Let_def)
  moreover have "foldM_r (insert_fingerprint rid g) cs ?es =
      Inr (?es\<lparr>es_fingerprints := es_fingerprints ?es @ map (fingerprint_of rid g) cs\<rparr>)"
    by (rule Cons.IH [of "n + 1"]) (use Cons.prems in \<open>auto simp: fingerprint_of_def\<close>)
  ultimately show ?case by simp
qed simp

lemma events_from_sequences: "events_from n events \<Longrightarrow> map event_sequence events = [n..n + int (length events) - 1]"
proof (induction events arbitrary: n)
  case (Cons e events)
  have "map event_sequence events = [n + 1..n + int (length events)]"
    using Cons.IH [of "n + 1"] Cons.prems by (simp add: add.commute add.left_commute)
  moreover have "[n..n + int (length (e # events)) - 1] = n # [n + 1..n + int (length events)]"
    by (subst upto_rec1) simp_all
  ultimately show ?case using Cons.prems by simp
qed simp

lemma replay_upto_extend:
  assumes "replay_upto b n receipts fps" "report_ok report" "n = en_first_sequence (pr_envelope report)"
    "bt_generation b = g" "bt_boot_id b = uuid_of_text (en_boot_id (pr_envelope report))"
  shows "replay_upto b (last_sequence report + 1)
    (receipts @ [receipt_of rid report verified g at lease])
    (fps @ map (fingerprint_of rid g) (pr_canonicalEvents report))"
proof -
  let ?r = "receipt_of rid report verified g at lease"
  have n: "1 \<le> n" "n \<le> last_sequence report" using report_ok_range [OF assms(2)] assms(3) by simp_all
  have ce: "map ce_event (pr_canonicalEvents report) = en_events (pr_envelope report)"
    and ev: "events_from n (en_events (pr_envelope report))"
    using assms(2,3) by (simp_all add: report_ok_def)
  have "map event_sequence (map ce_event (pr_canonicalEvents report)) = [n..last_sequence report]"
    unfolding ce events_from_sequences [OF ev] by (simp add: last_sequence_def assms(3))
  then have seqs: "map fp_sequence (map (fingerprint_of rid g) (pr_canonicalEvents report)) = [n..last_sequence report]"
    by (simp add: comp_def fingerprint_of_def)
  have "[1..last_sequence report] = [1..n - 1] @ [n..last_sequence report]"
    using n upto_split1 [of 1 n "last_sequence report"] by simp
  with seqs assms(1) have "map fp_sequence (fps @ map (fingerprint_of rid g) (pr_canonicalEvents report))
      = [1..last_sequence report]" by (simp add: replay_upto_def)
  moreover have "n \<le> fp_sequence f \<and> fp_sequence f \<le> last_sequence report"
    if "f \<in> set (map (fingerprint_of rid g) (pr_canonicalEvents report))" for f
  proof -
    from that have "fp_sequence f \<in> set (map fp_sequence (map (fingerprint_of rid g) (pr_canonicalEvents report)))"
      by auto
    then show ?thesis unfolding seqs by simp
  qed
  then have "\<forall>f\<in>set (map (fingerprint_of rid g) (pr_canonicalEvents report)). fp_boot_generation f = g
      \<and> rc_id ?r = fp_receipt_id f \<and> rc_first_sequence ?r \<le> fp_sequence f \<and> fp_sequence f \<le> rc_last_sequence ?r"
    using assms(3) by (auto simp: receipt_of_def fingerprint_of_def)
  moreover have "covers 1 (receipts @ [?r]) (last_sequence report + 1)"
    using assms(1,3) n by (simp add: covers_snoc receipt_of_def replay_upto_def)
  ultimately show ?thesis
    using assms(1,4,5) unfolding replay_upto_def
    by (auto simp: receipt_of_def)
qed

section \<open>The second half: storing and applying\<close>

text \<open>The state once the boot is current and an expired lease is closed.\<close>

definition staged ::
  "edge_store \<Rightarrow> int \<Rightarrow> uuid \<Rightarrow> int \<Rightarrow> date_ms \<Rightarrow> presence_row option \<Rightarrow> bool \<Rightarrow> edge_event list \<Rightarrow> bool" where
  "staged es g bid n at presence broken events \<longleftrightarrow>
     (\<exists>h. es_head es = Some h \<and> boots_ok h (es_boots es))
     \<and> es_boots es \<noteq> [] \<and> bt_generation (last (es_boots es)) = g \<and> bt_boot_id (last (es_boots es)) = bid
     \<and> replay_upto (last (es_boots es)) n (es_receipts es) (es_fingerprints es)
     \<and> (\<exists>c. (case presence of None \<Rightarrow> c = None | Some p \<Rightarrow> \<exists>m. mutable_presence_of p = Inr m \<and> c = Some m)
          \<and> ready g broken at n c broken (es_intervals es)
          \<and> (first_is_transition events
              \<or> (\<exists>m. c = Some m \<and> 1 \<le> mp_lastStateSequence m \<and> mp_lastStateSequence m \<le> n)))"

lemma apply_events_ok:
  assumes "staged es g bid n at presence broken events" "events_from n events" "events \<noteq> []"
    "es_intervals es' = es_intervals es"
  shows "\<exists>m u. apply_events g events presence broken at es' = Inr (m, es'\<lparr>es_intervals := u\<rparr>)
    \<and> running g broken at (n + int (length events) - 1) m u"
proof -
  from assms(1) obtain c where
    c: "case presence of None \<Rightarrow> c = None | Some p \<Rightarrow> \<exists>m. mutable_presence_of p = Inr m \<and> c = Some m"
    and r: "ready g broken at n c broken (es_intervals es)"
    and f: "first_is_transition events
      \<or> (\<exists>m. c = Some m \<and> 1 \<le> mp_lastStateSequence m \<and> mp_lastStateSequence m \<le> n)"
    by (auto simp: staged_def)
  have "(case presence of None \<Rightarrow> Inr None
      | Some p \<Rightarrow> rbind (mutable_presence_of p) (\<lambda>c. Inr (Some c))) = (Inr c :: mutable_presence option tx)"
    using c by (auto split: option.splits)
  moreover from events_loop_ok [OF r assms(2,3) f, of es'] obtain m u where
    "apply_events_loop g broken at events c broken (es'\<lparr>es_intervals := es_intervals es\<rparr>)
      = Inr (Some m, es'\<lparr>es_intervals := u\<rparr>)"
    "running g broken at (n + int (length events) - 1) m u" by blast
  moreover have "es'\<lparr>es_intervals := es_intervals es\<rparr> = es'" using assms(4) by simp
  ultimately show ?thesis by (auto simp: apply_events_def)
qed

definition presence_of :: "int \<Rightarrow> uuid \<Rightarrow> mutable_presence \<Rightarrow> date_ms \<Rightarrow> date_ms \<Rightarrow> presence_row" where
  "presence_of g bid c at lease = \<lparr>pn_boot_generation = g, pn_boot_id = bid,
     pn_last_accepted_sequence = mp_lastAcceptedSequence c,
     pn_last_state_sequence = mp_lastStateSequence c,
     pn_display_state = mp_displayState c, pn_activity_state = mp_activityState c,
     pn_pet_id = mp_petId c, pn_display_since = mp_displaySince c,
     pn_activity_since = mp_activitySince c, pn_eligible_since = mp_eligibleSince c,
     pn_last_report_received_at = at, pn_lease_expires_at = lease, pn_lease_closed_at = None\<rparr>"

lemma running_presence:
  assumes "running g broken at n m u" "n \<le> MAX_SAFE_SEQUENCE" "at < lease"
  shows "presence_constraints (presence_of g bid m at lease)" "activity_ok (presence_of g bid m at lease) u"
  using assms
  by (auto simp: running_def ready_def presented_ok_def presence_constraints_def activity_ok_def presence_of_def
      watermark_def)

definition accepted_boots :: "int \<Rightarrow> int \<Rightarrow> date_ms \<Rightarrow> boot_row list \<Rightarrow> boot_row list" where
  "accepted_boots g n at boots = update_where (\<lambda>b. bt_generation b = g)
     (\<lambda>b. b\<lparr>bt_next_sequence := n, bt_last_accepted_at := at\<rparr>) boots"

lemma accepted_boots_last:
  "boots \<noteq> [] \<Longrightarrow> bt_generation (last boots) = g \<Longrightarrow>
   last (accepted_boots g n at boots) = (last boots)\<lparr>bt_next_sequence := n, bt_last_accepted_at := at\<rparr>"
  by (simp add: accepted_boots_def update_where_def last_map)

lemma boots_ok_columns:
  assumes "map bt_generation bs = map bt_generation cs" "map bt_boot_id bs = map bt_boot_id cs"
    "map bt_previous_boot_id bs = map bt_previous_boot_id cs" "map bt_fenced_at bs = map bt_fenced_at cs"
  shows "boots_ok h bs = boots_ok h cs"
proof -
  have len: "length bs = length cs" using assms(1) by (metis length_map)
  then have nil: "bs = [] \<longleftrightarrow> cs = []" by auto
  have some: "map (\<lambda>b. Some (bt_boot_id b)) bs = map (\<lambda>b. Some (bt_boot_id b)) cs"
    using assms(2) by (metis (no_types, lifting) map_map comp_def map_eq_conv)
  have F: "(\<forall>b\<in>set (butlast xs). bt_fenced_at b \<noteq> None) \<longleftrightarrow> None \<notin> set (butlast (map bt_fenced_at xs))" for xs
    by (simp add: map_butlast [symmetric] image_iff) (metis not_None_eq)
  have fenced: "(\<forall>b\<in>set (butlast bs). bt_fenced_at b \<noteq> None) \<longleftrightarrow> (\<forall>b\<in>set (butlast cs). bt_fenced_at b \<noteq> None)"
    unfolding F assms(4) ..
  have lasts: "bs \<noteq> [] \<Longrightarrow> bt_fenced_at (last bs) = bt_fenced_at (last cs) \<and> bt_boot_id (last bs) = bt_boot_id (last cs)"
    using assms(2,4) nil by (metis last_map)
  show ?thesis
    unfolding boots_ok_def assms len some fenced nil using lasts nil by (cases "cs = []") simp_all
qed

lemma accepted_boots_ok: "boots_ok h boots \<Longrightarrow> boots_ok h (accepted_boots g n at boots)"
  by (subst boots_ok_columns [of _ boots]) (simp_all add: accepted_boots_def map_update_where)

lemma replay_upto_stamp:
  "replay_upto (b\<lparr>bt_next_sequence := k, bt_last_accepted_at := t\<rparr>) n rs fs = replay_upto b n rs fs"
  by (simp add: replay_upto_def)

definition with_time :: "head_row \<Rightarrow> date_ms \<Rightarrow> head_row" where
  "with_time h at = h\<lparr>hd_last_server_received_at := Some at\<rparr>"

definition accepted_tail ::
  "uuid \<Rightarrow> prepared_edge_report \<Rightarrow> verified_edge_context \<Rightarrow> int \<Rightarrow> date_ms \<Rightarrow> date_ms
   \<Rightarrow> presence_row option \<Rightarrow> bool \<Rightarrow> edge_store \<Rightarrow> (edge_store \<times> string) tx" where
  "accepted_tail rid report verified g at lease presence broken es2 =
      rbind (insert_receipt rid report verified g (last_sequence report) at lease es2) (\<lambda>es3.
      rbind (insert_fingerprints rid g report es3) (\<lambda>es4.
      rbind (apply_events g (en_events (pr_envelope report)) presence broken at es4) (\<lambda>(c, es5).
      rbind (save_presence g (normalize_uuid (en_boot_id (pr_envelope report))) c at lease es5) (\<lambda>es6.
      rbind (advance_boot g (last_sequence report + 1) at es6) (\<lambda>es7.
        Inr (touch_head at es7, mp_petId c))))))"

lemma accepted_tail_ok:
  assumes st: "staged es g (normalize_uuid (en_boot_id (pr_envelope report))) (en_first_sequence (pr_envelope report))
      at presence broken (en_events (pr_envelope report))"
    and r: "report_ok report" and rid: "\<forall>x\<in>set (es_receipts es). rc_id x \<noteq> rid" and lease: "at < lease"
  shows "\<exists>m u. accepted_tail rid report verified g at lease presence broken es = Inr
      (es\<lparr>es_head := map_option (\<lambda>h. with_time h at) (es_head es),
         es_boots := accepted_boots g (last_sequence report + 1) at (es_boots es),
         es_receipts := es_receipts es @ [receipt_of rid report verified g at lease],
         es_fingerprints := es_fingerprints es @ map (fingerprint_of rid g) (pr_canonicalEvents report),
         es_presence := Some (presence_of g (normalize_uuid (en_boot_id (pr_envelope report))) m at lease),
         es_intervals := u\<rparr>, mp_petId m)
    \<and> running g broken at (last_sequence report) m u"
proof -
  let ?n = "en_first_sequence (pr_envelope report)" and ?ev = "en_events (pr_envelope report)"
  let ?bid = "normalize_uuid (en_boot_id (pr_envelope report))"
  have up: "replay_upto (last (es_boots es)) ?n (es_receipts es) (es_fingerprints es)"
    and gen: "bt_generation (last (es_boots es)) = g"
    using st by (simp_all add: staged_def)
  let ?es3 = "es\<lparr>es_receipts := es_receipts es @ [receipt_of rid report verified g at lease]\<rparr>"
  let ?es4 = "?es3\<lparr>es_fingerprints := es_fingerprints es @ map (fingerprint_of rid g) (pr_canonicalEvents report)\<rparr>"
  have i3: "insert_receipt rid report verified g (last_sequence report) at lease es = Inr ?es3"
    using insert_receipt_ok [OF r _ rid] up by (simp add: replay_upto_def)
  have ev: "events_from ?n ?ev" "?ev \<noteq> []" and ce: "map ce_event (pr_canonicalEvents report) = ?ev"
    using r by (simp_all add: report_ok_def)
  have "insert_fingerprints rid g report ?es3 = Inr ?es4"
  proof -
    have "\<forall>f\<in>set (es_fingerprints es). fp_sequence f \<in> set [1..?n - 1]"
      using up unfolding replay_upto_def by (metis image_eqI image_set)
    then show ?thesis
      unfolding insert_fingerprints_def
      by (subst insert_fingerprints_ok [where n = ?n]) (use r ce ev in \<open>auto simp: report_ok_def\<close>)
  qed
  note i4 = this
  from apply_events_ok [OF st ev, of ?es4] obtain m u where
    ap: "apply_events g ?ev presence broken at ?es4 = Inr (m, ?es4\<lparr>es_intervals := u\<rparr>)"
    and run: "running g broken at (?n + int (length ?ev) - 1) m u" by auto
  then have run: "running g broken at (last_sequence report) m u" by (simp add: last_sequence_def)
  note range = report_ok_range [OF r]
  let ?es6 = "?es4\<lparr>es_intervals := u, es_presence := Some (presence_of g ?bid m at lease)\<rparr>"
  have "save_presence g ?bid m at lease (?es4\<lparr>es_intervals := u\<rparr>) = Inr ?es6"
    using running_presence(1) [OF run range(3) lease] by (simp add: save_presence_def presence_of_def Let_def)
  moreover have "advance_boot g (last_sequence report + 1) at ?es6 =
      Inr (?es6\<lparr>es_boots := accepted_boots g (last_sequence report + 1) at (es_boots es)\<rparr>)"
    using range by (simp add: advance_boot_def accepted_boots_def)
  ultimately show ?thesis
    using i3 i4 ap run
    by (intro exI [of _ m] exI [of _ u])
      (simp add: accepted_tail_def touch_head_def with_time_def map_option_case)
qed

lemma accepted_tail_edge_ok:
  assumes st: "staged es g (normalize_uuid (en_boot_id (pr_envelope report))) (en_first_sequence (pr_envelope report))
      at presence broken (en_events (pr_envelope report))"
    and r: "report_ok report" and rid: "\<forall>x\<in>set (es_receipts es). rc_id x \<noteq> rid" and lease: "at < lease"
  shows "\<exists>es' pet. accepted_tail rid report verified g at lease presence broken es = Inr (es', pet)
    \<and> edge_ok es'
    \<and> es_receipts es' = es_receipts es @ [receipt_of rid report verified g at lease]
    \<and> es_head es' = map_option (\<lambda>h. with_time h at) (es_head es)
    \<and> es_boots es' = accepted_boots g (last_sequence report + 1) at (es_boots es)
    \<and> (\<exists>m. es_presence es' = Some (presence_of g (normalize_uuid (en_boot_id (pr_envelope report))) m at lease)
         \<and> mp_petId m = pet)"
proof -
  let ?bid = "normalize_uuid (en_boot_id (pr_envelope report))"
  from accepted_tail_ok [OF assms, of verified] obtain m u where
    tail: "accepted_tail rid report verified g at lease presence broken es = Inr
      (es\<lparr>es_head := map_option (\<lambda>h. with_time h at) (es_head es),
         es_boots := accepted_boots g (last_sequence report + 1) at (es_boots es),
         es_receipts := es_receipts es @ [receipt_of rid report verified g at lease],
         es_fingerprints := es_fingerprints es @ map (fingerprint_of rid g) (pr_canonicalEvents report),
         es_presence := Some (presence_of g ?bid m at lease),
         es_intervals := u\<rparr>, mp_petId m)" (is "_ = Inr (?es', _)")
    and run: "running g broken at (last_sequence report) m u" by blast
  from st obtain h where h: "es_head es = Some h" "boots_ok h (es_boots es)" and ne: "es_boots es \<noteq> []"
    and b: "bt_generation (last (es_boots es)) = g" "bt_boot_id (last (es_boots es)) = ?bid"
    and up: "replay_upto (last (es_boots es)) (en_first_sequence (pr_envelope report)) (es_receipts es) (es_fingerprints es)"
    unfolding staged_def by blast
  note range = report_ok_range [OF r]
  let ?b = "(last (es_boots es))\<lparr>bt_next_sequence := last_sequence report + 1, bt_last_accepted_at := at\<rparr>"
  have l: "last (es_boots ?es') = ?b" "es_boots ?es' \<noteq> []"
    using accepted_boots_last [OF ne b(1)] ne by (simp_all add: accepted_boots_def update_where_def)
  have "replay_upto ?b (last_sequence report + 1) (es_receipts ?es') (es_fingerprints ?es')"
  proof -
    have "bt_boot_id (last (es_boots es)) = uuid_of_text (en_boot_id (pr_envelope report))"
      using b(2) by (simp add: normalize_uuid_def uuid_of_text_def)
    from replay_upto_extend [OF up r refl b(1) this, of rid verified at lease]
    show ?thesis by (simp add: replay_upto_stamp)
  qed
  then have "replay_ok (last (es_boots ?es')) (es_receipts ?es') (es_fingerprints ?es')"
    using range by (simp only: l replay_ok_def) simp
  moreover have "boots_ok (with_time h at) (es_boots ?es')"
    using accepted_boots_ok [OF h(2)] by (simp add: boots_ok_def with_time_def)
  moreover have "presence_ok (with_time h at) (last (es_boots ?es')) (presence_of g ?bid m at lease)"
    unfolding l(1) using running_presence(1) [OF run range(3) lease] run b
    by (simp add: presence_ok_def presence_of_def with_time_def running_def)
  moreover have "activity_ok (presence_of g ?bid m at lease) (es_intervals ?es')"
    using running_presence(2) [OF run range(3) lease] by simp
  ultimately have "edge_ok ?es'"
    using h(1) l(2) by (simp add: edge_ok_def)
  with tail show ?thesis by auto
qed

section \<open>The first half: the boot and the lease\<close>

text \<open>The server time is not behind what has been recorded for the instance.\<close>

definition time_ok :: "edge_store \<Rightarrow> date_ms \<Rightarrow> bool" where
  "time_ok es at \<longleftrightarrow> (case es_presence es of None \<Rightarrow> True
     | Some p \<Rightarrow> pn_last_report_received_at p \<le> at \<and> watermark p \<le> at)"

definition mutable_of :: "presence_row \<Rightarrow> mutable_presence" where
  "mutable_of p = \<lparr>mp_lastAcceptedSequence = pn_last_accepted_sequence p,
     mp_lastStateSequence = pn_last_state_sequence p, mp_displayState = pn_display_state p,
     mp_activityState = pn_activity_state p, mp_petId = pn_pet_id p, mp_displaySince = pn_display_since p,
     mp_activitySince = pn_activity_since p, mp_eligibleSince = pn_eligible_since p\<rparr>"

lemma mutable_presence_of_ok:
  assumes "presence_constraints p"
  shows "mutable_presence_of p = Inr (mutable_of p)" "presented_ok (mutable_of p)"
  using assms
  by (simp_all add: mutable_presence_of_def mutable_of_def presence_constraints_def parse_sequence_def presented_ok_def)

lemma closed_by_mono: "closed_by s t \<Longrightarrow> s \<le> at \<Longrightarrow> closed_by at t"
  by (fastforce simp: closed_by_def)

lemma live_interval:
  assumes "activity_ok p t" "pn_lease_closed_at p = None"
  obtains i where "open_intervals t = [i]" "shows_activity i (pn_boot_generation p) (pn_activity_state p)
    (pn_eligible_since p) (pn_last_accepted_sequence p) (pn_last_report_received_at p)"
  using assms by (auto simp: activity_ok_def)

text \<open>Closing the open interval of a live presence, at its lease end or later.\<close>

lemma close_live_interval:
  assumes "presence_constraints p" "activity_ok p (es_intervals es)" "pn_lease_closed_at p = None"
    "watermark p \<le> at" "pn_last_report_received_at p \<le> e" "e \<le> at"
  shows "\<exists>u. close_open_activity_interval e (pn_last_accepted_sequence p) reason es = Inr (es\<lparr>es_intervals := u\<rparr>)
    \<and> interval_table_ok u \<and> open_intervals u = [] \<and> closed_by at u"
proof -
  from live_interval [OF assms(2,3)] obtain i where i: "open_intervals (es_intervals es) = [i]"
    "shows_activity i (pn_boot_generation p) (pn_activity_state p) (pn_eligible_since p)
      (pn_last_accepted_sequence p) (pn_last_report_received_at p)" .
  have "interval_table_ok (es_intervals es)" "closed_by at (es_intervals es)"
    using assms(2,4) by (auto simp: activity_ok_def intro: closed_by_mono)
  from close_interval_ok [OF this(1) i(1) this(2), of e "pn_last_accepted_sequence p" reason es]
  show ?thesis using i(2) assms(1,5,6) by (simp add: shows_activity_def presence_constraints_def)
qed

lemma edge_ok_bootedE:
  assumes "edge_ok es" "es_boots es \<noteq> []"
  obtains h p where "es_head es = Some h" "boots_ok h (es_boots es)"
    "replay_ok (last (es_boots es)) (es_receipts es) (es_fingerprints es)" "es_presence es = Some p"
    "presence_ok h (last (es_boots es)) p" "activity_ok p (es_intervals es)"
  using assms by (auto simp: edge_ok_def)

lemma stage_existing:
  assumes ok: "edge_ok es" and ne: "es_boots es \<noteq> []" and t: "time_ok es at" and ev: "events \<noteq> []"
  shows "\<exists>u expired. close_expired_lease (es_presence es) at es = Inr (es\<lparr>es_intervals := u\<rparr>, expired)
    \<and> staged (es\<lparr>es_intervals := u\<rparr>) (bt_generation (last (es_boots es))) (bt_boot_id (last (es_boots es)))
        (bt_next_sequence (last (es_boots es))) at (es_presence es) expired events
    \<and> (\<forall>p. es_presence es = Some p \<longrightarrow> expired = (pn_lease_expires_at p \<le> at))"
proof -
  let ?b = "last (es_boots es)"
  from edge_ok_bootedE [OF ok ne] obtain h p where h: "es_head es = Some h" "boots_ok h (es_boots es)"
    and rep: "replay_ok ?b (es_receipts es) (es_fingerprints es)" and p: "es_presence es = Some p"
    and pok: "presence_ok h ?b p" and act: "activity_ok p (es_intervals es)" .
  have pc: "presence_constraints p" and seq: "pn_last_accepted_sequence p = bt_next_sequence ?b - 1"
    and gen: "pn_boot_generation p = bt_generation ?b"
    using pok by (simp_all add: presence_ok_def)
  have tm: "pn_last_report_received_at p \<le> at" "watermark p \<le> at" using t p by (simp_all add: time_ok_def)
  note mut = mutable_presence_of_ok [OF pc]
  have tab: "interval_table_ok (es_intervals es)" "closed_by at (es_intervals es)"
    using act tm(2) by (auto simp: activity_ok_def intro: closed_by_mono)
  have ls: "1 \<le> mp_lastStateSequence (mutable_of p)" "mp_lastStateSequence (mutable_of p) \<le> bt_next_sequence ?b"
    using pc seq by (simp_all add: mutable_of_def presence_constraints_def)
  have staged: "staged (es\<lparr>es_intervals := u\<rparr>) (bt_generation ?b) (bt_boot_id ?b) (bt_next_sequence ?b) at
      (es_presence es) expired events"
    if "ready (bt_generation ?b) expired at (bt_next_sequence ?b) (Some (mutable_of p)) expired u" for u expired
    using h ne rep p mut(1) that ls unfolding staged_def replay_ok_def by auto
  show ?thesis
  proof (cases "pn_lease_expires_at p \<le> at")
    case True
    obtain u where u: "close_expired_lease (Some p) at es = Inr (es\<lparr>es_intervals := u\<rparr>, True)"
      "interval_table_ok u" "open_intervals u = []" "closed_by at u"
    proof (cases "pn_lease_closed_at p")
      case None
      have "pn_last_report_received_at p \<le> pn_lease_expires_at p" using pc by (simp add: presence_constraints_def)
      from close_live_interval [OF pc act None tm(2) this True, of Lease_expired] obtain u where
        "close_open_activity_interval (pn_lease_expires_at p) (pn_last_accepted_sequence p) Lease_expired es
          = Inr (es\<lparr>es_intervals := u\<rparr>)" "interval_table_ok u" "open_intervals u = []" "closed_by at u" by blast
      moreover have "parse_sequence (pn_last_accepted_sequence p) l = Inr (pn_last_accepted_sequence p)" for l
        using pc by (simp add: parse_sequence_def presence_constraints_def)
      ultimately show ?thesis using True None that by (simp add: close_expired_lease_def)
    next
      case (Some c)
      then have "open_intervals (es_intervals es) = []" using act by (simp add: activity_ok_def)
      with True Some tab that [of "es_intervals es"] show ?thesis by (simp add: close_expired_lease_def)
    qed
    then have "ready (bt_generation ?b) True at (bt_next_sequence ?b) (Some (mutable_of p)) True u"
      using mut(2) by (simp add: ready_def)
    from staged [OF this] u(1) True p show ?thesis by (intro exI [of _ u] exI [of _ True]) simp
  next
    case False
    have live: "pn_lease_closed_at p = None"
    proof (rule ccontr)
      assume c: "pn_lease_closed_at p \<noteq> None"
      then have "watermark p = pn_lease_expires_at p" by (auto simp: watermark_def)
      with tm(2) False show False by simp
    qed
    from live_interval [OF act live] obtain i where "open_intervals (es_intervals es) = [i]"
      "shows_activity i (pn_boot_generation p) (pn_activity_state p) (pn_eligible_since p)
        (pn_last_accepted_sequence p) (pn_last_report_received_at p)" .
    then have "ready (bt_generation ?b) False at (bt_next_sequence ?b) (Some (mutable_of p)) False (es_intervals es)"
      using tab mut(2) seq gen tm(1)
      by (simp add: ready_def shows_activity_def mutable_of_def)
    from staged [OF this] False p show ?thesis
      by (intro exI [of _ "es_intervals es"] exI [of _ False]) (simp add: close_expired_lease_def)
  qed
qed

text \<open>The tables of an instance whose boot has been replaced, with the given intervals.\<close>

definition rolled :: "head_row \<Rightarrow> uuid \<Rightarrow> date_ms \<Rightarrow> presence_row option \<Rightarrow> interval_row list \<Rightarrow> edge_store \<Rightarrow> edge_store" where
  "rolled h bid at presence u es = es\<lparr>
     es_head := Some (h\<lparr>hd_current_boot_id := Some bid, hd_current_boot_generation := hd_current_boot_generation h + 1\<rparr>),
     es_boots := fence_boot (hd_current_boot_id h) at (es_boots es)
       @ [new_boot (hd_current_boot_generation h + 1) bid (hd_current_boot_id h) at],
     es_receipts := [], es_fingerprints := [], es_presence := presence, es_intervals := u\<rparr>"

definition fenced :: "head_row \<Rightarrow> date_ms \<Rightarrow> edge_store \<Rightarrow> edge_store" where
  "fenced h at es = es\<lparr>es_boots := fence_boot (hd_current_boot_id h) at (es_boots es),
     es_receipts := [], es_fingerprints := []\<rparr>"

lemma fence_step:
  assumes "edge_ok es" "es_head es = Some h"
  shows "(case hd_current_boot_id h of
           None \<Rightarrow> es
         | Some b \<Rightarrow> scrub_fenced_boot_replay_material b
             (es\<lparr>es_boots := update_where (\<lambda>r. bt_boot_id r = b \<and> bt_fenced_at r = None)
                (\<lambda>r. r\<lparr>bt_fenced_at := Some at\<rparr>) (es_boots es)\<rparr>)) = fenced h at es"
proof (cases "es_boots es = []")
  case True
  with assms have "hd_current_boot_id h = None" "es_receipts es = []" "es_fingerprints es = []"
    by (auto simp: edge_ok_def boots_ok_def)
  then show ?thesis by (simp add: fenced_def fence_boot_def)
next
  case False
  from edge_ok_bootedE [OF assms(1) False] assms(2) have ok: "boots_ok h (es_boots es)"
    and rep: "replay_ok (last (es_boots es)) (es_receipts es) (es_fingerprints es)"
    by (metis option.inject)+
  let ?b = "bt_boot_id (last (es_boots es))"
  have cur: "hd_current_boot_id h = Some ?b" using ok False by (simp add: boots_ok_def)
  have r: "\<forall>r\<in>set (es_receipts es). rc_boot_id r = ?b"
    and f: "\<forall>f\<in>set (es_fingerprints es). fp_receipt_id f \<in> rc_id ` set (es_receipts es)"
    using rep by (force simp: replay_ok_def replay_upto_def)+
  have "delete_where (\<lambda>r. rc_boot_id r = ?b) (es_receipts es) = []"
    "filter (\<lambda>r. rc_boot_id r = ?b) (es_receipts es) = es_receipts es"
    using r by (simp_all add: delete_where_def)
  moreover have "delete_where (\<lambda>f. fp_receipt_id f \<in> rc_id ` set (es_receipts es)) (es_fingerprints es) = []"
    using f by (simp add: delete_where_def)
  ultimately show ?thesis
    by (simp add: cur scrub_fenced_boot_replay_material_def fenced_def fence_boot_def)
qed

lemma create_boot_step:
  assumes "edge_ok es" "es_head es = Some h" "\<forall>b\<in>set (es_boots es). bt_boot_id b \<noteq> bid"
    "hd_current_boot_generation h < MAX_SAFE_SEQUENCE"
    "es_boots es' = fence_boot (hd_current_boot_id h) at (es_boots es)" "es_head es' = Some h"
  shows "create_boot_and_advance_head bid (hd_current_boot_id h) (hd_current_boot_generation h)
      (hd_current_boot_generation h + 1) at es' =
    Inr (es'\<lparr>es_boots := es_boots es' @ [new_boot (hd_current_boot_generation h + 1) bid (hd_current_boot_id h) at],
      es_head := Some (h\<lparr>hd_current_boot_id := Some bid,
        hd_current_boot_generation := hd_current_boot_generation h + 1\<rparr>)\<rparr>)"
proof -
  have "boots_ok h (es_boots es)" using assms(1,2) by (auto simp: edge_ok_def)
  from boots_ok_roll(1) [OF this assms(3,4) refl, of at] show ?thesis
    using assms(5,6) by (simp add: create_boot_and_advance_head_def new_boot_def Let_def)
qed

lemma rolled_staged:
  assumes "edge_ok es" "es_head es = Some h" "\<forall>b\<in>set (es_boots es). bt_boot_id b \<noteq> bid"
    "hd_current_boot_generation h < MAX_SAFE_SEQUENCE" "first_is_transition events"
    "case presence of None \<Rightarrow> c = None | Some p \<Rightarrow> \<exists>m. mutable_presence_of p = Inr m \<and> c = Some m"
    "ready (hd_current_boot_generation h + 1) broken at 1 c broken u"
  shows "staged (rolled h bid at q u es) (hd_current_boot_generation h + 1) bid 1 at presence broken events"
proof -
  have "boots_ok h (es_boots es)" using assms(1,2) by (auto simp: edge_ok_def)
  from boots_ok_roll(2) [OF this assms(3,4) refl, of at] show ?thesis
    using assms(5-) unfolding staged_def rolled_def by (auto simp: new_boot_def replay_upto_def)
qed

lemma stage_new:
  assumes ok: "edge_ok es" and h: "es_head es = Some h" and t: "time_ok es at"
    and fresh: "\<forall>b\<in>set (es_boots es). bt_boot_id b \<noteq> normalize_uuid (en_boot_id (pr_envelope report))"
    and prev: "normalize_nullable_uuid (en_previous_boot_id (pr_envelope report)) = hd_current_boot_id h"
    and lt: "hd_current_boot_generation h < MAX_SAFE_SEQUENCE"
    and first: "first_is_transition (en_events (pr_envelope report))"
  defines "bid \<equiv> normalize_uuid (en_boot_id (pr_envelope report))"
    and "seamless \<equiv> can_roll_boot_without_breaking_activity (es_presence es) (en_events (pr_envelope report)) at"
  shows "\<exists>u q. roll_boot report h (hd_current_boot_generation h) (hd_current_boot_generation h + 1) at es
      = Inr (rolled h bid at q u es, (if seamless then es_presence es else None), seamless)
    \<and> close_expired_lease (if seamless then es_presence es else None) at (rolled h bid at q u es)
      = Inr (rolled h bid at q u es, False)
    \<and> staged (rolled h bid at q u es) (hd_current_boot_generation h + 1) bid 1 at
        (if seamless then es_presence es else None) (\<not> seamless) (en_events (pr_envelope report))"
proof -
  let ?g = "hd_current_boot_generation h" and ?ev = "en_events (pr_envelope report)"
  note fence = fence_step [OF ok h, of at]
  have tab: "closed_by at (es_intervals es)" "interval_table_ok (es_intervals es)"
  proof (atomize (full), cases "es_boots es = []")
    case True
    with ok show "closed_by at (es_intervals es) \<and> interval_table_ok (es_intervals es)"
      by (auto simp: edge_ok_def closed_by_def interval_table_ok_def row_count_def)
  next
    case False
    from edge_ok_bootedE [OF ok False] obtain p where "es_presence es = Some p" "activity_ok p (es_intervals es)" .
    with t show "closed_by at (es_intervals es) \<and> interval_table_ok (es_intervals es)"
      by (auto simp: activity_ok_def time_ok_def intro: closed_by_mono)
  qed
  show ?thesis
  proof (cases seamless)
    case True
    then obtain p s rest where p: "es_presence es = Some p" "pn_lease_closed_at p = None" "at < pn_lease_expires_at p"
      and s: "?ev = State_transition s # rest" "st_activity_state s = pn_activity_state p"
      by (auto simp: seamless_def can_roll_boot_without_breaking_activity_def
          split: option.splits list.splits edge_event.splits)
    have ne: "es_boots es \<noteq> []" using ok p(1) by (auto simp: edge_ok_def)
    from edge_ok_bootedE [OF ok ne] p(1) h obtain
      pok: "presence_ok h (last (es_boots es)) p" and act: "activity_ok p (es_intervals es)" by (metis option.inject)
    have pc: "presence_constraints p" using pok by (simp add: presence_ok_def)
    note mut = mutable_presence_of_ok [OF pc]
    from live_interval [OF act p(2)] obtain i where i: "open_intervals (es_intervals es) = [i]"
      "shows_activity i (pn_boot_generation p) (pn_activity_state p) (pn_eligible_since p)
        (pn_last_accepted_sequence p) (pn_last_report_received_at p)" .
    let ?es2 = "(fenced h at es)\<lparr>es_boots := es_boots (fenced h at es) @ [new_boot (?g + 1) bid (hd_current_boot_id h) at],
      es_head := Some (h\<lparr>hd_current_boot_id := Some bid, hd_current_boot_generation := ?g + 1\<rparr>)\<rparr>"
    have f1: "fence_previous_boot_and_presence (hd_current_boot_id h) (es_presence es) at True es = Inr (fenced h at es)"
      using fence by (simp add: fence_previous_boot_and_presence_def)
    have f2: "create_boot_and_advance_head bid (hd_current_boot_id h) ?g (?g + 1) at (fenced h at es) = Inr ?es2"
      unfolding bid_def by (rule create_boot_step [OF ok h fresh lt]) (simp_all add: fenced_def h)
    from move_interval_ok [OF tab(2) i(1) tab(1), of "?g + 1" ?es2] obtain u where
      "move_open_activity_interval_to_boot (?g + 1) (?es2\<lparr>es_intervals := es_intervals es\<rparr>) = Inr (?es2\<lparr>es_intervals := u\<rparr>)"
      and u: "interval_table_ok u" "closed_by at u"
        "open_intervals u = [i\<lparr>iv_boot_generation := ?g + 1, iv_start_sequence := 1\<rparr>]" by blast
    then have f3: "move_open_activity_interval_to_boot (?g + 1) ?es2 = Inr (rolled h bid at (es_presence es) u es)"
      by (simp add: fenced_def rolled_def)
    have tm: "pn_last_report_received_at p \<le> at" using t p(1) by (simp add: time_ok_def)
    have "ready (?g + 1) False at 1 (Some (mutable_of p)) False u"
      using u i(2) mut(2) tm by (simp add: ready_def shows_activity_def mutable_of_def)
    then have "staged (rolled h bid at (es_presence es) u es) (?g + 1) bid 1 at (es_presence es) False ?ev"
      unfolding bid_def using p(1) mut(1)
      by (intro rolled_staged [OF ok h fresh lt first, where c = "Some (mutable_of p)"]) simp_all
    moreover have "close_expired_lease (es_presence es) at (rolled h bid at (es_presence es) u es)
        = Inr (rolled h bid at (es_presence es) u es, False)"
      using p by (simp add: close_expired_lease_def)
    moreover have "roll_boot report h ?g (?g + 1) at es = Inr (rolled h bid at (es_presence es) u es, es_presence es, True)"
      using True f1 f2 f3 by (simp add: roll_boot_def seamless_def [symmetric] prev bid_def [symmetric] Let_def)
    ultimately show ?thesis using True by (intro exI [of _ u] exI [of _ "es_presence es"]) simp
  next
    case False
    obtain u where f1: "fence_previous_boot_and_presence (hd_current_boot_id h) (es_presence es) at False es
        = Inr ((fenced h at es)\<lparr>es_intervals := u, es_presence := None\<rparr>)"
      and u: "interval_table_ok u" "open_intervals u = []" "closed_by at u"
    proof (cases "es_presence es")
      case None
      then have "es_intervals es = []" using ok by (auto simp: edge_ok_def split: if_splits)
      with None tab that [of "[]"] fence show thesis
        by (simp add: fence_previous_boot_and_presence_def fenced_def)
    next
      case (Some p)
      have ne: "es_boots es \<noteq> []" using ok Some by (auto simp: edge_ok_def)
      from edge_ok_bootedE [OF ok ne] Some h obtain
        pok: "presence_ok h (last (es_boots es)) p" and act: "activity_ok p (es_intervals es)" by (metis option.inject)
      have pc: "presence_constraints p" using pok by (simp add: presence_ok_def)
      have tm: "pn_last_report_received_at p \<le> at" "watermark p \<le> at" using t Some by (simp_all add: time_ok_def)
      have ps: "parse_sequence (pn_last_accepted_sequence p) l = Inr (pn_last_accepted_sequence p)" for l
        using pc by (simp add: parse_sequence_def presence_constraints_def)
      have lease: "pn_last_report_received_at p \<le> pn_lease_expires_at p" using pc by (simp add: presence_constraints_def)
      show thesis
      proof (cases "pn_lease_closed_at p")
        case None
        let ?e = "if pn_lease_expires_at p \<le> at then pn_lease_expires_at p else at"
        let ?why = "if pn_lease_expires_at p \<le> at then Lease_expired else Boot_replaced"
        have act': "activity_ok p (es_intervals (fenced h at es))" using act by (simp add: fenced_def)
        have "pn_last_report_received_at p \<le> ?e" "?e \<le> at" using tm lease by auto
        from close_live_interval [OF pc act' None tm(2) this, of ?why] obtain u where
          "close_open_activity_interval ?e (pn_last_accepted_sequence p) ?why (fenced h at es)
            = Inr ((fenced h at es)\<lparr>es_intervals := u\<rparr>)" "interval_table_ok u" "open_intervals u = []" "closed_by at u"
          by blast
        with that [of u] Some None fence ps show thesis
          by (simp add: fence_previous_boot_and_presence_def Let_def)
      next
        case closed: (Some c)
        then have w: "watermark p = pn_lease_expires_at p" by (simp add: watermark_def)
        have "open_intervals (es_intervals es) = []" using act closed by (simp add: activity_ok_def)
        with that [of "es_intervals es"] Some closed fence tab tm(2) w show thesis
          by (simp add: fence_previous_boot_and_presence_def fenced_def)
      qed
    qed
    have f2: "create_boot_and_advance_head bid (hd_current_boot_id h) ?g (?g + 1) at
        ((fenced h at es)\<lparr>es_intervals := u, es_presence := None\<rparr>) = Inr (rolled h bid at None u es)"
      unfolding bid_def by (subst create_boot_step [OF ok h fresh lt]) (simp_all add: fenced_def h rolled_def)
    have "ready (?g + 1) True at 1 None True u" using u by (simp add: ready_def)
    then have "staged (rolled h bid at None u es) (?g + 1) bid 1 at None True ?ev"
      unfolding bid_def by (intro rolled_staged [OF ok h fresh lt first, where c = None]) simp_all
    moreover have "close_expired_lease None at (rolled h bid at None u es) = Inr (rolled h bid at None u es, False)"
      by (simp add: close_expired_lease_def)
    moreover have "roll_boot report h ?g (?g + 1) at es = Inr (rolled h bid at None u es, None, False)"
      using False f1 f2 by (simp add: roll_boot_def seamless_def [symmetric] prev bid_def [symmetric] Let_def)
    ultimately show ?thesis using False by (intro exI [of _ u] exI [of _ None]) simp
  qed
qed

section \<open>Acceptance\<close>

lemma accept_on_store_split:
  "accept_on_store rid report verified h cg g isNew at lease es =
     rbind (if isNew then roll_boot report h cg g at es else Inr (es, es_presence es, False)) (\<lambda>(es1, presence, seamless).
     rbind (close_expired_lease presence at es1) (\<lambda>(es2, expired).
     rbind (accepted_tail rid report verified g at lease presence ((isNew \<and> \<not> seamless) \<or> expired) es2) (\<lambda>(es', pet).
       Inr (es', pet, expired))))"
  by (simp add: accept_on_store_def accepted_tail_def Let_def rbind_assoc case_prod_beta')

lemma resolve_new_boot:
  assumes "resolve_boot report es h cg = Inr (g, True, boot)"
  shows "g = cg + 1" "boot = None" "cg < MAX_SAFE_SEQUENCE"
    "\<forall>b\<in>set (es_boots es). bt_boot_id b \<noteq> normalize_uuid (en_boot_id (pr_envelope report))"
    "normalize_nullable_uuid (en_previous_boot_id (pr_envelope report)) = hd_current_boot_id h"
    "en_first_sequence (pr_envelope report) = 1" "first_is_transition (en_events (pr_envelope report))"
  using assms
  by (auto simp: resolve_boot_def Let_def result_simps find_boot_def select_one_None_iff split: if_splits option.splits)

lemma resolve_current_boot:
  assumes "resolve_boot report es h cg = Inr (g, False, boot)" "boots_ok h (es_boots es)"
  shows "es_boots es \<noteq> []" "boot = Some (last (es_boots es))" "g = bt_generation (last (es_boots es))"
    "normalize_uuid (en_boot_id (pr_envelope report)) = bt_boot_id (last (es_boots es))"
    "normalize_nullable_uuid (en_previous_boot_id (pr_envelope report)) = bt_previous_boot_id (last (es_boots es))"
proof -
  let ?bid = "normalize_uuid (en_boot_id (pr_envelope report))"
  from assms(1) obtain b where b: "hd_current_boot_id h = Some ?bid" "find_boot es ?bid = Some b"
    "boot = Some b" "g = bt_generation b"
    "normalize_nullable_uuid (en_previous_boot_id (pr_envelope report)) = bt_previous_boot_id b"
    by (auto simp: resolve_boot_def Let_def result_simps parse_sequence_def split: if_splits option.splits)
  from assms(2) b(1) show ne: "es_boots es \<noteq> []" and id: "?bid = bt_boot_id (last (es_boots es))"
    by (auto simp: boots_ok_def split: if_splits)
  have dist: "distinct (map bt_boot_id (es_boots es))" using assms(2) by (simp add: boots_ok_def)
  from b(2) have "b \<in> set (es_boots es)" "bt_boot_id b = ?bid"
    unfolding find_boot_def by (auto dest: select_one_SomeD)
  with id ne dist have "b = last (es_boots es)" by (auto simp: distinct_map dest: inj_onD)
  with b(3-5) show "boot = Some (last (es_boots es))" "g = bt_generation (last (es_boots es))"
    "normalize_nullable_uuid (en_previous_boot_id (pr_envelope report)) = bt_previous_boot_id (last (es_boots es))"
    by simp_all
qed

lemma check_sequence_continues:
  assumes "check_sequence iid report es g isNew boot = Inr None"
  shows "isNew \<or> (case boot of None \<Rightarrow> True | Some b \<Rightarrow> en_first_sequence (pr_envelope report) = bt_next_sequence b)"
  using assms
  by (auto simp: check_sequence_def Let_def result_simps parse_sequence_or_next_def split: option.splits if_splits)

text \<open>What an accepted report leaves behind.\<close>

definition accepted_state ::
  "uuid \<Rightarrow> prepared_edge_report \<Rightarrow> verified_edge_context \<Rightarrow> int \<Rightarrow> date_ms \<Rightarrow> date_ms \<Rightarrow> edge_store \<Rightarrow> bool" where
  "accepted_state rid report verified g at lease es \<longleftrightarrow> edge_ok es
     \<and> es_boots es \<noteq> [] \<and> bt_generation (last (es_boots es)) = g
     \<and> bt_boot_id (last (es_boots es)) = normalize_uuid (en_boot_id (pr_envelope report))
     \<and> bt_previous_boot_id (last (es_boots es)) = normalize_nullable_uuid (en_previous_boot_id (pr_envelope report))
     \<and> bt_next_sequence (last (es_boots es)) = last_sequence report + 1
     \<and> (\<exists>rs. es_receipts es = rs @ [receipt_of rid report verified g at lease])
     \<and> (\<exists>p. es_presence es = Some p \<and> pn_last_report_received_at p = at \<and> pn_lease_expires_at p = lease
          \<and> pn_lease_closed_at p = None)"

lemma accepted_tail_state:
  assumes st: "staged es g (normalize_uuid (en_boot_id (pr_envelope report))) (en_first_sequence (pr_envelope report))
      at presence broken (en_events (pr_envelope report))"
    and r: "report_ok report" and rid: "\<forall>x\<in>set (es_receipts es). rc_id x \<noteq> rid" and lease: "at < lease"
    and prev: "bt_previous_boot_id (last (es_boots es)) = normalize_nullable_uuid (en_previous_boot_id (pr_envelope report))"
  shows "\<exists>es' pet. accepted_tail rid report verified g at lease presence broken es = Inr (es', pet)
    \<and> accepted_state rid report verified g at lease es'
    \<and> map bt_boot_id (es_boots es') = map bt_boot_id (es_boots es)"
proof -
  from accepted_tail_edge_ok [OF assms(1-4), of verified] obtain es' pet m where
    tail: "accepted_tail rid report verified g at lease presence broken es = Inr (es', pet)" "edge_ok es'"
      "es_receipts es' = es_receipts es @ [receipt_of rid report verified g at lease]"
      "es_boots es' = accepted_boots g (last_sequence report + 1) at (es_boots es)"
      "es_presence es' = Some (presence_of g (normalize_uuid (en_boot_id (pr_envelope report))) m at lease)"
    by blast
  from st have b: "es_boots es \<noteq> []" "bt_generation (last (es_boots es)) = g"
    "bt_boot_id (last (es_boots es)) = normalize_uuid (en_boot_id (pr_envelope report))"
    by (simp_all add: staged_def)
  have "es_boots es' \<noteq> []" using b(1) tail(4) by (simp add: accepted_boots_def update_where_def)
  then have "accepted_state rid report verified g at lease es'"
    using tail b prev accepted_boots_last [OF b(1,2)] by (simp add: accepted_state_def presence_of_def)
  moreover have "map bt_boot_id (es_boots es') = map bt_boot_id (es_boots es)"
    by (simp add: tail(4) accepted_boots_def map_update_where)
  ultimately show ?thesis using tail(1) by blast
qed

lemma accept_ok:
  assumes ok: "edge_ok es" and h: "es_head es = Some h" and t: "time_ok es at" and r: "report_ok report"
    and res: "resolve_boot report es h (hd_current_boot_generation h) = Inr (g, isNew, boot)"
    and chk: "check_sequence iid report es g isNew boot = Inr None"
    and rid: "\<forall>x\<in>set (es_receipts es). rc_id x \<noteq> rid" and lease: "at < lease"
  shows "\<exists>es' pet expired. accept_on_store rid report verified h (hd_current_boot_generation h) g isNew at lease es
      = Inr (es', pet, expired) \<and> accepted_state rid report verified g at lease es'
      \<and> map bt_boot_id (es_boots es') = map bt_boot_id (es_boots es)
          @ (if isNew then [normalize_uuid (en_boot_id (pr_envelope report))] else [])"
proof (cases isNew)
  case False
  have bo: "boots_ok h (es_boots es)" using ok h by (auto simp: edge_ok_def)
  have "resolve_boot report es h (hd_current_boot_generation h) = Inr (g, False, boot)" using res False by simp
  note cur = resolve_current_boot [OF this bo]
  have first: "en_first_sequence (pr_envelope report) = bt_next_sequence (last (es_boots es))"
    using check_sequence_continues [OF chk] False cur(2) by simp
  have ev: "en_events (pr_envelope report) \<noteq> []" using r by (simp add: report_ok_def)
  from stage_existing [OF ok cur(1) t ev] obtain u expired where
    close: "close_expired_lease (es_presence es) at es = Inr (es\<lparr>es_intervals := u\<rparr>, expired)"
    and st: "staged (es\<lparr>es_intervals := u\<rparr>) g (normalize_uuid (en_boot_id (pr_envelope report)))
      (en_first_sequence (pr_envelope report)) at (es_presence es) expired (en_events (pr_envelope report))"
    by (auto simp: first cur)
  from accepted_tail_state [OF st r _ lease, of rid verified] rid cur(5) obtain es' pet where
    "accepted_tail rid report verified g at lease (es_presence es) expired (es\<lparr>es_intervals := u\<rparr>) = Inr (es', pet)"
    "accepted_state rid report verified g at lease es'"
    "map bt_boot_id (es_boots es') = map bt_boot_id (es_boots es)" by auto
  with close show ?thesis by (simp add: accept_on_store_split False)
next
  case True
  have "resolve_boot report es h (hd_current_boot_generation h) = Inr (g, True, boot)" using res True by simp
  note new = resolve_new_boot [OF this]
  from stage_new [OF ok h t new(4,5,3,7)] obtain u q where
    st: "roll_boot report h (hd_current_boot_generation h) g at es = Inr (rolled h
        (normalize_uuid (en_boot_id (pr_envelope report))) at q u es,
        (if can_roll_boot_without_breaking_activity (es_presence es) (en_events (pr_envelope report)) at
         then es_presence es else None),
        can_roll_boot_without_breaking_activity (es_presence es) (en_events (pr_envelope report)) at)"
    "close_expired_lease (if can_roll_boot_without_breaking_activity (es_presence es) (en_events (pr_envelope report)) at
         then es_presence es else None) at (rolled h (normalize_uuid (en_boot_id (pr_envelope report))) at q u es)
      = Inr (rolled h (normalize_uuid (en_boot_id (pr_envelope report))) at q u es, False)"
    "staged (rolled h (normalize_uuid (en_boot_id (pr_envelope report))) at q u es) g
       (normalize_uuid (en_boot_id (pr_envelope report))) (en_first_sequence (pr_envelope report)) at
       (if can_roll_boot_without_breaking_activity (es_presence es) (en_events (pr_envelope report)) at
         then es_presence es else None)
       (\<not> can_roll_boot_without_breaking_activity (es_presence es) (en_events (pr_envelope report)) at)
       (en_events (pr_envelope report))"
    unfolding new(1,6) by blast
  from accepted_tail_state [OF st(3) r _ lease, of rid verified] new(5) obtain es' pet where
    "accepted_tail rid report verified g at lease
       (if can_roll_boot_without_breaking_activity (es_presence es) (en_events (pr_envelope report)) at
         then es_presence es else None)
       (\<not> can_roll_boot_without_breaking_activity (es_presence es) (en_events (pr_envelope report)) at)
       (rolled h (normalize_uuid (en_boot_id (pr_envelope report))) at q u es) = Inr (es', pet)"
    "accepted_state rid report verified g at lease es'"
    "map bt_boot_id (es_boots es') = map bt_boot_id (es_boots es) @ [normalize_uuid (en_boot_id (pr_envelope report))]"
    by (auto simp: rolled_def new_boot_def)
  with st(1,2) show ?thesis by (auto simp: accept_on_store_split True)
qed

end
