(* ===== verification/Ingest.thy ===== *)
theory Ingest
  imports Revision_Log Edge_Accept
begin

text \<open>
  The ingestion transaction (createEdgeReportIngestor, ingestInTransaction and
  appendOfficeRevisionEvents of presence/application/ingest-edge-report.ts): the checks of
  instance, agent and credential, the classification of the report, its acceptance on the
  tables of the instance and the revisions of the affected offices. The row locks serialise the
  transactions of an instance, so a transaction is one step on the database; a failure rolls
  it back, which is a value \<open>Inl\<close> that carries no database.
\<close>

section \<open>Guards\<close>

definition ONBOARDING_PET_IDS :: "string list" where
  "ONBOARDING_PET_IDS = [''bloop'', ''buzz-bit'', ''comet-lop'', ''gizmo-kernel'', ''kiki-koala'',
     ''momo-mug'', ''moss-shell'', ''nimbus-noodle'', ''nori-nibble'', ''olli-orbit'', ''pico-patch'',
     ''pogo-ping'', ''rumi-relay'', ''sora-shiba'', ''taro-tinker'']"

definition assert_verified_identity :: "prepared_edge_report \<Rightarrow> verified_edge_context \<Rightarrow> unit tx" where
  "assert_verified_identity report verified =
     guard_r (normalize_uuid (vf_instanceId verified) = normalize_uuid (en_instance_id (pr_envelope report))
         \<and> normalize_uuid (vf_keyId verified) = normalize_uuid (en_key_id (pr_envelope report)))
       (problem Invalid_signature 401 ''The verified device identity does not match the report envelope.'')"

definition assert_supported_pet_ids :: "prepared_edge_report \<Rightarrow> unit tx" where
  "assert_supported_pet_ids report =
     guard_r (list_all (\<lambda>e. case e of State_transition s \<Rightarrow> st_pet_id s \<in> set ONBOARDING_PET_IDS
                | Heartbeat _ \<Rightarrow> True) (en_events (pr_envelope report)))
       (problem Report_semantics_invalid 422 ''The selected pet is not supported by this Control Plane.'')"

text \<open>
  What a transaction reads from outside: the database clock when the credential is checked and
  when the server time is taken, the random receipt id, SHA-256, the projector's environment
  for each office and the configured lease.
\<close>

record ingest_env =
  ig_credential_clock :: timestamp_us
  ig_clock :: timestamp_us
  ig_receipt_id :: uuid
  ig_sha256 :: "byte_string \<Rightarrow> byte_string"
  ig_projector :: "uuid \<Rightarrow> projector_env"
  ig_lease_ttl_seconds :: int

definition lock_instance :: "db \<Rightarrow> string \<Rightarrow> instance_row tx" where
  "lock_instance d instanceId =
     (case select_one (\<lambda>n. in_id n = uuid_of_text instanceId) (db_instances d) of
        None \<Rightarrow> Inl (problem Instance_not_found 401 ''The Agent instance or device credential is unavailable.'')
      | Some n \<Rightarrow>
          if in_status n \<noteq> Instance_active \<or> in_revoked_at n \<noteq> None
          then Inl (problem Device_revoked 401 ''The Agent instance or device credential is unavailable.'')
          else Inr n)"

definition lock_agent :: "db \<Rightarrow> instance_row \<Rightarrow> agent_row tx" where
  "lock_agent d n =
     (case find_agent d (in_logical_agent_id n) of
        None \<Rightarrow> Inl (problem Device_revoked 401 ''The Agent instance is not the active reporting instance.'')
      | Some g \<Rightarrow>
          if ag_active_reporting_instance_id g \<noteq> Some (in_id n)
          then Inl (problem Device_revoked 401 ''The Agent instance is not the active reporting instance.'')
          else Inr g)"

definition lock_and_validate_credential :: "ingest_env \<Rightarrow> verified_edge_context \<Rightarrow> db \<Rightarrow> unit tx" where
  "lock_and_validate_credential env verified d =
     (case select_one (\<lambda>c. cr_key_id c = uuid_of_text (vf_keyId verified)
             \<and> cr_instance_id c = uuid_of_text (vf_instanceId verified)
             \<and> cr_revoked_at c = None \<and> ig_credential_clock env < to_timestamp (cr_valid_until c))
          (db_credentials d) of
        None \<Rightarrow> Inl (problem Device_revoked 401 ''The Agent instance or device credential is unavailable.'')
      | Some c \<Rightarrow>
          (case vf_credentialPublicKeySha256 verified of
             None \<Rightarrow> Inr ()
           | Some h \<Rightarrow> guard_r (ig_sha256 env (cr_public_key c) = h)
               (problem Invalid_signature 401 ''The verified public key changed before the report was committed.'')))"

definition lock_head :: "edge_store \<Rightarrow> head_row tx" where
  "lock_head es = (case es_head es of
     None \<Rightarrow> Inl (problem Internal_error 500 ''The Agent instance has no ingestion head.'')
   | Some h \<Rightarrow> Inr h)"

section \<open>The affected offices\<close>

definition lock_affected_offices :: "db \<Rightarrow> uuid \<Rightarrow> uuid list" where
  "lock_affected_offices d logicalAgentId =
     sort [of_id o'. m \<leftarrow> db_mounts d, mt_logical_agent_id m = logicalAgentId, mt_active m,
             mt_presence_visible m \<or> mt_stats_opt_in m,
             o' \<leftarrow> db_offices d, of_id o' = mt_office_id m]"

definition next_server_received_at :: "timestamp_us \<Rightarrow> head_row \<Rightarrow> date_ms" where
  "next_server_received_at clock head =
     to_date (case hd_last_server_received_at head of None \<Rightarrow> clock | Some t \<Rightarrow> max clock (to_timestamp t))"

definition append_office_revision_events ::
  "(uuid \<Rightarrow> projector_env) \<Rightarrow> uuid \<Rightarrow> uuid list \<Rightarrow> date_ms \<Rightarrow> db \<Rightarrow> db tx" where
  "append_office_revision_events envs receiptId lockedOfficeIds serverReceivedAt d =
     foldM_r (\<lambda>officeId d. rbind (record_revision (envs officeId)
         \<lparr>ri_officeId = officeId, ri_eventType = Presence_changed, ri_sourceKind = Edge_receipt,
          ri_sourceKey = js receiptId, ri_sourceReceiptId = Some receiptId, ri_at = serverReceivedAt\<rparr> d)
         (\<lambda>(_, d'). Inr d')) lockedOfficeIds d"

section \<open>The transaction\<close>

text \<open>Writing the tables of an instance; a deleted receipt is unlinked from the outbox.\<close>

definition store_instance :: "uuid \<Rightarrow> edge_store \<Rightarrow> db \<Rightarrow> db" where
  "store_instance iid es d =
     (let removed = filter (\<lambda>r. r \<notin> set (map rc_id (es_receipts es))) (map rc_id (es_receipts (db_edge d iid))) in
      d\<lparr>db_edge := (db_edge d)(iid := es),
        db_outbox := update_where (\<lambda>b. case ob_source_receipt_id b of None \<Rightarrow> False | Some r \<Rightarrow> r \<in> set removed)
          (\<lambda>b. b\<lparr>ob_source_receipt_id := None\<rparr>) (db_outbox d)\<rparr>)"

definition set_agent_pet :: "uuid \<Rightarrow> string \<Rightarrow> db \<Rightarrow> db" where
  "set_agent_pet agentId pet d = d\<lparr>db_agents :=
     update_where (\<lambda>g. ag_id g = agentId) (\<lambda>g. g\<lparr>ag_pet_id := pet\<rparr>) (db_agents d)\<rparr>"

text \<open>The tables written by an accepted report, before the offices record it.\<close>

definition report_transitions :: "prepared_edge_report \<Rightarrow> bool" where
  "report_transitions report = list_ex is_state_transition (en_events (pr_envelope report))"

definition store_accepted :: "uuid \<Rightarrow> uuid \<Rightarrow> prepared_edge_report \<Rightarrow> edge_store \<Rightarrow> string \<Rightarrow> db \<Rightarrow> db" where
  "store_accepted iid agentId report es pet d =
     (let d1 = store_instance iid es d in
      if report_transitions report then set_agent_pet agentId pet d1 else d1)"

definition accept_report ::
  "ingest_env \<Rightarrow> prepared_edge_report \<Rightarrow> verified_edge_context \<Rightarrow> instance_row \<Rightarrow> agent_row \<Rightarrow> head_row
   \<Rightarrow> int \<Rightarrow> int \<Rightarrow> bool \<Rightarrow> db \<Rightarrow> (edge_report_ack \<times> db) tx" where
  "accept_report env report verified n g head currentGeneration bootGeneration isNewBoot d =
     (let iid = in_id n; es = db_edge d iid;
          lockedOfficeIds = lock_affected_offices d (ag_id g);
          serverReceivedAt = next_server_received_at (ig_clock env) head;
          leaseExpiresAt = serverReceivedAt + ig_lease_ttl_seconds env * 1000 in
      rbind (accept_on_store (ig_receipt_id env) report verified head currentGeneration bootGeneration
               isNewBoot serverReceivedAt leaseExpiresAt es) (\<lambda>(es', pet, leaseWasExpired).
        let d2 = store_accepted iid (ag_id g) report es' pet d in
        rbind (if isNewBoot \<or> leaseWasExpired \<or> report_transitions report
               then append_office_revision_events (ig_projector env) (ig_receipt_id env) lockedOfficeIds
                      serverReceivedAt d2
               else Inr d2) (\<lambda>d3.
          Inr (\<lparr>ak_current_protocol = 1, ak_min_supported_protocol = 1, ak_instance_id = iid,
                ak_boot_id = normalize_uuid (en_boot_id (pr_envelope report)),
                ak_accepted_through_sequence = last_sequence report,
                ak_server_received_at = serverReceivedAt, ak_lease_expires_at = leaseExpiresAt\<rparr>, d3))))"

definition ingest_in_transaction ::
  "ingest_env \<Rightarrow> prepared_edge_report \<Rightarrow> verified_edge_context \<Rightarrow> db \<Rightarrow> (edge_report_ack \<times> db) tx" where
  "ingest_in_transaction env report verified d =
     rbind (lock_instance d (vf_instanceId verified)) (\<lambda>n.
     rbind (lock_agent d n) (\<lambda>g.
     rbind (lock_and_validate_credential env verified d) (\<lambda>_.
     let es = db_edge d (in_id n) in
     rbind (lock_head es) (\<lambda>head.
     rbind (parse_sequence_or_next (hd_current_boot_generation head) ''Invalid current boot generation'')
       (\<lambda>currentGeneration.
     rbind (resolve_boot report es head currentGeneration) (\<lambda>(bootGeneration, isNewBoot, boot).
     rbind (check_sequence (in_id n) report es bootGeneration isNewBoot boot) (\<lambda>replay.
       (case replay of
          Some ack \<Rightarrow> Inr (ack, d)
        | None \<Rightarrow> accept_report env report verified n g head currentGeneration bootGeneration isNewBoot d))))))))"

definition ingest ::
  "ingest_env \<Rightarrow> prepared_edge_report \<Rightarrow> verified_edge_context \<Rightarrow> db
   \<Rightarrow> (protocol_problem, edge_report_ack \<times> db) result" where
  "ingest env report verified d =
     (case rbind (assert_verified_identity report verified) (\<lambda>_.
           rbind (assert_supported_pet_ids report) (\<lambda>_.
             ingest_in_transaction env report verified d)) of
        Inr r \<Rightarrow> Inr r
      | Inl (Problem p) \<Rightarrow> Inl p
      | Inl _ \<Rightarrow> Inl (protocol_problem Internal_error 500 ''The report could not be committed atomically.''))"

end
