(* ===== verification/Log_Evolution.thy ===== *)
theory Log_Evolution
  imports Revision_Log
begin

text \<open>
  How the operations move the revision log of an office. A log evolves when it stays sound, its
  floor and its head do not fall, and every retained revision that existed before is the very
  event it was: history is only appended to and cut at its old end. All operations that write
  the log are shown to let it evolve, which is what its readers rely on, and to leave the
  tables outside the log alone.
\<close>

section \<open>Evolution\<close>

definition log_evolves :: "uuid \<Rightarrow> db \<Rightarrow> db \<Rightarrow> bool" where
  "log_evolves oid d e \<longleftrightarrow> (log_ok d oid \<longrightarrow> log_ok e oid
     \<and> log_floor d oid \<le> log_floor e oid \<and> log_head d oid \<le> log_head e oid
     \<and> (\<forall>ev\<in>set (office_events e oid). re_revision ev \<le> log_head d oid \<longrightarrow> ev \<in> set (office_events d oid)))"

lemma log_evolves_refl [simp]: "log_evolves oid d d"
  by (simp add: log_evolves_def)

lemma log_evolves_trans: "log_evolves oid d e \<Longrightarrow> log_evolves oid e f \<Longrightarrow> log_evolves oid d f"
  unfolding log_evolves_def by (meson order_trans)

text \<open>What a log is made of.\<close>

definition same_log :: "uuid \<Rightarrow> db \<Rightarrow> db \<Rightarrow> bool" where
  "same_log oid d e \<longleftrightarrow> office_rows e oid = office_rows d oid \<and> office_events e oid = office_events d oid
     \<and> projection_rows e oid = projection_rows d oid"

lemma same_log_ok:
  assumes "same_log oid d e"
  shows "log_ok e oid = log_ok d oid" "log_floor e oid = log_floor d oid" "log_head e oid = log_head d oid"
    "office_events e oid = office_events d oid"
  using assms log_cong [of e oid d] by (simp_all add: same_log_def)

lemma same_log_evolves: "same_log oid d e \<Longrightarrow> log_evolves oid d e"
  using same_log_ok [of oid d e]
  by (auto simp: log_evolves_def dest: office_log.revision_range)

section \<open>The tables outside the log\<close>

definition same_outside :: "db \<Rightarrow> db \<Rightarrow> bool" where
  "same_outside d e \<longleftrightarrow> db_rooms e = db_rooms d \<and> db_agents e = db_agents d \<and> db_instances e = db_instances d
     \<and> db_credentials e = db_credentials d \<and> db_edge e = db_edge d \<and> db_mounts e = db_mounts d
     \<and> db_qualifications e = db_qualifications d \<and> db_schedule_versions e = db_schedule_versions d
     \<and> db_schedule_rules e = db_schedule_rules d \<and> db_day_results e = db_day_results d
     \<and> db_view_tokens e = db_view_tokens d \<and> map of_id (db_offices e) = map of_id (db_offices d)
     \<and> map of_owner_account_id (db_offices e) = map of_owner_account_id (db_offices d)"

lemma same_outside_refl [simp]: "same_outside d d"
  by (simp add: same_outside_def)

lemma same_outside_trans: "same_outside d e \<Longrightarrow> same_outside e f \<Longrightarrow> same_outside d f"
  by (simp add: same_outside_def)

lemma record_same_outside:
  assumes "record_public_revision env input lowering d = Inr (snap, e)"
  shows "same_outside d e"
proof -
  from assms obtain r d1 d2 d3 where adv: "advance_revision (ri_officeId input) d = Inr (r, d1)"
    and ens: "ensure_schedule_occurrences_around (px_zones env) (px_occurrence_id env) (ri_officeId input)
      (projection_clock env input d) d1 = Inr d2"
    and pub: "publish_snapshot env input r (projection_clock env input d) snap d2 = Inr d3"
    and e: "e = (if lowering then invalidate_history (ri_officeId input) r d3 else d3)
      \<lparr>db_notifications := db_notifications d3 @ [(ri_officeId input, r)]\<rparr>"
    by (rule record_public_revision_cases)
  have 1: "same_outside d d1"
    using adv by (auto simp: advance_revision_def same_outside_def result_simps map_update_where
        intro!: map_update_where split: option.splits)
  have 2: "same_outside d1 d2"
    using ens by (auto simp: same_outside_def dest!: ensure_occurrences_only)
  have 3: "same_outside d2 d3"
    using pub by (auto simp: publish_snapshot_def insert_revision_event_def insert_outbox_def
        upsert_projection_def same_outside_def Let_def result_simps split: if_splits)
  have 4: "same_outside d3 e"
    by (auto simp: e invalidate_history_def set_minimum_replay_def delete_revision_events_def
        same_outside_def Let_def intro!: map_update_where)
  from 1 2 3 4 show ?thesis by (blast intro: same_outside_trans)
qed

lemma record_evolves:
  assumes "record_public_revision env input lowering d = Inr (snap, e)" "log_ok d (ri_officeId input)"
  shows "log_evolves oid d e"
proof (cases "oid = ri_officeId input")
  case True
  from record_log_step [OF assms] obtain ev where
    ev: "office_events e oid = (if lowering then [] else office_events d oid) @ [ev]"
    and l: "log_ok e oid" "log_head e oid = log_head d oid + 1"
      "log_floor e oid = (if lowering then log_head d oid else log_floor d oid)"
    by (auto simp: True)
  have "map re_revision (office_events e oid) = [log_floor e oid + 1..log_head e oid]"
    by (rule office_log.contiguous [OF l(1)])
  then have "last (map re_revision (office_events e oid)) = last [log_floor e oid + 1..log_head e oid]" by simp
  moreover have "log_floor d oid \<le> log_head d oid" using assms(2) by (simp add: log_ok_def True)
  ultimately have "re_revision ev = log_head d oid + 1"
    using l(2,3) by (auto simp: ev last_map upto_rec2 split: if_splits)
  then show ?thesis
    using ev l assms(2) \<open>log_floor d oid \<le> log_head d oid\<close> by (auto simp: log_evolves_def)
next
  case False
  with record_log_step [OF assms] have "log_ok e oid = log_ok d oid" "log_floor e oid = log_floor d oid"
    "log_head e oid = log_head d oid" "office_events e oid = office_events d oid" by simp_all
  then show ?thesis by (auto simp: log_evolves_def dest: office_log.revision_range)
qed


section \<open>All logs\<close>

text \<open>Every outbox row is published and belongs to a retained event.\<close>

definition outbox_ok :: "db \<Rightarrow> bool" where
  "outbox_ok d \<longleftrightarrow> (\<forall>b\<in>set (db_outbox d). ob_published_at b \<noteq> None
     \<and> (\<exists>e\<in>set (db_revision_events d). re_office_id e = ob_office_id b \<and> re_revision e = ob_office_revision b))"

definition logs_ok :: "db \<Rightarrow> bool" where
  "logs_ok d \<longleftrightarrow> (\<forall>oid\<in>set (map of_id (db_offices d)). log_ok d oid) \<and> outbox_ok d"

definition db_evolves :: "db \<Rightarrow> db \<Rightarrow> bool" where
  "db_evolves d e \<longleftrightarrow> (logs_ok d \<longrightarrow> logs_ok e \<and> (\<forall>oid. log_evolves oid d e))"

lemma db_evolves_refl [simp]: "db_evolves d d"
  by (simp add: db_evolves_def)

lemma db_evolves_trans: "db_evolves d e \<Longrightarrow> db_evolves e f \<Longrightarrow> db_evolves d f"
  unfolding db_evolves_def by (meson log_evolves_trans)

lemma log_ok_office: "log_ok d oid \<Longrightarrow> oid \<in> set (map of_id (db_offices d))"
  by (auto simp: log_ok_def office_rows_def length_Suc_conv filter_eq_Cons_iff)

lemma db_evolvesI:
  assumes "logs_ok d \<Longrightarrow> \<forall>oid. log_evolves oid d e" "map of_id (db_offices e) = map of_id (db_offices d)"
    and "logs_ok d \<Longrightarrow> outbox_ok e"
  shows "db_evolves d e"
proof -
  have "log_ok e oid" if "logs_ok d" "oid \<in> set (map of_id (db_offices e))" for oid
  proof -
    have "log_ok d oid" using that assms(2) by (auto simp: logs_ok_def)
    moreover have "log_evolves oid d e" using assms(1) that(1) by blast
    ultimately show ?thesis by (simp add: log_evolves_def)
  qed
  then show ?thesis using assms(1,3) unfolding db_evolves_def logs_ok_def by blast
qed

lemma same_logs_evolve:
  "(\<And>oid. same_log oid d e) \<Longrightarrow> map of_id (db_offices e) = map of_id (db_offices d)
   \<Longrightarrow> (outbox_ok d \<Longrightarrow> outbox_ok e) \<Longrightarrow> db_evolves d e"
  by (rule db_evolvesI) (simp_all add: same_log_evolves logs_ok_def)

text \<open>Deleting events keeps the outbox sound, since their rows go with them.\<close>

lemma delete_outbox_ok: "outbox_ok d \<Longrightarrow> outbox_ok (delete_revision_events P d)"
  by (fastforce simp: outbox_ok_def delete_revision_events_def delete_where_def Let_def list_ex_iff)

lemma outbox_ok_cong:
  "db_outbox e = db_outbox d \<Longrightarrow> db_revision_events e = db_revision_events d \<Longrightarrow> outbox_ok e = outbox_ok d"
  by (simp add: outbox_ok_def)

lemma publish_outbox_ok:
  assumes "publish_snapshot env input r at snap d = Inr e" "outbox_ok d"
  shows "outbox_ok e"
proof -
  from assms(1) obtain row where e: "e = published_db input r at snap row d"
    and row: "ob_office_id row = ri_officeId input" "ob_office_revision row = r"
    by (rule publish_snapshot_cases)
  let ?ev = "published_event input r at snap"
  have evs: "db_revision_events e = db_revision_events d @ [?ev]"
    and ev: "re_office_id ?ev = ri_officeId input" "re_revision ?ev = r"
    by (simp_all add: e published_db_def upsert_projection_def published_event_def Let_def)
  have out: "db_outbox e = update_where (\<lambda>b. ob_office_id b = ri_officeId input
        \<and> ob_office_revision b = r \<and> ob_published_at b = None)
        (\<lambda>b. b\<lparr>ob_published_at := Some at\<rparr>) (db_outbox d @ [row])"
    by (simp add: e published_db_def Let_def)
  have old: "\<exists>e\<in>set (db_revision_events d @ [?ev]). re_office_id e = ob_office_id b \<and> re_revision e = ob_office_revision b"
    if "b \<in> set (db_outbox d @ [row])" for b
    using that assms(2) row ev by (auto simp: outbox_ok_def)
  have pub: "ob_published_at b \<noteq> None \<or> b = row" if "b \<in> set (db_outbox d @ [row])" for b
    using that assms(2) by (auto simp: outbox_ok_def)
  show ?thesis
    unfolding outbox_ok_def evs out set_update_where
  proof (intro ballI)
    fix b' assume "b' \<in> (\<lambda>b. if ob_office_id b = ri_officeId input \<and> ob_office_revision b = r
        \<and> ob_published_at b = None then b\<lparr>ob_published_at := Some at\<rparr> else b) ` set (db_outbox d @ [row])"
    then obtain b where b: "b \<in> set (db_outbox d @ [row])" "b' = (if ob_office_id b = ri_officeId input
        \<and> ob_office_revision b = r \<and> ob_published_at b = None then b\<lparr>ob_published_at := Some at\<rparr> else b)" by blast
    have "ob_office_id b' = ob_office_id b" "ob_office_revision b' = ob_office_revision b" by (simp_all add: b(2))
    moreover have "ob_published_at b' \<noteq> None" using pub [OF b(1)] row by (auto simp: b(2))
    ultimately show "ob_published_at b' \<noteq> None \<and> (\<exists>e\<in>set (db_revision_events d @ [?ev]).
        re_office_id e = ob_office_id b' \<and> re_revision e = ob_office_revision b')"
      using old [OF b(1)] by simp
  qed
qed

lemma record_outbox_ok:
  assumes "record_public_revision env input lowering d = Inr (snap, e)" "outbox_ok d"
  shows "outbox_ok e"
proof -
  from assms(1) obtain r d1 d2 d3 where adv: "advance_revision (ri_officeId input) d = Inr (r, d1)"
    and ens: "ensure_schedule_occurrences_around (px_zones env) (px_occurrence_id env) (ri_officeId input)
      (projection_clock env input d) d1 = Inr d2"
    and pub: "publish_snapshot env input r (projection_clock env input d) snap d2 = Inr d3"
    and e: "e = (if lowering then invalidate_history (ri_officeId input) r d3 else d3)
      \<lparr>db_notifications := db_notifications d3 @ [(ri_officeId input, r)]\<rparr>"
    by (rule record_public_revision_cases)
  have "outbox_ok d1" using adv assms(2)
    by (auto simp: advance_revision_def outbox_ok_def result_simps split: option.splits)
  then have "outbox_ok d2" using ens by (auto simp: outbox_ok_def dest!: ensure_occurrences_only)
  then have "outbox_ok d3" by (rule publish_outbox_ok [OF pub])
  then have "outbox_ok (delete_revision_events P d3)" for P by (rule delete_outbox_ok)
  then have "outbox_ok (invalidate_history (ri_officeId input) r d3)"
    by (simp add: invalidate_history_def set_minimum_replay_def outbox_ok_def)
  with \<open>outbox_ok d3\<close> show ?thesis by (simp add: e outbox_ok_def)
qed

lemma record_office:
  assumes "record_public_revision env input lowering d = Inr (snap, e)"
  shows "ri_officeId input \<in> set (map of_id (db_offices d))"
  using assms
  by (force simp: record_public_revision_def Let_def result_simps advance_revision_def
      dest!: select_one_SomeD split: option.splits)

lemma record_db_evolves:
  assumes "record_public_revision env input lowering d = Inr (snap, e)"
  shows "db_evolves d e"
proof (rule db_evolvesI)
  assume "logs_ok d"
  with record_office [OF assms] have "log_ok d (ri_officeId input)" by (auto simp: logs_ok_def)
  with assms show "\<forall>oid. log_evolves oid d e" by (blast intro: record_evolves)
next
  show "map of_id (db_offices e) = map of_id (db_offices d)"
    using record_same_outside [OF assms] by (simp add: same_outside_def)
next
  assume "logs_ok d"
  then show "outbox_ok e" using record_outbox_ok [OF assms] by (simp add: logs_ok_def)
qed

lemma record_revision_Inr:
  "record_revision env input d = Inr r \<Longrightarrow> record_public_revision env input False d = Inr r"
  by (simp add: record_revision_def split: if_splits)

text \<open>A loop that records revisions.\<close>

lemma foldM_recording:
  assumes "foldM_r (\<lambda>x d. rbind (record_revision (env x) (input x) d) (\<lambda>(_, d'). Inr d')) xs d = Inr e"
  shows "same_outside d e" "db_evolves d e"
proof -
  have "same_outside d e \<and> db_evolves d e"
    using assms
  proof (induction xs arbitrary: d)
    case (Cons x xs)
    then obtain snap d1 where rec: "record_revision (env x) (input x) d = Inr (snap, d1)"
      and rest: "foldM_r (\<lambda>x d. rbind (record_revision (env x) (input x) d) (\<lambda>(_, d'). Inr d')) xs d1 = Inr e"
      by (auto simp: result_simps)
    note rec = record_revision_Inr [OF rec]
    from Cons.IH [OF rest] record_same_outside [OF rec] record_db_evolves [OF rec]
    show ?case by (blast intro: same_outside_trans db_evolves_trans)
  qed simp
  then show "same_outside d e" "db_evolves d e" by simp_all
qed

end
