(* ===== verification/Ingest_Outcome.thy ===== *)
theory Ingest_Outcome
  imports Ingest Log_Evolution
begin

text \<open>
  What the ingestion transaction does to the database. An accepted report leaves the tables of
  its instance in a state that satisfies the invariant, the tables of other instances alone and
  the logs of the affected offices extended; a replayed report changes nothing and is
  acknowledged as before; every other outcome is one of the problems of the protocol, and the
  only unexpected failure is a projection that cannot be recorded.
\<close>

section \<open>Classification on a sound store\<close>

lemma boots_ok_nonempty: "boots_ok h boots \<Longrightarrow> hd_current_boot_id h = Some b \<Longrightarrow> boots \<noteq> []"
  by (auto simp: boots_ok_def)

lemma boots_ok_generation:
  assumes "boots_ok h boots" "b \<in> set boots"
  shows "1 \<le> bt_generation b" "bt_generation b \<le> MAX_SAFE_SEQUENCE"
proof -
  from assms have "bt_generation b \<in> set [1..hd_current_boot_generation h]"
    by (metis boots_ok_def image_eqI image_set)
  with assms(1) show "1 \<le> bt_generation b" "bt_generation b \<le> MAX_SAFE_SEQUENCE"
    by (auto simp: boots_ok_def)
qed

lemma resolve_boot_fails:
  assumes "boots_ok h (es_boots es)" "resolve_boot report es h cg = Inl e"
  shows "\<exists>p. e = Problem p \<and> pp_code p \<in> {Stale_boot, Report_semantics_invalid, Sequence_gap}"
proof -
  let ?bid = "normalize_uuid (en_boot_id (pr_envelope report))"
  have "find_boot es ?bid \<noteq> None" if cur: "hd_current_boot_id h = Some ?bid"
  proof -
    from cur assms(1) have "es_boots es \<noteq> []" "bt_boot_id (last (es_boots es)) = ?bid"
      by (auto simp: boots_ok_def split: if_splits)
    then show ?thesis by (auto simp: find_boot_def select_one_None_iff intro: bexI [of _ "last (es_boots es)"])
  qed
  moreover have "parse_sequence (bt_generation b) l = Inr (bt_generation b)" if "find_boot es ?bid = Some b" for b l
    using that boots_ok_generation [OF assms(1), of b]
    by (auto simp: find_boot_def parse_sequence_def dest!: select_one_SomeD)
  ultimately show ?thesis
    using assms(2)
    by (auto simp: resolve_boot_def Let_def result_simps stale_boot_def problem_def protocol_problem_def
        split: if_splits option.splits)
qed

lemma fingerprint_conflict_total:
  assumes "\<forall>f\<in>set rows. 0 \<le> fp_sequence f \<and> fp_sequence f \<le> MAX_SAFE_SEQUENCE"
  shows "\<exists>b. fingerprint_conflict rows submitted = Inr b"
  using assms by (induction rows) (auto simp: parse_sequence_def split: option.splits)

lemma fingerprint_conflict_Inl: "fingerprint_conflict rows submitted = Inl e \<Longrightarrow> \<exists>l. e = Failure l"
  by (induction rows)
    (auto simp: result_simps parse_sequence_def parse_integer_range_def split: if_splits option.splits)

lemma check_sequence_fails:
  assumes ok: "edge_ok es" and h: "es_head es = Some h" and r: "report_ok report"
    and res: "resolve_boot report es h cg = Inr (g, isNew, boot)"
    and chk: "check_sequence iid report es g isNew boot = Inl e"
  shows "\<exists>p. e = Problem p \<and> pp_code p \<in> {Sequence_conflict, Sequence_overlap, Sequence_gap}"
proof (cases isNew)
  case True
  then have "resolve_boot report es h cg = Inr (g, True, boot)" using res by simp
  note new = resolve_new_boot [OF this]
  with chk True show ?thesis by (simp add: check_sequence_def Let_def)
next
  case False
  have bo: "boots_ok h (es_boots es)" using ok h by (auto simp: edge_ok_def)
  have "resolve_boot report es h cg = Inr (g, False, boot)" using res False by simp
  note cur = resolve_current_boot [OF this bo]
  let ?b = "last (es_boots es)" and ?first = "en_first_sequence (pr_envelope report)"
  have rep: "replay_ok ?b (es_receipts es) (es_fingerprints es)"
    using ok cur(1) by (auto simp: edge_ok_def)
  note range = report_ok_range [OF r]
  have fps: "map fp_sequence (es_fingerprints es) = [1..bt_next_sequence ?b - 1]"
    and gen: "\<forall>f\<in>set (es_fingerprints es). fp_boot_generation f = g"
    and nxt: "bt_next_sequence ?b \<le> MAX_SAFE_SEQUENCE + 1" "2 \<le> bt_next_sequence ?b"
    and cov: "covers 1 (es_receipts es) (bt_next_sequence ?b)"
    and prot: "\<forall>x\<in>set (es_receipts es). rc_current_protocol x = 1 \<and> rc_min_supported_protocol x = 1"
    using rep by (auto simp: replay_ok_def replay_upto_def cur(3))
  let ?fps = "find_fingerprints es g ?first (last_sequence report)"
  have "?fps \<noteq> []" if "?first < bt_next_sequence ?b"
  proof -
    have "?first \<in> set (map fp_sequence (es_fingerprints es))" using that range(1) by (simp add: fps)
    then obtain f where "f \<in> set (es_fingerprints es)" "fp_sequence f = ?first" by auto
    with gen range(2) have "f \<in> set ?fps" by (simp add: find_fingerprints_def)
    then show ?thesis by auto
  qed
  moreover have "0 \<le> fp_sequence f \<and> fp_sequence f \<le> MAX_SAFE_SEQUENCE"
    if "f \<in> set (es_fingerprints es)" for f
  proof -
    have "fp_sequence f \<in> set [1..bt_next_sequence ?b - 1]" unfolding fps [symmetric] using that by simp
    with nxt show ?thesis by simp
  qed
  then have "\<exists>c. fingerprint_conflict ?fps (submitted_by_sequence report) = Inr c"
    by (intro fingerprint_conflict_total) (simp add: find_fingerprints_def)
  moreover have "\<exists>a. ack_from_receipt iid x = Inr a" if "find_receipt es g ?first (last_sequence report) = Some x" for x
  proof -
    from that have "x \<in> set (es_receipts es)" by (auto simp: find_receipt_def dest: select_one_SomeD)
    with covers_bounds [OF cov] prot nxt show ?thesis
      by (fastforce simp: ack_from_receipt_def parse_sequence_def MAX_SAFE_SEQUENCE_def)
  qed
  moreover have "parse_sequence_or_next (bt_next_sequence ?b) l = Inr (bt_next_sequence ?b)" for l
    using nxt by (simp add: parse_sequence_or_next_def)
  ultimately show ?thesis
    using chk cur(2) False
    by (auto simp: check_sequence_def Let_def result_simps sequence_problem_def protocol_problem_def
        split: if_splits option.splits)
qed

section \<open>The steps of the transaction\<close>

text \<open>The clock has reached the end of a lease that was already closed.\<close>

definition clock_ok :: "edge_store \<Rightarrow> timestamp_us \<Rightarrow> bool" where
  "clock_ok es clock \<longleftrightarrow> (case es_presence es of None \<Rightarrow> True
     | Some p \<Rightarrow> pn_lease_closed_at p \<noteq> None \<longrightarrow> pn_lease_expires_at p \<le> to_date clock)"

lemma next_server_received_at_bounds:
  "to_date clock \<le> next_server_received_at clock h"
  "hd_last_server_received_at h = Some t \<Longrightarrow> t \<le> next_server_received_at clock h"
  by (auto simp: next_server_received_at_def to_date_max split: option.splits)

lemma clock_time_ok:
  assumes "edge_ok es" "es_head es = Some h" "clock_ok es clock"
  shows "time_ok es (next_server_received_at clock h)"
proof (cases "es_presence es")
  case None
  then show ?thesis by (simp add: time_ok_def)
next
  case (Some p)
  with assms(1,2) have "presence_ok h (last (es_boots es)) p" by (auto simp: edge_ok_def split: if_splits)
  then have "pn_last_report_received_at p \<le> next_server_received_at clock h"
    by (simp add: presence_ok_def next_server_received_at_bounds)
  with assms(3) Some order_trans [OF _ next_server_received_at_bounds(1)] show ?thesis
    by (auto simp: time_ok_def clock_ok_def watermark_def split: option.splits)
qed

lemma edge_ok_head_range:
  assumes "edge_ok es" "es_head es = Some h"
  shows "parse_sequence_or_next (hd_current_boot_generation h) l = Inr (hd_current_boot_generation h)"
  using assms by (auto simp: edge_ok_def boots_ok_def parse_sequence_or_next_def)

lemma ingest_Inr:
  "ingest env report verified d = Inr r \<longleftrightarrow> assert_verified_identity report verified = Inr ()
     \<and> assert_supported_pet_ids report = Inr () \<and> ingest_in_transaction env report verified d = Inr r"
  by (auto simp: ingest_def rbind_def split: sum.splits tx_error.splits)

lemma transaction_cases:
  assumes "ingest_in_transaction env report verified d = Inr (ack, e)"
  obtains n g h cg gen isNew boot where
    "lock_instance d (vf_instanceId verified) = Inr n" "lock_agent d n = Inr g"
    "lock_and_validate_credential env verified d = Inr ()"
    "es_head (db_edge d (in_id n)) = Some h" "cg = hd_current_boot_generation h"
    "resolve_boot report (db_edge d (in_id n)) h cg = Inr (gen, isNew, boot)"
    "check_sequence (in_id n) report (db_edge d (in_id n)) gen isNew boot = Inr (Some ack) \<and> e = d
     \<or> check_sequence (in_id n) report (db_edge d (in_id n)) gen isNew boot = Inr None
       \<and> accept_report env report verified n g h cg gen isNew d = Inr (ack, e)"
proof -
  from assms obtain n g h cg gen isNew boot replay where
    "lock_instance d (vf_instanceId verified) = Inr n" "lock_agent d n = Inr g"
    "lock_and_validate_credential env verified d = Inr ()" "lock_head (db_edge d (in_id n)) = Inr h"
    "parse_sequence_or_next (hd_current_boot_generation h) ''Invalid current boot generation'' = Inr cg"
    "resolve_boot report (db_edge d (in_id n)) h cg = Inr (gen, isNew, boot)"
    "check_sequence (in_id n) report (db_edge d (in_id n)) gen isNew boot = Inr replay"
    "(case replay of Some ack \<Rightarrow> Inr (ack, d)
      | None \<Rightarrow> accept_report env report verified n g h cg gen isNew d) = Inr (ack, e)"
    unfolding ingest_in_transaction_def Let_def by (auto simp: result_simps)
  with that show thesis
    by (auto simp: lock_head_def parse_sequence_or_next_def result_simps split: option.splits)
qed

lemma lock_instance_id: "lock_instance d i = Inr n \<Longrightarrow> in_id n = uuid_of_text i"
  by (auto simp: lock_instance_def dest!: select_one_SomeD split: option.splits if_splits)

text \<open>What acceptance does outside the tables of the instance.\<close>

definition agent_identities :: "db \<Rightarrow> (uuid \<times> uuid \<times> uuid option) list" where
  "agent_identities d = map (\<lambda>g. (ag_id g, ag_owner_account_id g, ag_active_reporting_instance_id g)) (db_agents d)"

lemma store_instance_evolves: "db_evolves d (store_instance iid es d)"
  by (rule same_logs_evolve)
    (auto simp: same_log_def store_instance_def office_rows_def office_events_def projection_rows_def
      outbox_ok_def update_where_def Let_def)

lemma set_agent_pet_evolves: "db_evolves d (set_agent_pet g pet d)"
  by (rule same_logs_evolve)
    (simp_all add: same_log_def set_agent_pet_def office_rows_def office_events_def projection_rows_def outbox_ok_def)

lemma accept_report_effect:
  assumes "accept_report env report verified n g h cg gen isNew d = Inr (ack, e)"
  defines "at \<equiv> next_server_received_at (ig_clock env) h"
  defines "lease \<equiv> at + ig_lease_ttl_seconds env * 1000"
  shows "\<exists>es' pet expired. accept_on_store (ig_receipt_id env) report verified h cg gen isNew at lease
        (db_edge d (in_id n)) = Inr (es', pet, expired)
      \<and> db_edge e = (db_edge d)(in_id n := es')"
    and "db_evolves d e" "db_instances e = db_instances d" "db_credentials e = db_credentials d"
    and "agent_identities e = agent_identities d"
    and "ack = \<lparr>ak_current_protocol = 1, ak_min_supported_protocol = 1, ak_instance_id = in_id n,
      ak_boot_id = normalize_uuid (en_boot_id (pr_envelope report)),
      ak_accepted_through_sequence = last_sequence report,
      ak_server_received_at = at, ak_lease_expires_at = lease\<rparr>"
proof -
  obtain es' pet expired where
    acc: "accept_on_store (ig_receipt_id env) report verified h cg gen isNew at lease
        (db_edge d (in_id n)) = Inr (es', pet, expired)"
    and app: "(if isNew \<or> expired \<or> report_transitions report
        then append_office_revision_events (ig_projector env) (ig_receipt_id env) (lock_affected_offices d (ag_id g)) at
          (store_accepted (in_id n) (ag_id g) report es' pet d)
        else Inr (store_accepted (in_id n) (ag_id g) report es' pet d)) = Inr e"
    and fin: "ack = \<lparr>ak_current_protocol = 1, ak_min_supported_protocol = 1, ak_instance_id = in_id n,
      ak_boot_id = normalize_uuid (en_boot_id (pr_envelope report)),
      ak_accepted_through_sequence = last_sequence report,
      ak_server_received_at = at, ak_lease_expires_at = lease\<rparr>"
    using assms(1) unfolding accept_report_def Let_def at_def lease_def
    by (auto simp: result_simps simp del: if_split split del: if_split)
  define d2 where "d2 = store_accepted (in_id n) (ag_id g) report es' pet d"
  have d2: "db_evolves d d2"
    unfolding d2_def store_accepted_def Let_def
    using store_instance_evolves set_agent_pet_evolves db_evolves_trans by (metis (full_types))
  have tab: "db_edge d2 = (db_edge d)(in_id n := es')" "db_instances d2 = db_instances d"
    "db_credentials d2 = db_credentials d" "agent_identities d2 = agent_identities d"
    by (auto simp: d2_def store_accepted_def set_agent_pet_def store_instance_def Let_def agent_identities_def
        intro!: map_update_where)
  have "same_outside d2 e \<and> db_evolves d2 e"
  proof (cases "isNew \<or> expired \<or> report_transitions report")
    case True
    with app have "append_office_revision_events (ig_projector env) (ig_receipt_id env)
        (lock_affected_offices d (ag_id g)) at d2 = Inr e" unfolding d2_def by (simp only: if_True)
    from foldM_recording [OF this [unfolded append_office_revision_events_def]] show ?thesis by simp
  next
    case False
    with app have "e = d2" unfolding d2_def by (simp only: if_False) simp
    then show ?thesis by simp
  qed
  then have out: "same_outside d2 e" and ev: "db_evolves d2 e" by simp_all
  show "\<exists>es' pet expired. accept_on_store (ig_receipt_id env) report verified h cg gen isNew at lease
        (db_edge d (in_id n)) = Inr (es', pet, expired) \<and> db_edge e = (db_edge d)(in_id n := es')"
    using acc tab(1) out by (auto simp: same_outside_def)
  show "db_evolves d e" using d2 ev by (rule db_evolves_trans)
  show "db_instances e = db_instances d" "db_credentials e = db_credentials d"
    "agent_identities e = agent_identities d"
    using tab out by (simp_all add: same_outside_def agent_identities_def)
  show "ack = \<lparr>ak_current_protocol = 1, ak_min_supported_protocol = 1, ak_instance_id = in_id n,
      ak_boot_id = normalize_uuid (en_boot_id (pr_envelope report)),
      ak_accepted_through_sequence = last_sequence report,
      ak_server_received_at = at, ak_lease_expires_at = lease\<rparr>" by (rule fin)
qed

section \<open>Accepted and replayed reports\<close>

text \<open>The current boot of the store is the one the report names.\<close>

definition current_for :: "prepared_edge_report \<Rightarrow> edge_store \<Rightarrow> bool" where
  "current_for report es \<longleftrightarrow> es_boots es \<noteq> []
     \<and> bt_boot_id (last (es_boots es)) = normalize_uuid (en_boot_id (pr_envelope report))
     \<and> bt_previous_boot_id (last (es_boots es)) = normalize_nullable_uuid (en_previous_boot_id (pr_envelope report))"

lemma resolved_current:
  assumes "edge_ok es" "es_head es = Some h" "resolve_boot report es h cg = Inr (g, False, boot)"
  shows "current_for report es"
  using resolve_current_boot [OF assms(3)] assms(1,2) by (auto simp: current_for_def edge_ok_def)

definition ack_of :: "uuid \<Rightarrow> receipt_row \<Rightarrow> edge_report_ack" where
  "ack_of iid r = \<lparr>ak_current_protocol = 1, ak_min_supported_protocol = 1, ak_instance_id = iid,
     ak_boot_id = rc_boot_id r, ak_accepted_through_sequence = rc_last_sequence r,
     ak_server_received_at = rc_server_received_at r, ak_lease_expires_at = rc_lease_expires_at r\<rparr>"

text \<open>The receipt of a report: same boot, same range, same canonical content.\<close>

definition receipt_for :: "prepared_edge_report \<Rightarrow> receipt_row \<Rightarrow> bool" where
  "receipt_for report r \<longleftrightarrow> rc_boot_id r = normalize_uuid (en_boot_id (pr_envelope report))
     \<and> rc_first_sequence r = en_first_sequence (pr_envelope report) \<and> rc_last_sequence r = last_sequence report
     \<and> rc_canonical_sha256 r = pr_canonicalPayloadHash report \<and> rc_canonical_payload r = pr_canonicalPayload report"

lemma replayed_receipt:
  assumes ok: "edge_ok es" and h: "es_head es = Some h"
    and res: "resolve_boot report es h cg = Inr (g, isNew, boot)"
    and chk: "check_sequence iid report es g isNew boot = Inr (Some ack)"
  shows "\<exists>r\<in>set (es_receipts es). receipt_for report r \<and> ack = ack_of iid r"
proof -
  have new: "\<not> isNew" using chk by (auto simp: check_sequence_def Let_def result_simps split: if_splits)
  have bo: "boots_ok h (es_boots es)" using ok h by (auto simp: edge_ok_def)
  have "resolve_boot report es h cg = Inr (g, False, boot)" using res new by simp
  note cur = resolve_current_boot [OF this bo]
  from chk obtain r where r: "find_receipt es g (en_first_sequence (pr_envelope report)) (last_sequence report) = Some r"
    "rc_canonical_sha256 r = pr_canonicalPayloadHash report" "rc_canonical_payload r = pr_canonicalPayload report"
    "ack_from_receipt iid r = Inr ack"
    by (auto simp: check_sequence_def Let_def result_simps split: if_splits option.splits)
  then have mem: "r \<in> set (es_receipts es)" "rc_first_sequence r = en_first_sequence (pr_envelope report)"
    "rc_last_sequence r = last_sequence report"
    by (auto simp: find_receipt_def dest: select_one_SomeD)
  have "replay_ok (last (es_boots es)) (es_receipts es) (es_fingerprints es)"
    using ok cur(1) by (auto simp: edge_ok_def)
  with mem(1) have "rc_boot_id r = bt_boot_id (last (es_boots es))" "rc_current_protocol r = 1"
    "rc_min_supported_protocol r = 1"
    by (auto simp: replay_ok_def replay_upto_def)
  with mem r cur(4) show ?thesis
    by (intro bexI [of _ r]) (auto simp: receipt_for_def ack_of_def ack_from_receipt_def parse_sequence_def result_simps)
qed

text \<open>
  An acknowledged report has its receipt in the store afterwards, and the acknowledgement is
  the one of that receipt.
\<close>

lemma ingest_step:
  assumes ing: "ingest env report verified d = Inr (ack, e)"
  defines "iid \<equiv> uuid_of_text (vf_instanceId verified)"
  assumes ok: "edge_ok (db_edge d iid)" and clock: "clock_ok (db_edge d iid) (ig_clock env)"
    and r: "report_ok report" and lease: "0 < ig_lease_ttl_seconds env"
    and rid: "\<forall>x\<in>set (es_receipts (db_edge d iid)). rc_id x \<noteq> ig_receipt_id env"
  shows "edge_ok (db_edge e iid)" "\<forall>k. k \<noteq> iid \<longrightarrow> db_edge e k = db_edge d k" "db_evolves d e"
    and "\<exists>x\<in>set (es_receipts (db_edge e iid)). receipt_for report x \<and> ack = ack_of iid x"
    and "db_instances e = db_instances d" "db_credentials e = db_credentials d"
    and "agent_identities e = agent_identities d"
    and "current_for report (db_edge e iid)"
    and "set (map bt_boot_id (es_boots (db_edge d iid))) \<subseteq> set (map bt_boot_id (es_boots (db_edge e iid)))"
proof -
  from ing have "ingest_in_transaction env report verified d = Inr (ack, e)" by (simp add: ingest_Inr)
  then obtain n g h cg gen isNew boot where
    n: "lock_instance d (vf_instanceId verified) = Inr n" and h: "es_head (db_edge d (in_id n)) = Some h"
    and cg: "cg = hd_current_boot_generation h"
    and res: "resolve_boot report (db_edge d (in_id n)) h cg = Inr (gen, isNew, boot)"
    and out: "check_sequence (in_id n) report (db_edge d (in_id n)) gen isNew boot = Inr (Some ack) \<and> e = d
     \<or> check_sequence (in_id n) report (db_edge d (in_id n)) gen isNew boot = Inr None
       \<and> accept_report env report verified n g h cg gen isNew d = Inr (ack, e)"
    by (rule transaction_cases)
  have id: "in_id n = iid" using lock_instance_id [OF n] by (simp add: iid_def)
  note h = h [unfolded id] and res = res [unfolded id cg] and out = out [unfolded id]
  have "edge_ok (db_edge e iid) \<and> (\<forall>k. k \<noteq> iid \<longrightarrow> db_edge e k = db_edge d k) \<and> db_evolves d e
    \<and> (\<exists>x\<in>set (es_receipts (db_edge e iid)). receipt_for report x \<and> ack = ack_of iid x)
    \<and> db_instances e = db_instances d \<and> db_credentials e = db_credentials d
    \<and> agent_identities e = agent_identities d \<and> current_for report (db_edge e iid)
    \<and> set (map bt_boot_id (es_boots (db_edge d iid))) \<subseteq> set (map bt_boot_id (es_boots (db_edge e iid)))"
    using out
  proof (elim disjE conjE)
    assume replay: "check_sequence iid report (db_edge d iid) gen isNew boot = Inr (Some ack)" "e = d"
    then have "\<not> isNew" by (auto simp: check_sequence_def Let_def result_simps split: if_splits)
    with res have "current_for report (db_edge d iid)" by (auto intro: resolved_current [OF ok h])
    with replay replayed_receipt [OF ok h res] ok show ?thesis by simp
  next
    assume chk: "check_sequence iid report (db_edge d iid) gen isNew boot = Inr None"
      and "accept_report env report verified n g h cg gen isNew d = Inr (ack, e)"
    note eff = accept_report_effect [OF this(2), unfolded id cg]
    let ?at = "next_server_received_at (ig_clock env) h"
    let ?lease = "?at + ig_lease_ttl_seconds env * 1000"
    from eff(1) obtain es' pet expired where
      acc: "accept_on_store (ig_receipt_id env) report verified h (hd_current_boot_generation h) gen isNew ?at ?lease
        (db_edge d iid) = Inr (es', pet, expired)" and e: "db_edge e = (db_edge d)(iid := es')" by blast
    have "?at < ?lease" using lease by simp
    from accept_ok [OF ok h clock_time_ok [OF ok h clock] r res chk rid this, of verified] acc
    have st: "accepted_state (ig_receipt_id env) report verified gen ?at ?lease es'"
      and ids: "set (map bt_boot_id (es_boots (db_edge d iid))) \<subseteq> set (map bt_boot_id (es_boots es'))" by auto
    let ?r = "receipt_of (ig_receipt_id env) report verified gen ?at ?lease"
    have "?r \<in> set (es_receipts es')" using st by (auto simp: accepted_state_def)
    moreover have "receipt_for report ?r" "ack = ack_of iid ?r"
      by (simp_all add: receipt_for_def receipt_of_def ack_of_def eff(6) normalize_uuid_def uuid_of_text_def)
    ultimately show ?thesis using st ids eff(2-5) by (auto simp: e accepted_state_def current_for_def)
  qed
  then show "edge_ok (db_edge e iid)" "\<forall>k. k \<noteq> iid \<longrightarrow> db_edge e k = db_edge d k" "db_evolves d e"
    "\<exists>x\<in>set (es_receipts (db_edge e iid)). receipt_for report x \<and> ack = ack_of iid x"
    "db_instances e = db_instances d" "db_credentials e = db_credentials d"
    "agent_identities e = agent_identities d" "current_for report (db_edge e iid)"
    "set (map bt_boot_id (es_boots (db_edge d iid))) \<subseteq> set (map bt_boot_id (es_boots (db_edge e iid)))"
    by simp_all
qed

section \<open>Replays\<close>

lemma current_resolves:
  assumes ok: "edge_ok es" and h: "es_head es = Some h" and cur: "current_for report es"
  shows "resolve_boot report es h cg = Inr (bt_generation (last (es_boots es)), False, Some (last (es_boots es)))"
proof -
  let ?b = "last (es_boots es)"
  have bo: "boots_ok h (es_boots es)" using ok h by (auto simp: edge_ok_def)
  have mem: "?b \<in> set (es_boots es)" using cur by (simp add: current_for_def)
  have "find_boot es (bt_boot_id ?b) = Some ?b"
    unfolding find_boot_def using bo mem
    by (intro select_one_unique) (auto simp: boots_ok_def distinct_map dest: inj_onD)
  moreover have "hd_current_boot_id h = Some (bt_boot_id ?b)" using bo cur by (simp add: boots_ok_def current_for_def)
  moreover have "parse_sequence (bt_generation ?b) l = Inr (bt_generation ?b)" for l
    using boots_ok_generation [OF bo mem] by (simp add: parse_sequence_def)
  ultimately show ?thesis using cur by (simp add: resolve_boot_def current_for_def Let_def)
qed

lemma covers_receipt_unique:
  "covers a rs b \<Longrightarrow> r \<in> set rs \<Longrightarrow> r' \<in> set rs \<Longrightarrow> rc_first_sequence r = rc_first_sequence r' \<Longrightarrow> r = r'"
proof (induction a rs b rule: covers.induct)
  case (2 a x rs b)
  then have "\<forall>y\<in>set rs. rc_last_sequence x + 1 \<le> rc_first_sequence y"
    "a \<le> rc_last_sequence x" "rc_first_sequence x = a"
    using covers_bounds [of "rc_last_sequence x + 1" rs b] by auto
  with 2 show ?case by fastforce
qed simp

lemma receipt_replays:
  assumes ok: "edge_ok es" and cur: "current_for report es"
    and r: "r \<in> set (es_receipts es)" "receipt_for report r"
  shows "check_sequence iid report es (bt_generation (last (es_boots es))) False (Some (last (es_boots es)))
    = Inr (Some (ack_of iid r))"
proof -
  let ?b = "last (es_boots es)"
  have rep: "covers 1 (es_receipts es) (bt_next_sequence ?b)" "bt_next_sequence ?b \<le> MAX_SAFE_SEQUENCE + 1"
    "2 \<le> bt_next_sequence ?b"
    "\<forall>x\<in>set (es_receipts es). rc_boot_generation x = bt_generation ?b
       \<and> rc_current_protocol x = 1 \<and> rc_min_supported_protocol x = 1"
    using ok cur by (auto simp: edge_ok_def replay_ok_def replay_upto_def current_for_def)
  from covers_bounds [OF rep(1)] r(1) have range: "1 \<le> rc_first_sequence r"
    "rc_first_sequence r \<le> rc_last_sequence r" "rc_last_sequence r < bt_next_sequence ?b" by auto
  have "find_receipt es (bt_generation ?b) (rc_first_sequence r) (rc_last_sequence r) = Some r"
    unfolding find_receipt_def using r(1) rep(4) covers_receipt_unique [OF rep(1)]
    by (intro select_one_unique) auto
  moreover have "ack_from_receipt iid r = Inr (ack_of iid r)"
    using rep(2,4) r(1) range
    by (simp add: ack_from_receipt_def ack_of_def parse_sequence_def MAX_SAFE_SEQUENCE_def)
  ultimately show ?thesis
    using r(2) range rep(2)
    by (auto simp: check_sequence_def receipt_for_def Let_def parse_sequence_or_next_def)
qed

lemma select_one_image:
  assumes "map f t = map f u" "\<And>r r'. f r = f r' \<Longrightarrow> P r = P r'"
  shows "map_option f (select_one P t) = map_option f (select_one P u)"
  using assms(1)
proof (induction t arbitrary: u)
  case (Cons r t)
  then obtain r' u' where "u = r' # u'" "f r = f r'" "map f t = map f u'" by auto
  with Cons.IH [of u'] assms(2) [of r r'] show ?case by auto
qed simp

lemma lock_agent_cong:
  assumes "agent_identities e = agent_identities d" "lock_agent d n = Inr g"
  shows "\<exists>g'. lock_agent e n = Inr g'"
proof -
  let ?f = "\<lambda>g. (ag_id g, ag_owner_account_id g, ag_active_reporting_instance_id g)"
  have "map_option ?f (find_agent e (in_logical_agent_id n)) = map_option ?f (find_agent d (in_logical_agent_id n))"
    using assms(1) unfolding find_agent_def agent_identities_def by (intro select_one_image) auto
  with assms(2) show ?thesis
    by (auto simp: lock_agent_def split: option.splits if_splits)
qed

text \<open>Where the guards pass, the outcome is that of the classification.\<close>

lemma guarded_transaction:
  assumes "lock_instance d (vf_instanceId verified) = Inr n" "lock_agent d n = Inr g"
    "lock_and_validate_credential env verified d = Inr ()"
    "edge_ok (db_edge d (in_id n))" "es_head (db_edge d (in_id n)) = Some h"
  shows "ingest_in_transaction env report verified d =
     rbind (resolve_boot report (db_edge d (in_id n)) h (hd_current_boot_generation h)) (\<lambda>(gen, isNew, boot).
     rbind (check_sequence (in_id n) report (db_edge d (in_id n)) gen isNew boot) (\<lambda>replay.
       case replay of Some ack \<Rightarrow> Inr (ack, d)
       | None \<Rightarrow> accept_report env report verified n g h (hd_current_boot_generation h) gen isNew d))"
  using assms edge_ok_head_range [OF assms(4,5)]
  by (simp add: ingest_in_transaction_def lock_head_def Let_def)

lemma edge_ok_head: "edge_ok es \<Longrightarrow> \<exists>h. es_head es = Some h"
  by (auto simp: edge_ok_def)

lemma acknowledged_replays:
  assumes ing: "ingest env report verified d = Inr (ack, e)"
    and ok: "edge_ok (db_edge d (uuid_of_text (vf_instanceId verified)))"
    and clock: "clock_ok (db_edge d (uuid_of_text (vf_instanceId verified))) (ig_clock env)"
    and r: "report_ok report" and lease: "0 < ig_lease_ttl_seconds env"
    and rid: "\<forall>x\<in>set (es_receipts (db_edge d (uuid_of_text (vf_instanceId verified)))). rc_id x \<noteq> ig_receipt_id env"
    and cred: "lock_and_validate_credential env' verified e = Inr ()"
  shows "ingest env' report verified e = Inr (ack, e)"
proof -
  let ?iid = "uuid_of_text (vf_instanceId verified)"
  note step = ingest_step [OF ing ok clock r lease rid]
  from ing have guards: "assert_verified_identity report verified = Inr ()" "assert_supported_pet_ids report = Inr ()"
    and tx: "ingest_in_transaction env report verified d = Inr (ack, e)" by (simp_all add: ingest_Inr)
  from tx obtain n g where n: "lock_instance d (vf_instanceId verified) = Inr n" and g: "lock_agent d n = Inr g"
    by (rule transaction_cases)
  have n': "lock_instance e (vf_instanceId verified) = Inr n"
    using n by (simp add: lock_instance_def step(5))
  from lock_agent_cong [OF step(7) g] obtain g' where g': "lock_agent e n = Inr g'" ..
  have id: "in_id n = ?iid" by (rule lock_instance_id [OF n])
  from edge_ok_head [OF step(1)] obtain h where h: "es_head (db_edge e ?iid) = Some h" ..
  from step(4) obtain x where x: "x \<in> set (es_receipts (db_edge e ?iid))" "receipt_for report x" "ack = ack_of ?iid x"
    by blast
  have "ingest_in_transaction env' report verified e = Inr (ack, e)"
    using guarded_transaction [OF n' g' cred, of h report] step(1) h id x(3)
      current_resolves [OF step(1) h step(8)] receipt_replays [OF step(1,8) x(1,2)]
    by simp
  with guards show ?thesis by (simp add: ingest_Inr)
qed

section \<open>Failures\<close>

lemma guard_failures:
  "lock_instance d i = Inl err \<Longrightarrow> \<exists>p. err = Problem p \<and> pp_code p \<noteq> Internal_error"
  "lock_agent d n = Inl err \<Longrightarrow> \<exists>p. err = Problem p \<and> pp_code p \<noteq> Internal_error"
  "lock_and_validate_credential env verified d = Inl err \<Longrightarrow> \<exists>p. err = Problem p \<and> pp_code p \<noteq> Internal_error"
  "assert_verified_identity report verified = Inl err \<Longrightarrow> \<exists>p. err = Problem p \<and> pp_code p \<noteq> Internal_error"
  "assert_supported_pet_ids report = Inl err \<Longrightarrow> \<exists>p. err = Problem p \<and> pp_code p \<noteq> Internal_error"
  by (auto simp: lock_instance_def lock_agent_def lock_and_validate_credential_def assert_verified_identity_def
      assert_supported_pet_ids_def guard_r_def problem_def protocol_problem_def split: option.splits if_splits)

text \<open>The projection of an accepted report fails: no office could record the revision.\<close>

definition projection_fails ::
  "ingest_env \<Rightarrow> prepared_edge_report \<Rightarrow> verified_edge_context \<Rightarrow> db \<Rightarrow> tx_error \<Rightarrow> bool" where
  "projection_fails env report verified d err \<longleftrightarrow> (\<exists>iid agentId gen at es' pet.
     accepted_state (ig_receipt_id env) report verified gen at (at + ig_lease_ttl_seconds env * 1000) es'
     \<and> append_office_revision_events (ig_projector env) (ig_receipt_id env) (lock_affected_offices d agentId) at
         (store_accepted iid agentId report es' pet d) = Inl err)"

lemma accept_report_fails:
  assumes "accept_report env report verified n g h cg gen isNew d = Inl err"
    and "accept_on_store (ig_receipt_id env) report verified h cg gen isNew at (at + ig_lease_ttl_seconds env * 1000)
      (db_edge d (in_id n)) = Inr (es', pet, expired)"
    and "at = next_server_received_at (ig_clock env) h"
    and "accepted_state (ig_receipt_id env) report verified gen at (at + ig_lease_ttl_seconds env * 1000) es'"
  shows "projection_fails env report verified d err"
proof -
  have "append_office_revision_events (ig_projector env) (ig_receipt_id env) (lock_affected_offices d (ag_id g)) at
      (store_accepted (in_id n) (ag_id g) report es' pet d) = Inl err"
    using assms(1,2) unfolding accept_report_def Let_def assms(3) [symmetric]
    by (simp add: rbind_eq_Inl del: if_split split del: if_split) (simp split: if_splits)
  with assms(4) show ?thesis unfolding projection_fails_def by blast
qed

lemma transaction_failures:
  assumes fail: "ingest_in_transaction env report verified d = Inl err"
    and ok: "edge_ok (db_edge d (uuid_of_text (vf_instanceId verified)))"
    and clock: "clock_ok (db_edge d (uuid_of_text (vf_instanceId verified))) (ig_clock env)"
    and r: "report_ok report" and lease: "0 < ig_lease_ttl_seconds env"
    and rid: "\<forall>x\<in>set (es_receipts (db_edge d (uuid_of_text (vf_instanceId verified)))). rc_id x \<noteq> ig_receipt_id env"
  shows "(\<exists>p. err = Problem p \<and> pp_code p \<noteq> Internal_error) \<or> projection_fails env report verified d err"
proof (cases "lock_instance d (vf_instanceId verified)")
  case (Inl x)
  with fail guard_failures(1) [OF Inl] show ?thesis by (simp add: ingest_in_transaction_def)
next
  case n: (Inr n)
  have id: "in_id n = uuid_of_text (vf_instanceId verified)" by (rule lock_instance_id [OF n])
  note ok = ok [folded id] and clock = clock [folded id] and rid = rid [folded id]
  show ?thesis
  proof (cases "\<exists>g. lock_agent d n = Inr g \<and> lock_and_validate_credential env verified d = Inr ()")
    case False
    with fail n guard_failures(2,3) show ?thesis
      by (cases "lock_agent d n"; cases "lock_and_validate_credential env verified d")
        (fastforce simp: ingest_in_transaction_def)+
  next
    case True
    then obtain g where g: "lock_agent d n = Inr g" "lock_and_validate_credential env verified d = Inr ()" by blast
    from edge_ok_head [OF ok] obtain h where h: "es_head (db_edge d (in_id n)) = Some h" ..
    have bo: "boots_ok h (es_boots (db_edge d (in_id n)))" using ok h by (auto simp: edge_ok_def)
    note tx = fail [unfolded guarded_transaction [OF n g ok h]]
    show ?thesis
    proof (cases "resolve_boot report (db_edge d (in_id n)) h (hd_current_boot_generation h)")
      case (Inl x)
      with tx resolve_boot_fails [OF bo Inl] show ?thesis by auto
    next
      case res: (Inr x)
      obtain gen isNew boot where x: "x = (gen, isNew, boot)" by (cases x) auto
      note res = res [unfolded x]
      show ?thesis
      proof (cases "check_sequence (in_id n) report (db_edge d (in_id n)) gen isNew boot")
        case (Inl y)
        with tx res check_sequence_fails [OF ok h r res Inl] show ?thesis by auto
      next
        case (Inr replay)
        with tx res have none: "replay = None" by (cases replay) auto
        let ?at = "next_server_received_at (ig_clock env) h"
        from accept_ok [OF ok h clock_time_ok [OF ok h clock] r res Inr [unfolded none] rid,
            of "?at + ig_lease_ttl_seconds env * 1000" verified] lease
        obtain es' pet expired where "accept_on_store (ig_receipt_id env) report verified h
            (hd_current_boot_generation h) gen isNew ?at (?at + ig_lease_ttl_seconds env * 1000) (db_edge d (in_id n))
            = Inr (es', pet, expired)"
          "accepted_state (ig_receipt_id env) report verified gen ?at (?at + ig_lease_ttl_seconds env * 1000) es'"
          by auto
        moreover have "accept_report env report verified n g h (hd_current_boot_generation h) gen isNew d = Inl err"
          using tx res Inr none by simp
        ultimately show ?thesis by (auto intro: accept_report_fails)
      qed
    qed
  qed
qed

lemma ingest_failure:
  assumes "ingest env report verified d = Inl p" "pp_code p = Internal_error"
    and "edge_ok (db_edge d (uuid_of_text (vf_instanceId verified)))"
    and "clock_ok (db_edge d (uuid_of_text (vf_instanceId verified))) (ig_clock env)"
    and "report_ok report" "0 < ig_lease_ttl_seconds env"
    and "\<forall>x\<in>set (es_receipts (db_edge d (uuid_of_text (vf_instanceId verified)))). rc_id x \<noteq> ig_receipt_id env"
  shows "\<exists>err. projection_fails env report verified d err"
proof -
  let ?r = "rbind (assert_verified_identity report verified) (\<lambda>_. rbind (assert_supported_pet_ids report) (\<lambda>_.
      ingest_in_transaction env report verified d))"
  from assms(1) obtain err where err: "?r = Inl err" "\<And>q. err = Problem q \<Longrightarrow> q = p"
    by (auto simp: ingest_def split: sum.splits tx_error.splits)
  from err(2) assms(2) have no: "\<not> (\<exists>q. err = Problem q \<and> pp_code q \<noteq> Internal_error)" by auto
  from err(1) no have "ingest_in_transaction env report verified d = Inl err"
    by (auto simp: result_simps dest: guard_failures(4,5))
  from transaction_failures [OF this assms(3-)] no show ?thesis by blast
qed

section \<open>Fenced boots\<close>

lemma fenced_boot_stale:
  assumes ok: "edge_ok es" and h: "es_head es = Some h"
    and known: "normalize_uuid (en_boot_id (pr_envelope report)) \<in> set (map bt_boot_id (es_boots es))"
    and other: "bt_boot_id (last (es_boots es)) \<noteq> normalize_uuid (en_boot_id (pr_envelope report))"
  shows "resolve_boot report es h cg = Inl stale_boot"
proof -
  have "hd_current_boot_id h \<noteq> Some (normalize_uuid (en_boot_id (pr_envelope report)))"
    using ok h other by (auto simp: edge_ok_def boots_ok_def split: if_splits)
  moreover have "find_boot es (normalize_uuid (en_boot_id (pr_envelope report))) \<noteq> None"
    using known by (auto simp: find_boot_def select_one_None_iff)
  ultimately show ?thesis by (simp add: resolve_boot_def Let_def)
qed

lemma superseded_boot_refused:
  assumes ing: "ingest env report verified d = Inr (ack, e)"
    and ok: "edge_ok (db_edge d (uuid_of_text (vf_instanceId verified)))"
    and clock: "clock_ok (db_edge d (uuid_of_text (vf_instanceId verified))) (ig_clock env)"
    and r: "report_ok report" and lease: "0 < ig_lease_ttl_seconds env"
    and rid: "\<forall>x\<in>set (es_receipts (db_edge d (uuid_of_text (vf_instanceId verified)))). rc_id x \<noteq> ig_receipt_id env"
    and old: "normalize_uuid (en_boot_id (pr_envelope late))
      \<in> set (map bt_boot_id (es_boots (db_edge d (uuid_of_text (vf_instanceId verified)))))"
      "normalize_uuid (en_boot_id (pr_envelope late)) \<noteq> normalize_uuid (en_boot_id (pr_envelope report))"
    and late: "assert_verified_identity late verified = Inr ()" "assert_supported_pet_ids late = Inr ()"
      "lock_and_validate_credential env' verified e = Inr ()"
  shows "ingest env' late verified e = Inl (protocol_problem Stale_boot 409
    ''The report boot is not the instance's current CAS-linked boot.'')"
proof -
  let ?iid = "uuid_of_text (vf_instanceId verified)"
  note step = ingest_step [OF ing ok clock r lease rid]
  from ing have tx: "ingest_in_transaction env report verified d = Inr (ack, e)" by (simp add: ingest_Inr)
  from tx obtain n g where n: "lock_instance d (vf_instanceId verified) = Inr n" and g: "lock_agent d n = Inr g"
    by (rule transaction_cases)
  have n': "lock_instance e (vf_instanceId verified) = Inr n" using n by (simp add: lock_instance_def step(5))
  from lock_agent_cong [OF step(7) g] obtain g' where g': "lock_agent e n = Inr g'" ..
  have id: "in_id n = ?iid" by (rule lock_instance_id [OF n])
  from edge_ok_head [OF step(1)] obtain h where h: "es_head (db_edge e ?iid) = Some h" ..
  have "resolve_boot late (db_edge e ?iid) h (hd_current_boot_generation h) = Inl stale_boot"
    using old step(8,9) by (intro fenced_boot_stale [OF step(1) h]) (auto simp: current_for_def)
  then have "ingest_in_transaction env' late verified e = Inl stale_boot"
    using guarded_transaction [OF n' g' late(3), of h late] step(1) h id by simp
  with late show ?thesis by (simp add: ingest_def stale_boot_def problem_def)
qed

section \<open>Acceptance\<close>

lemma ingest_accepts:
  assumes guards: "assert_verified_identity report verified = Inr ()" "assert_supported_pet_ids report = Inr ()"
      "lock_instance d (vf_instanceId verified) = Inr n" "lock_agent d n = Inr g"
      "lock_and_validate_credential env verified d = Inr ()"
    and ok: "edge_ok (db_edge d (in_id n))" and h: "es_head (db_edge d (in_id n)) = Some h"
    and clock: "clock_ok (db_edge d (in_id n)) (ig_clock env)"
    and r: "report_ok report" and lease: "0 < ig_lease_ttl_seconds env"
    and rid: "\<forall>x\<in>set (es_receipts (db_edge d (in_id n))). rc_id x \<noteq> ig_receipt_id env"
    and res: "resolve_boot report (db_edge d (in_id n)) h (hd_current_boot_generation h) = Inr (gen, isNew, boot)"
    and chk: "check_sequence (in_id n) report (db_edge d (in_id n)) gen isNew boot = Inr None"
    and offices: "lock_affected_offices d (ag_id g) = []"
  shows "\<exists>ack e. ingest env report verified d = Inr (ack, e)"
proof -
  let ?at = "next_server_received_at (ig_clock env) h"
  from accept_ok [OF ok h clock_time_ok [OF ok h clock] r res chk rid,
      of "?at + ig_lease_ttl_seconds env * 1000" verified] lease
  obtain es' pet expired where acc: "accept_on_store (ig_receipt_id env) report verified h
      (hd_current_boot_generation h) gen isNew ?at (?at + ig_lease_ttl_seconds env * 1000) (db_edge d (in_id n))
      = Inr (es', pet, expired)" by auto
  have "\<exists>ack e. accept_report env report verified n g h (hd_current_boot_generation h) gen isNew d = Inr (ack, e)"
    using acc by (simp add: accept_report_def Let_def offices append_office_revision_events_def)
  then obtain ack e where "accept_report env report verified n g h (hd_current_boot_generation h) gen isNew d = Inr (ack, e)"
    by blast
  with guarded_transaction [OF guards(3-5) ok h] res chk guards(1,2) show ?thesis
    by (simp add: ingest_Inr)
qed

section \<open>Reports out of order\<close>

definition expected_problem :: "problem_code \<Rightarrow> int \<Rightarrow> protocol_problem \<Rightarrow> bool" where
  "expected_problem c n p \<longleftrightarrow> pp_code p = c \<and> pp_status p = 409
     \<and> pp_expectedSequence p = (if n \<le> MAX_SAFE_SEQUENCE then Some n else None)"

lemma current_check:
  fixes iid :: uuid
  assumes ok: "edge_ok es" and h: "es_head es = Some h" and r: "report_ok report" and cur: "current_for report es"
  defines "n \<equiv> bt_next_sequence (last (es_boots es))" and "first \<equiv> en_first_sequence (pr_envelope report)"
  defines "chk \<equiv> check_sequence iid report es (bt_generation (last (es_boots es))) False (Some (last (es_boots es)))"
  shows "n < first \<Longrightarrow> \<exists>p. chk = Inl (Problem p) \<and> expected_problem Sequence_gap n p"
    and "first < n \<Longrightarrow> (\<exists>x\<in>set (es_receipts es). receipt_for report x \<and> chk = Inr (Some (ack_of iid x)))
      \<or> (\<exists>p c. chk = Inl (Problem p) \<and> c \<in> {Sequence_conflict, Sequence_overlap} \<and> expected_problem c n p)"
    and "first = n \<Longrightarrow> chk = Inr None"
proof -
  have "replay_ok (last (es_boots es)) (es_receipts es) (es_fingerprints es)"
    using ok cur by (auto simp: edge_ok_def current_for_def)
  then have range: "2 \<le> n" "n \<le> MAX_SAFE_SEQUENCE + 1" by (auto simp: replay_ok_def n_def)
  then have parse: "parse_sequence_or_next n l = Inr n" for l by (simp add: parse_sequence_or_next_def)
  show "n < first \<Longrightarrow> \<exists>p. chk = Inl (Problem p) \<and> expected_problem Sequence_gap n p"
    "first = n \<Longrightarrow> chk = Inr None"
    using parse by (simp_all add: chk_def check_sequence_def n_def first_def Let_def sequence_problem_def
        protocol_problem_def expected_problem_def)
  assume lt: "first < n"
  show "(\<exists>x\<in>set (es_receipts es). receipt_for report x \<and> chk = Inr (Some (ack_of iid x)))
      \<or> (\<exists>p c. chk = Inl (Problem p) \<and> c \<in> {Sequence_conflict, Sequence_overlap} \<and> expected_problem c n p)"
  proof (cases chk)
    case (Inr replay)
    moreover have "replay \<noteq> None"
      using Inr lt parse [unfolded n_def]
      by (auto simp: chk_def check_sequence_def n_def first_def Let_def result_simps split: option.splits if_splits)
    ultimately show ?thesis
      using replayed_receipt [OF ok h current_resolves [OF ok h cur, of "hd_current_boot_generation h"]]
      unfolding chk_def by blast
  next
    case (Inl e)
    with check_sequence_fails [OF ok h r current_resolves [OF ok h cur, of "hd_current_boot_generation h"]]
    have code: "\<exists>p. e = Problem p \<and> pp_code p \<in> {Sequence_conflict, Sequence_overlap, Sequence_gap}"
      unfolding chk_def by blast
    have "\<exists>c m. c \<noteq> Sequence_gap \<and> (e = sequence_problem c n m \<or> (\<exists>l. e = Failure l)
        \<or> e = problem Internal_error 500 ''Accepted sequence state is internally inconsistent.'')"
      using Inl lt parse [unfolded n_def] unfolding chk_def check_sequence_def n_def first_def Let_def
      by (auto simp: result_simps ack_from_receipt_def parse_sequence_def parse_integer_range_def
          split: option.splits if_splits dest!: fingerprint_conflict_Inl)
    with code Inl show ?thesis
      by (auto simp: sequence_problem_def protocol_problem_def expected_problem_def problem_def)
  qed
qed

end
