(* ===== verification/Seamless.thy ===== *)
theory Seamless
  imports Ingest_Outcome
begin

text \<open>
  Continuity of activity. A report whose state transitions all show the activity of the live
  presence, be it of the same boot or of the next one, leaves the times of the activity
  intervals and the start of the activity as they were: a heartbeat, a repeated state or a
  restart does not interrupt idle time.
\<close>

definition keeps_activity :: "activity_state \<Rightarrow> edge_event list \<Rightarrow> bool" where
  "keeps_activity a events \<longleftrightarrow> (\<forall>e\<in>set events. case e of
     State_transition s \<Rightarrow> st_activity_state s = a | Heartbeat _ \<Rightarrow> True)"

definition interval_times :: "interval_row list \<Rightarrow> (activity_state \<times> date_ms \<times> date_ms option) list" where
  "interval_times t = map (\<lambda>i. (iv_activity_state i, iv_started_at i, iv_ended_at i)) t"

lemma quiet_events:
  assumes "keeps_activity (mp_activityState c) events"
    and "mp_activityState c = A_eligible_idle \<longleftrightarrow> mp_eligibleSince c \<noteq> None"
  shows "\<exists>c'. apply_events_loop g False at events (Some c) False es = Inr (Some c', es)
    \<and> mp_activityState c' = mp_activityState c \<and> mp_eligibleSince c' = mp_eligibleSince c
    \<and> mp_activitySince c' = mp_activitySince c"
  using assms
proof (induction events arbitrary: c)
  case (Cons e events)
  show ?case
  proof (cases e)
    case (Heartbeat h)
    let ?c = "c\<lparr>mp_lastAcceptedSequence := hb_sequence h\<rparr>"
    from Cons.IH [of ?c] Cons.prems Heartbeat show ?thesis by (auto simp: keeps_activity_def)
  next
    case (State_transition s)
    let ?c = "apply_state_transition (Some c) s at False"
    have s: "st_activity_state s = mp_activityState c" using Cons.prems(1) State_transition by (simp add: keeps_activity_def)
    have f: "mp_activityState ?c = mp_activityState c" "mp_eligibleSince ?c = mp_eligibleSince c"
      "mp_activitySince ?c = mp_activitySince c"
      using s Cons.prems(2) by (auto simp: apply_state_transition_def Let_def)
    have "keeps_activity (mp_activityState ?c) events" using Cons.prems(1) s by (simp add: keeps_activity_def)
    with Cons.IH [of ?c] Cons.prems(2) s State_transition show ?thesis by (simp add: f Let_def)
  qed
qed simp

lemma close_reports_open:
  "interval_times (update_where (\<lambda>i. iv_ended_at i = None)
     (\<lambda>i. i\<lparr>iv_boot_generation := g, iv_start_sequence := 1\<rparr>) t) = interval_times t"
  by (simp add: interval_times_def map_update_where)

lemma rolled_seamlessly:
  assumes "roll_boot report h cg g at es = Inr (es1, presence, seamless)"
    and "can_roll_boot_without_breaking_activity (es_presence es) (en_events (pr_envelope report)) at"
  shows "presence = es_presence es \<and> seamless \<and> interval_times (es_intervals es1) = interval_times (es_intervals es)"
  using assms close_reports_open
  by (auto simp: roll_boot_def Let_def result_simps fence_previous_boot_and_presence_def
      create_boot_and_advance_head_def move_open_activity_interval_to_boot_def store_intervals_def
      scrub_fenced_boot_replay_material_def split: option.splits if_splits)

lemma tables_of_receipts:
  "insert_receipt rid report verified g l at lease es = Inr es' \<Longrightarrow> es_intervals es' = es_intervals es"
  "insert_fingerprints rid g report es = Inr es' \<Longrightarrow> es_intervals es' = es_intervals es"
  "save_presence g b c at lease es = Inr es' \<Longrightarrow> es_intervals es' = es_intervals es
     \<and> (\<exists>p. es_presence es' = Some p \<and> pn_activity_state p = mp_activityState c
          \<and> pn_eligible_since p = mp_eligibleSince c \<and> pn_activity_since p = mp_activitySince c)"
  "advance_boot g n at es = Inr es' \<Longrightarrow> es_intervals es' = es_intervals es \<and> es_presence es' = es_presence es"
proof -
  show "insert_receipt rid report verified g l at lease es = Inr es' \<Longrightarrow> es_intervals es' = es_intervals es"
    by (auto simp: insert_receipt_def Let_def result_simps)
  have "foldM_r (insert_fingerprint rid g) cs es = Inr es' \<Longrightarrow> es_intervals es' = es_intervals es" for cs
    by (induction cs arbitrary: es) (auto simp: insert_fingerprint_def Let_def result_simps)
  then show "insert_fingerprints rid g report es = Inr es' \<Longrightarrow> es_intervals es' = es_intervals es"
    by (simp add: insert_fingerprints_def)
  show "save_presence g b c at lease es = Inr es' \<Longrightarrow> es_intervals es' = es_intervals es
     \<and> (\<exists>p. es_presence es' = Some p \<and> pn_activity_state p = mp_activityState c
          \<and> pn_eligible_since p = mp_eligibleSince c \<and> pn_activity_since p = mp_activitySince c)"
    by (auto simp: save_presence_def Let_def result_simps)
  show "advance_boot g n at es = Inr es' \<Longrightarrow> es_intervals es' = es_intervals es \<and> es_presence es' = es_presence es"
    by (auto simp: advance_boot_def result_simps)
qed

lemma accept_keeps_activity:
  assumes acc: "accept_on_store rid report verified h cg g isNew at lease es = Inr (es', pet, expired)"
    and p: "es_presence es = Some p" "presence_constraints p" "pn_lease_closed_at p = None" "at < pn_lease_expires_at p"
    and keep: "keeps_activity (pn_activity_state p) (en_events (pr_envelope report))"
    and new: "isNew \<longrightarrow> first_is_transition (en_events (pr_envelope report))"
  shows "interval_times (es_intervals es') = interval_times (es_intervals es)
    \<and> (\<exists>p'. es_presence es' = Some p' \<and> pn_activity_state p' = pn_activity_state p
       \<and> pn_eligible_since p' = pn_eligible_since p \<and> pn_activity_since p' = pn_activity_since p)"
proof -
  have roll: "can_roll_boot_without_breaking_activity (es_presence es) (en_events (pr_envelope report)) at" if isNew
    using that new p(1,3,4) keep
    by (cases "en_events (pr_envelope report)")
      (auto simp: can_roll_boot_without_breaking_activity_def first_is_transition_def keeps_activity_def
        is_state_transition_def split: edge_event.splits)
  from acc obtain es1 presence seamless es2 exp where
    one: "(if isNew then roll_boot report h cg g at es else Inr (es, es_presence es, False)) = Inr (es1, presence, seamless)"
    and two: "close_expired_lease presence at es1 = Inr (es2, exp)"
    and tail: "accepted_tail rid report verified g at lease presence ((isNew \<and> \<not> seamless) \<or> exp) es2 = Inr (es', pet)"
    by (auto simp: accept_on_store_split result_simps)
  have one': "presence = Some p" "isNew \<longrightarrow> seamless" "interval_times (es_intervals es1) = interval_times (es_intervals es)"
    using one rolled_seamlessly [OF _ roll] p(1) by (cases isNew; force)+
  have two': "es2 = es1" "\<not> exp" using two one'(1) p(4) by (simp_all add: close_expired_lease_def)
  from tail obtain es3 es4 c es5 es6 es7 where
    t: "insert_receipt rid report verified g (last_sequence report) at lease es1 = Inr es3"
      "insert_fingerprints rid g report es3 = Inr es4"
      "apply_events g (en_events (pr_envelope report)) (Some p) False at es4 = Inr (c, es5)"
      "save_presence g (normalize_uuid (en_boot_id (pr_envelope report))) c at lease es5 = Inr es6"
      "advance_boot g (last_sequence report + 1) at es6 = Inr es7" "es' = touch_head at es7"
    using one' two' by (auto simp: accepted_tail_def result_simps)
  have m: "mutable_presence_of p = Inr (mutable_of p)" using p(2) by (rule mutable_presence_of_ok(1))
  obtain c' where "apply_events_loop g False at (en_events (pr_envelope report)) (Some (mutable_of p)) False es4 = Inr (Some c', es4)"
    and c': "mp_activityState c' = pn_activity_state p" "mp_eligibleSince c' = pn_eligible_since p"
      "mp_activitySince c' = pn_activity_since p"
    using quiet_events [of "mutable_of p" "en_events (pr_envelope report)" g at es4] keep p(2)
    by (auto simp: mutable_of_def presence_constraints_def)
  with t(3) m have "c = c'" "es5 = es4" by (simp_all add: apply_events_def)
  with tables_of_receipts(1) [OF t(1)] tables_of_receipts(2) [OF t(2)] tables_of_receipts(3) [OF t(4)]
    tables_of_receipts(4) [OF t(5)] c' t(6) one'(3)
  show ?thesis by (auto simp: touch_head_def)
qed


section \<open>At the transaction\<close>

lemma ingest_keeps_activity:
  assumes ing: "ingest env report verified d = Inr (ack, e)"
  defines "iid \<equiv> uuid_of_text (vf_instanceId verified)"
  assumes ok: "edge_ok (db_edge d iid)" and h: "es_head (db_edge d iid) = Some h"
    and p: "es_presence (db_edge d iid) = Some p" "pn_lease_closed_at p = None"
      "next_server_received_at (ig_clock env) h < pn_lease_expires_at p"
    and keep: "keeps_activity (pn_activity_state p) (en_events (pr_envelope report))"
  shows "interval_times (es_intervals (db_edge e iid)) = interval_times (es_intervals (db_edge d iid))
    \<and> (\<exists>p'. es_presence (db_edge e iid) = Some p' \<and> pn_activity_state p' = pn_activity_state p
       \<and> pn_eligible_since p' = pn_eligible_since p \<and> pn_activity_since p' = pn_activity_since p)"
proof -
  from ing have "ingest_in_transaction env report verified d = Inr (ack, e)" by (simp add: ingest_Inr)
  then obtain n g h' cg gen isNew boot where
    n: "lock_instance d (vf_instanceId verified) = Inr n" and h': "es_head (db_edge d (in_id n)) = Some h'"
    and cg: "cg = hd_current_boot_generation h'"
    and res: "resolve_boot report (db_edge d (in_id n)) h' cg = Inr (gen, isNew, boot)"
    and out: "check_sequence (in_id n) report (db_edge d (in_id n)) gen isNew boot = Inr (Some ack) \<and> e = d
     \<or> check_sequence (in_id n) report (db_edge d (in_id n)) gen isNew boot = Inr None
       \<and> accept_report env report verified n g h' cg gen isNew d = Inr (ack, e)"
    by (rule transaction_cases)
  have id: "in_id n = iid" using lock_instance_id [OF n] by (simp add: iid_def)
  have "h' = h" using h h' id by simp
  note res = res [unfolded id this] and out = out [unfolded id this]
  have pc: "presence_constraints p" using ok h p(1) by (auto simp: edge_ok_def presence_ok_def split: if_splits)
  from out show ?thesis
  proof (elim disjE conjE)
    assume "e = d"
    with p(1) show ?thesis by simp
  next
    assume "accept_report env report verified n g h cg gen isNew d = Inr (ack, e)"
    note eff = accept_report_effect(1) [OF this, unfolded id]
    then obtain es' pet expired lease where
      acc: "accept_on_store (ig_receipt_id env) report verified h cg gen isNew (next_server_received_at (ig_clock env) h)
        lease (db_edge d iid) = Inr (es', pet, expired)" and e: "db_edge e iid = es'" by auto
    have "isNew \<longrightarrow> first_is_transition (en_events (pr_envelope report))"
      using res resolve_new_boot(7) by (cases isNew) auto
    from accept_keeps_activity [OF acc p(1) pc p(2,3) keep this] show ?thesis by (simp add: e)
  qed
qed

end
