(* ===== verification/Ingest_Claims.thy ===== *)
theory Ingest_Claims
  imports Seamless
begin

text \<open>
  The properties of the ingestion transaction, each with a run on a small database: an instance
  that reports its first boot, repeats the report, restarts and reports from its old boot.
\<close>

section \<open>A sample instance\<close>

definition sample_events :: "edge_event list" where
  "sample_events = [State_transition \<lparr>st_sequence = 1, st_observed_at = ''t'', st_display_state = D_idle,
     st_activity_state = A_eligible_idle, st_pet_id = ''bloop''\<rparr>]"

definition sample_report :: "string \<Rightarrow> string option \<Rightarrow> prepared_edge_report" where
  "sample_report boot previous =
     \<lparr>pr_envelope = \<lparr>en_instance_id = ''i'', en_key_id = ''k'', en_boot_id = boot,
        en_previous_boot_id = previous, en_first_sequence = 1, en_events = sample_events, en_sent_at = ''t'',
        en_client_version = ''1.0.0'', en_signature = ''s''\<rparr>,
      pr_endpoint = Batch_endpoint, pr_signingPayload = [], pr_canonicalPayload = map of_char boot,
      pr_canonicalPayloadHash = replicate 32 0,
      pr_canonicalEvents = map (\<lambda>e. \<lparr>ce_event = e, ce_bytes = [0], ce_hash = replicate 32 0\<rparr>) sample_events\<rparr>"

definition sample_verified :: verified_edge_context where
  "sample_verified = \<lparr>vf_instanceId = ''i'', vf_keyId = ''k'', vf_verification = Ed25519,
     vf_credentialPublicKeySha256 = Some [1]\<rparr>"

definition sample_ingest_env :: "timestamp_us \<Rightarrow> uuid \<Rightarrow> ingest_env" where
  "sample_ingest_env clock receipt = \<lparr>ig_credential_clock = clock, ig_clock = clock, ig_receipt_id = receipt,
     ig_sha256 = (\<lambda>_. [1]), ig_projector = (\<lambda>_. sample_projector_env), ig_lease_ttl_seconds = 90\<rparr>"

definition sample_head :: edge_store where
  "sample_head = empty_edge_store\<lparr>es_head := Some \<lparr>hd_current_boot_id = None, hd_current_boot_generation = 0,
     hd_last_server_received_at = None\<rparr>\<rparr>"

definition sample_db_with :: "edge_store \<Rightarrow> db" where
  "sample_db_with es = empty_db\<lparr>
     db_agents := [\<lparr>ag_id = ''g'', ag_owner_account_id = ''a'', ag_alias = js ''G'', ag_pet_id = ''kiki-koala'',
       ag_active_reporting_instance_id = Some ''i''\<rparr>],
     db_instances := [\<lparr>in_id = ''i'', in_logical_agent_id = ''g'', in_status = Instance_active, in_revoked_at = None\<rparr>],
     db_credentials := [\<lparr>cr_key_id = ''k'', cr_instance_id = ''i'', cr_public_key = [7], cr_valid_until = 1000000,
       cr_revoked_at = None\<rparr>],
     db_edge := (\<lambda>_. empty_edge_store)(''i'' := es)\<rparr>"

text \<open>The instance before its first report, and an idle one in its boot b.\<close>

definition sample_booted :: edge_store where
  "sample_booted =
     \<lparr>es_head = Some \<lparr>hd_current_boot_id = Some ''b'', hd_current_boot_generation = 1, hd_last_server_received_at = Some 5\<rparr>,
      es_boots = [\<lparr>bt_generation = 1, bt_boot_id = ''b'', bt_previous_boot_id = None, bt_next_sequence = 2,
        bt_first_accepted_at = 5, bt_last_accepted_at = 5, bt_fenced_at = None\<rparr>],
      es_receipts = [receipt_of ''q'' (sample_report ''b'' None) sample_verified 1 5 90005],
      es_fingerprints = [fingerprint_of ''q'' 1 \<lparr>ce_event = hd sample_events, ce_bytes = [0], ce_hash = replicate 32 0\<rparr>],
      es_presence = Some \<lparr>pn_boot_generation = 1, pn_boot_id = ''b'', pn_last_accepted_sequence = 1,
        pn_last_state_sequence = 1, pn_display_state = D_idle, pn_activity_state = A_eligible_idle, pn_pet_id = ''bloop'',
        pn_display_since = 5, pn_activity_since = 5, pn_eligible_since = Some 5, pn_last_report_received_at = 5,
        pn_lease_expires_at = 90005, pn_lease_closed_at = None\<rparr>,
      es_intervals = [\<lparr>iv_boot_generation = 1, iv_activity_state = A_eligible_idle, iv_started_at = 5,
        iv_ended_at = None, iv_start_sequence = 1, iv_end_sequence = None, iv_close_reason = None\<rparr>]\<rparr>"

lemma sample_uuid [simp]: "uuid_of_text ''i'' = ''i''" "uuid_of_text ''k'' = ''k''" "normalize_uuid ''b'' = ''b''"
  "normalize_uuid ''c'' = ''c''"
  by (simp_all add: uuid_of_text_def normalize_uuid_def to_lower_case_def lower_char_def)

lemma sample_edge_ok: "edge_ok sample_head" "clock_ok sample_head t"
  by (simp_all add: sample_head_def empty_edge_store_def edge_ok_def boots_ok_def MAX_SAFE_SEQUENCE_def clock_ok_def)

lemma sample_booted_ok: "edge_ok sample_booted" "clock_ok sample_booted t"
  by (simp_all add: sample_booted_def sample_report_def sample_events_def sample_verified_def edge_ok_def boots_ok_def
      replay_ok_def replay_upto_def receipt_of_def fingerprint_of_def last_sequence_def presence_ok_def
      presence_constraints_def activity_ok_def interval_table_ok_def interval_constraints_def row_count_def
      closed_by_def shows_activity_def watermark_def open_intervals_def uuid_of_text_def to_lower_case_def
      lower_char_def MAX_SAFE_SEQUENCE_def allowed_pair_def clock_ok_def)

lemma sample_report_ok: "report_ok (sample_report b p)"
  by (simp add: report_ok_def sample_report_def sample_events_def MAX_SAFE_SEQUENCE_def allowed_pair_def)

lemma sample_edge [simp]: "db_edge (sample_db_with es) (uuid_of_text (vf_instanceId sample_verified)) = es"
  by (simp add: sample_db_with_def sample_verified_def)

lemma sample_accepted:
  assumes ok: "edge_ok es" "es_head es = Some h" "clock_ok es t" "t < 1000000000"
    and rid: "\<forall>x\<in>set (es_receipts es). rc_id x \<noteq> r"
    and res: "resolve_boot (sample_report b p) es h (hd_current_boot_generation h) = Inr (gen, isNew, boot)"
    and chk: "check_sequence ''i'' (sample_report b p) es gen isNew boot = Inr None"
  shows "\<exists>ack e. ingest (sample_ingest_env t r) (sample_report b p) sample_verified (sample_db_with es) = Inr (ack, e)"
proof -
  let ?n = "\<lparr>in_id = ''i'', in_logical_agent_id = ''g'', in_status = Instance_active, in_revoked_at = None\<rparr>"
  let ?g = "\<lparr>ag_id = ''g'', ag_owner_account_id = ''a'', ag_alias = js ''G'', ag_pet_id = ''kiki-koala'',
       ag_active_reporting_instance_id = Some ''i''\<rparr>"
  have id: "in_id ?n = ''i''" and edge: "db_edge (sample_db_with es) ''i'' = es"
    by (simp_all add: sample_db_with_def)
  show ?thesis
  proof (rule ingest_accepts [where n = ?n and g = ?g and h = h and gen = gen and isNew = isNew and boot = boot],
      unfold id edge)
    show "assert_verified_identity (sample_report b p) sample_verified = Inr ()"
      by (simp add: assert_verified_identity_def sample_report_def sample_verified_def)
    show "assert_supported_pet_ids (sample_report b p) = Inr ()"
      by (simp add: assert_supported_pet_ids_def sample_report_def sample_events_def ONBOARDING_PET_IDS_def)
    show "lock_instance (sample_db_with es) (vf_instanceId sample_verified) = Inr ?n"
      by (simp add: lock_instance_def sample_db_with_def sample_verified_def)
    show "lock_agent (sample_db_with es) ?n = Inr ?g"
      by (simp add: lock_agent_def find_agent_def sample_db_with_def)
    show "lock_and_validate_credential (sample_ingest_env t r) sample_verified (sample_db_with es) = Inr ()"
      using ok(4) by (simp add: lock_and_validate_credential_def sample_db_with_def sample_verified_def
          sample_ingest_env_def to_timestamp_def)
    show "lock_affected_offices (sample_db_with es) (ag_id ?g) = []"
      by (simp add: lock_affected_offices_def sample_db_with_def empty_db_def)
  qed (use ok rid res chk in \<open>simp_all add: sample_report_ok sample_ingest_env_def\<close>)
qed

lemma first_report_accepted:
  "t < 1000000000 \<Longrightarrow>
   \<exists>ack e. ingest (sample_ingest_env t r) (sample_report ''b'' None) sample_verified (sample_db_with sample_head) = Inr (ack, e)"
  by (rule sample_accepted [where gen = 1 and isNew = True and boot = None])
    (rule sample_edge_ok | simp add: sample_head_def empty_edge_store_def resolve_boot_def Let_def find_boot_def
          sample_report_def sample_events_def first_is_transition_def normalize_nullable_uuid_def MAX_SAFE_SEQUENCE_def
          check_sequence_def)+

lemma next_boot_accepted:
  "t < 1000000000 \<Longrightarrow>
   \<exists>ack e. ingest (sample_ingest_env t ''r'') (sample_report ''c'' (Some ''b'')) sample_verified
     (sample_db_with sample_booted) = Inr (ack, e)"
  by (rule sample_accepted [where gen = 2 and isNew = True and boot = None])
    (rule sample_booted_ok | simp add: sample_booted_def resolve_boot_def Let_def find_boot_def receipt_of_def
          sample_report_def sample_events_def first_is_transition_def normalize_nullable_uuid_def MAX_SAFE_SEQUENCE_def
          check_sequence_def)+

lemma sample_start:
  assumes "edge_ok es" "clock_ok es t" "\<forall>x\<in>set (es_receipts es). rc_id x \<noteq> r"
  shows "edge_ok (db_edge (sample_db_with es) (uuid_of_text (vf_instanceId sample_verified)))"
    "clock_ok (db_edge (sample_db_with es) (uuid_of_text (vf_instanceId sample_verified))) (ig_clock (sample_ingest_env t r))"
    "report_ok (sample_report b p)" "0 < ig_lease_ttl_seconds (sample_ingest_env t r)"
    "\<forall>x\<in>set (es_receipts (db_edge (sample_db_with es) (uuid_of_text (vf_instanceId sample_verified)))).
       rc_id x \<noteq> ig_receipt_id (sample_ingest_env t r)"
  using assms by (simp_all add: sample_report_ok sample_ingest_env_def)

lemma sample_head_start: "\<forall>x\<in>set (es_receipts sample_head). rc_id x \<noteq> r"
  by (simp add: sample_head_def empty_edge_store_def)

lemma sample_booted_start: "\<forall>x\<in>set (es_receipts sample_booted). rc_id x \<noteq> ''r''"
  by (simp add: sample_booted_def receipt_of_def)

lemmas head_start = sample_start [OF sample_edge_ok sample_head_start]
lemmas booted_start = sample_start [OF sample_booted_ok sample_booted_start]

lemma sample_credential:
  assumes "db_credentials e = db_credentials (sample_db_with es)" "u < 1000000000"
  shows "lock_and_validate_credential (sample_ingest_env u q) sample_verified e = Inr ()"
  using assms by (simp add: lock_and_validate_credential_def sample_db_with_def sample_verified_def
      sample_ingest_env_def to_timestamp_def)

section \<open>Properties\<close>

text \<open>
  C7: An accepted or replayed report keeps the tables of its instance sound. If ingestion
  acknowledges a report, then the instance's tables satisfy the invariant again (one boot chain
  whose current boot is the report's, receipts that tile the accepted sequences, fingerprints
  for all of them, one open interval showing the presence while the lease is open); there is a
  receipt with the report's boot, range and content and the acknowledgement is the one of that
  receipt; no other instance's table is touched; and the logs of the offices have only evolved.
\<close>

theorem ingest_keeps_invariant:
  assumes "ingest env report verified d = Inr (ack, e)"
    and "edge_ok (db_edge d (uuid_of_text (vf_instanceId verified)))"
    and "clock_ok (db_edge d (uuid_of_text (vf_instanceId verified))) (ig_clock env)"
    and "report_ok report" and "0 < ig_lease_ttl_seconds env"
    and "\<forall>x\<in>set (es_receipts (db_edge d (uuid_of_text (vf_instanceId verified)))). rc_id x \<noteq> ig_receipt_id env"
  shows "edge_ok (db_edge e (uuid_of_text (vf_instanceId verified)))
    \<and> current_for report (db_edge e (uuid_of_text (vf_instanceId verified)))
    \<and> (\<exists>x\<in>set (es_receipts (db_edge e (uuid_of_text (vf_instanceId verified)))).
        receipt_for report x \<and> ack = ack_of (uuid_of_text (vf_instanceId verified)) x)
    \<and> (\<forall>k. k \<noteq> uuid_of_text (vf_instanceId verified) \<longrightarrow> db_edge e k = db_edge d k)
    \<and> db_evolves d e"
  using ingest_step [OF assms] by blast

lemma ingest_keeps_invariant_witness:
  "\<exists>ack e. ingest (sample_ingest_env 5000 ''r'') (sample_report ''b'' None) sample_verified (sample_db_with sample_head) = Inr (ack, e)
     \<and> edge_ok (db_edge e ''i'') \<and> current_for (sample_report ''b'' None) (db_edge e ''i'')"
proof -
  have v: "uuid_of_text (vf_instanceId sample_verified) = ''i''" by (simp add: sample_verified_def)
  obtain ack e where
    run: "ingest (sample_ingest_env 5000 ''r'') (sample_report ''b'' None) sample_verified (sample_db_with sample_head) = Inr (ack, e)"
    using first_report_accepted [of 5000 "''r''"] by auto
  from ingest_keeps_invariant [OF run head_start] run show ?thesis by (auto simp: v)
qed

text \<open>
  C8: Delivery is idempotent. Once a report has been acknowledged, submitting it again, at any
  later clock at which the credential is still valid, returns the same acknowledgement and
  changes nothing, whatever receipt id the second attempt would have drawn.
\<close>

theorem replay_is_idempotent:
  assumes "ingest env report verified d = Inr (ack, e)"
    and "edge_ok (db_edge d (uuid_of_text (vf_instanceId verified)))"
    and "clock_ok (db_edge d (uuid_of_text (vf_instanceId verified))) (ig_clock env)"
    and "report_ok report" and "0 < ig_lease_ttl_seconds env"
    and "\<forall>x\<in>set (es_receipts (db_edge d (uuid_of_text (vf_instanceId verified)))). rc_id x \<noteq> ig_receipt_id env"
    and "lock_and_validate_credential env' verified e = Inr ()"
  shows "ingest env' report verified e = Inr (ack, e)"
  using assms by (rule acknowledged_replays)

lemma replay_is_idempotent_witness:
  "\<exists>ack e. ingest (sample_ingest_env 5000 ''r'') (sample_report ''b'' None) sample_verified (sample_db_with sample_head) = Inr (ack, e)
     \<and> ingest (sample_ingest_env 9000 ''s'') (sample_report ''b'' None) sample_verified e = Inr (ack, e)"
proof -
  obtain ack e where
    run: "ingest (sample_ingest_env 5000 ''r'') (sample_report ''b'' None) sample_verified (sample_db_with sample_head) = Inr (ack, e)"
    using first_report_accepted [of 5000 "''r''"] by auto
  have "ingest (sample_ingest_env 9000 ''s'') (sample_report ''b'' None) sample_verified e = Inr (ack, e)"
    by (rule replay_is_idempotent [OF run head_start sample_credential [OF ingest_step(6) [OF run head_start]]]) simp
  with run show ?thesis by blast
qed

text \<open>
  C9: A restarted agent's old process is shut out. Once a report of another boot has been
  acknowledged, every report that names a boot the instance had before is refused as stale,
  although its signature and credential are in order.
\<close>

theorem superseded_boot_is_stale:
  assumes "ingest env report verified d = Inr (ack, e)"
    and "edge_ok (db_edge d (uuid_of_text (vf_instanceId verified)))"
    and "clock_ok (db_edge d (uuid_of_text (vf_instanceId verified))) (ig_clock env)"
    and "report_ok report" and "0 < ig_lease_ttl_seconds env"
    and "\<forall>x\<in>set (es_receipts (db_edge d (uuid_of_text (vf_instanceId verified)))). rc_id x \<noteq> ig_receipt_id env"
    and "normalize_uuid (en_boot_id (pr_envelope late))
      \<in> set (map bt_boot_id (es_boots (db_edge d (uuid_of_text (vf_instanceId verified)))))"
    and "normalize_uuid (en_boot_id (pr_envelope late)) \<noteq> normalize_uuid (en_boot_id (pr_envelope report))"
    and "assert_verified_identity late verified = Inr ()" and "assert_supported_pet_ids late = Inr ()"
    and "lock_and_validate_credential env' verified e = Inr ()"
  shows "ingest env' late verified e = Inl (protocol_problem Stale_boot 409
    ''The report boot is not the instance's current CAS-linked boot.'')"
  using assms by (rule superseded_boot_refused)

lemma superseded_boot_is_stale_witness:
  "\<exists>ack e. ingest (sample_ingest_env 5000 ''r'') (sample_report ''c'' (Some ''b'')) sample_verified
        (sample_db_with sample_booted) = Inr (ack, e)
     \<and> ingest (sample_ingest_env 9000 ''s'') (sample_report ''b'' None) sample_verified e
        = Inl (protocol_problem Stale_boot 409 ''The report boot is not the instance's current CAS-linked boot.'')"
proof -
  obtain ack e where
    run: "ingest (sample_ingest_env 5000 ''r'') (sample_report ''c'' (Some ''b'')) sample_verified
        (sample_db_with sample_booted) = Inr (ack, e)"
    using next_boot_accepted [of 5000] by auto
  have "ingest (sample_ingest_env 9000 ''s'') (sample_report ''b'' None) sample_verified e
      = Inl (protocol_problem Stale_boot 409 ''The report boot is not the instance's current CAS-linked boot.'')"
  proof (rule superseded_boot_is_stale [OF run booted_start])
    show "normalize_uuid (en_boot_id (pr_envelope (sample_report ''b'' None))) \<in> set (map bt_boot_id
        (es_boots (db_edge (sample_db_with sample_booted) (uuid_of_text (vf_instanceId sample_verified)))))"
      by (simp add: sample_report_def) (simp add: sample_booted_def)
    show "normalize_uuid (en_boot_id (pr_envelope (sample_report ''b'' None)))
        \<noteq> normalize_uuid (en_boot_id (pr_envelope (sample_report ''c'' (Some ''b''))))"
      by (simp add: sample_report_def)
    show "lock_and_validate_credential (sample_ingest_env 9000 ''s'') sample_verified e = Inr ()"
      by (rule sample_credential [OF ingest_step(6) [OF run booted_start]]) simp
  qed (simp_all add: assert_verified_identity_def assert_supported_pet_ids_def sample_report_def sample_events_def
      sample_verified_def ONBOARDING_PET_IDS_def)
  with run show ?thesis by blast
qed


text \<open>An office whose revision counter is exhausted.\<close>

definition sample_exhausted_db :: db where
  "sample_exhausted_db = (sample_db_with sample_head)\<lparr>
     db_offices := [\<lparr>of_id = ''f'', of_owner_account_id = ''a'', of_name = [], of_timezone = ''z'', of_demo_data = False,
       of_revision = 9007199254740991, of_minimum_replay_revision = 0, of_created_at = 0, of_deletion_requested_at = None\<rparr>],
     db_mounts := [\<lparr>mt_id = ''m'', mt_office_id = ''f'', mt_logical_agent_id = ''g'', mt_room_id = ''o'', mt_active = True,
       mt_scene_slot = None, mt_presence_visible = True, mt_stats_opt_in = False, mt_poster_opt_in = False, mt_updated_at = 0\<rparr>]\<rparr>"






end
