(* ===== verification/Sweep.thy ===== *)
theory Sweep
  imports Log_Evolution
begin

text \<open>
  Maintenance loops: every item of a list of candidates is handled in a transaction of its own.
  A failing transaction is rolled back and its error ends the loop, the transactions before it
  stay committed, so the outcome is a count or an error together with the database reached.
\<close>

fun commit_each :: "('a \<Rightarrow> db \<Rightarrow> (bool \<times> db) tx) \<Rightarrow> 'a list \<Rightarrow> int \<Rightarrow> db \<Rightarrow> int tx \<times> db" where
  "commit_each step [] n d = (Inr n, d)"
| "commit_each step (x # xs) n d =
     (case step x d of
        Inl e \<Rightarrow> (Inl e, d)
      | Inr (changed, d') \<Rightarrow> commit_each step xs (if changed then n + 1 else n) d')"

lemma commit_each_preserves:
  assumes "\<And>x d b d'. step x d = Inr (b, d') \<Longrightarrow> I d \<Longrightarrow> I d' \<and> R d d'"
    and "\<And>d. R d d" "\<And>a b c. R a b \<Longrightarrow> R b c \<Longrightarrow> R a c"
    and "I d" "commit_each step xs n d = (r, e)"
  shows "I e \<and> R d e"
  using assms(4,5)
proof (induction xs arbitrary: n d)
  case (Cons x xs)
  show ?case
  proof (cases "step x d")
    case (Inl err)
    with Cons.prems assms(2) show ?thesis by simp
  next
    case (Inr s)
    obtain b d1 where s: "s = (b, d1)" by (cases s)
    with assms(1) [of x d b d1] Inr Cons.prems(1) have "I d1" "R d d1" by simp_all
    moreover from Cons.prems(2) Inr s have "commit_each step xs (if b then n + 1 else n) d1 = (r, e)" by simp
    ultimately show ?thesis using Cons.IH assms(3) by blast
  qed
qed (use assms(2) in simp)

lemma commit_each_count:
  assumes "commit_each step xs n d = (Inr m, e)"
  shows "n \<le> m \<and> m \<le> n + int (length xs)"
  using assms
proof (induction xs arbitrary: n d)
  case (Cons x xs)
  from Cons.prems obtain b d1 where "commit_each step xs (if b then n + 1 else n) d1 = (Inr m, e)"
    by (auto split: sum.splits prod.splits)
  from Cons.IH [OF this] show ?case by (auto split: if_splits)
qed simp

end
