(* ===== verification/Expire_Leases.thy ===== *)
theory Expire_Leases
  imports Ingest_Outcome Sweep
begin

text \<open>
  The lease sweep (presence/application/expire-leases.ts): presences whose lease has run out are
  closed at the end of the lease, with their open activity interval, and the affected offices
  record the removal.
\<close>

section \<open>The sweep\<close>

text \<open>
  The database clock at the search for candidates and at the check of each lease, and the
  projector's environment for an instance and an office.
\<close>

record lease_sweep_env =
  lx_candidate_clock :: timestamp_us
  lx_clock :: "uuid \<Rightarrow> timestamp_us"
  lx_projector :: "uuid \<Rightarrow> uuid \<Rightarrow> projector_env"

definition compare_leases :: "date_ms \<times> uuid \<Rightarrow> date_ms \<times> uuid \<Rightarrow> int" where
  "compare_leases = (\<lambda>(t, i) (u, j). if t \<noteq> u then t - u else if i < j then - 1 else if j < i then 1 else 0)"

definition due_leases :: "timestamp_us \<Rightarrow> db \<Rightarrow> (date_ms \<times> uuid) list" where
  "due_leases clock d = sort_by compare_leases
     (concat (map (\<lambda>n. case es_presence (db_edge d (in_id n)) of
          None \<Rightarrow> []
        | Some p \<Rightarrow> if pn_lease_closed_at p = None \<and> to_timestamp (pn_lease_expires_at p) \<le> clock
                     then [(pn_lease_expires_at p, in_id n)] else []) (db_instances d)))"

definition parse_safe_sequence :: "int \<Rightarrow> int tx" where
  "parse_safe_sequence value = parse_integer_range 1 MAX_SAFE_SEQUENCE value ''Invalid database sequence''"

definition lease_source_key :: "uuid \<Rightarrow> date_ms \<Rightarrow> js_string" where
  "lease_source_key instanceId leaseExpiresAt = js (''lease:'' @ instanceId @ '':'') @ to_iso_string leaseExpiresAt"

definition append_offline_office_revisions ::
  "(uuid \<Rightarrow> projector_env) \<Rightarrow> uuid \<Rightarrow> uuid \<Rightarrow> date_ms \<Rightarrow> db \<Rightarrow> db tx" where
  "append_offline_office_revisions envs logicalAgentId instanceId leaseExpiresAt d =
     foldM_r (\<lambda>officeId d. rbind (record_revision (envs officeId)
         \<lparr>ri_officeId = officeId, ri_eventType = Presence_removed, ri_sourceKind = Lease_expiry,
          ri_sourceKey = lease_source_key instanceId leaseExpiresAt, ri_sourceReceiptId = None,
          ri_at = leaseExpiresAt\<rparr> d)
         (\<lambda>(_, d'). Inr d')) (lock_affected_offices d logicalAgentId) d"

definition close_presence :: "presence_row \<Rightarrow> edge_store \<Rightarrow> edge_store" where
  "close_presence p es = es\<lparr>es_presence := Some (p\<lparr>pn_lease_closed_at := Some (pn_lease_expires_at p)\<rparr>)\<rparr>"

definition expire_one_lease :: "lease_sweep_env \<Rightarrow> uuid \<Rightarrow> db \<Rightarrow> (bool \<times> db) tx" where
  "expire_one_lease env instanceId d =
     (case select_one (\<lambda>n. in_id n = instanceId) (db_instances d) of
        None \<Rightarrow> Inr (False, d)
      | Some n \<Rightarrow>
          (case es_presence (db_edge d instanceId) of
             None \<Rightarrow> Inr (False, d)
           | Some p \<Rightarrow>
               if pn_lease_closed_at p \<noteq> None
                  \<or> \<not> to_timestamp (pn_lease_expires_at p) \<le> lx_clock env instanceId
               then Inr (False, d)
               else
                 rbind (parse_safe_sequence (pn_last_accepted_sequence p)) (\<lambda>lastAcceptedSequence.
                 rbind (close_open_activity_interval (pn_lease_expires_at p) lastAcceptedSequence
                          Lease_expired (db_edge d instanceId)) (\<lambda>es.
                 rbind (append_offline_office_revisions (lx_projector env instanceId) (in_logical_agent_id n)
                          instanceId (pn_lease_expires_at p)
                          (d\<lparr>db_edge := (db_edge d)(instanceId := close_presence p es)\<rparr>)) (\<lambda>d'.
                   Inr (True, d'))))))"

definition expire_due_leases :: "lease_sweep_env \<Rightarrow> int \<Rightarrow> db \<Rightarrow> int tx \<times> db" where
  "expire_due_leases env limit d =
     (if \<not> (1 \<le> limit \<and> limit \<le> 1000)
      then (Inl (Failure ''Lease sweep limit must be between 1 and 1000''), d)
      else commit_each (expire_one_lease env)
             (map snd (take (nat limit) (due_leases (lx_candidate_clock env) d))) 0 d)"

section \<open>One lease\<close>

lemma close_lease_ok:
  assumes ok: "edge_ok es" and p: "es_presence es = Some p" "pn_lease_closed_at p = None"
  shows "\<exists>u. parse_safe_sequence (pn_last_accepted_sequence p) = Inr (pn_last_accepted_sequence p)
    \<and> close_open_activity_interval (pn_lease_expires_at p) (pn_last_accepted_sequence p) Lease_expired es
      = Inr (es\<lparr>es_intervals := u\<rparr>)
    \<and> open_intervals u = [] \<and> edge_ok (close_presence p (es\<lparr>es_intervals := u\<rparr>))"
proof -
  from ok obtain h where h: "es_head es = Some h" "boots_ok h (es_boots es)" by (auto simp: edge_ok_def)
  have ne: "es_boots es \<noteq> []" using ok p(1) by (auto simp: edge_ok_def)
  from ok ne h p(1) have rep: "replay_ok (last (es_boots es)) (es_receipts es) (es_fingerprints es)"
    and pok: "presence_ok h (last (es_boots es)) p" and act: "activity_ok p (es_intervals es)"
    by (auto simp: edge_ok_def)
  have pc: "presence_constraints p" using pok by (simp add: presence_ok_def)
  then have lease: "pn_last_report_received_at p \<le> pn_lease_expires_at p" by (simp add: presence_constraints_def)
  have parse: "parse_safe_sequence (pn_last_accepted_sequence p) = Inr (pn_last_accepted_sequence p)"
    using pc by (simp add: parse_safe_sequence_def presence_constraints_def)
  have "watermark p \<le> pn_lease_expires_at p" using lease p(2) by (simp add: watermark_def)
  from close_live_interval [OF pc act p(2) this lease order_refl, of Lease_expired] obtain u where
    u: "close_open_activity_interval (pn_lease_expires_at p) (pn_last_accepted_sequence p) Lease_expired es
      = Inr (es\<lparr>es_intervals := u\<rparr>)" "interval_table_ok u" "open_intervals u = []"
      "closed_by (pn_lease_expires_at p) u" by blast
  let ?p = "p\<lparr>pn_lease_closed_at := Some (pn_lease_expires_at p)\<rparr>"
  have "presence_ok h (last (es_boots es)) ?p" using pok by (simp add: presence_ok_def presence_constraints_def)
  moreover have "activity_ok ?p u" using u by (simp add: activity_ok_def watermark_def)
  ultimately have "edge_ok (close_presence p (es\<lparr>es_intervals := u\<rparr>))"
    using h ne rep by (simp add: edge_ok_def close_presence_def)
  with parse u show ?thesis by blast
qed


definition lease_due :: "timestamp_us \<Rightarrow> uuid \<Rightarrow> db \<Rightarrow> bool" where
  "lease_due clock iid d \<longleftrightarrow> iid \<in> set (map in_id (db_instances d))
     \<and> (case es_presence (db_edge d iid) of None \<Rightarrow> False
        | Some p \<Rightarrow> pn_lease_closed_at p = None \<and> to_timestamp (pn_lease_expires_at p) \<le> clock)"

lemma expire_one_effect:
  assumes exp: "expire_one_lease env iid d = Inr (b, e)" and ok: "edge_ok (db_edge d iid)"
  shows "edge_ok (db_edge e iid)" "\<forall>k. k \<noteq> iid \<longrightarrow> db_edge e k = db_edge d k" "db_evolves d e"
    and "b \<longleftrightarrow> lease_due (lx_clock env iid) iid d" "\<not> b \<longrightarrow> e = d"
    and "b \<longrightarrow> (\<exists>p. es_presence (db_edge d iid) = Some p
      \<and> es_presence (db_edge e iid) = Some (p\<lparr>pn_lease_closed_at := Some (pn_lease_expires_at p)\<rparr>)
      \<and> open_intervals (es_intervals (db_edge e iid)) = [])"
    and "db_instances e = db_instances d" "db_credentials e = db_credentials d" "agent_identities e = agent_identities d"
proof -
  have "edge_ok (db_edge e iid) \<and> (\<forall>k. k \<noteq> iid \<longrightarrow> db_edge e k = db_edge d k) \<and> db_evolves d e
    \<and> (b \<longleftrightarrow> lease_due (lx_clock env iid) iid d) \<and> (\<not> b \<longrightarrow> e = d)
    \<and> (b \<longrightarrow> (\<exists>p. es_presence (db_edge d iid) = Some p
      \<and> es_presence (db_edge e iid) = Some (p\<lparr>pn_lease_closed_at := Some (pn_lease_expires_at p)\<rparr>)
      \<and> open_intervals (es_intervals (db_edge e iid)) = []))
    \<and> db_instances e = db_instances d \<and> db_credentials e = db_credentials d \<and> agent_identities e = agent_identities d"
  proof (cases "lease_due (lx_clock env iid) iid d")
    case False
    with exp have "b = False \<and> e = d"
      by (auto simp: expire_one_lease_def lease_due_def dest!: select_one_SomeD split: option.splits if_splits)
    with False ok show ?thesis by simp
  next
    case True
    then obtain p where p: "es_presence (db_edge d iid) = Some p" "pn_lease_closed_at p = None"
      "to_timestamp (pn_lease_expires_at p) \<le> lx_clock env iid"
      by (auto simp: lease_due_def split: option.splits)
    from True obtain n where n: "select_one (\<lambda>n. in_id n = iid) (db_instances d) = Some n"
      by (cases "select_one (\<lambda>n. in_id n = iid) (db_instances d)") (auto simp: lease_due_def select_one_None_iff)
    from close_lease_ok [OF ok p(1,2)] obtain u where
      u: "parse_safe_sequence (pn_last_accepted_sequence p) = Inr (pn_last_accepted_sequence p)"
        "close_open_activity_interval (pn_lease_expires_at p) (pn_last_accepted_sequence p) Lease_expired
          (db_edge d iid) = Inr ((db_edge d iid)\<lparr>es_intervals := u\<rparr>)" "open_intervals u = []"
        "edge_ok (close_presence p ((db_edge d iid)\<lparr>es_intervals := u\<rparr>))" by blast
    let ?d1 = "d\<lparr>db_edge := (db_edge d)(iid := close_presence p ((db_edge d iid)\<lparr>es_intervals := u\<rparr>))\<rparr>"
    from exp n p u(1,2) have b: "b" and app: "append_offline_office_revisions (lx_projector env iid)
        (in_logical_agent_id n) iid (pn_lease_expires_at p) ?d1 = Inr e"
      by (auto simp: expire_one_lease_def result_simps)
    from foldM_recording [OF app [unfolded append_offline_office_revisions_def]]
    have out: "same_outside ?d1 e" and ev: "db_evolves ?d1 e" by simp_all
    have "db_evolves d ?d1"
      by (rule same_logs_evolve) (simp_all add: same_log_def office_rows_def office_events_def projection_rows_def outbox_ok_def)
    with ev have "db_evolves d e" by (blast intro: db_evolves_trans)
    with b True out u p(1) show ?thesis
      by (auto simp: same_outside_def close_presence_def agent_identities_def)
  qed
  then show "edge_ok (db_edge e iid)" "\<forall>k. k \<noteq> iid \<longrightarrow> db_edge e k = db_edge d k" "db_evolves d e"
    "b \<longleftrightarrow> lease_due (lx_clock env iid) iid d" "\<not> b \<longrightarrow> e = d"
    "b \<longrightarrow> (\<exists>p. es_presence (db_edge d iid) = Some p
      \<and> es_presence (db_edge e iid) = Some (p\<lparr>pn_lease_closed_at := Some (pn_lease_expires_at p)\<rparr>)
      \<and> open_intervals (es_intervals (db_edge e iid)) = [])"
    "db_instances e = db_instances d" "db_credentials e = db_credentials d" "agent_identities e = agent_identities d"
    by simp_all
qed

end
