(* ===== verification/Retain.thy ===== *)
theory Retain
  imports Sweep
begin

text \<open>
  Retention of the revision log (public-office/application/retain-office-revisions.ts): the
  oldest events of an office are deleted and its replay floor is raised, but never past an
  outbox row that has not been published. The lemmas show that the log stays sound and how many
  revisions it keeps.
\<close>

definition parse_revision :: "int \<Rightarrow> int tx" where
  "parse_revision value = parse_integer_range 0 MAX_SAFE_INTEGER value ''Invalid persisted Office revision''"

definition first_pending_revision :: "uuid \<Rightarrow> int \<Rightarrow> db \<Rightarrow> int option" where
  "first_pending_revision officeId desiredCutoff d =
     (let pending = map ob_office_revision (filter (\<lambda>b. ob_office_id b = officeId \<and> ob_published_at b = None
         \<and> ob_office_revision b \<le> desiredCutoff) (db_outbox d)) in
      if pending = [] then None else Some (Min (set pending)))"

definition retain_one_office :: "int \<Rightarrow> uuid \<Rightarrow> db \<Rightarrow> (bool \<times> db) tx" where
  "retain_one_office maxReplayRevisions officeId d =
     (case find_office d officeId of
        None \<Rightarrow> Inr (False, d)
      | Some head \<Rightarrow>
          rbind (parse_revision (of_revision head)) (\<lambda>current.
          rbind (parse_revision (of_minimum_replay_revision head)) (\<lambda>minimum.
          let desiredCutoff = current - maxReplayRevisions in
          if desiredCutoff \<le> minimum then Inr (False, d)
          else
            rbind (case first_pending_revision officeId desiredCutoff d of
                     None \<Rightarrow> Inr None
                   | Some r \<Rightarrow> rbind (parse_revision r) (\<lambda>n. Inr (Some n))) (\<lambda>firstPending.
            let safeCutoff = (case firstPending of None \<Rightarrow> desiredCutoff
                              | Some n \<Rightarrow> min desiredCutoff (n - 1)) in
            if safeCutoff \<le> minimum then Inr (False, d)
            else Inr (True, set_minimum_replay officeId safeCutoff
                   (delete_revision_events (\<lambda>e. re_office_id e = officeId \<and> re_revision e \<le> safeCutoff) d))))))"

definition compare_uuids :: "uuid \<Rightarrow> uuid \<Rightarrow> int" where
  "compare_uuids a b = (if a < b then - 1 else if b < a then 1 else 0)"

definition retain_office_revisions :: "int \<Rightarrow> int \<Rightarrow> db \<Rightarrow> int tx \<times> db" where
  "retain_office_revisions maxReplayRevisions officeLimit d =
     (if \<not> (1 \<le> maxReplayRevisions \<and> maxReplayRevisions \<le> 100000)
      then (Inl (Failure ''Replay retention must be between 1 and 100000 revisions''), d)
      else if \<not> (1 \<le> officeLimit \<and> officeLimit \<le> 1000)
      then (Inl (Failure ''Office retention limit must be between 1 and 1000''), d)
      else commit_each (retain_one_office maxReplayRevisions)
             (take (nat officeLimit) (sort_by compare_uuids (map of_id
               (filter (\<lambda>x. maxReplayRevisions < of_revision x - of_minimum_replay_revision x) (db_offices d))))) 0 d)"

section \<open>One office\<close>

text \<open>The log without the revisions up to a cut.\<close>

definition trimmed :: "uuid \<Rightarrow> int \<Rightarrow> db \<Rightarrow> db" where
  "trimmed oid c d = set_minimum_replay oid c
     (delete_revision_events (\<lambda>e. re_office_id e = oid \<and> re_revision e \<le> c) d)"

lemma trimmed_rows:
  "office_events (trimmed oid c d) oid = filter (\<lambda>e. c < re_revision e) (office_events d oid)"
  "k \<noteq> oid \<Longrightarrow> office_events (trimmed oid c d) k = office_events d k"
  "office_rows (trimmed oid c d) oid = map (\<lambda>o'. o'\<lparr>of_minimum_replay_revision := c\<rparr>) (office_rows d oid)"
  "k \<noteq> oid \<Longrightarrow> office_rows (trimmed oid c d) k = office_rows d k"
  "projection_rows (trimmed oid c d) k = projection_rows d k"
proof -
  have rows: "db_offices (trimmed oid c d) = update_where (\<lambda>x. of_id x = oid)
      (\<lambda>x. x\<lparr>of_minimum_replay_revision := c\<rparr>) (db_offices d)"
    by (simp add: trimmed_def set_minimum_replay_def delete_revision_events_def Let_def)
  show "office_events (trimmed oid c d) oid = filter (\<lambda>e. c < re_revision e) (office_events d oid)"
    "k \<noteq> oid \<Longrightarrow> office_events (trimmed oid c d) k = office_events d k"
    by (auto simp: trimmed_def set_minimum_replay_def delete_revision_events_def Let_def
        office_events_def delete_where_def intro: filter_cong)
  show "office_rows (trimmed oid c d) oid = map (\<lambda>o'. o'\<lparr>of_minimum_replay_revision := c\<rparr>) (office_rows d oid)"
    by (simp add: office_rows_def rows filter_update_where) (simp add: update_where_def)
  show "k \<noteq> oid \<Longrightarrow> office_rows (trimmed oid c d) k = office_rows d k"
    unfolding office_rows_def rows by (rule filter_update_other) auto
  show "projection_rows (trimmed oid c d) k = projection_rows d k"
    by (simp add: projection_rows_def trimmed_def set_minimum_replay_def delete_revision_events_def Let_def)
qed

lemma trimmed_outside: "same_outside d (trimmed oid c d)"
  by (auto simp: trimmed_def set_minimum_replay_def delete_revision_events_def same_outside_def Let_def
      intro!: map_update_where)

lemma last_filter: "xs \<noteq> [] \<Longrightarrow> P (last xs) \<Longrightarrow> last (filter P xs) = last xs"
  by (induction xs rule: rev_induct) auto

lemma trimmed_log:
  assumes ok: "log_ok d oid" and c: "log_floor d oid \<le> c" "c < log_head d oid"
  shows "log_ok (trimmed oid c d) oid" "log_floor (trimmed oid c d) oid = c"
    "log_head (trimmed oid c d) oid = log_head d oid"
proof -
  from ok obtain o' where o': "office_rows d oid = [o']" by (auto simp: log_ok_def length_Suc_conv)
  show floor: "log_floor (trimmed oid c d) oid = c" and head: "log_head (trimmed oid c d) oid = log_head d oid"
    by (simp_all add: log_floor_def log_head_def trimmed_rows o')
  have revs: "map re_revision (office_events (trimmed oid c d) oid) = [c + 1..log_head d oid]"
    using office_log.replay_after [OF ok c(1)] by (simp add: trimmed_rows)
  then have ne: "office_events (trimmed oid c d) oid \<noteq> []" using c(2) by auto
  then have "office_events d oid \<noteq> []" by (auto simp: trimmed_rows)
  then obtain p where p: "projection_rows d oid = [p]" "projects p (last (office_events d oid))"
    using ok by (auto simp: log_ok_def)
  have revd: "map re_revision (office_events d oid) = [log_floor d oid + 1..log_head d oid]"
    by (rule office_log.contiguous [OF ok])
  have "re_revision (last (office_events d oid)) = last (map re_revision (office_events d oid))"
    using \<open>office_events d oid \<noteq> []\<close> by (simp add: last_map)
  also have "\<dots> = log_head d oid" unfolding revd using c by (simp add: upto_rec2)
  finally have "last (office_events (trimmed oid c d) oid) = last (office_events d oid)"
    using c(2) \<open>office_events d oid \<noteq> []\<close> by (simp add: trimmed_rows last_filter)
  moreover have "sorted (map re_created_at (office_events (trimmed oid c d) oid))"
    using ok by (simp add: log_ok_def trimmed_rows sorted_filter)
  ultimately show "log_ok (trimmed oid c d) oid"
    using ok c p ne revs floor head unfolding log_ok_def by (auto simp: trimmed_rows(1,3,5))
qed

lemma trimmed_evolves:
  assumes "log_ok d oid" "log_floor d oid \<le> c" "c < log_head d oid"
  shows "db_evolves d (trimmed oid c d)"
proof (rule db_evolvesI)
  show "map of_id (db_offices (trimmed oid c d)) = map of_id (db_offices d)"
    using trimmed_outside by (simp add: same_outside_def)
  show "\<forall>k. log_evolves k d (trimmed oid c d)"
  proof
    fix k
    show "log_evolves k d (trimmed oid c d)"
    proof (cases "k = oid")
      case True
      with trimmed_log [OF assms] assms(2) show ?thesis by (auto simp: log_evolves_def trimmed_rows)
    next
      case False
      then show ?thesis by (intro same_log_evolves) (simp add: same_log_def trimmed_rows)
    qed
  qed
  assume "logs_ok d"
  then have "outbox_ok (delete_revision_events (\<lambda>e. re_office_id e = oid \<and> re_revision e \<le> c) d)"
    by (simp add: logs_ok_def delete_outbox_ok)
  then show "outbox_ok (trimmed oid c d)" unfolding trimmed_def set_minimum_replay_def
    by (subst outbox_ok_cong) simp_all
qed


lemma log_office:
  assumes "log_ok d oid"
  shows "\<exists>o'. find_office d oid = Some o' \<and> of_revision o' = log_head d oid
    \<and> of_minimum_replay_revision o' = log_floor d oid"
  using assms by (auto simp: log_ok_def length_Suc_conv find_office_rows log_head_def log_floor_def)

lemma no_pending: "outbox_ok d \<Longrightarrow> first_pending_revision oid c d = None"
  by (auto simp: first_pending_revision_def outbox_ok_def Let_def filter_empty_conv)

lemma retain_one_cases:
  assumes ok: "log_ok d oid" and outbox: "outbox_ok d"
  shows "retain_one_office m oid d = Inr (if log_floor d oid < log_head d oid - m
    then (True, trimmed oid (log_head d oid - m) d) else (False, d))"
proof -
  from log_office [OF ok] obtain o' where o': "find_office d oid = Some o'" "of_revision o' = log_head d oid"
    "of_minimum_replay_revision o' = log_floor d oid" by blast
  have "0 \<le> log_floor d oid" "log_floor d oid \<le> log_head d oid" "log_head d oid \<le> MAX_SAFE_INTEGER"
    using ok by (simp_all add: log_ok_def)
  then have parse: "parse_revision (log_head d oid) = Inr (log_head d oid)"
    "parse_revision (log_floor d oid) = Inr (log_floor d oid)" by (simp_all add: parse_revision_def)
  show ?thesis
    using o' parse by (simp add: retain_one_office_def trimmed_def Let_def no_pending [OF outbox])
qed

text \<open>The floor after retention.\<close>

definition retained_floor :: "int \<Rightarrow> db \<Rightarrow> uuid \<Rightarrow> int" where
  "retained_floor m d oid = max (log_floor d oid) (log_head d oid - m)"

lemma retain_one_effect:
  assumes ok: "logs_ok d" and oid: "oid \<in> set (map of_id (db_offices d))" and m: "1 \<le> m"
  shows "\<exists>b e. retain_one_office m oid d = Inr (b, e) \<and> db_evolves d e \<and> same_outside d e
    \<and> log_floor e oid = retained_floor m d oid
    \<and> (\<forall>k. log_head e k = log_head d k) \<and> (\<forall>k. k \<noteq> oid \<longrightarrow> log_floor e k = log_floor d k)"
proof -
  have log: "log_ok d oid" and out: "outbox_ok d" using ok oid by (auto simp: logs_ok_def)
  let ?c = "log_head d oid - m"
  show ?thesis
  proof (cases "log_floor d oid < ?c")
    case True
    then have c: "log_floor d oid \<le> ?c" "?c < log_head d oid" using m by simp_all
    have "log_head (trimmed oid ?c d) k = log_head d k \<and> (k \<noteq> oid \<longrightarrow> log_floor (trimmed oid ?c d) k = log_floor d k)" for k
    proof (cases "k = oid")
      case True
      with trimmed_log(3) [OF log c] show ?thesis by simp
    next
      case False
      then show ?thesis by (simp add: log_head_def log_floor_def trimmed_rows)
    qed
    with True retain_one_cases [OF log out, of m] trimmed_evolves [OF log c] trimmed_outside [of d oid ?c]
      trimmed_log(2) [OF log c]
    show ?thesis by (auto simp: retained_floor_def)
  next
    case False
    with retain_one_cases [OF log out, of m] show ?thesis by (auto simp: retained_floor_def)
  qed
qed

lemma retain_loop:
  assumes "logs_ok d" "set ids \<subseteq> set (map of_id (db_offices d))" "distinct ids" "1 \<le> m"
  shows "\<exists>n' e. commit_each (retain_one_office m) ids n d = (Inr n', e) \<and> db_evolves d e
    \<and> (\<forall>k. log_head e k = log_head d k)
    \<and> (\<forall>k. log_floor e k = (if k \<in> set ids then retained_floor m d k else log_floor d k))"
  using assms(1-3)
proof (induction ids arbitrary: n d)
  case (Cons oid ids)
  from retain_one_effect [OF Cons.prems(1) _ assms(4), of oid] Cons.prems(2) obtain b e where
    e: "retain_one_office m oid d = Inr (b, e)" "db_evolves d e" "same_outside d e"
      "log_floor e oid = retained_floor m d oid" "\<forall>k. log_head e k = log_head d k"
      "\<forall>k. k \<noteq> oid \<longrightarrow> log_floor e k = log_floor d k" by auto
  have "logs_ok e" using e(2) Cons.prems(1) by (simp add: db_evolves_def)
  moreover have "set ids \<subseteq> set (map of_id (db_offices e))" using Cons.prems(2) e(3) by (simp add: same_outside_def)
  ultimately obtain n' f where
    f: "commit_each (retain_one_office m) ids (if b then n + 1 else n) e = (Inr n', f)" "db_evolves e f"
      "\<forall>k. log_head f k = log_head e k"
      "\<forall>k. log_floor f k = (if k \<in> set ids then retained_floor m e k else log_floor e k)"
    using Cons.IH [of e "if b then n + 1 else n"] Cons.prems(3) by auto
  have "log_floor f k = (if k \<in> set (oid # ids) then retained_floor m d k else log_floor d k)" for k
    using f(4) e(4-6) Cons.prems(3) by (cases "k = oid") (auto simp: retained_floor_def)
  moreover have "db_evolves d f" using e(2) f(2) by (rule db_evolves_trans)
  ultimately show ?case using e(1,5) f(1,3) by (intro exI [of _ n'] exI [of _ f]) simp
qed simp

lemma logs_ok_distinct: "logs_ok d \<Longrightarrow> distinct (map of_id (db_offices d))"
proof (rule ccontr)
  assume ok: "logs_ok d" and "\<not> distinct (map of_id (db_offices d))"
  then obtain xs ys zs y where s: "map of_id (db_offices d) = xs @ [y] @ ys @ [y] @ zs"
    by (metis not_distinct_decomp)
  have "length (filter (\<lambda>x. of_id x = y) (db_offices d)) = length (filter ((=) y) (map of_id (db_offices d)))"
    by (simp add: filter_map comp_def eq_commute)
  also have "\<dots> \<ge> 2" unfolding s by simp
  finally have "length (office_rows d y) \<noteq> 1" by (simp add: office_rows_def)
  moreover have "y \<in> set (map of_id (db_offices d))" unfolding s by simp
  with ok have "log_ok d y" by (auto simp: logs_ok_def)
  ultimately show False by (simp add: log_ok_def)
qed

lemma retention_result:
  assumes ok: "logs_ok d" and m: "1 \<le> m" "m \<le> 100000" and limit: "1 \<le> limit" "limit \<le> 1000"
    and fits: "int (length (filter (\<lambda>x. m < of_revision x - of_minimum_replay_revision x) (db_offices d))) \<le> limit"
  shows "\<exists>n e. retain_office_revisions m limit d = (Inr n, e) \<and> db_evolves d e
    \<and> (\<forall>oid\<in>set (map of_id (db_offices d)). log_head e oid = log_head d oid
        \<and> log_floor e oid = retained_floor m d oid)"
proof -
  let ?over = "filter (\<lambda>x. m < of_revision x - of_minimum_replay_revision x) (db_offices d)"
  let ?ids = "sort_by compare_uuids (map of_id ?over)"
  have take: "take (nat limit) ?ids = ?ids" using fits limit(1) by simp
  have "distinct (map of_id ?over)" using logs_ok_distinct [OF ok] by (simp add: distinct_map_filter)
  then have "distinct ?ids" by (metis mset_sort_by mset_eq_imp_distinct_iff)
  moreover have sub: "set ?ids \<subseteq> set (map of_id (db_offices d))" by auto
  ultimately obtain n e where
    e: "commit_each (retain_one_office m) ?ids 0 d = (Inr n, e)" "db_evolves d e"
      "\<forall>k. log_head e k = log_head d k"
      "\<forall>k. log_floor e k = (if k \<in> set ?ids then retained_floor m d k else log_floor d k)"
    using retain_loop [OF ok sub _ m(1), of 0] by blast
  have "log_floor e oid = retained_floor m d oid" if o: "oid \<in> set (map of_id (db_offices d))" for oid
  proof (cases "oid \<in> set ?ids")
    case False
    from log_office [of d oid] ok o obtain x where x: "find_office d oid = Some x"
      "of_revision x = log_head d oid" "of_minimum_replay_revision x = log_floor d oid"
      by (auto simp: logs_ok_def)
    from x(1) have "x \<in> set (db_offices d)" "of_id x = oid" by (auto simp: find_office_def dest: select_one_SomeD)
    with False have "\<not> m < of_revision x - of_minimum_replay_revision x" by auto
    with e(4) False x show ?thesis by (simp add: retained_floor_def)
  qed (use e(4) in simp)
  with e take m limit show ?thesis by (auto simp: retain_office_revisions_def)
qed

section \<open>The bound\<close>

text \<open>
  C15: Retention bounds the logs and loses nothing it need not. If the logs are sound, the limits
  are in range and the sweep is not truncated, it ends without an error; every log stays sound,
  its head does not move and its floor becomes the later of the old floor and the head minus
  the limit, so at most the limit's number of revisions is kept and it is the newest ones; what
  is kept of a log is exactly the revisions above the new floor.
\<close>

theorem retention_bounds_logs:
  assumes "logs_ok d" and "1 \<le> m" and "m \<le> 100000" and "1 \<le> limit" and "limit \<le> 1000"
    and "int (length (filter (\<lambda>x. m < of_revision x - of_minimum_replay_revision x) (db_offices d))) \<le> limit"
  shows "\<exists>n e. retain_office_revisions m limit d = (Inr n, e) \<and> logs_ok e
    \<and> (\<forall>oid\<in>set (map of_id (db_offices d)). log_head e oid = log_head d oid
        \<and> log_floor e oid = max (log_floor d oid) (log_head d oid - m)
        \<and> int (length (office_events e oid)) \<le> m
        \<and> map re_revision (office_events e oid) = [log_floor e oid + 1..log_head d oid]
        \<and> set (office_events e oid) \<subseteq> set (office_events d oid))"
proof -
  from retention_result [OF assms] obtain n e where
    e: "retain_office_revisions m limit d = (Inr n, e)" "db_evolves d e"
      "\<forall>oid\<in>set (map of_id (db_offices d)). log_head e oid = log_head d oid \<and> log_floor e oid = retained_floor m d oid"
    by blast
  have ok: "logs_ok e" and ev: "log_evolves oid d e" for oid using e(2) assms(1) by (simp_all add: db_evolves_def)
  have "map re_revision (office_events e oid) = [log_floor e oid + 1..log_head d oid]
      \<and> int (length (office_events e oid)) \<le> m \<and> set (office_events e oid) \<subseteq> set (office_events d oid)"
    if o: "oid \<in> set (map of_id (db_offices d))" for oid
  proof -
    have log: "log_ok d oid" using assms(1) o by (auto simp: logs_ok_def)
    with ev [of oid] have loge: "log_ok e oid"
      and old: "\<forall>x\<in>set (office_events e oid). re_revision x \<le> log_head d oid \<longrightarrow> x \<in> set (office_events d oid)"
      by (simp_all add: log_evolves_def)
    have head: "log_head e oid = log_head d oid" using e(3) o by blast
    have revs: "map re_revision (office_events e oid) = [log_floor e oid + 1..log_head d oid]"
      using office_log.contiguous [OF loge] by (simp add: head)
    have "length (office_events e oid) = nat (log_head d oid - log_floor e oid)"
      using arg_cong [OF revs, of length] by simp
    moreover have "log_head d oid - log_floor e oid \<le> m" using e(3) o by (auto simp: retained_floor_def)
    ultimately have "int (length (office_events e oid)) \<le> m" using assms(2) by simp
    with revs old office_log.revision_range [OF loge] show ?thesis by (auto simp: head)
  qed
  with e(1,3) ok show ?thesis by (auto simp: retained_floor_def)
qed

definition sample_public_snapshot :: "int \<Rightarrow> public_office_snapshot" where
  "sample_public_snapshot r = \<lparr>ps_office_revision = r, ps_generated_at = r, ps_office_name = js ''Office'',
     ps_local_date = 0, ps_timezone = ''UTC'', ps_rooms = [], ps_agents = [], ps_leaderboard_local_date = 0,
     ps_leaderboard_status = Provisional, ps_leaderboard_as_of = r, ps_leaderboard_entries = [],
     ps_daily_award = None, ps_demo_data = False\<rparr>"

definition sample_log_db :: db where
  "sample_log_db =
     (let input = (\<lambda>k. \<lparr>ri_officeId = ''f'', ri_eventType = Projection_ticked, ri_sourceKind = Projection_tick,
            ri_sourceKey = js k, ri_sourceReceiptId = None, ri_at = 0\<rparr>);
          event = (\<lambda>r. published_event (input ''k'') r r (sample_public_snapshot r)) in
      empty_db\<lparr>db_offices := [\<lparr>of_id = ''f'', of_owner_account_id = ''a'', of_name = js ''Office'', of_timezone = ''UTC'',
          of_demo_data = False, of_revision = 3, of_minimum_replay_revision = 0, of_created_at = 0,
          of_deletion_requested_at = None\<rparr>],
        db_revision_events := [event 1, event 2, event 3],
        db_projections := [published_projection (input ''k'') 3 3 (sample_public_snapshot 3)]\<rparr>)"

lemma sample_log_logs_ok: "logs_ok sample_log_db"
proof -
  have up: "[1..3] = [1, 2, 3 :: int]" by (simp add: upto.simps)
  show ?thesis
    by (simp add: logs_ok_def outbox_ok_def log_ok_def sample_log_db_def log_floor_def log_head_def office_rows_def
        office_events_def projection_rows_def published_event_def published_projection_def event_sound_def projects_def
        sample_public_snapshot_def empty_db_def MAX_SAFE_INTEGER_def Let_def up)
qed

lemma retention_bounds_logs_witness:
  "\<exists>n e. retain_office_revisions 2 10 sample_log_db = (Inr n, e) \<and> log_floor e ''f'' = 1
     \<and> map re_revision (office_events e ''f'') = [2, 3]"
proof -
  have "int (length (filter (\<lambda>x. 2 < of_revision x - of_minimum_replay_revision x) (db_offices sample_log_db))) \<le> 10"
    "''f'' \<in> set (map of_id (db_offices sample_log_db))"
    "log_floor sample_log_db ''f'' = 0" "log_head sample_log_db ''f'' = 3"
    by (simp_all add: sample_log_db_def log_floor_def log_head_def office_rows_def Let_def)
  moreover have "[2..3] = [2, 3 :: int]" by (simp add: upto.simps)
  ultimately show ?thesis
    using retention_bounds_logs [OF sample_log_logs_ok, of 2 10] by auto
qed

end
