(* ===== verification/Consent.thy ===== *)
theory Consent
  imports Log_Evolution
begin

text \<open>
  Changing the consent of a mount (public-office/application/change-mount-consent.ts). Turning
  statistics on or off opens or closes a qualification interval; the office records the change,
  and when anything was withdrawn the replay history that still shows it is discarded.
\<close>

section \<open>Qualification intervals\<close>

text \<open>The constraints of the table mount_stats_eligibility_intervals.\<close>

definition qualification_check :: "qualification_row \<Rightarrow> bool" where
  "qualification_check q \<longleftrightarrow> (case ql_ended_at q of None \<Rightarrow> ql_close_reason q = None
     | Some e \<Rightarrow> ql_started_at q \<le> e \<and> ql_close_reason q \<noteq> None)"

definition qualification_overlap :: "qualification_row \<Rightarrow> qualification_row \<Rightarrow> bool" where
  "qualification_overlap a b \<longleftrightarrow> ql_mount_id a = ql_mount_id b
     \<and> (case ql_ended_at a of None \<Rightarrow> True | Some e \<Rightarrow> ql_started_at a < e)
     \<and> (case ql_ended_at b of None \<Rightarrow> True | Some e \<Rightarrow> ql_started_at b < e)
     \<and> (case ql_ended_at b of None \<Rightarrow> True | Some e \<Rightarrow> ql_started_at a < e)
     \<and> (case ql_ended_at a of None \<Rightarrow> True | Some e \<Rightarrow> ql_started_at b < e)"

definition qualification_table_ok :: "qualification_row list \<Rightarrow> bool" where
  "qualification_table_ok t \<longleftrightarrow> list_all qualification_check t
     \<and> sorted_wrt (\<lambda>a b. \<not> qualification_overlap a b
          \<and> \<not> (ql_mount_id a = ql_mount_id b \<and> ql_ended_at a = None \<and> ql_ended_at b = None)) t"

definition store_qualifications :: "qualification_row list \<Rightarrow> db \<Rightarrow> db tx" where
  "store_qualifications t d = (if qualification_table_ok t then Inr (d\<lparr>db_qualifications := t\<rparr>)
     else Inl (Failure ''constraint_violation''))"

section \<open>The change\<close>

text \<open>A Date that is not valid is \<open>None\<close>.\<close>

record consent_input =
  ci_mountId :: uuid
  ci_presenceVisible :: "bool option"
  ci_statsOptIn :: "bool option"
  ci_posterOptIn :: "bool option"
  ci_changedAt :: "date_ms option"

record consent_result =
  cg_changed :: bool
  cg_officeId :: "uuid option"
  cg_revision :: "int option"

definition given :: "bool option \<Rightarrow> bool \<Rightarrow> bool" where
  "given v current = (case v of None \<Rightarrow> current | Some b \<Rightarrow> b)"

definition update_qualification :: "mount_row \<Rightarrow> bool \<Rightarrow> date_ms \<Rightarrow> db \<Rightarrow> db tx" where
  "update_qualification mount statsOptIn changedAt d =
     (if mt_stats_opt_in mount \<and> \<not> statsOptIn then
        store_qualifications (update_where (\<lambda>q. ql_mount_id q = mt_id mount \<and> ql_ended_at q = None)
          (\<lambda>q. q\<lparr>ql_ended_at := Some changedAt, ql_close_reason := Some Stats_opt_out\<rparr>) (db_qualifications d)) d
      else if \<not> mt_stats_opt_in mount \<and> statsOptIn then
        store_qualifications (db_qualifications d @ [\<lparr>ql_office_id = mt_office_id mount, ql_mount_id = mt_id mount,
          ql_started_at = changedAt, ql_ended_at = None, ql_close_reason = None\<rparr>]) d
      else Inr d)"

definition set_mount_consent :: "uuid \<Rightarrow> bool \<Rightarrow> bool \<Rightarrow> bool \<Rightarrow> date_ms \<Rightarrow> db \<Rightarrow> db" where
  "set_mount_consent mountId presenceVisible statsOptIn posterOptIn changedAt d = d\<lparr>db_mounts :=
     update_where (\<lambda>m. mt_id m = mountId)
       (\<lambda>m. m\<lparr>mt_presence_visible := presenceVisible, mt_stats_opt_in := statsOptIn,
              mt_poster_opt_in := posterOptIn, mt_updated_at := changedAt\<rparr>) (db_mounts d)\<rparr>"

definition consent_source_key :: "uuid \<Rightarrow> uuid \<Rightarrow> js_string" where
  "consent_source_key mountId nonce = js (''consent:'' @ mountId @ '':'' @ nonce)"

definition privacy_lowering :: "mount_row \<Rightarrow> bool \<Rightarrow> bool \<Rightarrow> bool \<Rightarrow> bool" where
  "privacy_lowering mount presenceVisible statsOptIn posterOptIn \<longleftrightarrow>
     (mt_presence_visible mount \<and> \<not> presenceVisible) \<or> (mt_stats_opt_in mount \<and> \<not> statsOptIn)
     \<or> (mt_poster_opt_in mount \<and> \<not> posterOptIn)"

text \<open>The consent that results (\<open>next\<close>), as presence, statistics and poster.\<close>

definition next_consent :: "consent_input \<Rightarrow> mount_row \<Rightarrow> bool \<times> bool \<times> bool" where
  "next_consent input mount = (given (ci_presenceVisible input) (mt_presence_visible mount),
     given (ci_statsOptIn input) (mt_stats_opt_in mount), given (ci_posterOptIn input) (mt_poster_opt_in mount))"

definition consent_revision :: "mount_row \<Rightarrow> uuid \<Rightarrow> date_ms \<Rightarrow> revision_input" where
  "consent_revision mount nonce changedAt =
     \<lparr>ri_officeId = mt_office_id mount, ri_eventType = Consent_changed, ri_sourceKind = Consent_change,
      ri_sourceKey = consent_source_key (mt_id mount) nonce, ri_sourceReceiptId = None, ri_at = changedAt\<rparr>"

text \<open>Applying a changed consent; \<open>nonce\<close> is the random uuid of the source key.\<close>

definition apply_consent ::
  "projector_env \<Rightarrow> uuid \<Rightarrow> mount_row \<Rightarrow> bool \<times> bool \<times> bool \<Rightarrow> date_ms \<Rightarrow> db \<Rightarrow> (consent_result \<times> db) tx" where
  "apply_consent env nonce mount consent changedAt d =
     (let (presenceVisible, statsOptIn, posterOptIn) = consent in
      rbind (update_qualification mount statsOptIn changedAt d) (\<lambda>d1.
      let d2 = set_mount_consent (mt_id mount) presenceVisible statsOptIn posterOptIn changedAt d1 in
      rbind (if privacy_lowering mount presenceVisible statsOptIn posterOptIn
             then record_privacy_lowering_revision env (consent_revision mount nonce changedAt) d2
             else record_consent_expansion_revision env (consent_revision mount nonce changedAt) d2) (\<lambda>(snapshot, e).
        Inr (\<lparr>cg_changed = True, cg_officeId = Some (mt_office_id mount),
              cg_revision = Some (ps_office_revision snapshot)\<rparr>, e))))"

text \<open>The mount is joined with its office.\<close>

definition target_mount :: "consent_input \<Rightarrow> db \<Rightarrow> mount_row option" where
  "target_mount input d =
     select_one (\<lambda>m. mt_id m = ci_mountId input \<and> find_office d (mt_office_id m) \<noteq> None) (db_mounts d)"

definition change_mount_consent ::
  "projector_env \<Rightarrow> uuid \<Rightarrow> consent_input \<Rightarrow> db \<Rightarrow> (consent_result \<times> db) tx" where
  "change_mount_consent env nonce input d =
     (if ci_presenceVisible input = None \<and> ci_statsOptIn input = None \<and> ci_posterOptIn input = None
      then Inl (Failure ''At least one consent value must be supplied'')
      else case ci_changedAt input of None \<Rightarrow> Inl (Failure ''Consent change time is invalid'')
      | Some changedAt \<Rightarrow>
     (case target_mount input d of
        None \<Rightarrow> Inr (\<lparr>cg_changed = False, cg_officeId = None, cg_revision = None\<rparr>, d)
      | Some mount \<Rightarrow>
          if \<not> mt_active mount then Inr (\<lparr>cg_changed = False, cg_officeId = None, cg_revision = None\<rparr>, d)
          else if next_consent input mount = (mt_presence_visible mount, mt_stats_opt_in mount, mt_poster_opt_in mount)
          then Inr (\<lparr>cg_changed = False, cg_officeId = Some (mt_office_id mount), cg_revision = None\<rparr>, d)
          else apply_consent env nonce mount (next_consent input mount) changedAt d))"

section \<open>What a change does\<close>

lemma change_mount_consent_cases:
  assumes "change_mount_consent env nonce input d = Inr (res, e)"
  obtains "\<not> cg_changed res" "e = d"
  | mount at where "target_mount input d = Some mount" "mt_active mount" "ci_changedAt input = Some at"
    "apply_consent env nonce mount (next_consent input mount) at d = Inr (res, e)"
  using assms that by (auto simp: change_mount_consent_def split: if_splits option.splits)

lemma apply_consent_cases:
  assumes "apply_consent env nonce mount (pv, so, po) at d = Inr (res, e)"
  obtains d1 snap where "update_qualification mount so at d = Inr d1"
    "record_public_revision env (consent_revision mount nonce at) (privacy_lowering mount pv so po)
      (set_mount_consent (mt_id mount) pv so po at d1) = Inr (snap, e)"
    "res = \<lparr>cg_changed = True, cg_officeId = Some (mt_office_id mount), cg_revision = Some (ps_office_revision snap)\<rparr>"
proof -
  have rec: "(if privacy_lowering mount pv so po
             then record_privacy_lowering_revision env i x
             else record_consent_expansion_revision env i x)
      = record_public_revision env i (privacy_lowering mount pv so po) x" for i x
    by (simp add: record_privacy_lowering_revision_def record_consent_expansion_revision_def)
  from assms that show thesis
    unfolding apply_consent_def Let_def case_prod_conv rec by (auto simp: result_simps)
qed

lemma update_qualification_only:
  assumes "update_qualification mount so at d = Inr d1"
  shows "d1 = d\<lparr>db_qualifications := db_qualifications d1\<rparr>"
  using assms by (auto simp: update_qualification_def store_qualifications_def split: if_splits)

text \<open>The part of the database before the revision is recorded.\<close>

lemma consent_written:
  fixes pv po :: bool
  assumes "update_qualification mount so at d = Inr d1"
  defines "d2 \<equiv> set_mount_consent (mt_id mount) pv so po at d1"
  shows "db_evolves d d2" "log_ok d2 oid = log_ok d oid" "log_head d2 oid = log_head d oid"
    "log_floor d2 oid = log_floor d oid"
    "db_mounts d2 = update_where (\<lambda>m. mt_id m = mt_id mount) (\<lambda>m. m\<lparr>mt_presence_visible := pv,
       mt_stats_opt_in := so, mt_poster_opt_in := po, mt_updated_at := at\<rparr>) (db_mounts d)"
    "db_edge d2 = db_edge d"
proof -
  note d1 = update_qualification_only [OF assms(1)]
  have rows: "same_log k d d2" for k
    unfolding d2_def by (subst d1) (simp add: same_log_def set_mount_consent_def office_rows_def
        office_events_def projection_rows_def)
  show "db_evolves d d2"
    by (rule same_logs_evolve [OF rows]) (unfold d2_def, subst d1, simp add: set_mount_consent_def,
      subst d1, simp add: set_mount_consent_def outbox_ok_def)
  show "log_ok d2 oid = log_ok d oid" "log_head d2 oid = log_head d oid" "log_floor d2 oid = log_floor d oid"
    by (rule same_log_ok [OF rows])+
  show "db_mounts d2 = update_where (\<lambda>m. mt_id m = mt_id mount) (\<lambda>m. m\<lparr>mt_presence_visible := pv,
       mt_stats_opt_in := so, mt_poster_opt_in := po, mt_updated_at := at\<rparr>) (db_mounts d)"
    "db_edge d2 = db_edge d"
    unfolding d2_def by (subst d1, simp add: set_mount_consent_def)+
qed

section \<open>Withdrawal\<close>

lemma record_reveals:
  assumes "record_public_revision env input lowering d = Inr (snap, e)"
  shows "reveals_only_consented d (ri_officeId input) snap"
proof -
  from assms obtain r d1 d2 d3 where adv: "advance_revision (ri_officeId input) d = Inr (r, d1)"
    and ens: "ensure_schedule_occurrences_around (px_zones env) (px_occurrence_id env) (ri_officeId input)
      (projection_clock env input d) d1 = Inr d2"
    and bld: "build_public_office_snapshot (px_zones env) d2 (ri_officeId input) r (projection_clock env input d) = Inr snap"
    by (rule record_public_revision_cases)
  have "db_mounts d1 = db_mounts d"
    using adv by (auto simp: advance_revision_def result_simps split: option.splits)
  moreover have "db_mounts d2 = db_mounts d1" using ens by (auto dest!: ensure_occurrences_only)
  ultimately show ?thesis
    using build_reveals_only_consented [OF bld] by (simp add: reveals_only_consented_def)
qed

text \<open>What a snapshot shows of a mount.\<close>

definition shows_mount :: "uuid \<Rightarrow> public_office_snapshot \<Rightarrow> bool" where
  "shows_mount mid s \<longleftrightarrow> mid \<in> set (map pa_mount_id (ps_agents s))"

definition scores_mount :: "uuid \<Rightarrow> public_office_snapshot \<Rightarrow> bool" where
  "scores_mount mid s \<longleftrightarrow> mid \<in> set (map le_mount_id (ps_leaderboard_entries s))
     \<or> (\<exists>w. ps_daily_award s = Some w \<and> aw_mount_id w = mid)
     \<or> (\<exists>a\<in>set (ps_agents s). pa_mount_id a = mid \<and> pa_idle_stage a \<noteq> Stage_none)"

lemma withdrawn_mount_hidden:
  assumes "reveals_only_consented d oid s"
    and "\<forall>m\<in>set (db_mounts d). mt_id m = mid \<longrightarrow> \<not> mt_presence_visible m"
  shows "\<not> shows_mount mid s"
  using assms by (auto simp: reveals_only_consented_def shows_mount_def)

lemma withdrawn_mount_unscored:
  assumes "reveals_only_consented d oid s" "\<forall>m\<in>set (db_mounts d). mt_id m = mid \<longrightarrow> \<not> mt_stats_opt_in m"
  shows "\<not> scores_mount mid s"
  using assms unfolding reveals_only_consented_def scores_mount_def by fastforce

lemma lowering_discards:
  assumes app: "apply_consent env nonce mount (pv, so, po) at d = Inr (res, e)"
    and low: "privacy_lowering mount pv so po" and ok: "log_ok d (mt_office_id mount)"
  shows "\<exists>ev. office_events e (mt_office_id mount) = [ev] \<and> log_ok e (mt_office_id mount)
    \<and> log_floor e (mt_office_id mount) = log_head d (mt_office_id mount)
    \<and> (\<not> pv \<longrightarrow> \<not> shows_mount (mt_id mount) (re_public_payload ev))
    \<and> (\<not> so \<longrightarrow> \<not> scores_mount (mt_id mount) (re_public_payload ev))"
proof -
  let ?oid = "mt_office_id mount"
  from app obtain d1 snap where upd: "update_qualification mount so at d = Inr d1"
    and rec: "record_public_revision env (consent_revision mount nonce at) True
      (set_mount_consent (mt_id mount) pv so po at d1) = Inr (snap, e)"
    using low by (elim apply_consent_cases) auto
  note wr = consent_written [OF upd, of pv po]
  have oid: "ri_officeId (consent_revision mount nonce at) = ?oid" by (simp add: consent_revision_def)
  from record_log_step [OF rec] wr(2) [of ?oid] ok obtain ev where
    ev: "office_events e ?oid = [ev]" "re_public_payload ev = snap" "log_ok e ?oid"
      "log_floor e ?oid = log_head (set_mount_consent (mt_id mount) pv so po at d1) ?oid"
    by (auto simp: oid)
  have rev: "reveals_only_consented (set_mount_consent (mt_id mount) pv so po at d1) ?oid snap"
    using record_reveals [OF rec] by (simp add: oid)
  have row: "\<forall>m\<in>set (db_mounts (set_mount_consent (mt_id mount) pv so po at d1)). mt_id m = mt_id mount \<longrightarrow>
      mt_presence_visible m = pv \<and> mt_stats_opt_in m = so"
    by (auto simp: wr(5) set_update_where)
  have "\<not> shows_mount (mt_id mount) snap" if "\<not> pv"
    by (rule withdrawn_mount_hidden [OF rev]) (use that row in auto)
  moreover have "\<not> scores_mount (mt_id mount) snap" if "\<not> so"
    by (rule withdrawn_mount_unscored [OF rev]) (use that row in auto)
  ultimately show ?thesis using ev wr(3) by auto
qed

lemma change_effect:
  assumes "change_mount_consent env nonce input d = Inr (res, e)"
  shows "db_evolves d e" "db_edge e = db_edge d"
proof -
  have "db_evolves d e \<and> db_edge e = db_edge d"
    using assms
  proof (cases rule: change_mount_consent_cases)
    case (2 mount at)
    obtain pv so po where n: "next_consent input mount = (pv, so, po)" by (cases "next_consent input mount") auto
    from 2(4) [unfolded n] obtain d1 snap where upd: "update_qualification mount so at d = Inr d1"
      and rec: "record_public_revision env (consent_revision mount nonce at) (privacy_lowering mount pv so po)
      (set_mount_consent (mt_id mount) pv so po at d1) = Inr (snap, e)"
      by (rule apply_consent_cases)
    note wr = consent_written [OF upd, of pv po]
    from db_evolves_trans [OF wr(1) record_db_evolves [OF rec]] record_same_outside [OF rec] wr(6)
    show ?thesis by (simp add: same_outside_def)
  qed simp
  then show "db_evolves d e" "db_edge e = db_edge d" by simp_all
qed

section \<open>Statistics consent and qualification\<close>

text \<open>An active mount takes part in the statistics exactly while a qualification interval is open.\<close>

definition open_qualification :: "db \<Rightarrow> uuid \<Rightarrow> bool" where
  "open_qualification d mid \<longleftrightarrow> (\<exists>q\<in>set (db_qualifications d). ql_mount_id q = mid \<and> ql_ended_at q = None)"

definition consent_ok :: "db \<Rightarrow> bool" where
  "consent_ok d \<longleftrightarrow> distinct (map mt_id (db_mounts d)) \<and> qualification_table_ok (db_qualifications d)
     \<and> (\<forall>m\<in>set (db_mounts d). mt_active m \<longrightarrow> (mt_stats_opt_in m \<longleftrightarrow> open_qualification d (mt_id m)))"

lemma update_qualification_opens:
  assumes "update_qualification mount so at d = Inr d1" "qualification_table_ok (db_qualifications d)"
    "mt_stats_opt_in mount \<longleftrightarrow> open_qualification d (mt_id mount)"
  shows "qualification_table_ok (db_qualifications d1)" "open_qualification d1 (mt_id mount) \<longleftrightarrow> so"
    "mid \<noteq> mt_id mount \<Longrightarrow> open_qualification d1 mid = open_qualification d mid"
proof -
  consider "mt_stats_opt_in mount" "\<not> so" | "\<not> mt_stats_opt_in mount" so | "so = mt_stats_opt_in mount" by blast
  then have "qualification_table_ok (db_qualifications d1) \<and> (open_qualification d1 (mt_id mount) \<longleftrightarrow> so)
    \<and> (mid \<noteq> mt_id mount \<longrightarrow> open_qualification d1 mid = open_qualification d mid)"
  proof cases
    case 1
    with assms(1) have "qualification_table_ok (db_qualifications d1)" "db_qualifications d1 = update_where
        (\<lambda>q. ql_mount_id q = mt_id mount \<and> ql_ended_at q = None)
        (\<lambda>q. q\<lparr>ql_ended_at := Some at, ql_close_reason := Some Stats_opt_out\<rparr>) (db_qualifications d)"
      by (auto simp: update_qualification_def store_qualifications_def split: if_splits)
    with 1 show ?thesis by (force simp: open_qualification_def set_update_where split: if_splits)
  next
    case 2
    with assms(1) have "qualification_table_ok (db_qualifications d1)" "db_qualifications d1 = db_qualifications d
        @ [\<lparr>ql_office_id = mt_office_id mount, ql_mount_id = mt_id mount, ql_started_at = at, ql_ended_at = None,
            ql_close_reason = None\<rparr>]"
      by (auto simp: update_qualification_def store_qualifications_def split: if_splits)
    with 2 show ?thesis by (auto simp: open_qualification_def)
  next
    case 3
    with assms have "d1 = d" by (auto simp: update_qualification_def split: if_splits)
    with 3 assms show ?thesis by simp
  qed
  then show "qualification_table_ok (db_qualifications d1)" "open_qualification d1 (mt_id mount) \<longleftrightarrow> so"
    "mid \<noteq> mt_id mount \<Longrightarrow> open_qualification d1 mid = open_qualification d mid" by simp_all
qed

lemma change_keeps_consent_ok:
  assumes chg: "change_mount_consent env nonce input d = Inr (res, e)" and ok: "consent_ok d"
  shows "consent_ok e"
  using chg
proof (cases rule: change_mount_consent_cases)
  case 1
  with ok show ?thesis by simp
next
  case (2 mount at)
  obtain pv so po where n: "next_consent input mount = (pv, so, po)" by (cases "next_consent input mount") auto
  from 2(4) [unfolded n] obtain d1 snap where upd: "update_qualification mount so at d = Inr d1"
    and rec: "record_public_revision env (consent_revision mount nonce at) (privacy_lowering mount pv so po)
    (set_mount_consent (mt_id mount) pv so po at d1) = Inr (snap, e)"
    by (rule apply_consent_cases)
  have mem: "mount \<in> set (db_mounts d)" using 2(1) by (auto simp: target_mount_def dest: select_one_SomeD)
  with ok 2(2) have "mt_stats_opt_in mount \<longleftrightarrow> open_qualification d (mt_id mount)"
    "qualification_table_ok (db_qualifications d)" by (auto simp: consent_ok_def)
  note q = update_qualification_opens [OF upd this(2,1)]
  have eq: "db_qualifications e = db_qualifications d1"
    using record_same_outside [OF rec] by (simp add: same_outside_def set_mount_consent_def)
  then have oq: "open_qualification e mid = open_qualification d1 mid" for mid by (simp add: open_qualification_def)
  have mounts: "db_mounts e = update_where (\<lambda>m. mt_id m = mt_id mount) (\<lambda>m. m\<lparr>mt_presence_visible := pv,
      mt_stats_opt_in := so, mt_poster_opt_in := po, mt_updated_at := at\<rparr>) (db_mounts d)"
    using record_same_outside [OF rec] consent_written(5) [OF upd, of pv po] by (simp add: same_outside_def)
  have "map mt_id (db_mounts e) = map mt_id (db_mounts d)" unfolding mounts by (rule map_update_where) simp
  moreover have "mt_active m \<longrightarrow> (mt_stats_opt_in m \<longleftrightarrow> open_qualification e (mt_id m))" if "m \<in> set (db_mounts e)" for m
  proof -
    from that mounts obtain m' where m': "m' \<in> set (db_mounts d)" "mt_id m = mt_id m'" "mt_active m = mt_active m'"
      "mt_stats_opt_in m = (if mt_id m' = mt_id mount then so else mt_stats_opt_in m')"
      by (auto simp: set_update_where)
    with ok q(2) q(3) [of "mt_id m'"] show ?thesis by (auto simp: oq consent_ok_def)
  qed
  ultimately show ?thesis using ok q(1) eq by (simp add: consent_ok_def)
qed

section \<open>Properties\<close>

text \<open>
  C13: Withdrawing consent erases the history that shows it. When a change that lowers privacy
  (presence, statistics or poster was on and is turned off) is applied to an active mount, the
  log of its office retains a single event, the new one, and its replay floor is the revision
  before it; if presence is off the event does not list the mount, and if statistics are off
  neither its leaderboard, its award nor an idle stage mentions it.
\<close>

theorem consent_withdrawal_erases_history:
  assumes "change_mount_consent env nonce input d = Inr (res, e)" and "cg_changed res"
    and "target_mount input d = Some mount" and "log_ok d (mt_office_id mount)"
    and "next_consent input mount = (pv, so, po)" and "privacy_lowering mount pv so po"
  shows "\<exists>ev. office_events e (mt_office_id mount) = [ev]
    \<and> log_ok e (mt_office_id mount) \<and> log_floor e (mt_office_id mount) = log_head d (mt_office_id mount)
    \<and> (\<not> pv \<longrightarrow> \<not> shows_mount (mt_id mount) (re_public_payload ev))
    \<and> (\<not> so \<longrightarrow> \<not> scores_mount (mt_id mount) (re_public_payload ev))"
  using assms(1)
proof (cases rule: change_mount_consent_cases)
  case 1
  with assms(2) show ?thesis by simp
next
  case (2 mount' at)
  then have "apply_consent env nonce mount (pv, so, po) at d = Inr (res, e)" using assms(3,5) by simp
  from lowering_discards [OF this assms(6,4)] show ?thesis by blast
qed

text \<open>
  C14: A mount takes part in the statistics exactly while a qualification interval of it is open.
  If this holds of every active mount and the intervals satisfy their table's constraints, both
  still hold after any change of consent.
\<close>

theorem consent_change_keeps_qualification:
  assumes "change_mount_consent env nonce input d = Inr (res, e)" and "consent_ok d"
  shows "consent_ok e"
  using assms by (rule change_keeps_consent_ok)

definition sample_withdrawal :: consent_input where
  "sample_withdrawal = \<lparr>ci_mountId = ''m'', ci_presenceVisible = Some False, ci_statsOptIn = Some False,
     ci_posterOptIn = None, ci_changedAt = Some 2999000\<rparr>"

definition sample_mount :: mount_row where
  "sample_mount = hd (db_mounts (sample_office_db 1))"

lemma sample_target:
  "target_mount sample_withdrawal (sample_office_db 1) = Some sample_mount"
  "next_consent sample_withdrawal sample_mount = (False, False, True)" "mt_active sample_mount"
  "privacy_lowering sample_mount False False True" "mt_office_id sample_mount = ''f''" "mt_id sample_mount = ''m''"
  by (simp_all add: target_mount_def sample_withdrawal_def sample_office_db_def sample_db_def empty_db_def find_office_def
      next_consent_def given_def sample_mount_def privacy_lowering_def)

lemma sample_input_fields:
  "ci_changedAt sample_withdrawal = Some 2999000" "ci_presenceVisible sample_withdrawal = Some False"
  by (simp_all add: sample_withdrawal_def)

lemma sample_mount_consent:
  "mt_presence_visible sample_mount" "mt_stats_opt_in sample_mount" "mt_poster_opt_in sample_mount"
  by (simp_all add: sample_mount_def sample_office_db_def sample_db_def)

lemma sample_consent_ok: "consent_ok (sample_office_db 1)"
  by (simp add: consent_ok_def sample_office_db_def sample_db_def empty_db_def qualification_table_ok_def
      qualification_check_def open_qualification_def)

lemma sample_withdrawn:
  "\<exists>res e. change_mount_consent sample_projector_env ''n'' sample_withdrawal (sample_office_db 1) = Inr (res, e)
     \<and> cg_changed res"
proof -
  let ?d1 = "(sample_office_db 1)\<lparr>db_qualifications := [\<lparr>ql_office_id = ''f'', ql_mount_id = ''m'', ql_started_at = 0,
       ql_ended_at = Some 2999000, ql_close_reason = Some Stats_opt_out\<rparr>]\<rparr>"
  let ?d2 = "set_mount_consent ''m'' False False True 2999000 ?d1"
  let ?in = "consent_revision sample_mount ''n'' 2999000"
  have upd: "update_qualification sample_mount False 2999000 (sample_office_db 1) = Inr ?d1"
    by (simp add: update_qualification_def sample_mount_def sample_office_db_def sample_db_def empty_db_def
        store_qualifications_def qualification_table_ok_def qualification_check_def update_where_def)
  have oid: "ri_officeId ?in = ''f''" by (simp add: consent_revision_def sample_target)
  have zones: "px_zones sample_projector_env = fold_zone" by (simp add: sample_projector_env_def)
  have at: "projection_clock sample_projector_env ?in ?d2 = 3000000"
    by (simp add: projection_clock_def sample_projector_env_def consent_revision_def find_projection_def
        set_mount_consent_def sample_office_db_def sample_db_def empty_db_def to_timestamp_def to_date_def)
  have ens: "ensure_schedule_occurrences_around (px_zones sample_projector_env)
      (px_occurrence_id sample_projector_env) ''f'' 3000000 ?d2 = Inr ?d2"
    by (simp add: ensure_schedule_occurrences_around_def sample_office_db_def sample_db_def empty_db_def
        set_mount_consent_def find_office_def fold_zone_def day_ns_def hour_ns_def materialize_date_def
        version_for_date_def Let_def sample_projector_env_def)
  have day: "find_office ?d2 ''f'' = Some (hd (db_offices (sample_office_db 1)))"
      "office_day_at fold_zone ?d2 (hd (db_offices (sample_office_db 1))) 3000000 = Inr 0"
    by (simp_all add: sample_office_db_def sample_db_def empty_db_def find_office_def office_day_at_def
        set_mount_consent_def sort_by_def)
  have wf: "office_wf ?d2 ''f'' 3000000"
    using sample_office_wf [of 1]
    by (simp add: office_wf_def leaderboard_wf_def sample_office_db_def sample_db_def empty_db_def
        set_mount_consent_def update_where_def)
  have ok: "log_ok ?d2 ''f''"
    using consent_written(2) [OF upd, of False True "''f''"] sample_log_ok by (simp add: sample_target)
  have "\<exists>snap e. record_public_revision sample_projector_env ?in True ?d2 = Inr (snap, e)"
    by (rule recording_total [OF _ _ _ ens [folded at oid] _ _ _ _ _, unfolded oid at zones, OF ok _ day wf])
      (simp_all add: log_head_def office_rows_def sample_office_db_def MAX_SAFE_INTEGER_def set_mount_consent_def
        sample_projector_env_def consent_revision_def consent_source_key_def js_def sample_db_def empty_db_def
        sample_mount_def)
  then show ?thesis
    using upd sample_target
    by (auto simp: change_mount_consent_def apply_consent_def record_privacy_lowering_revision_def sample_input_fields
        sample_mount_consent)
qed

lemma consent_withdrawal_erases_history_witness:
  "\<exists>res e ev. change_mount_consent sample_projector_env ''n'' sample_withdrawal (sample_office_db 1) = Inr (res, e)
     \<and> office_events e ''f'' = [ev] \<and> \<not> shows_mount ''m'' (re_public_payload ev)"
proof -
  from sample_withdrawn obtain res e where
    run: "change_mount_consent sample_projector_env ''n'' sample_withdrawal (sample_office_db 1) = Inr (res, e)"
      "cg_changed res" by blast
  from consent_withdrawal_erases_history [OF run sample_target(1) _ sample_target(2,4)] sample_log_ok run(1)
  show ?thesis by (auto simp: sample_target)
qed

lemma consent_change_keeps_qualification_witness:
  "\<exists>res e. change_mount_consent sample_projector_env ''n'' sample_withdrawal (sample_office_db 1) = Inr (res, e)
     \<and> consent_ok e"
  using sample_withdrawn consent_change_keeps_qualification [OF _ sample_consent_ok] by blast

end
