(* ===== verification/Settle.thy ===== *)
theory Settle
  imports Log_Evolution
begin

text \<open>
  Settling the finished days of an office (public-office/application/settle-office-days.ts):
  each day whose last occurrence has ended gets one immutable result, the leader of its
  leaderboard at closing time or no award. The alias and pet of a winner come from the agent's
  row, whose column constraints are those of the result, so only the constraints on the score
  are checked here.
\<close>

section \<open>The days that are due\<close>

record due_office_day =
  dd_office_local_date :: local_date
  dd_schedule_version_id :: uuid
  dd_closes_at :: date_ms

definition min_text :: "uuid list \<Rightarrow> uuid" where
  "min_text ids = fold min (tl ids) (hd ids)"

definition day_occurrences :: "db \<Rightarrow> uuid \<Rightarrow> local_date \<Rightarrow> occurrence_row list" where
  "day_occurrences d officeId day =
     filter (\<lambda>occ. oc_office_id occ = officeId \<and> oc_office_local_date occ = day) (db_occurrences d)"

definition has_result :: "db \<Rightarrow> uuid \<Rightarrow> local_date \<Rightarrow> bool" where
  "has_result d officeId day \<longleftrightarrow>
     list_ex (\<lambda>r. dr_office_id r = officeId \<and> dr_office_local_date r = day) (db_day_results d)"

definition due_day :: "db \<Rightarrow> uuid \<Rightarrow> local_date \<Rightarrow> due_office_day" where
  "due_day d officeId day =
     (let occs = day_occurrences d officeId day in
      \<lparr>dd_office_local_date = day, dd_schedule_version_id = min_text (map oc_schedule_version_id occs),
       dd_closes_at = Max (set (map oc_ends_at occs))\<rparr>)"

definition due_office_days :: "db \<Rightarrow> uuid \<Rightarrow> date_ms \<Rightarrow> int \<Rightarrow> due_office_day list" where
  "due_office_days d officeId asOf limit =
     take (nat limit)
       (filter (\<lambda>day. dd_closes_at day \<le> asOf
           \<and> length (remdups (map oc_schedule_version_id (day_occurrences d officeId (dd_office_local_date day)))) = 1)
         (map (due_day d officeId)
           (sort (remdups (map oc_office_local_date
             (filter (\<lambda>occ. oc_office_id occ = officeId \<and> \<not> has_result d officeId (oc_office_local_date occ))
               (db_occurrences d)))))))"

section \<open>Settling\<close>

datatype day_outcome = Winner | No_award

record settled_office_day =
  sd_officeLocalDate :: local_date
  sd_outcome :: day_outcome

definition winner_of :: "office_leaderboard_score \<Rightarrow> day_winner tx" where
  "winner_of s =
     (case ls_scoreReachedAt s of
        None \<Rightarrow> Inl (Failure ''check_violation'')
      | Some t \<Rightarrow>
          if 1 \<le> ls_slackingSeconds s \<and> ls_slackingSeconds s \<le> MAX_SAFE_INTEGER
          then Inr \<lparr>wn_mount_id = ls_mountId s, wn_logical_agent_id = ls_logicalAgentId s, wn_alias = ls_alias s,
                 wn_pet_id = ls_petId s, wn_slacking_seconds = ls_slackingSeconds s, wn_score_reached_at = t\<rparr>
          else Inl (Failure ''check_violation''))"

text \<open>\<open>INSERT ... ON CONFLICT (office_id, office_local_date) DO NOTHING\<close> and its row count.\<close>

definition insert_day_result :: "day_result_row \<Rightarrow> db \<Rightarrow> bool \<times> db" where
  "insert_day_result r d =
     (if has_result d (dr_office_id r) (dr_office_local_date r) then (False, d)
      else (True, d\<lparr>db_day_results := db_day_results d @ [r]\<rparr>))"

definition day_winner_row :: "office_leaderboard_score list \<Rightarrow> day_winner option tx" where
  "day_winner_row scores = (case first_row scores of None \<Rightarrow> Inr None
     | Some s \<Rightarrow> rbind (winner_of s) (\<lambda>w. Inr (Some w)))"

definition day_result :: "uuid \<Rightarrow> date_ms \<Rightarrow> due_office_day \<Rightarrow> day_winner option \<Rightarrow> day_result_row" where
  "day_result officeId asOf day winner =
     \<lparr>dr_office_id = officeId, dr_office_local_date = dd_office_local_date day,
      dr_schedule_version_id = dd_schedule_version_id day, dr_winner = winner, dr_settled_at = asOf\<rparr>"

definition settled_entry :: "due_office_day \<Rightarrow> day_winner option \<Rightarrow> settled_office_day" where
  "settled_entry day winner =
     \<lparr>sd_officeLocalDate = dd_office_local_date day, sd_outcome = (if winner = None then No_award else Winner)\<rparr>"

definition settle_day ::
  "uuid \<Rightarrow> date_ms \<Rightarrow> due_office_day \<Rightarrow> settled_office_day list \<times> db \<Rightarrow> (settled_office_day list \<times> db) tx" where
  "settle_day officeId asOf day = (\<lambda>(settled, d).
     rbind (query_office_leaderboard d officeId (dd_office_local_date day) (dd_closes_at day) 1) (\<lambda>scores.
     rbind (day_winner_row scores) (\<lambda>winner.
       case insert_day_result (day_result officeId asOf day winner) d of
         (inserted, d') \<Rightarrow> Inr (if inserted then settled @ [settled_entry day winner] else settled, d'))))"

definition settle_due_office_days ::
  "uuid \<Rightarrow> date_ms \<Rightarrow> int \<Rightarrow> db \<Rightarrow> (settled_office_day list \<times> db) tx" where
  "settle_due_office_days officeId asOf limit d =
     rbind (guard_r (1 \<le> limit \<and> limit \<le> 366) (Failure ''Settlement limit must be between 1 and 366'')) (\<lambda>_.
       foldM_r (settle_day officeId asOf) (due_office_days d officeId asOf limit) ([], d))"

section \<open>Results are final\<close>

lemma settle_day_cases:
  assumes "settle_day officeId asOf day (settled, d) = Inr (settled', e)"
  obtains winner scores where
    "query_office_leaderboard d officeId (dd_office_local_date day) (dd_closes_at day) 1 = Inr scores"
    "day_winner_row scores = Inr winner"
    "has_result d officeId (dd_office_local_date day)" "settled' = settled" "e = d"
  | winner scores where
    "query_office_leaderboard d officeId (dd_office_local_date day) (dd_closes_at day) 1 = Inr scores"
    "day_winner_row scores = Inr winner" "\<not> has_result d officeId (dd_office_local_date day)"
    "settled' = settled @ [settled_entry day winner]"
    "e = d\<lparr>db_day_results := db_day_results d @ [day_result officeId asOf day winner]\<rparr>"
proof -
  from assms obtain scores winner where q:
    "query_office_leaderboard d officeId (dd_office_local_date day) (dd_closes_at day) 1 = Inr scores"
    "day_winner_row scores = Inr winner"
    and ins: "(case insert_day_result (day_result officeId asOf day winner) d of
         (inserted, d') \<Rightarrow> Inr (if inserted then settled @ [settled_entry day winner] else settled, d'))
       = (Inr (settled', e) :: (settled_office_day list \<times> db) tx)"
    by (auto simp: settle_day_def result_simps simp del: if_split split del: if_split)
  have key: "dr_office_id (day_result officeId asOf day winner) = officeId"
    "dr_office_local_date (day_result officeId asOf day winner) = dd_office_local_date day"
    by (simp_all add: day_result_def)
  show thesis
  proof (cases "has_result d officeId (dd_office_local_date day)")
    case True
    then have "settled' = settled" "e = d" using ins by (simp_all add: insert_day_result_def key)
    with q True show thesis by (rule that(1))
  next
    case False
    then have "settled' = settled @ [settled_entry day winner]"
      "e = d\<lparr>db_day_results := db_day_results d @ [day_result officeId asOf day winner]\<rparr>"
      using ins by (simp_all add: insert_day_result_def key)
    with q False show thesis by (rule that(2))
  qed
qed

text \<open>What settling leaves alone: everything but the results, and the results there were.\<close>

definition results_extended :: "db \<Rightarrow> db \<Rightarrow> bool" where
  "results_extended d e \<longleftrightarrow> (\<exists>rs. e = d\<lparr>db_day_results := db_day_results d @ rs\<rparr>)"

lemma results_extended_refl [simp]: "results_extended d d"
  unfolding results_extended_def by (rule exI [of _ "[]"]) simp

lemma results_extended_trans: "results_extended d e \<Longrightarrow> results_extended e f \<Longrightarrow> results_extended d f"
  unfolding results_extended_def by auto

lemma settle_day_extends: "settle_day officeId asOf day (settled, d) = Inr (settled', e) \<Longrightarrow> results_extended d e"
  by (erule settle_day_cases) (auto simp: results_extended_def)

lemma settle_loop_extends:
  "foldM_r (settle_day officeId asOf) days (settled, d) = Inr (settled', e) \<Longrightarrow> results_extended d e"
proof (induction days arbitrary: settled d)
  case (Cons day days)
  then obtain s1 d1 where "settle_day officeId asOf day (settled, d) = Inr (s1, d1)"
    "foldM_r (settle_day officeId asOf) days (s1, d1) = Inr (settled', e)" by (auto simp: result_simps)
  with Cons.IH settle_day_extends show ?case by (blast intro: results_extended_trans)
qed simp

lemma settle_extends: "settle_due_office_days officeId asOf limit d = Inr (settled, e) \<Longrightarrow> results_extended d e"
  by (auto simp: settle_due_office_days_def result_simps intro: settle_loop_extends)

lemma results_extended_evolves: "results_extended d e \<Longrightarrow> db_evolves d e"
  by (auto simp: results_extended_def same_log_def office_rows_def office_events_def projection_rows_def outbox_ok_def
      intro!: same_logs_evolve)

section \<open>Settling again\<close>

text \<open>The days that are due, without the limit.\<close>

definition all_due_days :: "db \<Rightarrow> uuid \<Rightarrow> date_ms \<Rightarrow> due_office_day list" where
  "all_due_days d officeId asOf =
     filter (\<lambda>day. dd_closes_at day \<le> asOf
         \<and> length (remdups (map oc_schedule_version_id (day_occurrences d officeId (dd_office_local_date day)))) = 1)
       (map (due_day d officeId)
         (sort (remdups (map oc_office_local_date
           (filter (\<lambda>occ. oc_office_id occ = officeId \<and> \<not> has_result d officeId (oc_office_local_date occ))
             (db_occurrences d))))))"

lemma due_is_all: "due_office_days d officeId asOf limit = take (nat limit) (all_due_days d officeId asOf)"
  by (simp add: due_office_days_def all_due_days_def)

lemma all_due_days_no_result:
  "day \<in> set (all_due_days d officeId asOf) \<Longrightarrow> \<not> has_result d officeId (dd_office_local_date day)"
  by (auto simp: all_due_days_def due_day_def Let_def)

lemma has_result_extended:
  "results_extended d e \<Longrightarrow> has_result d officeId day \<Longrightarrow> has_result e officeId day"
  by (auto simp: results_extended_def has_result_def)

lemma all_due_days_extended:
  assumes "results_extended d e" "day \<in> set (all_due_days e officeId asOf)"
  shows "day \<in> set (all_due_days d officeId asOf)"
proof -
  from assms(1) have occ: "db_occurrences e = db_occurrences d" by (auto simp: results_extended_def)
  then have "day_occurrences e = day_occurrences d" "due_day e = due_day d"
    by (simp_all add: fun_eq_iff day_occurrences_def due_day_def Let_def)
  with assms occ has_result_extended [OF assms(1)] show ?thesis by (fastforce simp: all_due_days_def)
qed

lemma settle_day_has_result:
  "settle_day officeId asOf day (settled, d) = Inr (settled', e) \<Longrightarrow> has_result e officeId (dd_office_local_date day)"
  by (erule settle_day_cases) (auto simp: has_result_def day_result_def)

lemma settle_loop_results:
  "foldM_r (settle_day officeId asOf) days (settled, d) = Inr (settled', e) \<Longrightarrow> day \<in> set days
   \<Longrightarrow> has_result e officeId (dd_office_local_date day)"
proof (induction days arbitrary: settled d)
  case (Cons x days)
  then obtain s1 d1 where s1: "settle_day officeId asOf x (settled, d) = Inr (s1, d1)"
    "foldM_r (settle_day officeId asOf) days (s1, d1) = Inr (settled', e)" by (auto simp: result_simps)
  show ?case
  proof (cases "day = x")
    case True
    with settle_day_has_result [OF s1(1)] settle_loop_extends [OF s1(2)] show ?thesis by (blast intro: has_result_extended)
  next
    case False
    with Cons s1 show ?thesis by auto
  qed
qed simp

lemma settled_nothing_due:
  assumes "settle_due_office_days officeId asOf limit d = Inr (settled, e)"
    and "int (length (all_due_days d officeId asOf)) \<le> limit"
  shows "all_due_days e officeId asOf = []"
proof (rule ccontr)
  assume "all_due_days e officeId asOf \<noteq> []"
  then obtain day where day: "day \<in> set (all_due_days e officeId asOf)" by (cases "all_due_days e officeId asOf") auto
  have "due_office_days d officeId asOf limit = all_due_days d officeId asOf"
    using assms(2) by (simp add: due_is_all)
  with assms(1) have loop: "foldM_r (settle_day officeId asOf) (all_due_days d officeId asOf) ([], d) = Inr (settled, e)"
    by (auto simp: settle_due_office_days_def result_simps)
  have "day \<in> set (all_due_days d officeId asOf)"
    using all_due_days_extended [OF settle_extends [OF assms(1)] day] .
  from settle_loop_results [OF loop this] all_due_days_no_result [OF day] show False by simp
qed

section \<open>The winner\<close>

lemma query_one:
  assumes "query_office_leaderboard d oid day t 1 = Inr scores"
  shows "first_row scores = None \<Longrightarrow> totals d oid day t = []"
    and "first_row scores = Some s \<Longrightarrow> \<exists>r\<in>set (totals d oid day t). s = score_row r 0
      \<and> (\<forall>r'\<in>set (totals d oid day t). compare_totals r r' \<le> 0)"
proof -
  let ?rows = "sort_by compare_totals (totals d oid day t)"
  have sorted: "sorted_wrt (\<lambda>a b. compare_totals a b \<le> 0) ?rows" by (rule totals_cmp.sorted_sort_by) simp
  from assms have m: "mapM_r (\<lambda>(row, index). leaderboard_score row index) (zip (take 1 ?rows) [0..<length (take 1 ?rows)]) = Inr scores"
    by (simp add: query_office_leaderboard_def result_simps Let_def)
  show "first_row scores = None \<Longrightarrow> totals d oid day t = []"
  proof -
    assume none: "first_row scores = None"
    show ?thesis
    proof (cases ?rows)
      case Nil
      then have "set ?rows = {}" by simp
      then show ?thesis by simp
    next
      case (Cons r rs)
      with m none show ?thesis by (auto simp: result_simps first_row_def)
    qed
  qed
  show "first_row scores = Some s \<Longrightarrow> \<exists>r\<in>set (totals d oid day t). s = score_row r 0
      \<and> (\<forall>r'\<in>set (totals d oid day t). compare_totals r r' \<le> 0)"
  proof -
    assume some: "first_row scores = Some s"
    obtain r rs where rows: "?rows = r # rs"
      using m some by (cases ?rows) (auto simp: first_row_def)
    with m some have "leaderboard_score r 0 = Inr s" by (auto simp: result_simps first_row_def)
    then have "s = score_row r 0"
      by (auto simp: leaderboard_score_def score_row_def result_simps parse_safe_positive_integer_def)
    moreover have "compare_totals r r \<le> 0" by (simp add: compare_totals_def)
    ultimately show ?thesis
      using sorted rows by (metis list.set_intros(1) set_ConsD set_sort_by sorted_wrt.simps(2))
  qed
qed

text \<open>The result that a day deserves: its leader at closing time, or none when nobody scored.\<close>

definition deserved :: "db \<Rightarrow> uuid \<Rightarrow> due_office_day \<Rightarrow> day_winner option \<Rightarrow> bool" where
  "deserved d officeId day winner \<longleftrightarrow>
     (let ts = totals d officeId (dd_office_local_date day) (dd_closes_at day) in
      case winner of None \<Rightarrow> ts = []
      | Some w \<Rightarrow> (\<exists>t\<in>set ts. wn_mount_id w = lt_mount_id t \<and> wn_logical_agent_id w = lt_logical_agent_id t
          \<and> wn_slacking_seconds w = lt_slacking_seconds t \<and> Some (wn_score_reached_at w) = lt_score_reached_at t
          \<and> (\<forall>t'\<in>set ts. compare_totals t t' \<le> 0)))"

lemma day_winner_deserved:
  assumes "query_office_leaderboard d officeId (dd_office_local_date day) (dd_closes_at day) 1 = Inr scores"
    "day_winner_row scores = Inr winner"
  shows "deserved d officeId day winner"
proof (cases "first_row scores")
  case None
  with assms(2) query_one(1) [OF assms(1)] show ?thesis by (simp add: day_winner_row_def deserved_def Let_def)
next
  case (Some s)
  from query_one(2) [OF assms(1) Some] obtain t where t:
    "t \<in> set (totals d officeId (dd_office_local_date day) (dd_closes_at day))" "s = score_row t 0"
    "\<forall>t'\<in>set (totals d officeId (dd_office_local_date day) (dd_closes_at day)). compare_totals t t' \<le> 0" by blast
  from assms(2) Some obtain w where w: "winner = Some w" "winner_of s = Inr w"
    by (auto simp: day_winner_row_def result_simps)
  from w(2) t(2) have "wn_mount_id w = lt_mount_id t \<and> wn_logical_agent_id w = lt_logical_agent_id t
      \<and> wn_slacking_seconds w = lt_slacking_seconds t \<and> Some (wn_score_reached_at w) = lt_score_reached_at t"
    by (auto simp: winner_of_def score_row_def split: option.splits if_splits)
  with t w(1) show ?thesis by (auto simp: deserved_def Let_def)
qed

lemma deserved_results [simp]: "deserved (d\<lparr>db_day_results := rs\<rparr>) = deserved d"
proof -
  have seg: "segment_of (d\<lparr>db_day_results := rs\<rparr>) = segment_of d"
    by (simp add: fun_eq_iff segment_of_def live_presence_def)
  have "raw_intersections (d\<lparr>db_day_results := rs\<rparr>) oid day t = raw_intersections d oid day t" for oid day t
    unfolding raw_intersections_def seg by (simp cong: if_cong)
  then show ?thesis by (simp add: fun_eq_iff deserved_def totals_def valid_intersections_def)
qed

lemma settle_loop_rows:
  "foldM_r (settle_day officeId asOf) days (settled, d) = Inr (settled', e) \<Longrightarrow>
   \<exists>rs. e = d\<lparr>db_day_results := db_day_results d @ rs\<rparr>
     \<and> (\<forall>r\<in>set rs. \<exists>day\<in>set days. r = day_result officeId asOf day (dr_winner r)
          \<and> deserved d officeId day (dr_winner r))"
proof (induction days arbitrary: settled d)
  case Nil
  then show ?case by (intro exI [of _ "[]"]) simp
next
  case (Cons x days)
  then obtain s1 d1 where s1: "settle_day officeId asOf x (settled, d) = Inr (s1, d1)"
    "foldM_r (settle_day officeId asOf) days (s1, d1) = Inr (settled', e)" by (auto simp: result_simps)
  from Cons.IH [OF s1(2)] obtain rs where rs: "e = d1\<lparr>db_day_results := db_day_results d1 @ rs\<rparr>"
    "\<forall>r\<in>set rs. \<exists>day\<in>set days. r = day_result officeId asOf day (dr_winner r) \<and> deserved d1 officeId day (dr_winner r)"
    by blast
  from s1(1) show ?case
  proof (cases rule: settle_day_cases)
    case (1 winner scores)
    with rs show ?thesis by (intro exI [of _ rs]) auto
  next
    case (2 winner scores)
    have "dr_winner (day_result officeId asOf x winner) = winner" by (simp add: day_result_def)
    with 2 rs day_winner_deserved [OF 2(1,2)] show ?thesis
      by (intro exI [of _ "day_result officeId asOf x winner # rs"]) auto
  qed
qed

section \<open>Properties\<close>

text \<open>
  C16: Settlement is final and complete. It only appends results of the office, each for a day
  that had none and whose last occurrence had ended; the results there were and everything else
  in the database are kept as they were; and once no due day exceeds the limit, settling again
  as of the same instant settles nothing and changes nothing.
\<close>

theorem settlement_is_final:
  assumes "settle_due_office_days officeId asOf limit d = Inr (settled, e)"
  shows "\<exists>rs. e = d\<lparr>db_day_results := db_day_results d @ rs\<rparr>
    \<and> (\<forall>r\<in>set rs. dr_office_id r = officeId \<and> dr_settled_at r = asOf
        \<and> \<not> has_result d officeId (dr_office_local_date r)
        \<and> (\<forall>occ\<in>set (day_occurrences d officeId (dr_office_local_date r)). oc_ends_at occ \<le> asOf))
    \<and> (int (length (all_due_days d officeId asOf)) \<le> limit \<longrightarrow>
        (\<forall>l. 1 \<le> l \<and> l \<le> 366 \<longrightarrow> settle_due_office_days officeId asOf l e = Inr ([], e)))"
proof -
  from assms have "foldM_r (settle_day officeId asOf) (due_office_days d officeId asOf limit) ([], d) = Inr (settled, e)"
    by (auto simp: settle_due_office_days_def result_simps)
  from settle_loop_rows [OF this] obtain rs where rs: "e = d\<lparr>db_day_results := db_day_results d @ rs\<rparr>"
    "\<forall>r\<in>set rs. \<exists>day\<in>set (due_office_days d officeId asOf limit). r = day_result officeId asOf day (dr_winner r)"
    by blast
  have "dr_office_id r = officeId \<and> dr_settled_at r = asOf \<and> \<not> has_result d officeId (dr_office_local_date r)
      \<and> (\<forall>occ\<in>set (day_occurrences d officeId (dr_office_local_date r)). oc_ends_at occ \<le> asOf)" if "r \<in> set rs" for r
  proof -
    from rs(2) that obtain day where day: "day \<in> set (all_due_days d officeId asOf)"
      and r: "r = day_result officeId asOf day (dr_winner r)"
      by (auto simp: due_is_all dest: in_set_takeD)
    have "dr_office_id r = officeId \<and> dr_settled_at r = asOf \<and> dr_office_local_date r = dd_office_local_date day"
      by (subst (1 2 3) r) (simp add: day_result_def)
    moreover have "dd_closes_at day \<le> asOf" "day = due_day d officeId (dd_office_local_date day)"
      using day by (auto simp: all_due_days_def due_day_def Let_def)
    then have "oc_ends_at occ \<le> asOf" if "occ \<in> set (day_occurrences d officeId (dd_office_local_date day))" for occ
    proof -
      have "oc_ends_at occ \<le> Max (set (map oc_ends_at (day_occurrences d officeId (dd_office_local_date day))))"
        using that by (intro Max_ge) auto
      also have "\<dots> = dd_closes_at day"
        by (subst \<open>day = _\<close>) (simp add: due_day_def Let_def)
      finally show ?thesis using \<open>dd_closes_at day \<le> asOf\<close> by simp
    qed
    ultimately show ?thesis using all_due_days_no_result [OF day] by simp
  qed
  moreover have "settle_due_office_days officeId asOf l e = Inr ([], e)"
    if "int (length (all_due_days d officeId asOf)) \<le> limit" "1 \<le> l" "l \<le> 366" for l
    using settled_nothing_due [OF assms that(1)] that(2,3)
    by (simp add: settle_due_office_days_def due_is_all)
  ultimately show ?thesis using rs(1) by (intro exI [of _ rs]) auto
qed

text \<open>
  C17: The award goes to whom it is due. Every result that settling writes names the leader of
  the day's leaderboard at the end of its last occurrence, first by seconds, then by the earlier
  score time, then by agent; a day without a score gets no award.
\<close>

theorem settled_winner_leads:
  assumes "settle_due_office_days officeId asOf limit d = Inr (settled, e)" and "r \<in> set (db_day_results e)"
    and "\<not> has_result d officeId (dr_office_local_date r)" and "dr_office_id r = officeId"
  shows "\<exists>closing. closing = Max (set (map oc_ends_at (day_occurrences d officeId (dr_office_local_date r))))
    \<and> (case dr_winner r of
        None \<Rightarrow> totals d officeId (dr_office_local_date r) closing = []
      | Some w \<Rightarrow> \<exists>t\<in>set (totals d officeId (dr_office_local_date r) closing).
          wn_mount_id w = lt_mount_id t \<and> wn_slacking_seconds w = lt_slacking_seconds t
          \<and> Some (wn_score_reached_at w) = lt_score_reached_at t
          \<and> (\<forall>t'\<in>set (totals d officeId (dr_office_local_date r) closing). compare_totals t t' \<le> 0))"
proof -
  from assms(1) have "foldM_r (settle_day officeId asOf) (due_office_days d officeId asOf limit) ([], d) = Inr (settled, e)"
    by (auto simp: settle_due_office_days_def result_simps)
  from settle_loop_rows [OF this] obtain rs where rs: "e = d\<lparr>db_day_results := db_day_results d @ rs\<rparr>"
    "\<forall>r\<in>set rs. \<exists>day\<in>set (due_office_days d officeId asOf limit). r = day_result officeId asOf day (dr_winner r)
       \<and> deserved d officeId day (dr_winner r)"
    by blast
  have "r \<notin> set (db_day_results d)" using assms(3,4) by (auto simp: has_result_def list_ex_iff)
  with assms(2) rs(1) have "r \<in> set rs" by simp
  with rs(2) obtain day where day: "day \<in> set (all_due_days d officeId asOf)"
    and r: "r = day_result officeId asOf day (dr_winner r)" "deserved d officeId day (dr_winner r)"
    by (auto simp: due_is_all dest: in_set_takeD)
  have date: "dr_office_local_date r = dd_office_local_date day" by (subst r(1)) (simp add: day_result_def)
  have close: "dd_closes_at day = Max (set (map oc_ends_at (day_occurrences d officeId (dd_office_local_date day))))"
    using day by (auto simp: all_due_days_def due_day_def Let_def)
  from r(2) show ?thesis
    unfolding deserved_def Let_def date close by (auto split: option.splits)
qed

definition sample_settlement :: "(settled_office_day list \<times> db) tx" where
  "sample_settlement = settle_due_office_days ''f'' 90000000 31 (sample_office_db 1)"

lemma sample_settled:
  "\<exists>settled e r. sample_settlement = Inr (settled, e) \<and> db_day_results e = [r]
     \<and> dr_office_id r = ''f'' \<and> dr_office_local_date r = 0 \<and> map_option wn_slacking_seconds (dr_winner r) = Some 1100"
proof -
  have run: "\<not> isl sample_settlement \<and> map (\<lambda>r. (dr_office_id r, dr_office_local_date r,
      map_option wn_slacking_seconds (dr_winner r))) (db_day_results (snd (projr sample_settlement))) = [(''f'', 0, Some 1100)]"
    by code_simp
  then have "sample_settlement = Inr (fst (projr sample_settlement), snd (projr sample_settlement))" by simp
  with run show ?thesis by (blast dest: map_eq_Cons_D)
qed

lemma settlement_is_final_witness:
  "\<exists>settled e. sample_settlement = Inr (settled, e)
     \<and> settle_due_office_days ''f'' 90000000 31 e = Inr ([], e)"
proof -
  have "length (all_due_days (sample_office_db 1) ''f'' 90000000) = 1" by code_simp
  with sample_settled show ?thesis
    using settlement_is_final [of "''f''" 90000000 31 "sample_office_db 1"] by (fastforce simp: sample_settlement_def)
qed

lemma settled_winner_leads_witness:
  "\<exists>settled e r w. sample_settlement = Inr (settled, e) \<and> r \<in> set (db_day_results e) \<and> dr_winner r = Some w
     \<and> wn_slacking_seconds w = 1100
     \<and> (\<exists>t\<in>set (totals (sample_office_db 1) ''f'' 0 86400000). wn_mount_id w = lt_mount_id t)"
proof -
  from sample_settled obtain settled e r w where s: "sample_settlement = Inr (settled, e)" "db_day_results e = [r]"
    "dr_office_id r = ''f''" "dr_office_local_date r = 0" "dr_winner r = Some w" "wn_slacking_seconds w = 1100" by auto
  have "\<not> has_result (sample_office_db 1) ''f'' 0"
    by (simp add: has_result_def sample_office_db_def sample_db_def empty_db_def)
  moreover have "Max (set (map oc_ends_at (day_occurrences (sample_office_db 1) ''f'' 0))) = 86400000"
    by (simp add: day_occurrences_def sample_office_db_def sample_db_def empty_db_def)
  ultimately have "\<exists>t\<in>set (totals (sample_office_db 1) ''f'' 0 86400000). wn_mount_id w = lt_mount_id t"
    using settled_winner_leads [OF s(1) [unfolded sample_settlement_def], of r] s(2-) by auto
  then show ?thesis using s by (intro exI [of _ settled] exI [of _ e] exI [of _ r] exI [of _ w]) auto
qed

end
