(* ===== verification/View_Token.thy ===== *)
theory View_Token
  imports Log_Evolution
begin

text \<open>
  The public view tokens of an office (public-office/application/manage-public-view-token.ts):
  the capability with which anyone may read the office. Only the SHA-256 digest of a token is
  stored; the digest and the random token and row id are parameters. An office has at most one
  token that is not revoked, which a partial unique index enforces.
\<close>

section \<open>Rotation and revocation\<close>

record token_env =
  tk_raw_token :: js_string
  tk_sha256 :: "byte_string \<Rightarrow> byte_string"
  tk_id :: uuid

record rotated_public_view_token =
  rv_rawToken :: js_string
  rv_expiresAt :: "date_ms option"

text \<open>A time is \<open>None\<close> when the Date is invalid.\<close>

definition assert_token_dates :: "date_ms option \<Rightarrow> date_ms option option \<Rightarrow> unit tx" where
  "assert_token_dates changedAt expiresAt =
     (case changedAt of
        None \<Rightarrow> Inl (Failure ''Token change time is invalid'')
      | Some changed \<Rightarrow>
          (case expiresAt of
             None \<Rightarrow> Inr ()
           | Some time \<Rightarrow> guard_r (case time of None \<Rightarrow> False | Some expires \<Rightarrow> changed < expires)
               (Failure ''Token expiration must be after creation'')))"

definition lock_office :: "uuid \<Rightarrow> db \<Rightarrow> office_row option" where
  "lock_office officeId d =
     select_one (\<lambda>x. of_id x = officeId \<and> of_deletion_requested_at x = None) (db_offices d)"

definition unrevoked :: "uuid \<Rightarrow> view_token_row \<Rightarrow> bool" where
  "unrevoked officeId t \<longleftrightarrow> vt_office_id t = officeId \<and> vt_revoked_at t = None"

definition revoke_tokens :: "uuid \<Rightarrow> date_ms \<Rightarrow> db \<Rightarrow> db" where
  "revoke_tokens officeId changedAt d = d\<lparr>db_view_tokens :=
     update_where (unrevoked officeId) (\<lambda>t. t\<lparr>vt_revoked_at := Some (max (vt_created_at t) changedAt)\<rparr>)
       (db_view_tokens d)\<rparr>"

definition token_constraints :: "view_token_row \<Rightarrow> bool" where
  "token_constraints t \<longleftrightarrow> length (vt_token_hash t) = 32
     \<and> (case vt_expires_at t of None \<Rightarrow> True | Some e \<Rightarrow> vt_created_at t < e)
     \<and> (case vt_revoked_at t of None \<Rightarrow> True | Some r \<Rightarrow> vt_created_at t \<le> r)"

definition insert_view_token :: "view_token_row \<Rightarrow> db \<Rightarrow> db tx" where
  "insert_view_token t d =
     (if \<not> token_constraints t then Inl (Failure ''check_violation'')
      else if list_ex (\<lambda>x. vt_id x = vt_id t \<or> vt_token_hash x = vt_token_hash t
                \<or> unrevoked (vt_office_id t) x \<and> vt_revoked_at t = None) (db_view_tokens d)
      then Inl (Failure ''unique_violation'')
      else Inr (d\<lparr>db_view_tokens := db_view_tokens d @ [t]\<rparr>))"

definition notify_token_change :: "uuid \<Rightarrow> int \<Rightarrow> db \<Rightarrow> db" where
  "notify_token_change officeId revision d = d\<lparr>db_notifications := db_notifications d @ [(officeId, revision)]\<rparr>"

definition fresh_token :: "token_env \<Rightarrow> uuid \<Rightarrow> date_ms \<Rightarrow> date_ms option \<Rightarrow> view_token_row" where
  "fresh_token env officeId changedAt expiresAt =
     \<lparr>vt_id = tk_id env, vt_office_id = officeId, vt_token_hash = tk_sha256 env (utf8 (tk_raw_token env)),
      vt_created_at = changedAt, vt_expires_at = expiresAt, vt_revoked_at = None\<rparr>"

definition rotate_public_view_token ::
  "token_env \<Rightarrow> uuid \<Rightarrow> date_ms option \<Rightarrow> date_ms option option \<Rightarrow> db
   \<Rightarrow> (rotated_public_view_token option \<times> db) tx" where
  "rotate_public_view_token env officeId changedAt expiresAt d =
     rbind (assert_token_dates changedAt expiresAt) (\<lambda>_.
       case lock_office officeId d of
         None \<Rightarrow> Inr (None, d)
       | Some office \<Rightarrow>
           (let changed = the changedAt; expires = map_option the expiresAt in
            rbind (insert_view_token (fresh_token env officeId changed expires)
                     (revoke_tokens officeId changed d)) (\<lambda>d'.
              Inr (Some \<lparr>rv_rawToken = tk_raw_token env, rv_expiresAt = expires\<rparr>,
                   notify_token_change officeId (of_revision office) d'))))"

definition revoke_public_view_token :: "uuid \<Rightarrow> date_ms option \<Rightarrow> db \<Rightarrow> (bool \<times> db) tx" where
  "revoke_public_view_token officeId changedAt d =
     rbind (assert_token_dates changedAt None) (\<lambda>_.
       case lock_office officeId d of
         None \<Rightarrow> Inr (False, d)
       | Some office \<Rightarrow>
           (let revoked = row_count (unrevoked officeId) (db_view_tokens d);
                d' = revoke_tokens officeId (the changedAt) d in
            Inr (revoked \<noteq> 0, if revoked \<noteq> 0 then notify_token_change officeId (of_revision office) d' else d')))"

section \<open>The token table\<close>

text \<open>A token opens its office while it is neither revoked nor expired.\<close>

definition token_live :: "timestamp_us \<Rightarrow> view_token_row \<Rightarrow> bool" where
  "token_live clock t \<longleftrightarrow> vt_revoked_at t = None
     \<and> (case vt_expires_at t of None \<Rightarrow> True | Some e \<Rightarrow> clock < to_timestamp e)"

definition live_tokens :: "timestamp_us \<Rightarrow> uuid \<Rightarrow> db \<Rightarrow> view_token_row list" where
  "live_tokens clock officeId d = filter (\<lambda>t. vt_office_id t = officeId \<and> token_live clock t) (db_view_tokens d)"

definition tokens_ok :: "db \<Rightarrow> bool" where
  "tokens_ok d \<longleftrightarrow> list_all token_constraints (db_view_tokens d)
     \<and> distinct (map vt_id (db_view_tokens d)) \<and> distinct (map vt_token_hash (db_view_tokens d))
     \<and> (\<forall>oid. row_count (unrevoked oid) (db_view_tokens d) \<le> 1)"

lemma revoke_tokens_none: "row_count (unrevoked officeId) (db_view_tokens (revoke_tokens officeId t d)) = 0"
  by (auto simp: revoke_tokens_def row_count_def update_where_def unrevoked_def filter_empty_conv)

lemma revoke_tokens_other:
  "oid \<noteq> officeId \<Longrightarrow> filter (unrevoked oid) (db_view_tokens (revoke_tokens officeId t d))
    = filter (unrevoked oid) (db_view_tokens d)"
  unfolding revoke_tokens_def by (simp, rule filter_update_where_other) (auto simp: unrevoked_def)

lemma revoked_constraints:
  "token_constraints t \<Longrightarrow> token_constraints (t\<lparr>vt_revoked_at := Some (max (vt_created_at t) at)\<rparr>)"
  by (cases "vt_expires_at t") (simp_all add: token_constraints_def)

lemma revoke_tokens_ok: "tokens_ok d \<Longrightarrow> tokens_ok (revoke_tokens officeId t d)"
proof -
  assume ok: "tokens_ok d"
  have "list_all token_constraints (db_view_tokens (revoke_tokens officeId t d))"
    using ok by (auto simp: tokens_ok_def list_all_iff revoke_tokens_def set_update_where revoked_constraints)
  moreover have "map vt_id (db_view_tokens (revoke_tokens officeId t d)) = map vt_id (db_view_tokens d)"
    "map vt_token_hash (db_view_tokens (revoke_tokens officeId t d)) = map vt_token_hash (db_view_tokens d)"
    by (auto simp: revoke_tokens_def intro!: map_update_where)
  moreover have "row_count (unrevoked oid) (db_view_tokens (revoke_tokens officeId t d)) \<le> 1" for oid
    using ok revoke_tokens_none [of officeId t d] revoke_tokens_other [of oid officeId t d]
    by (cases "oid = officeId") (simp_all add: tokens_ok_def row_count_def)
  ultimately show ?thesis using ok by (simp add: tokens_ok_def)
qed

lemma insert_view_token_ok:
  assumes "insert_view_token t d = Inr e" "tokens_ok d"
  shows "tokens_ok e"
proof -
  from assms(1) have e: "e = d\<lparr>db_view_tokens := db_view_tokens d @ [t]\<rparr>" "token_constraints t"
    and new: "\<forall>x\<in>set (db_view_tokens d). vt_id x \<noteq> vt_id t \<and> vt_token_hash x \<noteq> vt_token_hash t
      \<and> \<not> (unrevoked (vt_office_id t) x \<and> vt_revoked_at t = None)"
    by (auto simp: insert_view_token_def list_ex_iff split: if_splits)
  have "row_count (unrevoked oid) (db_view_tokens e) \<le> 1" for oid
  proof (cases "unrevoked oid t")
    case True
    with new have "filter (unrevoked oid) (db_view_tokens d) = []" by (auto simp: filter_empty_conv unrevoked_def)
    then show ?thesis by (simp add: e row_count_def)
  next
    case False
    with assms(2) show ?thesis by (simp add: e row_count_def tokens_ok_def)
  qed
  with e new assms(2) show ?thesis by (auto simp: tokens_ok_def)
qed

text \<open>Token operations leave the revision logs alone.\<close>

lemma tokens_same_log:
  assumes "d' = d\<lparr>db_view_tokens := ts, db_notifications := ns\<rparr>"
  shows "db_evolves d d'" "same_log oid d d'" "db_edge d' = db_edge d"
proof -
  have same: "same_log k d d'" for k
    by (simp add: assms same_log_def office_rows_def office_events_def projection_rows_def)
  show "db_evolves d d'" by (rule same_logs_evolve [OF same]) (simp_all add: assms outbox_ok_def)
  show "same_log oid d d'" by (rule same)
  show "db_edge d' = db_edge d" by (simp add: assms)
qed

lemma rotate_cases:
  assumes "rotate_public_view_token env officeId changedAt expiresAt d = Inr (res, e)"
  obtains "res = None" "e = d" "lock_office officeId d = None"
  | office changed d' where "lock_office officeId d = Some office" "changedAt = Some changed"
    "insert_view_token (fresh_token env officeId changed (map_option the expiresAt)) (revoke_tokens officeId changed d) = Inr d'"
    "res = Some \<lparr>rv_rawToken = tk_raw_token env, rv_expiresAt = map_option the expiresAt\<rparr>"
    "e = notify_token_change officeId (of_revision office) d'"
    "case expiresAt of None \<Rightarrow> True | Some x \<Rightarrow> (\<exists>t. x = Some t \<and> changed < t)"
proof -
  from assms have dates: "assert_token_dates changedAt expiresAt = Inr ()"
    by (auto simp: rotate_public_view_token_def result_simps)
  then obtain changed where changed: "changedAt = Some changed"
    "case expiresAt of None \<Rightarrow> True | Some x \<Rightarrow> (\<exists>t. x = Some t \<and> changed < t)"
    by (auto simp: assert_token_dates_def result_simps split: option.splits)
  from assms that changed show thesis
    by (auto simp: rotate_public_view_token_def dates Let_def result_simps split: option.splits)
qed

lemma rotate_shape:
  assumes "rotate_public_view_token env officeId changedAt expiresAt d = Inr (res, e)"
  shows "e = d\<lparr>db_view_tokens := db_view_tokens e, db_notifications := db_notifications e\<rparr>"
  using assms
proof (cases rule: rotate_cases)
  case (2 office changed d')
  then show ?thesis
    by (auto simp: insert_view_token_def revoke_tokens_def notify_token_change_def split: if_splits)
qed simp

lemma revoke_shape:
  assumes "revoke_public_view_token officeId changedAt d = Inr (res, e)"
  shows "e = d\<lparr>db_view_tokens := db_view_tokens e, db_notifications := db_notifications e\<rparr>"
  using assms by (auto simp: revoke_public_view_token_def result_simps revoke_tokens_def notify_token_change_def
      Let_def split: option.splits if_splits)

section \<open>Properties\<close>

lemma rotate_table:
  assumes rot: "rotate_public_view_token env officeId changedAt expiresAt d = Inr (Some r, e)" and ok: "tokens_ok d"
  shows "tokens_ok e"
    and "filter (unrevoked officeId) (db_view_tokens e) = [fresh_token env officeId (the changedAt) (rv_expiresAt r)]"
    and "oid \<noteq> officeId \<Longrightarrow> filter (unrevoked oid) (db_view_tokens e) = filter (unrevoked oid) (db_view_tokens d)"
    and "rv_rawToken r = tk_raw_token env"
proof -
  from rot obtain office changed d' where "lock_office officeId d = Some office" and r: "changedAt = Some changed"
    "insert_view_token (fresh_token env officeId changed (map_option the expiresAt)) (revoke_tokens officeId changed d) = Inr d'"
    "Some r = Some \<lparr>rv_rawToken = tk_raw_token env, rv_expiresAt = map_option the expiresAt\<rparr>"
    "e = notify_token_change officeId (of_revision office) d'"
    by (cases rule: rotate_cases) (simp, blast)
  from r(3) have r3: "r = \<lparr>rv_rawToken = tk_raw_token env, rv_expiresAt = map_option the expiresAt\<rparr>" by simp
  let ?t = "fresh_token env officeId changed (map_option the expiresAt)"
  have d': "db_view_tokens d' = db_view_tokens (revoke_tokens officeId changed d) @ [?t]"
    using r(2) by (auto simp: insert_view_token_def split: if_splits)
  have e: "db_view_tokens e = db_view_tokens d'" by (simp add: r(4) notify_token_change_def)
  have "tokens_ok d'" by (rule insert_view_token_ok [OF r(2) revoke_tokens_ok [OF ok]])
  then show "tokens_ok e" by (simp add: tokens_ok_def e)
  have "filter (unrevoked officeId) (db_view_tokens (revoke_tokens officeId changed d)) = []"
    using revoke_tokens_none [of officeId changed d] by (simp add: row_count_def)
  then show "filter (unrevoked officeId) (db_view_tokens e) = [fresh_token env officeId (the changedAt) (rv_expiresAt r)]"
    using r(1,3) by (simp add: e d' unrevoked_def fresh_token_def)
  show "oid \<noteq> officeId \<Longrightarrow> filter (unrevoked oid) (db_view_tokens e) = filter (unrevoked oid) (db_view_tokens d)"
    using revoke_tokens_other [of oid officeId changed d] by (simp add: e d' unrevoked_def fresh_token_def)
  show "rv_rawToken r = tk_raw_token env" by (simp add: r3)
qed

lemma revoke_table:
  assumes "revoke_public_view_token officeId changedAt d = Inr (b, e)" "lock_office officeId d \<noteq> None"
  shows "filter (unrevoked officeId) (db_view_tokens e) = []"
    and "b \<longleftrightarrow> filter (unrevoked officeId) (db_view_tokens d) \<noteq> []"
    and "oid \<noteq> officeId \<Longrightarrow> filter (unrevoked oid) (db_view_tokens e) = filter (unrevoked oid) (db_view_tokens d)"
    and "tokens_ok d \<Longrightarrow> tokens_ok e"
proof -
  from assms have b: "b \<longleftrightarrow> row_count (unrevoked officeId) (db_view_tokens d) \<noteq> 0"
    and e: "db_view_tokens e = db_view_tokens (revoke_tokens officeId (the changedAt) d)"
    by (auto simp: revoke_public_view_token_def result_simps notify_token_change_def Let_def split: if_splits)
  show "filter (unrevoked officeId) (db_view_tokens e) = []"
    using revoke_tokens_none [of officeId "the changedAt" d] by (simp add: row_count_def e)
  show "b \<longleftrightarrow> filter (unrevoked officeId) (db_view_tokens d) \<noteq> []" by (simp add: b row_count_def)
  show "oid \<noteq> officeId \<Longrightarrow> filter (unrevoked oid) (db_view_tokens e) = filter (unrevoked oid) (db_view_tokens d)"
    by (simp add: e revoke_tokens_other)
  show "tokens_ok d \<Longrightarrow> tokens_ok e" using revoke_tokens_ok [of d officeId "the changedAt"] by (simp add: tokens_ok_def e)
qed

lemma no_unrevoked_no_live:
  "filter (unrevoked oid) (db_view_tokens d) = ts \<Longrightarrow> live_tokens clock oid d = filter (token_live clock) ts"
  by (auto simp: live_tokens_def unrevoked_def token_live_def conj_commute intro: filter_cong)

end
