(* ===== verification/Tick.thy ===== *)
theory Tick
  imports Settle View_Token Retain
begin

text \<open>
  The periodic tick (public-office/application/tick-public-offices.ts): every office with a live
  public token whose projection is old enough settles its finished days and records a revision.
  Each office has a transaction of its own; when the caller supplies a failure handler, a failing
  office is reported to it and the others go on.
\<close>

section \<open>The tick\<close>

definition token_active :: "date_ms \<Rightarrow> uuid \<Rightarrow> db \<Rightarrow> bool" where
  "token_active asOf officeId d \<longleftrightarrow> list_ex (\<lambda>t. vt_office_id t = officeId \<and> vt_revoked_at t = None
     \<and> (case vt_expires_at t of None \<Rightarrow> True | Some e \<Rightarrow> asOf < e)) (db_view_tokens d)"

definition generated_at :: "uuid \<Rightarrow> db \<Rightarrow> date_ms option" where
  "generated_at officeId d = map_option pj_generated_at (find_projection d officeId)"

text \<open>
  The candidates. The statement joins offices with their tokens; an office has one row, since it
  has at most one token that is not revoked.
\<close>

definition tick_candidates :: "date_ms \<Rightarrow> int \<Rightarrow> int \<Rightarrow> db \<Rightarrow> uuid list" where
  "tick_candidates asOf minimumIntervalSeconds officeLimit d =
     take (nat officeLimit) (sort_by compare_uuids (concat (map (\<lambda>x.
       map (\<lambda>t. of_id x) (filter (\<lambda>t. vt_office_id t = of_id x \<and> vt_revoked_at t = None
           \<and> (case vt_expires_at t of None \<Rightarrow> True | Some e \<Rightarrow> asOf < e)) (db_view_tokens d)))
       (filter (\<lambda>x. of_deletion_requested_at x = None
           \<and> (case generated_at (of_id x) d of None \<Rightarrow> True
              | Some g \<Rightarrow> g \<le> asOf - minimumIntervalSeconds * 1000)) (db_offices d)))))"

definition tick_revision :: "uuid \<Rightarrow> date_ms \<Rightarrow> bool \<Rightarrow> revision_input" where
  "tick_revision officeId asOf settled =
     \<lparr>ri_officeId = officeId, ri_eventType = (if settled then Office_day_settled else Projection_ticked),
      ri_sourceKind = (if settled then Office_day_settlement else Projection_tick),
      ri_sourceKey = js (if settled then ''settlement:'' else ''tick:'') @ to_iso_string asOf,
      ri_sourceReceiptId = None, ri_at = asOf\<rparr>"

definition tick_one_office ::
  "(uuid \<Rightarrow> projector_env) \<Rightarrow> date_ms \<Rightarrow> int \<Rightarrow> uuid \<Rightarrow> db \<Rightarrow> (bool \<times> db) tx" where
  "tick_one_office envs asOf minimumIntervalSeconds officeId d =
     (if lock_office officeId d = None \<or> \<not> token_active asOf officeId d
         \<or> (case generated_at officeId d of None \<Rightarrow> False
            | Some g \<Rightarrow> asOf - minimumIntervalSeconds * 1000 < g)
      then Inr (False, d)
      else rbind (settle_due_office_days officeId asOf 31 d) (\<lambda>(settlements, d1).
           rbind (record_revision (envs officeId) (tick_revision officeId asOf (settlements \<noteq> [])) d1) (\<lambda>(_, d2).
             Inr (True, d2))))"

text \<open>
  The loop. \<open>reported\<close> collects what the handler is called with; without a handler the first
  failure ends the loop, with the transactions before it committed.
\<close>

fun tick_loop ::
  "(uuid \<Rightarrow> db \<Rightarrow> (bool \<times> db) tx) \<Rightarrow> bool \<Rightarrow> uuid list \<Rightarrow> int \<Rightarrow> (uuid \<times> tx_error) list \<Rightarrow> db
   \<Rightarrow> int tx \<times> (uuid \<times> tx_error) list \<times> db" where
  "tick_loop step handled [] advanced reported d = (Inr advanced, reported, d)"
| "tick_loop step handled (officeId # ids) advanced reported d =
     (case step officeId d of
        Inl error \<Rightarrow> if handled then tick_loop step handled ids advanced (reported @ [(officeId, error)]) d
                    else (Inl error, reported, d)
      | Inr (b, d') \<Rightarrow> tick_loop step handled ids (if b then advanced + 1 else advanced) reported d')"

definition tick_public_offices ::
  "(uuid \<Rightarrow> projector_env) \<Rightarrow> date_ms \<Rightarrow> int \<Rightarrow> int \<Rightarrow> bool \<Rightarrow> db \<Rightarrow> int tx \<times> (uuid \<times> tx_error) list \<times> db" where
  "tick_public_offices envs asOf minimumIntervalSeconds officeLimit handled d =
     (if \<not> (5 \<le> minimumIntervalSeconds \<and> minimumIntervalSeconds \<le> 300)
      then (Inl (Failure ''Projection tick interval must be between 5 and 300 seconds''), [], d)
      else if \<not> (1 \<le> officeLimit \<and> officeLimit \<le> 1000)
      then (Inl (Failure ''Office tick limit must be between 1 and 1000''), [], d)
      else tick_loop (tick_one_office envs asOf minimumIntervalSeconds) handled
             (tick_candidates asOf minimumIntervalSeconds officeLimit d) 0 [] d)"

section \<open>One office\<close>

definition tick_due :: "date_ms \<Rightarrow> int \<Rightarrow> uuid \<Rightarrow> db \<Rightarrow> bool" where
  "tick_due asOf seconds oid d \<longleftrightarrow> lock_office oid d \<noteq> None \<and> token_active asOf oid d
     \<and> (case generated_at oid d of None \<Rightarrow> True | Some g \<Rightarrow> g \<le> asOf - seconds * 1000)"

lemma tick_one_cases:
  assumes "tick_one_office envs asOf seconds oid d = Inr (b, e)"
  obtains "\<not> b" "e = d" "\<not> tick_due asOf seconds oid d"
  | settlements d1 snap where "b" "tick_due asOf seconds oid d"
    "settle_due_office_days oid asOf 31 d = Inr (settlements, d1)"
    "record_public_revision (envs oid) (tick_revision oid asOf (settlements \<noteq> [])) False d1 = Inr (snap, e)"
  using assms
  by (fastforce simp: tick_one_office_def tick_due_def result_simps dest: record_revision_Inr split: if_splits option.splits)

lemma settled_db:
  assumes "settle_due_office_days oid asOf l d = Inr (s, e)"
  shows "e = d\<lparr>db_day_results := db_day_results e\<rparr>"
  using settle_extends [OF assms] by (auto simp: results_extended_def)

lemma settle_same_log:
  assumes "settle_due_office_days oid asOf l d = Inr (s, e)"
  shows "same_log k d e"
  by (subst settled_db [OF assms])
    (simp add: same_log_def office_rows_def office_events_def projection_rows_def)

text \<open>A tick that advances an office appends one revision to its log and touches no other log.\<close>

lemma tick_one_effect:
  assumes tick: "tick_one_office envs asOf seconds oid d = Inr (b, e)"
  shows "db_evolves d e" "b \<longleftrightarrow> tick_due asOf seconds oid d" "\<not> b \<longrightarrow> e = d" "db_edge e = db_edge d"
    and "b \<and> log_ok d oid \<longrightarrow> log_ok e oid \<and> log_head e oid = log_head d oid + 1 \<and> log_floor e oid = log_floor d oid"
    and "k \<noteq> oid \<Longrightarrow> log_ok d oid \<Longrightarrow> log_ok e k = log_ok d k \<and> log_head e k = log_head d k"
proof -
  have "db_evolves d e \<and> (b \<longleftrightarrow> tick_due asOf seconds oid d) \<and> (\<not> b \<longrightarrow> e = d) \<and> db_edge e = db_edge d
    \<and> (b \<and> log_ok d oid \<longrightarrow> log_ok e oid \<and> log_head e oid = log_head d oid + 1 \<and> log_floor e oid = log_floor d oid)
    \<and> (k \<noteq> oid \<longrightarrow> log_ok d oid \<longrightarrow> log_ok e k = log_ok d k \<and> log_head e k = log_head d k)"
    using tick
  proof (cases rule: tick_one_cases)
    case 1
    then show ?thesis by simp
  next
    case (2 settlements d1 snap)
    have oid: "ri_officeId (tick_revision oid asOf (settlements \<noteq> [])) = oid" by (simp add: tick_revision_def)
    note same = same_log_ok [OF settle_same_log [OF 2(3)]]
    have "db_evolves d e"
      using results_extended_evolves [OF settle_extends [OF 2(3)]] record_db_evolves [OF 2(4)]
      by (rule db_evolves_trans)
    moreover have "db_edge e = db_edge d"
    proof -
      have "db_edge d1 = db_edge d" by (subst settled_db [OF 2(3)]) simp
      with record_same_outside [OF 2(4)] show ?thesis by (simp add: same_outside_def)
    qed
    moreover have "log_ok e oid \<and> log_head e oid = log_head d oid + 1 \<and> log_floor e oid = log_floor d oid
        \<and> (k \<noteq> oid \<longrightarrow> log_ok e k = log_ok d k \<and> log_head e k = log_head d k)" if "log_ok d oid"
      using record_log_step [OF 2(4)] that by (auto simp: oid same)
    ultimately show ?thesis using 2(1,2) by auto
  qed
  then show "db_evolves d e" "b \<longleftrightarrow> tick_due asOf seconds oid d" "\<not> b \<longrightarrow> e = d" "db_edge e = db_edge d"
    "b \<and> log_ok d oid \<longrightarrow> log_ok e oid \<and> log_head e oid = log_head d oid + 1 \<and> log_floor e oid = log_floor d oid"
    "k \<noteq> oid \<Longrightarrow> log_ok d oid \<Longrightarrow> log_ok e k = log_ok d k \<and> log_head e k = log_head d k" by blast+
qed

text \<open>An office that keeps its log, its tokens and its deletion mark is due as before.\<close>

lemma lock_office_rows: "lock_office oid d = select_one (\<lambda>x. of_deletion_requested_at x = None) (office_rows d oid)"
  by (simp add: lock_office_def select_one_def office_rows_def conj_commute)

lemma tick_due_cong:
  assumes "same_log oid d e" "db_view_tokens e = db_view_tokens d"
  shows "tick_due asOf seconds oid e = tick_due asOf seconds oid d"
  using assms by (simp add: tick_due_def lock_office_rows same_log_def token_active_def generated_at_def find_projection_rows)

lemma same_log_trans: "same_log oid d e \<Longrightarrow> same_log oid e f \<Longrightarrow> same_log oid d f"
  by (simp add: same_log_def)

lemma tick_one_others:
  assumes tick: "tick_one_office envs asOf seconds oid d = Inr (b, e)" and ok: "log_ok d oid"
  shows "k \<noteq> oid \<Longrightarrow> same_log k d e" and "db_view_tokens e = db_view_tokens d"
proof -
  have "(k \<noteq> oid \<longrightarrow> same_log k d e) \<and> db_view_tokens e = db_view_tokens d"
    using tick
  proof (cases rule: tick_one_cases)
    case 1
    then show ?thesis by (simp add: same_log_def)
  next
    case (2 settlements d1 snap)
    have oid: "ri_officeId (tick_revision oid asOf (settlements \<noteq> [])) = oid" by (simp add: tick_revision_def)
    have same: "same_log k d d1" for k by (rule settle_same_log [OF 2(3)])
    have "log_ok d1 oid" using same_log_ok [OF same] ok by simp
    then have rows: "k \<noteq> oid \<Longrightarrow> same_log k d1 e"
      using record_rows(4) [OF 2(4), unfolded oid] by (simp add: same_log_def)
    have "db_view_tokens d1 = db_view_tokens d" by (subst settled_db [OF 2(3)]) simp
    with record_same_outside [OF 2(4)] rows same show ?thesis
      by (auto simp: same_outside_def intro: same_log_trans)
  qed
  then show "k \<noteq> oid \<Longrightarrow> same_log k d e" "db_view_tokens e = db_view_tokens d" by blast+
qed

text \<open>What a handled tick has done to the offices of a list.\<close>

definition ticked :: "uuid list \<Rightarrow> (uuid \<times> tx_error) list \<Rightarrow> db \<Rightarrow> db \<Rightarrow> bool" where
  "ticked ids failed d e \<longleftrightarrow> set (map fst failed) \<subseteq> set ids \<and> distinct (map fst failed) \<and> db_evolves d e
     \<and> (\<forall>oid\<in>set ids - set (map fst failed). log_ok e oid \<and> log_head e oid = log_head d oid + 1)
     \<and> (\<forall>oid. oid \<notin> set ids \<or> oid \<in> set (map fst failed) \<longrightarrow> same_log oid d e)"

lemma tick_due_log: "tick_due asOf seconds oid d \<Longrightarrow> logs_ok d \<Longrightarrow> log_ok d oid"
  by (fastforce simp: tick_due_def lock_office_def logs_ok_def dest: select_one_SomeD)

lemma tick_loop_handled:
  assumes "\<forall>oid\<in>set ids. tick_due asOf seconds oid d" "distinct ids" "logs_ok d"
    and "tick_loop (tick_one_office envs asOf seconds) True ids n reported d = (r, reported', e)"
  shows "\<exists>failed. r = Inr (n + int (length ids) - int (length failed)) \<and> reported' = reported @ failed
    \<and> ticked ids failed d e"
  using assms
proof (induction ids arbitrary: n reported d)
  case Nil
  then show ?case by (auto simp: ticked_def same_log_def)
next
  case (Cons oid ids)
  have log: "log_ok d oid" using Cons.prems(1,3) by (auto intro: tick_due_log)
  show ?case
  proof (cases "tick_one_office envs asOf seconds oid d")
    case (Inl error)
    with Cons.prems(4) have "tick_loop (tick_one_office envs asOf seconds) True ids n (reported @ [(oid, error)]) d
      = (r, reported', e)" by simp
    from Cons.IH [OF _ _ Cons.prems(3) this] Cons.prems(1,2) obtain failed where
      f: "r = Inr (n + int (length ids) - int (length failed))" "reported' = (reported @ [(oid, error)]) @ failed"
        "ticked ids failed d e" by auto
    have "ticked (oid # ids) ((oid, error) # failed) d e"
      using f(3) Cons.prems(2) unfolding ticked_def by auto
    with f(1,2) show ?thesis by (intro exI [of _ "(oid, error) # failed"]) simp
  next
    case (Inr bd)
    then obtain b d1 where one: "tick_one_office envs asOf seconds oid d = Inr (b, d1)" by (cases bd) auto
    have b: b using tick_one_effect(2) [OF one] Cons.prems(1) by simp
    have head: "log_ok d1 oid \<and> log_head d1 oid = log_head d oid + 1" using tick_one_effect(5) [OF one] b log by simp
    have ev: "db_evolves d d1" by (rule tick_one_effect(1) [OF one])
    then have ok1: "logs_ok d1" using Cons.prems(3) by (simp add: db_evolves_def)
    have due1: "\<forall>k\<in>set ids. tick_due asOf seconds k d1"
    proof
      fix k assume "k \<in> set ids"
      with Cons.prems(1,2) have "k \<noteq> oid" "tick_due asOf seconds k d" by auto
      with tick_due_cong [OF tick_one_others(1) [OF one log] tick_one_others(2) [OF one log]]
      show "tick_due asOf seconds k d1" by simp
    qed
    from one b Cons.prems(4) have "tick_loop (tick_one_office envs asOf seconds) True ids (n + 1) reported d1
      = (r, reported', e)" by simp
    from Cons.IH [OF due1 _ ok1 this] Cons.prems(2) obtain failed where
      f: "r = Inr (n + 1 + int (length ids) - int (length failed))" "reported' = reported @ failed"
        "ticked ids failed d1 e" by auto
    have oidf: "oid \<notin> set ids" "oid \<notin> set (map fst failed)" using Cons.prems(2) f(3) by (auto simp: ticked_def)
    have "same_log oid d1 e" using f(3) oidf by (simp add: ticked_def)
    then have "log_ok e oid \<and> log_head e oid = log_head d oid + 1" using same_log_ok [of oid d1 e] head by simp
    moreover have "log_ok e k \<and> log_head e k = log_head d k + 1" if "k \<in> set ids - set (map fst failed)" for k
    proof -
      have "k \<noteq> oid" using that oidf(1) by auto
      then have "same_log k d d1" by (rule tick_one_others(1) [OF one log])
      moreover have "log_ok e k \<and> log_head e k = log_head d1 k + 1" using f(3) that by (simp add: ticked_def)
      ultimately show ?thesis using same_log_ok [of k d d1] by simp
    qed
    moreover have "same_log k d e" if "k \<notin> set (oid # ids) \<or> k \<in> set (map fst failed)" for k
    proof -
      have "k \<noteq> oid" using that oidf by auto
      then have "same_log k d d1" by (rule tick_one_others(1) [OF one log])
      moreover have "same_log k d1 e" using f(3) that by (auto simp: ticked_def)
      ultimately show ?thesis by (rule same_log_trans)
    qed
    moreover have "db_evolves d e" using ev f(3) by (auto simp: ticked_def intro: db_evolves_trans)
    ultimately have "ticked (oid # ids) failed d e" using f(3) unfolding ticked_def by auto
    with f(1,2) show ?thesis by (intro exI [of _ failed]) simp
  qed
qed

section \<open>The candidates\<close>

lemma distinct_map_short: "length xs \<le> 1 \<Longrightarrow> distinct (map f xs)"
  by (cases xs) auto

lemma tick_candidates_due:
  assumes "logs_ok d" "tokens_ok d"
  shows "distinct (tick_candidates asOf seconds l d)" "\<forall>oid\<in>set (tick_candidates asOf seconds l d). tick_due asOf seconds oid d"
proof -
  let ?T = "\<lambda>x t. vt_office_id t = of_id x \<and> vt_revoked_at t = None
           \<and> (case vt_expires_at t of None \<Rightarrow> True | Some e \<Rightarrow> asOf < e)"
  let ?offices = "filter (\<lambda>x. of_deletion_requested_at x = None
           \<and> (case generated_at (of_id x) d of None \<Rightarrow> True | Some g \<Rightarrow> g \<le> asOf - seconds * 1000)) (db_offices d)"
  let ?ids = "concat (map (\<lambda>x. map (\<lambda>t. of_id x) (filter (?T x) (db_view_tokens d))) ?offices)"
  have one: "length (filter (?T x) (db_view_tokens d)) \<le> 1" for x
  proof -
    have "filter (?T x) (db_view_tokens d) = filter (\<lambda>t. case vt_expires_at t of None \<Rightarrow> True | Some e \<Rightarrow> asOf < e)
        (filter (unrevoked (of_id x)) (db_view_tokens d))"
      by (auto simp: unrevoked_def intro: filter_cong)
    moreover have "length (filter (unrevoked (of_id x)) (db_view_tokens d)) \<le> 1"
      using assms(2) by (simp add: tokens_ok_def row_count_def)
    ultimately show ?thesis by (metis length_filter_le order_trans)
  qed
  have dist: "distinct (map of_id ?offices)" using logs_ok_distinct [OF assms(1)] by (simp add: distinct_map_filter)
  have gen: "distinct (concat (map (\<lambda>x. map (\<lambda>t. of_id x) (filter (?T x) (db_view_tokens d))) os))
      \<and> set (concat (map (\<lambda>x. map (\<lambda>t. of_id x) (filter (?T x) (db_view_tokens d))) os)) \<subseteq> of_id ` set os"
    if "distinct (map of_id os)" for os
    using that
  proof (induction os)
    case (Cons x os)
    have "distinct (map (\<lambda>t. of_id x) (filter (?T x) (db_view_tokens d)))" by (rule distinct_map_short [OF one])
    with Cons show ?case by auto
  qed simp
  have "distinct ?ids" using gen [OF dist] by (rule conjunct1)
  then show "distinct (tick_candidates asOf seconds l d)" by (simp add: tick_candidates_def)
  show "\<forall>oid\<in>set (tick_candidates asOf seconds l d). tick_due asOf seconds oid d"
  proof
    fix oid assume "oid \<in> set (tick_candidates asOf seconds l d)"
    then have "oid \<in> set (sort_by compare_uuids ?ids)" unfolding tick_candidates_def by (rule in_set_takeD)
    then have "oid \<in> set ?ids" by (simp only: set_sort_by)
    then obtain x t where x: "x \<in> set ?offices" "t \<in> set (db_view_tokens d)" "?T x t" "oid = of_id x" by auto
    then have "lock_office oid d \<noteq> None" by (auto simp: lock_office_def select_one_None_iff)
    moreover have "token_active asOf oid d" using x by (auto simp: token_active_def list_ex_iff)
    ultimately show "tick_due asOf seconds oid d" using x(1,4) by (simp add: tick_due_def)
  qed
qed

section \<open>Property\<close>

lemma tick_isolates:
  assumes "tick_public_offices envs asOf seconds l True d = (r, failed, e)"
    and "5 \<le> seconds" "seconds \<le> 300" "1 \<le> l" "l \<le> 1000" and "logs_ok d" "tokens_ok d"
  shows "r = Inr (int (length (tick_candidates asOf seconds l d)) - int (length failed))
    \<and> ticked (tick_candidates asOf seconds l d) failed d e"
proof -
  from assms(1-5) have "tick_loop (tick_one_office envs asOf seconds) True (tick_candidates asOf seconds l d) 0 [] d
      = (r, failed, e)" by (simp add: tick_public_offices_def)
  from tick_loop_handled [OF tick_candidates_due(2,1) [OF assms(6,7)] assms(6) this] show ?thesis by auto
qed

text \<open>
  C18: A failing office does not hold back the others. With a failure handler the tick of all
  offices always returns: each candidate has either been advanced by exactly one revision, its
  log sound, or it is one of the failures handed to the handler, each reported once, and its log
  is as it was; the count is the number of candidates advanced, and the logs of all other
  offices are untouched.
\<close>

theorem tick_isolates_failures:
  assumes "tick_public_offices envs asOf seconds l True d = (r, failed, e)"
    and "5 \<le> seconds" "seconds \<le> 300" "1 \<le> l" "l \<le> 1000" and "logs_ok d" "tokens_ok d"
  shows "r = Inr (int (length (tick_candidates asOf seconds l d)) - int (length failed))
    \<and> distinct (map fst failed) \<and> set (map fst failed) \<subseteq> set (tick_candidates asOf seconds l d)
    \<and> (\<forall>oid\<in>set (tick_candidates asOf seconds l d) - set (map fst failed).
        log_ok e oid \<and> log_head e oid = log_head d oid + 1)
    \<and> (\<forall>oid. oid \<notin> set (tick_candidates asOf seconds l d) \<or> oid \<in> set (map fst failed) \<longrightarrow>
        office_rows e oid = office_rows d oid \<and> office_events e oid = office_events d oid
        \<and> projection_rows e oid = projection_rows d oid)"
  using tick_isolates [OF assms] by (simp add: ticked_def same_log_def)

definition sample_tick_db :: db where
  "sample_tick_db = (sample_office_db 1)\<lparr>
     db_offices := db_offices (sample_office_db 1) @ [(hd (db_offices (sample_office_db 1)))\<lparr>of_id := ''g'',
       of_revision := 9007199254740991, of_minimum_replay_revision := 9007199254740991\<rparr>],
     db_view_tokens := map (\<lambda>(i, oid). \<lparr>vt_id = i, vt_office_id = oid, vt_token_hash = map of_char (replicate 31 CHR ''x'' @ i),
       vt_created_at = 0, vt_expires_at = None, vt_revoked_at = None\<rparr>) [(''1'', ''f''), (''2'', ''g'')]\<rparr>"

lemma sample_tick_ok: "logs_ok sample_tick_db" "tokens_ok sample_tick_db"
proof -
  show "logs_ok sample_tick_db"
    by (simp add: logs_ok_def log_ok_def outbox_ok_def log_floor_def log_head_def office_rows_def office_events_def
        projection_rows_def sample_tick_db_def sample_office_db_def sample_db_def empty_db_def MAX_SAFE_INTEGER_def)
  show "tokens_ok sample_tick_db"
    by (auto simp: tokens_ok_def token_constraints_def sample_tick_db_def row_count_def unrevoked_def)
qed

lemma sample_tick_candidates: "tick_candidates 3000000 30 100 sample_tick_db = [''f'', ''g'']"
  by code_simp

text \<open>Of two candidates the one whose revision counter is exhausted is reported.\<close>

lemma tick_isolates_failures_witness:
  "\<exists>n failed e. tick_public_offices (\<lambda>_. sample_projector_env) 3000000 30 100 True sample_tick_db = (Inr n, failed, e)
    \<and> ''g'' \<in> set (map fst failed) \<and> n = 2 - int (length failed)"
proof -
  obtain r failed e where run: "tick_public_offices (\<lambda>_. sample_projector_env) 3000000 30 100 True sample_tick_db
      = (r, failed, e)" by (metis prod_cases3)
  note t = tick_isolates_failures [OF run _ _ _ _ sample_tick_ok, unfolded sample_tick_candidates]
  have "log_head sample_tick_db ''g'' = MAX_SAFE_INTEGER"
    by (simp add: log_head_def office_rows_def sample_tick_db_def sample_office_db_def MAX_SAFE_INTEGER_def)
  moreover have "log_ok e ''g'' \<and> log_head e ''g'' = log_head sample_tick_db ''g'' + 1" if "''g'' \<notin> set (map fst failed)"
    using t that by simp
  ultimately have "''g'' \<in> set (map fst failed)" by (fastforce simp: log_ok_def)
  with t run show ?thesis by auto
qed

end
