(* ===== verification/Rate_Window.thy ===== *)
theory Rate_Window
  imports Prelude
begin

text \<open>
  The contract that the rate limiters of the program share. A limiter keeps, for each key, the
  start of a window and a count; a call charges a weight to a key. A window is restarted only
  when it has run out, within a window the count grows by at least the weight of each call that
  is let through, and a call is let through only while the count stays within the limit. The
  locale \<open>fixed_window\<close> derives what this guarantees to whoever is protected: in any span as
  long as the window at most twice the limit is let through, and within one window the limit.
\<close>

section \<open>What was let through\<close>

type_synonym charge = "int \<times> int"

definition charged_in :: "(int \<Rightarrow> bool) \<Rightarrow> charge list \<Rightarrow> int" where
  "charged_in P cs = sum_list (map snd (filter (\<lambda>(t, _). P t) cs))"

lemma charged_in_simps [simp]:
  "charged_in P [] = 0" "charged_in P (c # cs) = (if P (fst c) then snd c else 0) + charged_in P cs"
  by (auto simp: charged_in_def split: prod.splits)

lemma charged_in_append [simp]: "charged_in P (cs @ ds) = charged_in P cs + charged_in P ds"
  by (simp add: charged_in_def)

lemma charged_in_nonneg: "\<forall>c\<in>set cs. 0 \<le> snd c \<Longrightarrow> 0 \<le> charged_in P cs"
  by (induction cs) auto

lemma charged_in_mono:
  "\<forall>c\<in>set cs. 0 \<le> snd c \<Longrightarrow> (\<And>c. c \<in> set cs \<Longrightarrow> P (fst c) \<Longrightarrow> Q (fst c)) \<Longrightarrow> charged_in P cs \<le> charged_in Q cs"
proof (induction cs)
  case (Cons c cs)
  then have "charged_in P cs \<le> charged_in Q cs" by simp
  moreover have "(if P (fst c) then snd c else 0) \<le> (if Q (fst c) then snd c else 0)"
    using Cons.prems by auto
  ultimately show ?case by simp
qed simp

lemma charged_in_split:
  "(\<And>c. c \<in> set cs \<Longrightarrow> P (fst c) \<longleftrightarrow> Q (fst c) \<or> R (fst c)) \<Longrightarrow> (\<And>c. c \<in> set cs \<Longrightarrow> \<not> (Q (fst c) \<and> R (fst c)))
   \<Longrightarrow> charged_in P cs = charged_in Q cs + charged_in R cs"
proof (induction cs)
  case (Cons c cs)
  then have "charged_in P cs = charged_in Q cs + charged_in R cs" by simp
  moreover have "(if P (fst c) then snd c else 0) = (if Q (fst c) then snd c else 0) + (if R (fst c) then snd c else 0)"
    using Cons.prems [of c] by auto
  ultimately show ?case by simp
qed simp

lemma charged_in_zero: "(\<And>c. c \<in> set cs \<Longrightarrow> P (fst c) \<Longrightarrow> snd c = 0) \<Longrightarrow> charged_in P cs = 0"
  by (induction cs) auto

text \<open>The calls of a run that a limiter lets through, with their time and weight.\<close>

fun let_through ::
  "('s \<Rightarrow> 'call \<Rightarrow> bool \<times> 's) \<Rightarrow> ('call \<Rightarrow> int) \<Rightarrow> ('call \<Rightarrow> int) \<Rightarrow> 's \<Rightarrow> 'call list \<Rightarrow> charge list \<times> 's" where
  "let_through step time weight s [] = ([], s)"
| "let_through step time weight s (c # cs) = (case step s c of (a, s') \<Rightarrow>
     (case let_through step time weight s' cs of (ds, t) \<Rightarrow> (if a then (time c, weight c) # ds else ds, t)))"

section \<open>The contract\<close>

locale fixed_window =
  fixes step :: "'s \<Rightarrow> 'call \<Rightarrow> bool \<times> 's" and ok :: "'s \<Rightarrow> int \<Rightarrow> bool"
    and view :: "'s \<Rightarrow> 'k \<Rightarrow> (int \<times> int) option"
    and time :: "'call \<Rightarrow> int" and weight :: "'call \<Rightarrow> 'k \<Rightarrow> int" and limit window :: int
  assumes window_positive: "0 < window" and limit_nonneg: "0 \<le> limit"
    and weight_nonneg: "0 \<le> weight c k"
    and ok_step: "ok s now \<Longrightarrow> now \<le> time c \<Longrightarrow> step s c = (a, s') \<Longrightarrow> ok s' (time c)"
    and live: "ok s now \<Longrightarrow> now \<le> time c \<Longrightarrow> step s c = (a, s') \<Longrightarrow> view s k = Some (w, n) \<Longrightarrow>
      time c < w + window \<Longrightarrow> \<exists>n'. view s' k = Some (w, n') \<and> n + (if a then weight c k else 0) \<le> n'"
    and restart: "ok s now \<Longrightarrow> now \<le> time c \<Longrightarrow> step s c = (a, s') \<Longrightarrow>
      view s k = None \<or> (\<exists>w n. view s k = Some (w, n) \<and> w + window \<le> time c) \<Longrightarrow>
      view s' k = view s k \<and> (a \<longrightarrow> weight c k = 0) \<or> view s' k = None \<and> (a \<longrightarrow> weight c k = 0)
      \<or> (\<exists>n'. view s' k = Some (time c, n') \<and> (if a then weight c k else 0) \<le> n')"
    and within_limit: "step s c = (True, s') \<Longrightarrow> 0 < weight c k \<Longrightarrow> \<exists>w n. view s' k = Some (w, n) \<and> n \<le> limit"
begin

abbreviation run :: "'k \<Rightarrow> 's \<Rightarrow> 'call list \<Rightarrow> charge list \<times> 's" where
  "run k \<equiv> let_through step time (\<lambda>c. weight c k)"

text \<open>The invariant that a call keeps; \<open>ds\<close> is what was let through so far, up to \<open>now\<close>.\<close>

definition bounded :: "charge list \<Rightarrow> (int \<times> int) option \<Rightarrow> int \<Rightarrow> bool" where
  "bounded ds v now \<longleftrightarrow> (\<forall>d\<in>set ds. 0 \<le> snd d \<and> fst d \<le> now)
     \<and> (\<forall>a. charged_in (\<lambda>t. a \<le> t \<and> t < a + window) ds \<le> 2 * limit)
     \<and> (case v of
          None \<Rightarrow> charged_in (\<lambda>t. now - window \<le> t) ds \<le> limit \<and> (\<forall>d\<in>set ds. 0 < snd d \<longrightarrow> fst d < now)
        | Some (w, n) \<Rightarrow> w \<le> now \<and> charged_in (\<lambda>t. w \<le> t) ds \<le> n \<and> charged_in (\<lambda>t. w \<le> t) ds \<le> limit
            \<and> charged_in (\<lambda>t. w - window \<le> t \<and> t < w) ds \<le> limit
            \<and> (\<forall>d\<in>set ds. 0 < snd d \<longrightarrow> fst d < w + window))"

lemma bounded_later: "bounded ds v now \<Longrightarrow> now \<le> now' \<Longrightarrow> bounded ds v now'"
proof -
  assume b: "bounded ds v now" and le: "now \<le> now'"
  have "charged_in (\<lambda>t. now' - window \<le> t) ds \<le> charged_in (\<lambda>t. now - window \<le> t) ds"
    using b le by (intro charged_in_mono) (auto simp: bounded_def)
  with b le show ?thesis by (fastforce simp: bounded_def split: option.splits)
qed

text \<open>A window restarted at \<open>now\<close>, or dropped, forgets nothing that still counts.\<close>

lemma expired_charges:
  assumes "bounded ds v now" "v = None \<or> (\<exists>w n. v = Some (w, n) \<and> w + window \<le> now)"
  shows "charged_in (\<lambda>t. now - window \<le> t) ds \<le> limit"
proof (cases v)
  case None
  with assms(1) show ?thesis by (simp add: bounded_def)
next
  case (Some wn)
  then obtain w n where w: "v = Some (w, n)" "w + window \<le> now" using assms(2) by auto
  have "charged_in (\<lambda>t. now - window \<le> t) ds \<le> charged_in (\<lambda>t. w \<le> t) ds"
    using assms(1) w(2) by (intro charged_in_mono) (auto simp: bounded_def)
  with assms(1) w(1) show ?thesis by (simp add: bounded_def)
qed

lemma expired_none_now:
  assumes "bounded ds v now" "v = None \<or> (\<exists>w n. v = Some (w, n) \<and> w + window \<le> now)" "d \<in> set ds" "0 < snd d"
  shows "fst d < now"
  using assms by (fastforce simp: bounded_def)

lemma bounded_uncharged: "bounded ds v now \<Longrightarrow> bounded (ds @ [(now, 0)]) v now"
  by (auto simp: bounded_def split: option.splits)

lemma bounded_restart:
  assumes b: "bounded ds v now" and ex: "v = None \<or> (\<exists>w n. v = Some (w, n) \<and> w + window \<le> now)"
    and x: "0 \<le> x" "x \<le> limit" "x \<le> n'"
  shows "bounded (ds @ [(now, x)]) (Some (now, n')) now"
proof -
  have nn: "\<forall>d\<in>set ds. 0 \<le> snd d \<and> fst d \<le> now" using b by (simp add: bounded_def)
  have recent: "charged_in (\<lambda>t. now - window \<le> t) ds \<le> limit" by (rule expired_charges [OF b ex])
  have zero: "charged_in (\<lambda>t. now \<le> t) ds = 0"
    using expired_none_now [OF b ex] nn by (intro charged_in_zero) fastforce
  have before: "charged_in (\<lambda>t. now - window \<le> t \<and> t < now) ds \<le> limit"
    using nn recent charged_in_mono [of ds "\<lambda>t. now - window \<le> t \<and> t < now" "\<lambda>t. now - window \<le> t"] by auto
  have span: "charged_in (\<lambda>t. a \<le> t \<and> t < a + window) (ds @ [(now, x)]) \<le> 2 * limit" for a
  proof (cases "a \<le> now \<and> now < a + window")
    case True
    then have "charged_in (\<lambda>t. a \<le> t \<and> t < a + window) ds \<le> charged_in (\<lambda>t. now - window \<le> t) ds"
      using nn by (intro charged_in_mono) auto
    with True recent x show ?thesis by simp
  next
    case False
    with b show ?thesis by (auto simp: bounded_def)
  qed
  show ?thesis
    using nn span zero before x window_positive expired_none_now [OF b ex] limit_nonneg
    by (auto simp: bounded_def dest: order_less_trans)
qed

lemma bounded_live:
  assumes b: "bounded ds (Some (w, n)) now" and t: "now < w + window"
    and x: "0 \<le> x" "n + x \<le> n'" "0 < x \<longrightarrow> n' \<le> limit"
  shows "bounded (ds @ [(now, x)]) (Some (w, n')) now"
proof -
  have nn: "\<forall>d\<in>set ds. 0 \<le> snd d \<and> fst d \<le> now" and w: "w \<le> now"
    and cur: "charged_in (\<lambda>t. w \<le> t) ds \<le> n" "charged_in (\<lambda>t. w \<le> t) ds \<le> limit"
    and before: "charged_in (\<lambda>t. w - window \<le> t \<and> t < w) ds \<le> limit"
    using b by (simp_all add: bounded_def)
  have now: "charged_in (\<lambda>t. w \<le> t) (ds @ [(now, x)]) \<le> limit"
    using cur x w by (cases "x = 0") auto
  have span: "charged_in (\<lambda>t. a \<le> t \<and> t < a + window) (ds @ [(now, x)]) \<le> 2 * limit" for a
  proof (cases "a \<le> now \<and> now < a + window")
    case True
    let ?ds = "ds @ [(now, x)]"
    have nn': "\<forall>d\<in>set ?ds. 0 \<le> snd d" using nn x(1) by auto
    have "charged_in (\<lambda>t. a \<le> t \<and> t < a + window) ?ds
        = charged_in (\<lambda>t. a \<le> t \<and> t < a + window \<and> t < w) ?ds + charged_in (\<lambda>t. a \<le> t \<and> t < a + window \<and> w \<le> t) ?ds"
      by (rule charged_in_split) auto
    also have "charged_in (\<lambda>t. a \<le> t \<and> t < a + window \<and> w \<le> t) ?ds \<le> charged_in (\<lambda>t. w \<le> t) ?ds"
      using nn' by (intro charged_in_mono) auto
    also have "charged_in (\<lambda>t. a \<le> t \<and> t < a + window \<and> t < w) ?ds \<le> charged_in (\<lambda>t. w - window \<le> t \<and> t < w) ?ds"
      using nn' True w by (intro charged_in_mono) auto
    also have "charged_in (\<lambda>t. w - window \<le> t \<and> t < w) ?ds = charged_in (\<lambda>t. w - window \<le> t \<and> t < w) ds"
      using w by simp
    finally show ?thesis using now before by linarith
  next
    case False
    with b show ?thesis by (auto simp: bounded_def)
  qed
  show ?thesis using b now span x w t by (auto simp: bounded_def)
qed

lemma bounded_step:
  assumes o: "ok s now" "now \<le> time c" and st: "step s c = (a, s')" and b: "bounded ds (view s k) (time c)"
  shows "bounded (if a then ds @ [(time c, weight c k)] else ds) (view s' k) (time c)"
proof -
  define x where "x = (if a then weight c k else 0)"
  have x: "0 \<le> x" by (simp add: x_def weight_nonneg)
  have lim: "0 < x \<Longrightarrow> \<exists>w n. view s' k = Some (w, n) \<and> n \<le> limit"
    using within_limit [of s c s' k] st by (auto simp: x_def split: if_splits)
  have "bounded (ds @ [(time c, x)]) (view s' k) (time c)"
  proof (cases "view s k = None \<or> (\<exists>w n. view s k = Some (w, n) \<and> w + window \<le> time c)")
    case True
    from restart [OF o st True] consider "view s' k = view s k" "x = 0" | "view s' k = None" "x = 0"
      | n' where "view s' k = Some (time c, n')" "x \<le> n'"
      by (auto simp: x_def)
    then show ?thesis
    proof cases
      case 1
      with bounded_uncharged [OF b] show ?thesis by simp
    next
      case 2
      have "bounded ds None (time c)"
        using b expired_charges [OF b True] expired_none_now [OF b True] by (simp add: bounded_def)
      with 2 bounded_uncharged show ?thesis by simp
    next
      case 3
      with lim have "x \<le> limit" using limit_nonneg x by (cases "x = 0") auto
      with 3 bounded_restart [OF b True x] show ?thesis by simp
    qed
  next
    case False
    then obtain w n where v: "view s k = Some (w, n)" "time c < w + window" by (cases "view s k") auto
    from live [OF o st v] obtain n' where n': "view s' k = Some (w, n')" "n + x \<le> n'" by (auto simp: x_def)
    with lim have "0 < x \<longrightarrow> n' \<le> limit" by auto
    from bounded_live [OF b [unfolded v(1)] v(2) x n'(2) this] n'(1) show ?thesis by simp
  qed
  then show ?thesis by (auto simp: x_def bounded_def split: option.splits if_splits)
qed

lemma run_bounded:
  assumes "sorted (map time cs)" "bounded ds (view s k) now" "\<forall>c\<in>set cs. now \<le> time c" "run k s cs = (es, t)"
    and "ok s now"
  shows "\<exists>now'. bounded (ds @ es) (view t k) now'"
  using assms
proof (induction cs arbitrary: s ds now es)
  case Nil
  then show ?case by auto
next
  case (Cons c cs)
  obtain a s' where st: "step s c = (a, s')" by (cases "step s c")
  obtain es' where r: "run k s' cs = (es', t)" and es: "es = (if a then (time c, weight c k) # es' else es')"
    using Cons.prems(4) st by (auto split: prod.splits if_splits)
  have b: "bounded ds (view s k) (time c)" using Cons.prems(2,3) by (auto intro: bounded_later)
  have "\<forall>c'\<in>set cs. time c \<le> time c'" "sorted (map time cs)" using Cons.prems(1) by auto
  moreover have le: "now \<le> time c" using Cons.prems(3) by simp
  ultimately obtain now' where
    "bounded ((if a then ds @ [(time c, weight c k)] else ds) @ es') (view t k) now'"
    using Cons.IH [OF _ bounded_step [OF Cons.prems(5) le st b] _ r ok_step [OF Cons.prems(5) le st]] by blast
  then show ?case by (auto simp: es split: if_splits)
qed

text \<open>In no span of the window's length is more than twice the limit let through.\<close>

lemma span_bound:
  assumes "view s k = None" "sorted (map time cs)" "run k s cs = (es, t)" "\<And>now. ok s now"
  shows "charged_in (\<lambda>u. a \<le> u \<and> u < a + window) es \<le> 2 * limit"
proof (cases cs)
  case Nil
  with assms(3) limit_nonneg show ?thesis by simp
next
  case (Cons c cs')
  have "bounded [] (view s k) (time c)" using assms(1) limit_nonneg by (simp add: bounded_def)
  moreover have "\<forall>c'\<in>set cs. time c \<le> time c'" using assms(2) Cons by auto
  ultimately obtain now' where "bounded ([] @ es) (view t k) now'" using run_bounded [OF assms(2) _ _ assms(3,4)] by blast
  then show ?thesis by (simp add: bounded_def)
qed

end

end
