(* ===== verification/Rate_Limits.thy ===== *)
theory Rate_Limits
  imports Rate_Window Store
begin

text \<open>
  The request limiters: the in-memory one of the edge ingress
  (presence/application/edge-ingress-rate-limiter.ts), the one of accepted devices
  (presence/application/edge-report-rate-limit.ts) and the one of onboarding
  (onboarding/application/ip-rate-limit.ts), which live in the database. All interpret
  \<open>fixed_window\<close>. A JavaScript Map of buckets is a partial map; its order is not used.
\<close>

section \<open>Edge ingress\<close>

record rate_limit_decision =
  rd_allowed :: bool
  rd_retryAfterSeconds :: int

definition WINDOW_MS :: int where
  "WINDOW_MS = 60000"

definition MAX_ATTEMPTS_PER_IP_WINDOW :: int where
  "MAX_ATTEMPTS_PER_IP_WINDOW = 900"

record ingress_bucket =
  ib_windowStartedAt :: int
  ib_attempts :: int
  ib_touchedAt :: int

record ingress_limiter =
  il_buckets :: "string \<rightharpoonup> ingress_bucket"
  il_callsSinceCleanup :: int

definition retry_after :: "int \<Rightarrow> int \<Rightarrow> int" where
  "retry_after windowStartedAt now = max 1 (ceil_div (windowStartedAt + WINDOW_MS - now) 1000)"

definition ingress_cleanup :: "int \<Rightarrow> ingress_limiter \<Rightarrow> ingress_limiter" where
  "ingress_cleanup now l =
     (let calls = il_callsSinceCleanup l + 1 in
      if 512 \<le> calls
      then \<lparr>il_buckets = (\<lambda>k. case il_buckets l k of None \<Rightarrow> None
              | Some b \<Rightarrow> if WINDOW_MS * 2 < now - ib_touchedAt b then None else Some b),
            il_callsSinceCleanup = 0\<rparr>
      else l\<lparr>il_callsSinceCleanup := calls\<rparr>)"

definition ingress_bucket_for :: "string \<Rightarrow> int \<Rightarrow> ingress_limiter \<Rightarrow> ingress_bucket" where
  "ingress_bucket_for ip now l =
     (case il_buckets l ip of
        None \<Rightarrow> \<lparr>ib_windowStartedAt = now, ib_attempts = 0, ib_touchedAt = now\<rparr>
      | Some prior \<Rightarrow> if WINDOW_MS \<le> now - ib_windowStartedAt prior
          then \<lparr>ib_windowStartedAt = now, ib_attempts = 0, ib_touchedAt = now\<rparr> else prior)"

definition ingress_take :: "string \<Rightarrow> int \<Rightarrow> ingress_limiter \<Rightarrow> rate_limit_decision \<times> ingress_limiter" where
  "ingress_take ip now l0 =
     (let l = ingress_cleanup now l0; bucket = ingress_bucket_for ip now l;
          allowed = (ib_attempts bucket < MAX_ATTEMPTS_PER_IP_WINDOW);
          bucket' = (if allowed then bucket\<lparr>ib_attempts := ib_attempts bucket + 1, ib_touchedAt := now\<rparr>
                     else bucket\<lparr>ib_touchedAt := now\<rparr>)
      in (\<lparr>rd_allowed = allowed, rd_retryAfterSeconds = retry_after (ib_windowStartedAt bucket) now\<rparr>,
          l\<lparr>il_buckets := (il_buckets l)(ip \<mapsto> bucket')\<rparr>))"

definition create_ingress_limiter :: ingress_limiter where
  "create_ingress_limiter = \<lparr>il_buckets = Map.empty, il_callsSinceCleanup = 0\<rparr>"

definition ingress_step :: "ingress_limiter \<Rightarrow> string \<times> int \<Rightarrow> bool \<times> ingress_limiter" where
  "ingress_step l c = (case ingress_take (fst c) (snd c) l of (d, l') \<Rightarrow> (rd_allowed d, l'))"

definition ingress_view :: "ingress_limiter \<Rightarrow> string \<Rightarrow> (int \<times> int) option" where
  "ingress_view l ip = map_option (\<lambda>b. (ib_windowStartedAt b, ib_attempts b)) (il_buckets l ip)"

definition ingress_ok :: "ingress_limiter \<Rightarrow> int \<Rightarrow> bool" where
  "ingress_ok l now \<longleftrightarrow> (\<forall>k b. il_buckets l k = Some b \<longrightarrow> ib_windowStartedAt b \<le> ib_touchedAt b \<and> ib_touchedAt b \<le> now)"

lemma ingress_cleanup_buckets:
  "il_buckets (ingress_cleanup now l) k = il_buckets l k
   \<or> (\<exists>b. il_buckets l k = Some b \<and> WINDOW_MS * 2 < now - ib_touchedAt b \<and> il_buckets (ingress_cleanup now l) k = None)"
  by (auto simp: ingress_cleanup_def Let_def split: option.splits)

lemma ingress_cleanup_view:
  assumes "ingress_ok l now'" "ingress_view l k = Some (w, n)" "now < w + WINDOW_MS"
  shows "ingress_view (ingress_cleanup now l) k = Some (w, n)"
proof -
  from assms(2) obtain b where b: "il_buckets l k = Some b" "w = ib_windowStartedAt b" "n = ib_attempts b"
    by (auto simp: ingress_view_def)
  with assms(1) have "w \<le> ib_touchedAt b" by (simp add: ingress_ok_def)
  with assms(3) have "\<not> WINDOW_MS * 2 < now - ib_touchedAt b" by (simp add: WINDOW_MS_def)
  with b ingress_cleanup_buckets [of now l k] show ?thesis by (auto simp: ingress_view_def)
qed

lemma ingress_cleanup_ok: "ingress_ok l now \<Longrightarrow> ingress_ok (ingress_cleanup now' l) now"
  using ingress_cleanup_buckets [of now' l] unfolding ingress_ok_def by (metis option.distinct(1))

lemma ingress_step_view:
  assumes "ingress_step l c = (a, l')"
  shows "k \<noteq> fst c \<Longrightarrow> ingress_view l' k = ingress_view (ingress_cleanup (snd c) l) k"
    and "ingress_view l' (fst c) = (let b = ingress_bucket_for (fst c) (snd c) (ingress_cleanup (snd c) l) in
      Some (ib_windowStartedAt b, ib_attempts b + (if a then 1 else 0)))"
    and "a \<longleftrightarrow> ib_attempts (ingress_bucket_for (fst c) (snd c) (ingress_cleanup (snd c) l)) < MAX_ATTEMPTS_PER_IP_WINDOW"
  using assms by (auto simp: ingress_step_def ingress_take_def ingress_view_def Let_def split: if_splits)

interpretation ingress: fixed_window ingress_step ingress_ok ingress_view snd
  "\<lambda>c k. if k = fst c then 1 else 0" MAX_ATTEMPTS_PER_IP_WINDOW WINDOW_MS
proof unfold_locales
  fix l :: ingress_limiter and now and c :: "string \<times> int" and a l' k
  assume ok: "ingress_ok l now" and le: "now \<le> snd c" and st: "ingress_step l c = (a, l')"
  note v = ingress_step_view [OF st]
  have okc: "ingress_ok (ingress_cleanup (snd c) l) (snd c)"
  proof -
    have "ingress_ok l (snd c)" using ok le by (fastforce simp: ingress_ok_def)
    then show ?thesis by (rule ingress_cleanup_ok)
  qed
  then show "ingress_ok l' (snd c)"
    using st by (fastforce simp: ingress_step_def ingress_take_def ingress_bucket_for_def ingress_ok_def Let_def
        split: option.splits if_splits)
  {
    fix w n
    assume w: "ingress_view l k = Some (w, n)" "snd c < w + WINDOW_MS"
    have cl: "ingress_view (ingress_cleanup (snd c) l) k = Some (w, n)" by (rule ingress_cleanup_view [OF ok w])
    show "\<exists>n'. ingress_view l' k = Some (w, n') \<and> n + (if a then if k = fst c then 1 else 0 else 0) \<le> n'"
    proof (cases "k = fst c")
      case True
      with cl w(2) v(2) show ?thesis
        by (auto simp: ingress_view_def ingress_bucket_for_def Let_def)
    next
      case False
      with cl v(1) show ?thesis by simp
    qed
  }
  assume ex: "ingress_view l k = None \<or> (\<exists>w n. ingress_view l k = Some (w, n) \<and> w + WINDOW_MS \<le> snd c)"
  have cl: "ingress_view (ingress_cleanup (snd c) l) k = ingress_view l k \<or> ingress_view (ingress_cleanup (snd c) l) k = None"
    using ingress_cleanup_buckets [of "snd c" l k] by (auto simp: ingress_view_def)
  show "ingress_view l' k = ingress_view l k \<and> (a \<longrightarrow> (if k = fst c then 1 else 0) = (0::int))
      \<or> ingress_view l' k = None \<and> (a \<longrightarrow> (if k = fst c then 1 else 0) = (0::int))
      \<or> (\<exists>n'. ingress_view l' k = Some (snd c, n') \<and> (if a then if k = fst c then 1 else 0 else 0) \<le> n')"
  proof (cases "k = fst c")
    case True
    with cl ex v(2) show ?thesis
      by (auto simp: ingress_view_def ingress_bucket_for_def Let_def split: option.splits)
  next
    case False
    with cl v(1) show ?thesis by auto
  qed
next
  fix l :: ingress_limiter and c :: "string \<times> int" and l' k
  assume st: "ingress_step l c = (True, l')" and "0 < (if k = fst c then 1 else 0 :: int)"
  then show "\<exists>w n. ingress_view l' k = Some (w, n) \<and> n \<le> MAX_ATTEMPTS_PER_IP_WINDOW"
    using ingress_step_view(2,3) [OF st] by (auto simp: Let_def split: if_splits)
qed (auto simp: WINDOW_MS_def MAX_ATTEMPTS_PER_IP_WINDOW_def)

section \<open>Device reports\<close>

definition WINDOW_SECONDS :: int where
  "WINDOW_SECONDS = 300"

definition MAX_REPORTS_PER_WINDOW :: int where
  "MAX_REPORTS_PER_WINDOW = 360"

definition MAX_EVENTS_PER_WINDOW :: int where
  "MAX_EVENTS_PER_WINDOW = 2048"

record report_rate_row =
  rr_window_started_at :: timestamp_us
  rr_report_count :: int
  rr_event_count :: int

type_synonym report_rates = "uuid \<rightharpoonup> report_rate_row"

text \<open>The counters are integers with a check, and the instance is a foreign key.\<close>

definition counter_ok :: "int \<Rightarrow> bool" where
  "counter_ok n \<longleftrightarrow> 0 \<le> n \<and> n \<le> 1000000"

definition charged_row :: "report_rate_row option \<Rightarrow> timestamp_us \<Rightarrow> int \<Rightarrow> report_rate_row" where
  "charged_row rate now eventCount =
     (case rate of
        None \<Rightarrow> \<lparr>rr_window_started_at = now, rr_report_count = 1, rr_event_count = eventCount\<rparr>
      | Some r \<Rightarrow>
          if rr_window_started_at r \<le> now - WINDOW_SECONDS * 1000000
          then \<lparr>rr_window_started_at = now, rr_report_count = 1, rr_event_count = eventCount\<rparr>
          else r\<lparr>rr_report_count := rr_report_count r + 1, rr_event_count := rr_event_count r + eventCount\<rparr>)"

definition seconds_left :: "timestamp_us \<Rightarrow> timestamp_us \<Rightarrow> int" where
  "seconds_left windowStartedAt clock = max 0 (ceil_div (windowStartedAt + WINDOW_SECONDS * 1000000 - clock) 1000000)"

definition consume_report ::
  "db \<Rightarrow> string \<Rightarrow> nat \<Rightarrow> timestamp_us \<Rightarrow> timestamp_us \<Rightarrow> report_rates \<Rightarrow> unit tx \<times> report_rates" where
  "consume_report d instanceId eventCount now clock rates =
     (let iid = uuid_of_text instanceId; row = charged_row (rates iid) now (int eventCount) in
      if \<not> has_key in_id iid (db_instances d) then (Inl (Failure ''foreign_key_violation''), rates)
      else if \<not> (counter_ok (rr_report_count row) \<and> counter_ok (rr_event_count row))
      then (Inl (Failure ''check_violation''), rates)
      else (if MAX_REPORTS_PER_WINDOW < rr_report_count row \<or> MAX_EVENTS_PER_WINDOW < rr_event_count row
            then Inl (Problem ((protocol_problem Rate_limited 429
                   ''The device report rate is temporarily limited.'')\<lparr>pp_retryAfterSeconds :=
                     Some (max 1 (seconds_left (rr_window_started_at row) clock))\<rparr>))
            else Inr (), rates(iid \<mapsto> row)))"

text \<open>A call: the instance, the number of events and the two readings of the clock.\<close>

type_synonym report_call = "(string \<times> nat) \<times> timestamp_us \<times> timestamp_us"

definition report_step :: "db \<Rightarrow> report_rates \<Rightarrow> report_call \<Rightarrow> bool \<times> report_rates" where
  "report_step d rates c = (case consume_report d (fst (fst c)) (snd (fst c)) (fst (snd c)) (snd (snd c)) rates of
     (r, rates') \<Rightarrow> (r = Inr (), rates'))"

definition report_view :: "report_rates \<Rightarrow> uuid \<Rightarrow> (int \<times> int) option" where
  "report_view rates k = map_option (\<lambda>r. (rr_window_started_at r, rr_report_count r)) (rates k)"

definition event_view :: "report_rates \<Rightarrow> uuid \<Rightarrow> (int \<times> int) option" where
  "event_view rates k = map_option (\<lambda>r. (rr_window_started_at r, rr_event_count r)) (rates k)"

text \<open>A call either leaves the table alone and is refused, or charges the instance's row.\<close>

lemma report_step_cases:
  assumes "report_step d rates c = (a, rates')"
  obtains "\<not> a" "rates' = rates"
  | row where "row = charged_row (rates (uuid_of_text (fst (fst c)))) (fst (snd c)) (int (snd (fst c)))"
    "rates' = rates(uuid_of_text (fst (fst c)) \<mapsto> row)"
    "a \<longleftrightarrow> rr_report_count row \<le> MAX_REPORTS_PER_WINDOW \<and> rr_event_count row \<le> MAX_EVENTS_PER_WINDOW"
  using assms that by (auto simp: report_step_def consume_report_def Let_def split: if_splits)

lemma charged_row_live:
  "rate = Some r \<Longrightarrow> now < rr_window_started_at r + WINDOW_SECONDS * 1000000 \<Longrightarrow>
   charged_row rate now n = r\<lparr>rr_report_count := rr_report_count r + 1, rr_event_count := rr_event_count r + n\<rparr>"
  by (simp add: charged_row_def)

lemma charged_row_restart:
  "rate = None \<or> (\<exists>r. rate = Some r \<and> rr_window_started_at r + WINDOW_SECONDS * 1000000 \<le> now) \<Longrightarrow>
   charged_row rate now n = \<lparr>rr_window_started_at = now, rr_report_count = 1, rr_event_count = n\<rparr>"
  by (auto simp: charged_row_def)

interpretation reports: fixed_window "report_step d" "\<lambda>_ _. True" report_view "\<lambda>c. fst (snd c)"
  "\<lambda>c k. if k = uuid_of_text (fst (fst c)) then 1 else 0" MAX_REPORTS_PER_WINDOW "WINDOW_SECONDS * 1000000"
proof unfold_locales
  fix rates :: report_rates and c a rates' k w n
  assume st: "report_step d rates c = (a, rates')" and v: "report_view rates k = Some (w, n)"
    and t: "fst (snd c) < w + WINDOW_SECONDS * 1000000"
  then show "\<exists>n'. report_view rates' k = Some (w, n')
      \<and> n + (if a then if k = uuid_of_text (fst (fst c)) then 1 else 0 else 0) \<le> n'"
    by (cases rule: report_step_cases [OF st]) (auto simp: report_view_def charged_row_live)
next
  fix rates :: report_rates and c a rates' k
  assume st: "report_step d rates c = (a, rates')"
    and ex: "report_view rates k = None \<or> (\<exists>w n. report_view rates k = Some (w, n) \<and> w + WINDOW_SECONDS * 1000000 \<le> fst (snd c))"
  show "report_view rates' k = report_view rates k \<and> (a \<longrightarrow> (if k = uuid_of_text (fst (fst c)) then 1 else 0) = (0::int))
      \<or> report_view rates' k = None \<and> (a \<longrightarrow> (if k = uuid_of_text (fst (fst c)) then 1 else 0) = (0::int))
      \<or> (\<exists>n'. report_view rates' k = Some (fst (snd c), n')
          \<and> (if a then if k = uuid_of_text (fst (fst c)) then 1 else 0 else 0) \<le> n')"
    using ex by (cases rule: report_step_cases [OF st])
      (auto simp: report_view_def charged_row_restart)
next
  fix rates :: report_rates and c rates' k
  assume st: "report_step d rates c = (True, rates')" and "0 < (if k = uuid_of_text (fst (fst c)) then 1 else 0 :: int)"
  then show "\<exists>w n. report_view rates' k = Some (w, n) \<and> n \<le> MAX_REPORTS_PER_WINDOW"
    by (cases rule: report_step_cases [OF st]) (auto simp: report_view_def split: if_splits)
qed (simp_all add: WINDOW_SECONDS_def MAX_REPORTS_PER_WINDOW_def)

interpretation events: fixed_window "report_step d" "\<lambda>_ _. True" event_view "\<lambda>c. fst (snd c)"
  "\<lambda>c k. if k = uuid_of_text (fst (fst c)) then int (snd (fst c)) else 0" MAX_EVENTS_PER_WINDOW "WINDOW_SECONDS * 1000000"
proof unfold_locales
  fix rates :: report_rates and c a rates' k w n
  assume st: "report_step d rates c = (a, rates')" and v: "event_view rates k = Some (w, n)"
    and t: "fst (snd c) < w + WINDOW_SECONDS * 1000000"
  then show "\<exists>n'. event_view rates' k = Some (w, n')
      \<and> n + (if a then if k = uuid_of_text (fst (fst c)) then int (snd (fst c)) else 0 else 0) \<le> n'"
    by (cases rule: report_step_cases [OF st]) (auto simp: event_view_def charged_row_live)
next
  fix rates :: report_rates and c a rates' k
  assume st: "report_step d rates c = (a, rates')"
    and ex: "event_view rates k = None \<or> (\<exists>w n. event_view rates k = Some (w, n) \<and> w + WINDOW_SECONDS * 1000000 \<le> fst (snd c))"
  show "event_view rates' k = event_view rates k
        \<and> (a \<longrightarrow> (if k = uuid_of_text (fst (fst c)) then int (snd (fst c)) else 0) = 0)
      \<or> event_view rates' k = None \<and> (a \<longrightarrow> (if k = uuid_of_text (fst (fst c)) then int (snd (fst c)) else 0) = 0)
      \<or> (\<exists>n'. event_view rates' k = Some (fst (snd c), n')
          \<and> (if a then if k = uuid_of_text (fst (fst c)) then int (snd (fst c)) else 0 else 0) \<le> n')"
    using ex by (cases rule: report_step_cases [OF st])
      (auto simp: event_view_def charged_row_restart)
next
  fix rates :: report_rates and c rates' k
  assume st: "report_step d rates c = (True, rates')"
    and "0 < (if k = uuid_of_text (fst (fst c)) then int (snd (fst c)) else 0)"
  then show "\<exists>w n. event_view rates' k = Some (w, n) \<and> n \<le> MAX_EVENTS_PER_WINDOW"
    by (cases rule: report_step_cases [OF st]) (auto simp: event_view_def split: if_splits)
qed (simp_all add: WINDOW_SECONDS_def MAX_EVENTS_PER_WINDOW_def)

section \<open>Onboarding\<close>

datatype rate_kind = Rate_create | Rate_claim | Rate_poll

definition LIMITS :: "rate_kind \<Rightarrow> int" where
  "LIMITS kind = (case kind of Rate_create \<Rightarrow> 6 | Rate_claim \<Rightarrow> 30 | Rate_poll \<Rightarrow> 1200)"

record onboarding_rate_row =
  or_window_started_at :: timestamp_us
  or_office_create_count :: int
  or_claim_count :: int
  or_poll_count :: int

definition kind_count :: "rate_kind \<Rightarrow> onboarding_rate_row \<Rightarrow> int" where
  "kind_count kind r = (case kind of Rate_create \<Rightarrow> or_office_create_count r
     | Rate_claim \<Rightarrow> or_claim_count r | Rate_poll \<Rightarrow> or_poll_count r)"

definition increment :: "rate_kind \<Rightarrow> rate_kind \<Rightarrow> int" where
  "increment kind k = (if kind = k then 1 else 0)"

type_synonym onboarding_rates = "byte_string \<rightharpoonup> onboarding_rate_row"

definition onboarding_row :: "onboarding_rate_row option \<Rightarrow> timestamp_us \<Rightarrow> rate_kind \<Rightarrow> onboarding_rate_row" where
  "onboarding_row rate now kind =
     (let fresh = \<lparr>or_window_started_at = now, or_office_create_count = increment kind Rate_create,
                   or_claim_count = increment kind Rate_claim, or_poll_count = increment kind Rate_poll\<rparr> in
      case rate of
        None \<Rightarrow> fresh
      | Some r \<Rightarrow>
          if or_window_started_at r \<le> now - 300000000 then fresh
          else \<lparr>or_window_started_at = or_window_started_at r,
                or_office_create_count = or_office_create_count r + increment kind Rate_create,
                or_claim_count = or_claim_count r + increment kind Rate_claim,
                or_poll_count = or_poll_count r + increment kind Rate_poll\<rparr>)"

definition onboarding_row_ok :: "onboarding_rate_row \<Rightarrow> bool" where
  "onboarding_row_ok r \<longleftrightarrow> counter_ok (or_office_create_count r) \<and> counter_ok (or_claim_count r) \<and> counter_ok (or_poll_count r)"

text \<open>The key is the SHA-256 digest of the address, 32 bytes.\<close>

definition consume_onboarding_rate_limit ::
  "(byte_string \<Rightarrow> byte_string) \<Rightarrow> string \<Rightarrow> rate_kind \<Rightarrow> timestamp_us \<Rightarrow> timestamp_us \<Rightarrow> onboarding_rates
   \<Rightarrow> unit tx \<times> onboarding_rates" where
  "consume_onboarding_rate_limit sha256 ip kind now clock rates =
     (let key = sha256 (utf8 (js ip)); row = onboarding_row (rates key) now kind in
      if length key \<noteq> 32 \<or> \<not> onboarding_row_ok row then (Inl (Failure ''check_violation''), rates)
      else (if LIMITS kind < kind_count kind row
            then Inl (Onboarding \<lparr>op_code = Onboarding_rate_limited, op_status = 429,
                   op_message = ''Too many onboarding requests.'',
                   op_retryAfterSeconds = Some (max 1 (seconds_left (or_window_started_at row) clock))\<rparr>)
            else Inr (), rates(key \<mapsto> row)))"

type_synonym onboarding_call = "(string \<times> rate_kind) \<times> timestamp_us \<times> timestamp_us"

definition onboarding_step ::
  "(byte_string \<Rightarrow> byte_string) \<Rightarrow> onboarding_rates \<Rightarrow> onboarding_call \<Rightarrow> bool \<times> onboarding_rates" where
  "onboarding_step sha256 rates c =
     (case consume_onboarding_rate_limit sha256 (fst (fst c)) (snd (fst c)) (fst (snd c)) (snd (snd c)) rates of
        (r, rates') \<Rightarrow> (r = Inr (), rates'))"

definition onboarding_view :: "onboarding_rates \<Rightarrow> byte_string \<times> rate_kind \<Rightarrow> (int \<times> int) option" where
  "onboarding_view rates k = map_option (\<lambda>r. (or_window_started_at r, kind_count (snd k) r)) (rates (fst k))"

lemma onboarding_step_cases:
  assumes "onboarding_step sha256 rates c = (a, rates')"
  obtains "\<not> a" "rates' = rates"
  | row where "row = onboarding_row (rates (sha256 (utf8 (js (fst (fst c)))))) (fst (snd c)) (snd (fst c))"
    "rates' = rates(sha256 (utf8 (js (fst (fst c)))) \<mapsto> row)"
    "a \<longleftrightarrow> kind_count (snd (fst c)) row \<le> LIMITS (snd (fst c))"
  using assms that by (auto simp: onboarding_step_def consume_onboarding_rate_limit_def Let_def split: if_splits)

lemma onboarding_row_live:
  "rate = Some r \<Longrightarrow> now < or_window_started_at r + 300000000 \<Longrightarrow>
   or_window_started_at (onboarding_row rate now kind) = or_window_started_at r
   \<and> kind_count k (onboarding_row rate now kind) = kind_count k r + increment kind k"
  by (cases k) (simp_all add: onboarding_row_def kind_count_def)

lemma onboarding_row_restart:
  "rate = None \<or> (\<exists>r. rate = Some r \<and> or_window_started_at r + 300000000 \<le> now) \<Longrightarrow>
   or_window_started_at (onboarding_row rate now kind) = now
   \<and> kind_count k (onboarding_row rate now kind) = increment kind k"
  by (cases k) (auto simp: onboarding_row_def kind_count_def)

definition onboarding_weight :: "(byte_string \<Rightarrow> byte_string) \<Rightarrow> onboarding_call \<Rightarrow> byte_string \<times> rate_kind \<Rightarrow> int" where
  "onboarding_weight sha256 c k = (if k = (sha256 (utf8 (js (fst (fst c)))), snd (fst c)) then 1 else 0)"

text \<open>The kinds have their own limits, so each kind is a view of its own.\<close>

interpretation onboarding: fixed_window "onboarding_step sha256" "\<lambda>_ _. True"
  "\<lambda>rates key. onboarding_view rates (key, kind)" "\<lambda>c. fst (snd c)"
  "\<lambda>c key. onboarding_weight sha256 c (key, kind)" "LIMITS kind" 300000000
proof unfold_locales
  fix rates :: onboarding_rates and c a rates' k w n
  assume st: "onboarding_step sha256 rates c = (a, rates')" and v: "onboarding_view rates (k, kind) = Some (w, n)"
    and t: "fst (snd c) < w + 300000000"
  then show "\<exists>n'. onboarding_view rates' (k, kind) = Some (w, n')
      \<and> n + (if a then onboarding_weight sha256 c (k, kind) else 0) \<le> n'"
    by (cases rule: onboarding_step_cases [OF st])
      (auto simp: onboarding_view_def onboarding_row_live onboarding_weight_def increment_def)
next
  fix rates :: onboarding_rates and c a rates' k
  assume st: "onboarding_step sha256 rates c = (a, rates')"
    and ex: "onboarding_view rates (k, kind) = None
      \<or> (\<exists>w n. onboarding_view rates (k, kind) = Some (w, n) \<and> w + 300000000 \<le> fst (snd c))"
  show "onboarding_view rates' (k, kind) = onboarding_view rates (k, kind) \<and> (a \<longrightarrow> onboarding_weight sha256 c (k, kind) = 0)
      \<or> onboarding_view rates' (k, kind) = None \<and> (a \<longrightarrow> onboarding_weight sha256 c (k, kind) = 0)
      \<or> (\<exists>n'. onboarding_view rates' (k, kind) = Some (fst (snd c), n')
          \<and> (if a then onboarding_weight sha256 c (k, kind) else 0) \<le> n')"
    using ex by (cases rule: onboarding_step_cases [OF st])
      (auto simp: onboarding_view_def onboarding_row_restart onboarding_weight_def increment_def)
next
  fix rates :: onboarding_rates and c rates' k
  assume st: "onboarding_step sha256 rates c = (True, rates')" and "0 < onboarding_weight sha256 c (k, kind)"
  then show "\<exists>w n. onboarding_view rates' (k, kind) = Some (w, n) \<and> n \<le> LIMITS kind"
    by (cases rule: onboarding_step_cases [OF st]) (auto simp: onboarding_view_def onboarding_weight_def split: if_splits)
qed (simp_all add: LIMITS_def onboarding_weight_def split: rate_kind.split)

section \<open>Properties\<close>

text \<open>
  No address gets more than 1800 requests per minute to the edge endpoints. Whatever the calls
  of all addresses and whatever buckets the clean-up drops between them, as long as the clock
  does not run backwards, the requests of one address that the ingress limiter admits in any
  span of 60 seconds are at most twice the limit of a window.
\<close>

theorem ingress_rate_bounded:
  assumes "sorted (map snd cs)"
  shows "charged_in (\<lambda>t. start \<le> t \<and> t < start + 60000)
    (fst (let_through ingress_step snd (\<lambda>c. if ip = fst c then 1 else 0) create_ingress_limiter cs)) \<le> 1800"
proof -
  obtain es l where run: "let_through ingress_step snd (\<lambda>c. if ip = fst c then 1 else 0) create_ingress_limiter cs = (es, l)"
    by (rule prod.exhaust)
  have "ingress_view create_ingress_limiter ip = None" "\<And>now. ingress_ok create_ingress_limiter now"
    by (simp_all add: ingress_view_def ingress_ok_def create_ingress_limiter_def)
  from ingress.span_bound [OF this(1) assms run this(2), of start] run show ?thesis
    by (simp add: WINDOW_MS_def MAX_ATTEMPTS_PER_IP_WINDOW_def)
qed

lemma ingress_rate_bounded_witness:
  "fst (let_through ingress_step snd (\<lambda>c. if ''p'' = fst c then 1 else 0) create_ingress_limiter [(''p'', 5), (''q'', 6), (''p'', 70000)])
     = [(5, 1), (6, 0), (70000, 1)]
   \<and> charged_in (\<lambda>t. 0 \<le> t \<and> t < 0 + 60000)
      (fst (let_through ingress_step snd (\<lambda>c. if ''p'' = fst c then 1 else 0) create_ingress_limiter
        [(''p'', 5), (''q'', 6), (''p'', 70000)])) \<le> 1800"
proof
  show "fst (let_through ingress_step snd (\<lambda>c. if ''p'' = fst c then 1 else 0) create_ingress_limiter
      [(''p'', 5), (''q'', 6), (''p'', 70000)]) = [(5, 1), (6, 0), (70000, 1)]"
    by (simp add: ingress_step_def ingress_take_def ingress_cleanup_def ingress_bucket_for_def create_ingress_limiter_def
        WINDOW_MS_def MAX_ATTEMPTS_PER_IP_WINDOW_def Let_def)
qed (rule ingress_rate_bounded, simp)


definition sample_rate_db :: db where
  "sample_rate_db = empty_db\<lparr>db_instances := [\<lparr>in_id = ''i'', in_logical_agent_id = ''g'',
     in_status = Instance_active, in_revoked_at = None\<rparr>]\<rparr>"


text \<open>
  Onboarding from one address is bounded. In any span of five minutes the requests of a kind
  that share the digest of an address are admitted at most twice the limit of their kind: 12
  creations, 60 claims and 2400 polls.
\<close>

theorem onboarding_rate_bounded:
  assumes "sorted (map (\<lambda>c. fst (snd c)) cs)"
  shows "charged_in (\<lambda>t. start \<le> t \<and> t < start + 300000000)
      (fst (let_through (onboarding_step sha) (\<lambda>c. fst (snd c)) (\<lambda>c. onboarding_weight sha c (key, kind)) Map.empty cs))
    \<le> (case kind of Rate_create \<Rightarrow> 12 | Rate_claim \<Rightarrow> 60 | Rate_poll \<Rightarrow> 2400)"
proof -
  obtain es l where run: "let_through (onboarding_step sha) (\<lambda>c. fst (snd c)) (\<lambda>c. onboarding_weight sha c (key, kind))
      Map.empty cs = (es, l)" by (rule prod.exhaust)
  have "onboarding_view Map.empty (key, kind) = None" by (simp add: onboarding_view_def)
  from onboarding.span_bound [OF this assms run, of start] run show ?thesis
    by (cases kind) (simp_all add: LIMITS_def)
qed

lemma onboarding_rate_bounded_witness:
  "charged_in (\<lambda>t. 0 \<le> t \<and> t < 0 + 300000000)
      (fst (let_through (onboarding_step (\<lambda>_. replicate 32 0)) (\<lambda>c. fst (snd c))
        (\<lambda>c. onboarding_weight (\<lambda>_. replicate 32 0) c (replicate 32 0, Rate_claim)) Map.empty
        [((''p'', Rate_claim), 1, 1), ((''q'', Rate_claim), 2, 2)])) \<le> 60
   \<and> fst (let_through (onboarding_step (\<lambda>_. replicate 32 0)) (\<lambda>c. fst (snd c))
        (\<lambda>c. onboarding_weight (\<lambda>_. replicate 32 0) c (replicate 32 0, Rate_claim)) Map.empty
        [((''p'', Rate_claim), 1, 1), ((''q'', Rate_claim), 2, 2)]) = [(1, 1), (2, 1)]"
proof
  show "charged_in (\<lambda>t. 0 \<le> t \<and> t < 0 + 300000000)
      (fst (let_through (onboarding_step (\<lambda>_. replicate 32 0)) (\<lambda>c. fst (snd c))
        (\<lambda>c. onboarding_weight (\<lambda>_. replicate 32 0) c (replicate 32 0, Rate_claim)) Map.empty
        [((''p'', Rate_claim), 1, 1), ((''q'', Rate_claim), 2, 2)])) \<le> 60"
    using onboarding_rate_bounded [where kind = Rate_claim and sha = "\<lambda>_. replicate 32 0" and key = "replicate 32 0"
        and cs = "[((''p'', Rate_claim), 1, 1), ((''q'', Rate_claim), 2, 2)]" and start = 0] by simp
qed (simp add: onboarding_step_def consume_onboarding_rate_limit_def onboarding_row_def onboarding_row_ok_def counter_ok_def
      increment_def kind_count_def LIMITS_def onboarding_weight_def Let_def)

end
