(* ===== verification/Reader.thy ===== *)
theory Reader
  imports View_Token Retain
begin

text \<open>
  Reading an office through its public token (public-office/application/public-office-reader.ts):
  the current snapshot and pages of the replay log. The digest of a token is SHA-256, a
  parameter. A page is read in two states of the database: the one in which the token is looked
  up, and the one that the share lock on the office then holds fixed, since everything that
  writes the log or the tokens of an office locks its row for update.
\<close>

section \<open>Capabilities\<close>

record public_capability =
  cp_rawDigest :: byte_string
  cp_formatValid :: bool

definition token_char :: "nat \<Rightarrow> bool" where
  "token_char c \<longleftrightarrow> 65 \<le> c \<and> c \<le> 90 \<or> 97 \<le> c \<and> c \<le> 122 \<or> 48 \<le> c \<and> c \<le> 57 \<or> c = 95 \<or> c = 45"

definition TOKEN_PATTERN :: "js_string \<Rightarrow> bool" where
  "TOKEN_PATTERN s \<longleftrightarrow> 32 \<le> length s \<and> length s \<le> 256 \<and> list_all token_char s"

definition capability_for :: "(byte_string \<Rightarrow> byte_string) \<Rightarrow> js_string \<Rightarrow> public_capability" where
  "capability_for sha256 rawToken =
     \<lparr>cp_rawDigest = sha256 (utf8 rawToken), cp_formatValid = TOKEN_PATTERN rawToken\<rparr>"

definition opening_tokens :: "public_capability \<Rightarrow> timestamp_us \<Rightarrow> db \<Rightarrow> view_token_row list" where
  "opening_tokens capability clock d =
     filter (\<lambda>t. vt_token_hash t = cp_rawDigest capability \<and> cp_formatValid capability \<and> token_live clock t)
       (db_view_tokens d)"

section \<open>Revision cursors\<close>

definition MAX_SAFE_REVISION :: int where
  "MAX_SAFE_REVISION = 9007199254740991"

definition assert_revision :: "int \<Rightarrow> unit tx" where
  "assert_revision value = guard_r (is_safe_integer value \<and> 0 \<le> value \<and> value \<le> MAX_SAFE_REVISION)
     (Failure ''Revision is outside the safe cursor range'')"

definition reader_parse_revision :: "int \<Rightarrow> int tx" where
  "reader_parse_revision value = rbind (assert_revision value) (\<lambda>_. Inr value)"

text \<open>
  The cursor of a request: a header or a query parameter, which may be missing, a string, or,
  when a parameter is repeated, an array (\<open>None\<close> inside).
\<close>

definition canonical_decimal :: "js_string \<Rightarrow> bool" where
  "canonical_decimal s \<longleftrightarrow> s \<noteq> [] \<and> list_all (\<lambda>c. 48 \<le> c \<and> c \<le> 57) s \<and> (hd s = 48 \<longrightarrow> length s = 1)"

definition decimal_value :: "js_string \<Rightarrow> int" where
  "decimal_value s = foldl (\<lambda>n c. 10 * n + (int c - 48)) 0 s"

text \<open>
  \<open>Number\<close> of a digit string is its value when that is a safe integer, and rounds to a number
  that is not safe otherwise.
\<close>

definition parse_public_revision_cursor :: "js_string option option \<Rightarrow> int option tx" where
  "parse_public_revision_cursor value =
     (case value of
        None \<Rightarrow> Inr None
      | Some None \<Rightarrow> Inl (Failure ''Revision cursor must be canonical decimal'')
      | Some (Some s) \<Rightarrow>
          if \<not> canonical_decimal s then Inl (Failure ''Revision cursor must be canonical decimal'')
          else rbind (assert_revision (decimal_value s)) (\<lambda>_. Inr (Some (decimal_value s))))"

section \<open>The current snapshot\<close>

record public_snapshot_record =
  sn_officeId :: uuid
  sn_revision :: int
  sn_minimumReplayRevision :: int
  sn_snapshot :: public_office_snapshot
  sn_canonicalPayload :: byte_string
  sn_capability :: public_capability

definition current_projection :: "db \<Rightarrow> office_row \<Rightarrow> projection_row option" where
  "current_projection d office =
     select_one (\<lambda>p. pj_office_id p = of_id office \<and> pj_revision p = of_revision office) (db_projections d)"

definition snapshot_rows :: "public_capability \<Rightarrow> timestamp_us \<Rightarrow> db \<Rightarrow> (office_row \<times> projection_row) list" where
  "snapshot_rows capability clock d = concat (map (\<lambda>t.
     case lock_office (vt_office_id t) d of None \<Rightarrow> []
     | Some office \<Rightarrow> (case current_projection d office of None \<Rightarrow> [] | Some p \<Rightarrow> [(office, p)]))
     (opening_tokens capability clock d))"

definition get_snapshot ::
  "(byte_string \<Rightarrow> byte_string) \<Rightarrow> timestamp_us \<Rightarrow> js_string \<Rightarrow> db \<Rightarrow> public_snapshot_record option tx" where
  "get_snapshot sha256 clock rawToken d =
     (let capability = capability_for sha256 rawToken in
      case first_row (snapshot_rows capability clock d) of
        None \<Rightarrow> Inr None
      | Some (office, p) \<Rightarrow>
          rbind (reader_parse_revision (of_revision office)) (\<lambda>revision.
          rbind (reader_parse_revision (of_minimum_replay_revision office)) (\<lambda>minimumReplayRevision.
            Inr (Some \<lparr>sn_officeId = of_id office, sn_revision = revision,
              sn_minimumReplayRevision = minimumReplayRevision, sn_snapshot = pj_snapshot_payload p,
              sn_canonicalPayload = pj_canonical_payload p, sn_capability = capability\<rparr>))))"

section \<open>Pages of the log\<close>

record replay_event =
  ev_revision :: int
  ev_canonicalPayload :: byte_string

datatype page_status = Page_ok | Page_not_found | Page_revision_gap

record public_stream_page =
  pg_status :: page_status
  pg_officeId :: "uuid option"
  pg_currentRevision :: "int option"
  pg_minimumReplayRevision :: "int option"
  pg_events :: "replay_event list option"

definition not_found_page :: public_stream_page where
  "not_found_page = \<lparr>pg_status = Page_not_found, pg_officeId = None, pg_currentRevision = None,
     pg_minimumReplayRevision = None, pg_events = None\<rparr>"

definition REPLAY_PAGE_MAX_BYTES :: int where
  "REPLAY_PAGE_MAX_BYTES = 1048576"

definition compare_revisions :: "revision_event_row \<Rightarrow> revision_event_row \<Rightarrow> int" where
  "compare_revisions a b = re_revision a - re_revision b"

definition replay_candidates :: "db \<Rightarrow> uuid \<Rightarrow> int \<Rightarrow> int \<Rightarrow> revision_event_row list" where
  "replay_candidates d officeId cursor limit =
     take (nat limit) (sort_by compare_revisions (filter (\<lambda>e. re_office_id e = officeId \<and> cursor < re_revision e
       \<and> re_projection_format_version e = 1) (db_revision_events d)))"

text \<open>The running sum of the payload lengths; it is null while all payloads were null.\<close>

fun with_cumulative_bytes :: "int option \<Rightarrow> revision_event_row list \<Rightarrow> (revision_event_row \<times> int option) list" where
  "with_cumulative_bytes acc [] = []"
| "with_cumulative_bytes acc (e # es) =
     (let acc' = (case re_canonical_payload e of None \<Rightarrow> acc
                  | Some p \<Rightarrow> Some ((case acc of None \<Rightarrow> 0 | Some n \<Rightarrow> n) + int (length p))) in
      (e, acc') # with_cumulative_bytes acc' es)"

definition replay_page :: "revision_event_row list \<Rightarrow> revision_event_row list" where
  "replay_page candidates =
     map (\<lambda>((e, bytes), ordinal). e) (filter (\<lambda>((e, bytes), ordinal). ordinal = (0::nat)
         \<or> (case bytes of None \<Rightarrow> False | Some n \<Rightarrow> n \<le> REPLAY_PAGE_MAX_BYTES))
       (zip (with_cumulative_bytes None candidates) [0..<length candidates]))"

definition replay_event_of :: "revision_event_row \<Rightarrow> replay_event tx" where
  "replay_event_of row =
     (case re_canonical_payload row of
        None \<Rightarrow> Inl (Failure ''Replayable projection has no canonical payload'')
      | Some payload \<Rightarrow> rbind (reader_parse_revision (re_revision row)) (\<lambda>revision.
          Inr \<lparr>ev_revision = revision, ev_canonicalPayload = payload\<rparr>))"

definition stream_page :: "office_row \<Rightarrow> int \<Rightarrow> int \<Rightarrow> db \<Rightarrow> public_stream_page tx" where
  "stream_page head cursor limit d =
     rbind (reader_parse_revision (of_revision head)) (\<lambda>currentRevision.
     rbind (reader_parse_revision (of_minimum_replay_revision head)) (\<lambda>minimumReplayRevision.
       if cursor < minimumReplayRevision
       then Inr \<lparr>pg_status = Page_revision_gap, pg_officeId = Some (of_id head),
              pg_currentRevision = Some currentRevision,
              pg_minimumReplayRevision = Some minimumReplayRevision, pg_events = None\<rparr>
       else rbind (mapM_r replay_event_of (replay_page (replay_candidates d (of_id head) cursor limit))) (\<lambda>events.
         Inr \<lparr>pg_status = Page_ok, pg_officeId = Some (of_id head), pg_currentRevision = Some currentRevision,
              pg_minimumReplayRevision = Some minimumReplayRevision, pg_events = Some events\<rparr>)))"

text \<open>
  \<open>d0\<close> is the database when the token is looked up, at the first clock, and \<open>d\<close> the one that the
  lock on the office fixes, where the clock is read again.
\<close>

definition acquire_locked_stream_page ::
  "timestamp_us \<Rightarrow> timestamp_us \<Rightarrow> public_capability \<Rightarrow> int \<Rightarrow> int \<Rightarrow> db \<Rightarrow> db \<Rightarrow> public_stream_page tx" where
  "acquire_locked_stream_page clock0 clock capability cursor limit d0 d =
     rbind (assert_revision cursor) (\<lambda>_.
     rbind (guard_r (1 \<le> limit \<and> limit \<le> 1000) (Failure ''Public replay page limit is invalid'')) (\<lambda>_.
       case first_row (filter (\<lambda>t. lock_office (vt_office_id t) d0 \<noteq> None) (opening_tokens capability clock0 d0)) of
         None \<Rightarrow> Inr not_found_page
       | Some candidate \<Rightarrow>
           if lock_office (vt_office_id candidate) d = None then Inr not_found_page
           else (case first_row (filter (\<lambda>(office, p). of_id office = vt_office_id candidate)
                   (snapshot_rows capability clock d)) of
                   None \<Rightarrow> Inr not_found_page
                 | Some (head, _) \<Rightarrow> stream_page head cursor limit d)))"

text \<open>\<open>getStreamPage\<close> acquires the page and releases its lease at once.\<close>

definition get_stream_page ::
  "timestamp_us \<Rightarrow> timestamp_us \<Rightarrow> public_capability \<Rightarrow> int \<Rightarrow> int \<Rightarrow> db \<Rightarrow> db \<Rightarrow> public_stream_page tx" where
  "get_stream_page clock0 clock capability cursor limit d0 d =
     acquire_locked_stream_page clock0 clock capability cursor limit d0 d"

section \<open>The page of a list of candidates\<close>

lemma fst_with_cumulative_bytes: "map fst (with_cumulative_bytes acc es) = es"
  by (induction es arbitrary: acc) (auto simp: Let_def)

definition payload_size :: "revision_event_row \<Rightarrow> int" where
  "payload_size e = (case re_canonical_payload e of None \<Rightarrow> 0 | Some p \<Rightarrow> int (length p))"

lemma length_with_cumulative_bytes [simp]: "length (with_cumulative_bytes acc es) = length es"
  by (metis fst_with_cumulative_bytes length_map)

lemma nth_with_cumulative_bytes:
  assumes "\<forall>e\<in>set es. re_canonical_payload e \<noteq> None" "i < length es"
  shows "with_cumulative_bytes acc es ! i = (es ! i, Some ((case acc of None \<Rightarrow> 0 | Some n \<Rightarrow> n)
    + sum_list (map payload_size (take (Suc i) es))))"
  using assms
proof (induction es arbitrary: acc i)
  case (Cons e es)
  from Cons.prems(1) obtain p where p: "re_canonical_payload e = Some p" by auto
  show ?case
  proof (cases i)
    case 0
    then show ?thesis by (simp add: p payload_size_def Let_def)
  next
    case (Suc j)
    with Cons show ?thesis by (simp add: p payload_size_def Let_def)
  qed
qed simp

lemma sum_payload_mono: "i \<le> j \<Longrightarrow> sum_list (map payload_size (take i es)) \<le> sum_list (map payload_size (take j es))"
proof -
  assume "i \<le> j"
  then have "take j es = take i es @ take (j - i) (drop i es)" by (metis le_add_diff_inverse take_add)
  moreover have "0 \<le> sum_list (map payload_size es')" for es'
    by (induction es') (auto simp: payload_size_def split: option.splits)
  ultimately show ?thesis by simp
qed

lemma filter_takeWhile: "sorted_wrt (\<lambda>a b. P b \<longrightarrow> P a) xs \<Longrightarrow> filter P xs = takeWhile P xs"
  by (induction xs) (auto simp: filter_empty_conv)

lemma replay_page_prefix:
  assumes "\<forall>e\<in>set es. re_canonical_payload e \<noteq> None"
  shows "\<exists>k. replay_page es = take k es \<and> k \<le> length es \<and> (es \<noteq> [] \<longrightarrow> 1 \<le> k)
    \<and> (1 < k \<longrightarrow> sum_list (map payload_size (take k es)) \<le> REPLAY_PAGE_MAX_BYTES)"
proof -
  define P where "P = (\<lambda>((e :: revision_event_row, bytes), ordinal). ordinal = (0::nat)
    \<or> (case bytes of None \<Rightarrow> False | Some n \<Rightarrow> n \<le> REPLAY_PAGE_MAX_BYTES))"
  define zs where "zs = zip (with_cumulative_bytes None es) [0..<length es]"
  have len: "length zs = length es" by (simp add: zs_def)
  have nth: "zs ! i = ((es ! i, Some (sum_list (map payload_size (take (Suc i) es)))), i)" if "i < length es" for i
    using nth_with_cumulative_bytes [OF assms that, of None] that by (simp add: zs_def)
  have sum: "P (zs ! i) \<longleftrightarrow> i = 0 \<or> sum_list (map payload_size (take (Suc i) es)) \<le> REPLAY_PAGE_MAX_BYTES"
    if "i < length es" for i
    using nth [OF that] by (simp add: P_def)
  have "sorted_wrt (\<lambda>a b. P b \<longrightarrow> P a) zs"
    unfolding sorted_wrt_iff_nth_less
  proof (intro allI impI)
    fix i j assume ij: "i < j" "j < length zs" and "P (zs ! j)"
    then have "sum_list (map payload_size (take (Suc j) es)) \<le> REPLAY_PAGE_MAX_BYTES" using sum [of j] len by simp
    with sum_payload_mono [of "Suc i" "Suc j" es] ij have "sum_list (map payload_size (take (Suc i) es)) \<le> REPLAY_PAGE_MAX_BYTES"
      by linarith
    with sum [of i] ij len show "P (zs ! i)" by simp
  qed
  then have fw: "filter P zs = takeWhile P zs" by (rule filter_takeWhile)
  define k where "k = length (takeWhile P zs)"
  have kl: "k \<le> length es" using length_takeWhile_le [of P zs] len by (simp add: k_def)
  have "map (\<lambda>((e, bytes), ordinal). e) zs = map fst (map fst zs)" by (auto simp: split_def)
  also have "\<dots> = es" by (simp add: zs_def fst_with_cumulative_bytes)
  finally have es: "map (\<lambda>((e, bytes), ordinal). e) zs = es" .
  have "replay_page es = map (\<lambda>((e, bytes), ordinal). e) (filter P zs)"
    by (simp only: replay_page_def P_def zs_def)
  also have "filter P zs = take k zs" unfolding fw k_def by (rule takeWhile_eq_take)
  finally have "replay_page es = map (\<lambda>((e, bytes), ordinal). e) (take k zs)" .
  then have "replay_page es = take k es" by (simp only: take_map [symmetric] es)
  moreover have "1 \<le> k" if "es \<noteq> []"
  proof -
    have "0 < length es" using that by simp
    with sum [of 0] have "P (zs ! 0)" "zs \<noteq> []" using len by auto
    then show ?thesis by (cases zs) (auto simp: k_def)
  qed
  moreover have "sum_list (map payload_size (take k es)) \<le> REPLAY_PAGE_MAX_BYTES" if "1 < k"
  proof -
    have "k - 1 < length (takeWhile P zs)" using that by (simp add: k_def)
    then have "P (zs ! (k - 1))" by (metis nth_mem set_takeWhileD takeWhile_nth)
    with sum [of "k - 1"] that kl show ?thesis by simp
  qed
  ultimately show ?thesis using kl by blast
qed

section \<open>Pages of a sound log\<close>

lemma replay_candidates_log:
  assumes ok: "log_ok d oid"
  shows "replay_candidates d oid cursor limit = take (nat limit) (filter (\<lambda>e. cursor < re_revision e) (office_events d oid))"
proof -
  have "filter (\<lambda>e. re_office_id e = oid \<and> cursor < re_revision e \<and> re_projection_format_version e = 1) (db_revision_events d)
      = filter (\<lambda>e. cursor < re_revision e \<and> re_projection_format_version e = 1) (office_events d oid)"
    by (auto simp: office_events_def intro: filter_cong)
  also have "\<dots> = filter (\<lambda>e. cursor < re_revision e) (office_events d oid)"
    using ok by (intro filter_cong) (auto simp: log_ok_def event_sound_def)
  finally have f: "filter (\<lambda>e. re_office_id e = oid \<and> cursor < re_revision e \<and> re_projection_format_version e = 1)
      (db_revision_events d) = filter (\<lambda>e. cursor < re_revision e) (office_events d oid)" .
  have "sorted (map re_revision (office_events d oid))"
    by (simp add: office_log.contiguous [OF ok])
  then have "sorted_wrt (\<lambda>a b. compare_revisions a b \<le> 0) (office_events d oid)"
    by (simp add: sorted_map compare_revisions_def)
  then have "sorted_wrt (\<lambda>a b. compare_revisions a b \<le> 0) (filter (\<lambda>e. cursor < re_revision e) (office_events d oid))"
    by (rule sorted_wrt_filter)
  then show ?thesis unfolding replay_candidates_def f by (simp add: sort_by_sorted)
qed

text \<open>
  What a page holds: consecutive revisions after the cursor, each with the canonical bytes of
  the snapshot of its event, some if there is any, at most the limit, and within the byte bound
  unless it is a single one.
\<close>

definition event_of :: "revision_event_row \<Rightarrow> replay_event \<Rightarrow> bool" where
  "event_of e ev \<longleftrightarrow> ev_revision ev = re_revision e \<and> ps_office_revision (re_public_payload e) = re_revision e
     \<and> ev_canonicalPayload ev = canonical_bytes (snapshot_json (re_public_payload e))"

definition page_bytes :: "replay_event list \<Rightarrow> int" where
  "page_bytes evs = sum_list (map (\<lambda>ev. int (length (ev_canonicalPayload ev))) evs)"

definition served :: "db \<Rightarrow> uuid \<Rightarrow> int \<Rightarrow> int \<Rightarrow> replay_event list \<Rightarrow> bool" where
  "served d oid cursor limit evs \<longleftrightarrow>
     map ev_revision evs = [cursor + 1..cursor + int (length evs)]
     \<and> int (length evs) \<le> limit \<and> (evs \<noteq> [] \<longrightarrow> cursor + int (length evs) \<le> log_head d oid)
     \<and> (cursor < log_head d oid \<longrightarrow> evs \<noteq> [])
     \<and> (\<forall>ev\<in>set evs. \<exists>e\<in>set (office_events d oid). event_of e ev)
     \<and> (1 < length evs \<longrightarrow> page_bytes evs \<le> REPLAY_PAGE_MAX_BYTES)"

lemma replay_event_of_sound:
  assumes "event_sound e" "0 \<le> re_revision e" "re_revision e \<le> MAX_SAFE_INTEGER"
  shows "\<exists>ev. replay_event_of e = Inr ev \<and> event_of e ev \<and> int (length (ev_canonicalPayload ev)) = payload_size e"
proof -
  have "assert_revision (re_revision e) = Inr ()"
    using assms(2,3) by (simp add: assert_revision_def is_safe_integer_def MAX_SAFE_INTEGER_def MAX_SAFE_REVISION_def)
  then show ?thesis
    using assms(1) by (simp add: replay_event_of_def event_sound_def reader_parse_revision_def event_of_def payload_size_def)
qed

lemma mapM_replay_events:
  assumes "\<forall>e\<in>set es. event_sound e \<and> 0 \<le> re_revision e \<and> re_revision e \<le> MAX_SAFE_INTEGER"
  shows "\<exists>evs. mapM_r replay_event_of es = Inr evs \<and> list_all2 event_of es evs
    \<and> page_bytes evs = sum_list (map payload_size es)"
  using assms
proof (induction es)
  case (Cons e es)
  then obtain evs where evs: "mapM_r replay_event_of es = Inr evs" "list_all2 event_of es evs"
    "page_bytes evs = sum_list (map payload_size es)" by auto
  from Cons.prems obtain ev where "replay_event_of e = Inr ev" "event_of e ev"
    "int (length (ev_canonicalPayload ev)) = payload_size e"
    using replay_event_of_sound by (metis list.set_intros(1))
  with evs show ?case by (simp add: page_bytes_def)
qed (simp add: page_bytes_def)

lemma log_replay_served:
  assumes ok: "log_ok d oid" and floor: "log_floor d oid \<le> cursor" and limit: "1 \<le> limit"
  shows "\<exists>evs. mapM_r replay_event_of (replay_page (replay_candidates d oid cursor limit)) = Inr evs
    \<and> served d oid cursor limit evs"
proof -
  let ?all = "filter (\<lambda>e. cursor < re_revision e) (office_events d oid)"
  define es where "es = take (nat limit) ?all"
  have cand: "replay_candidates d oid cursor limit = es" by (simp add: replay_candidates_log [OF ok] es_def)
  have revs: "map re_revision ?all = [cursor + 1..log_head d oid]" by (rule office_log.replay_after [OF ok floor])
  have sub: "set es \<subseteq> set (office_events d oid)" by (auto simp: es_def dest: in_set_takeD)
  have bounds: "0 \<le> log_floor d oid" "log_head d oid \<le> MAX_SAFE_INTEGER" using ok by (simp_all add: log_ok_def)
  have sound: "\<forall>e\<in>set es. event_sound e \<and> 0 \<le> re_revision e \<and> re_revision e \<le> MAX_SAFE_INTEGER"
    using sub ok office_log.revision_range [OF ok] bounds by (force simp: log_ok_def)
  then have "\<forall>e\<in>set es. re_canonical_payload e \<noteq> None" by (auto simp: event_sound_def)
  from replay_page_prefix [OF this] obtain k where k: "replay_page es = take k es" "k \<le> length es"
    "es \<noteq> [] \<longrightarrow> 1 \<le> k" "1 < k \<longrightarrow> sum_list (map payload_size (take k es)) \<le> REPLAY_PAGE_MAX_BYTES" by blast
  have "\<forall>e\<in>set (take k es). event_sound e \<and> 0 \<le> re_revision e \<and> re_revision e \<le> MAX_SAFE_INTEGER"
    using sound by (auto dest: in_set_takeD)
  from mapM_replay_events [OF this] obtain evs where
    evs: "mapM_r replay_event_of (take k es) = Inr evs" "list_all2 event_of (take k es) evs"
      "page_bytes evs = sum_list (map payload_size (take k es))" by blast
  have len: "length evs = k" using list_all2_lengthD [OF evs(2)] k(2) by simp
  have "k \<le> nat limit" using k(2) by (simp add: es_def)
  then have take: "take k es = take k ?all" by (simp add: es_def min_absorb1)
  have "map ev_revision evs = map re_revision (take k es)"
    using evs(2) by (induction rule: list_all2_induct) (simp_all add: event_of_def)
  also have "\<dots> = take k [cursor + 1..log_head d oid]"
    unfolding take take_map [symmetric] revs ..
  also have "\<dots> = [cursor + 1..cursor + int k]"
  proof (rule nth_equalityI)
    have "k \<le> length [cursor + 1..log_head d oid]" using k(2) by (simp add: es_def revs [symmetric])
    then show "length (take k [cursor + 1..log_head d oid]) = length [cursor + 1..cursor + int k]" by simp
    fix i assume "i < length (take k [cursor + 1..log_head d oid])"
    then have "i < k" "cursor + 1 + int i \<le> log_head d oid" by auto
    then show "take k [cursor + 1..log_head d oid] ! i = [cursor + 1..cursor + int k] ! i" by (simp add: nth_upto)
  qed
  finally have r: "map ev_revision evs = [cursor + 1..cursor + int (length evs)]" by (simp add: len)
  have lall: "length ?all = nat (log_head d oid - cursor)"
    using arg_cong [OF revs, of length] by simp
  have lim: "int (length evs) \<le> limit" using \<open>k \<le> nat limit\<close> limit by (simp add: len)
  have head: "evs \<noteq> [] \<longrightarrow> cursor + int (length evs) \<le> log_head d oid"
  proof
    assume "evs \<noteq> []"
    then have "0 < k" using len by (cases evs) auto
    moreover have "k \<le> nat (log_head d oid - cursor)" using k(2) lall by (simp add: es_def)
    ultimately show "cursor + int (length evs) \<le> log_head d oid" by (simp add: len)
  qed
  have some: "cursor < log_head d oid \<longrightarrow> evs \<noteq> []"
  proof
    assume "cursor < log_head d oid"
    then have "0 < length es" using lall limit by (simp add: es_def)
    then have "1 \<le> k" using k(3) by auto
    then show "evs \<noteq> []" using len by auto
  qed
  have mem: "\<forall>ev\<in>set evs. \<exists>e\<in>set (office_events d oid). event_of e ev"
  proof
    fix ev assume "ev \<in> set evs"
    then obtain i where "i < length evs" "ev = evs ! i" by (auto simp: in_set_conv_nth)
    with evs(2) len k(2) have "event_of (es ! i) ev" "es ! i \<in> set es"
      by (simp_all add: list_all2_conv_all_nth)
    with sub show "\<exists>e\<in>set (office_events d oid). event_of e ev" by blast
  qed
  have "served d oid cursor limit evs"
    using r lim head some mem k(4) evs(3) len by (simp add: served_def)
  with evs(1) k(1) cand show ?thesis by auto
qed

lemma locked_office:
  assumes "lock_office oid d = Some office" "log_ok d oid"
  shows "of_id office = oid" "office_rows d oid = [office]" "of_revision office = log_head d oid"
    "of_minimum_replay_revision office = log_floor d oid"
proof -
  from assms(2) obtain x where x: "office_rows d oid = [x]" by (auto simp: log_ok_def length_Suc_conv)
  from assms(1) have "of_id office = oid" "office \<in> set (db_offices d)"
    by (auto simp: lock_office_def dest: select_one_SomeD)
  then have "office \<in> set (office_rows d oid)" by (simp add: office_rows_def)
  with x have "office_rows d oid = [office]" by simp
  then show "of_id office = oid" "office_rows d oid = [office]" "of_revision office = log_head d oid"
    "of_minimum_replay_revision office = log_floor d oid"
    using \<open>of_id office = oid\<close> by (simp_all add: log_head_def log_floor_def)
qed

lemma lock_office_log: "lock_office oid d = Some office \<Longrightarrow> logs_ok d \<Longrightarrow> log_ok d oid"
  by (fastforce simp: lock_office_def logs_ok_def dest: select_one_SomeD)

lemma lock_office_id: "lock_office oid d = Some office \<Longrightarrow> of_id office = oid"
  by (auto simp: lock_office_def dest: select_one_SomeD)

lemma snapshot_rowsE:
  assumes "(office, p) \<in> set (snapshot_rows capability clock d)"
  obtains t where "t \<in> set (opening_tokens capability clock d)" "lock_office (vt_office_id t) d = Some office"
    "of_id office = vt_office_id t" "p \<in> set (projection_rows d (of_id office))" "pj_revision p = of_revision office"
proof -
  from assms obtain t where t: "t \<in> set (opening_tokens capability clock d)"
    "lock_office (vt_office_id t) d = Some office" "current_projection d office = Some p"
    by (auto simp: snapshot_rows_def split: option.splits)
  from t(3) have "p \<in> set (projection_rows d (of_id office))" "pj_revision p = of_revision office"
    by (auto simp: current_projection_def projection_rows_def dest: select_one_SomeD)
  with t(1,2) lock_office_id [OF t(2)] show thesis by (rule that)
qed

text \<open>How a page reflects the log it was read from.\<close>

definition page_reads :: "db \<Rightarrow> int \<Rightarrow> int \<Rightarrow> public_stream_page \<Rightarrow> bool" where
  "page_reads d cursor limit page \<longleftrightarrow> page = not_found_page
     \<or> (\<exists>oid. log_ok d oid \<and> cursor < log_floor d oid
          \<and> page = \<lparr>pg_status = Page_revision_gap, pg_officeId = Some oid, pg_currentRevision = Some (log_head d oid),
              pg_minimumReplayRevision = Some (log_floor d oid), pg_events = None\<rparr>)
     \<or> (\<exists>oid evs. log_ok d oid \<and> log_floor d oid \<le> cursor \<and> served d oid cursor limit evs
          \<and> page = \<lparr>pg_status = Page_ok, pg_officeId = Some oid, pg_currentRevision = Some (log_head d oid),
              pg_minimumReplayRevision = Some (log_floor d oid), pg_events = Some evs\<rparr>)"

lemma parse_log_revision: "log_ok d oid \<Longrightarrow> reader_parse_revision (log_head d oid) = Inr (log_head d oid)"
    "log_ok d oid \<Longrightarrow> reader_parse_revision (log_floor d oid) = Inr (log_floor d oid)"
  by (auto simp: log_ok_def reader_parse_revision_def assert_revision_def is_safe_integer_def
      MAX_SAFE_INTEGER_def MAX_SAFE_REVISION_def)

lemma stream_page_reads:
  assumes "lock_office oid d = Some head" "logs_ok d" "1 \<le> limit"
  shows "\<exists>page. stream_page head cursor limit d = Inr page \<and> page_reads d cursor limit page"
proof -
  have log: "log_ok d oid" by (rule lock_office_log [OF assms(1,2)])
  note h = locked_office [OF assms(1) log]
  show ?thesis
  proof (cases "cursor < log_floor d oid")
    case True
    then show ?thesis using log by (auto simp: stream_page_def h parse_log_revision page_reads_def)
  next
    case False
    with log_replay_served [OF log _ assms(3), of cursor] obtain evs where
      "mapM_r replay_event_of (replay_page (replay_candidates d oid cursor limit)) = Inr evs"
      "served d oid cursor limit evs" by auto
    then show ?thesis using False log by (auto simp: stream_page_def h parse_log_revision page_reads_def)
  qed
qed

lemma acquire_reads:
  assumes "logs_ok d" "0 \<le> cursor" "cursor \<le> MAX_SAFE_REVISION" "1 \<le> limit" "limit \<le> 1000"
  shows "\<exists>page. acquire_locked_stream_page clock0 clock capability cursor limit d0 d = Inr page
    \<and> page_reads d cursor limit page"
proof -
  have c: "assert_revision cursor = Inr ()"
    using assms(2,3) by (simp add: assert_revision_def is_safe_integer_def MAX_SAFE_REVISION_def MAX_SAFE_INTEGER_def)
  have "\<exists>page. (case first_row (filter (\<lambda>(office, p). of_id office = oid) (snapshot_rows capability clock d)) of
      None \<Rightarrow> Inr not_found_page | Some (head, _) \<Rightarrow> stream_page head cursor limit d) = Inr page
    \<and> page_reads d cursor limit page" for oid
  proof (cases "filter (\<lambda>(office, p). of_id office = oid) (snapshot_rows capability clock d)")
    case Nil
    then show ?thesis by (simp add: page_reads_def)
  next
    case (Cons hp rows)
    obtain head p where hp: "hp = (head, p)" by (cases hp)
    have "(head, p) \<in> set (snapshot_rows capability clock d)" using Cons hp by (auto dest: filter_eq_ConsD)
    then obtain t :: view_token_row where "lock_office (vt_office_id t) d = Some head" by (rule snapshot_rowsE)
    from stream_page_reads [OF this assms(1,4), of cursor] show ?thesis by (simp add: Cons hp)
  qed
  then show ?thesis
    using assms(4,5) c by (simp add: acquire_locked_stream_page_def page_reads_def split: option.splits)
qed

section \<open>Properties\<close>

text \<open>
  C19: Replay pages have no holes. On sound logs every page request with a legal cursor and limit
  succeeds; it says not found, or reports the replay floor above the cursor, or it returns
  consecutive revisions starting right after the cursor, at least one while the office is ahead
  of it, never more than the limit or the byte bound allow, and each with the canonical bytes of
  the snapshot of exactly that revision.
\<close>

theorem replay_pages_contiguous:
  assumes "logs_ok d" "0 \<le> cursor" "cursor \<le> MAX_SAFE_REVISION" "1 \<le> limit" "limit \<le> 1000"
  shows "\<exists>page. acquire_locked_stream_page clock0 clock capability cursor limit d0 d = Inr page
    \<and> (page = not_found_page
       \<or> (\<exists>oid. pg_status page = Page_revision_gap \<and> pg_currentRevision page = Some (log_head d oid)
            \<and> pg_minimumReplayRevision page = Some (log_floor d oid) \<and> cursor < log_floor d oid)
       \<or> (\<exists>oid evs. pg_status page = Page_ok \<and> pg_officeId page = Some oid
            \<and> pg_currentRevision page = Some (log_head d oid) \<and> pg_events page = Some evs
            \<and> log_floor d oid \<le> cursor \<and> map ev_revision evs = [cursor + 1..cursor + int (length evs)]
            \<and> int (length evs) \<le> limit \<and> (cursor < log_head d oid \<longrightarrow> evs \<noteq> [])
            \<and> (1 < length evs \<longrightarrow> page_bytes evs \<le> REPLAY_PAGE_MAX_BYTES)
            \<and> (\<forall>ev\<in>set evs. \<exists>e\<in>set (office_events d oid). re_revision e = ev_revision ev
                 \<and> ev_canonicalPayload ev = canonical_bytes (snapshot_json (re_public_payload e)))))"
proof -
  from acquire_reads [OF assms, of clock0 clock capability d0] obtain page where
    p: "acquire_locked_stream_page clock0 clock capability cursor limit d0 d = Inr page" "page_reads d cursor limit page"
    by blast
  from p(2) show ?thesis
    unfolding p(1) page_reads_def served_def event_of_def by (intro exI [of _ page]) fastforce
qed

definition sample_token :: view_token_row where
  "sample_token = \<lparr>vt_id = ''t'', vt_office_id = ''f'', vt_token_hash = replicate 32 1, vt_created_at = 0,
     vt_expires_at = None, vt_revoked_at = None\<rparr>"

definition sample_sha :: "byte_string \<Rightarrow> byte_string" where
  "sample_sha bytes = take 31 (bytes @ replicate 31 0) @ [hd (bytes @ [0])]"

definition sample_public_db :: db where
  "sample_public_db = sample_log_db\<lparr>db_view_tokens := [sample_token]\<rparr>"

lemma sample_public_ok: "logs_ok sample_public_db" "tokens_ok sample_public_db"
proof -
  have "log_ok sample_public_db oid = log_ok sample_log_db oid" for oid
    by (rule log_cong) (simp_all add: sample_public_db_def office_rows_def office_events_def projection_rows_def)
  then show "logs_ok sample_public_db"
    using sample_log_logs_ok by (simp add: logs_ok_def outbox_ok_def sample_public_db_def)
  show "tokens_ok sample_public_db"
    by (auto simp: tokens_ok_def sample_public_db_def sample_token_def token_constraints_def row_count_def)
qed

definition sample_capability :: public_capability where
  "sample_capability = \<lparr>cp_rawDigest = replicate 32 1, cp_formatValid = True\<rparr>"

lemma sample_head: "log_head sample_public_db ''f'' = 3" "log_floor sample_public_db ''f'' = 0"
  by (simp_all add: log_head_def log_floor_def office_rows_def sample_public_db_def sample_log_db_def Let_def empty_db_def)

lemma replay_pages_contiguous_witness:
  "\<exists>page. acquire_locked_stream_page 0 0 sample_capability 1 100 sample_public_db sample_public_db = Inr page
    \<and> page_reads sample_public_db 1 100 page"
  using acquire_reads [OF sample_public_ok(1), of 1 100] replay_pages_contiguous [OF sample_public_ok(1), of 1 100]
  by (fastforce simp: MAX_SAFE_REVISION_def)

lemma last_event_revision:
  assumes "log_ok d oid" "office_events d oid \<noteq> []"
  shows "re_revision (last (office_events d oid)) = log_head d oid"
proof -
  have ne: "[log_floor d oid + 1..log_head d oid] \<noteq> []"
    using assms(2) office_log.contiguous [OF assms(1)] by (metis list.map_disc_iff)
  have "re_revision (last (office_events d oid)) = last (map re_revision (office_events d oid))"
    using assms(2) by (simp add: last_map)
  also have "\<dots> = last [log_floor d oid + 1..log_head d oid]" by (simp add: office_log.contiguous [OF assms(1)])
  also have "\<dots> = log_head d oid" using ne by (simp add: upto_rec2)
  finally show ?thesis .
qed

lemma snapshot_is_head:
  assumes "get_snapshot sha256 clock rawToken d = Inr (Some r)" "logs_ok d"
  shows "sn_revision r = log_head d (sn_officeId r)
    \<and> sn_minimumReplayRevision r = log_floor d (sn_officeId r)
    \<and> office_events d (sn_officeId r) \<noteq> []
    \<and> sn_snapshot r = re_public_payload (last (office_events d (sn_officeId r)))
    \<and> ps_office_revision (sn_snapshot r) = sn_revision r
    \<and> sn_canonicalPayload r = canonical_bytes (snapshot_json (sn_snapshot r))"
proof -
  from assms(1) obtain office p where first: "first_row (snapshot_rows (capability_for sha256 rawToken) clock d) = Some (office, p)"
    and r: "sn_officeId r = of_id office" "sn_revision r = of_revision office"
      "sn_minimumReplayRevision r = of_minimum_replay_revision office" "sn_snapshot r = pj_snapshot_payload p"
      "sn_canonicalPayload r = pj_canonical_payload p"
    by (auto simp: get_snapshot_def Let_def result_simps reader_parse_revision_def split: option.splits)
  have row: "(office, p) \<in> set (snapshot_rows (capability_for sha256 rawToken) clock d)" by (rule first_row_in [OF first])
  from row obtain t where t: "lock_office (vt_office_id t) d = Some office" "of_id office = vt_office_id (t :: view_token_row)"
    "p \<in> set (projection_rows d (of_id office))" by (rule snapshot_rowsE) blast
  have log: "log_ok d (of_id office)" using lock_office_log [OF t(1) assms(2)] t(2) by simp
  note h = locked_office [OF t(1) log [unfolded t(2)]]
  from t(3) log have ne: "office_events d (of_id office) \<noteq> []" and pj: "projects p (last (office_events d (of_id office)))"
    by (auto simp: log_ok_def split: if_splits)
  have "event_sound (last (office_events d (of_id office)))" using log ne by (auto simp: log_ok_def)
  moreover have "re_revision (last (office_events d (of_id office))) = log_head d (of_id office)"
    by (rule last_event_revision [OF log ne])
  ultimately show ?thesis using pj ne h r t(2) by (auto simp: projects_def event_sound_def)
qed

text \<open>
  The public snapshot is the head of the log. What a token reads is the projection of its
  office's current revision, the very snapshot of the newest event, with its canonical bytes.
\<close>

theorem public_snapshot_is_current:
  assumes "get_snapshot sha256 clock rawToken d = Inr (Some r)" "logs_ok d"
  shows "sn_revision r = log_head d (sn_officeId r)
    \<and> sn_minimumReplayRevision r = log_floor d (sn_officeId r)
    \<and> office_events d (sn_officeId r) \<noteq> []
    \<and> sn_snapshot r = re_public_payload (last (office_events d (sn_officeId r)))
    \<and> ps_office_revision (sn_snapshot r) = sn_revision r
    \<and> sn_canonicalPayload r = canonical_bytes (snapshot_json (sn_snapshot r))"
  using assms by (rule snapshot_is_head)

lemma get_snapshot_row:
  assumes "logs_ok d" "tokens_ok d" and t: "t \<in> set (opening_tokens (capability_for sha256 raw) clock d)"
    and office: "lock_office (vt_office_id t) d = Some office" and ne: "office_events d (vt_office_id t) \<noteq> []"
  shows "\<exists>r. get_snapshot sha256 clock raw d = Inr (Some r) \<and> sn_officeId r = vt_office_id t"
proof -
  let ?tokens = "opening_tokens (capability_for sha256 raw) clock d"
  have log: "log_ok d (vt_office_id t)" by (rule lock_office_log [OF office assms(1)])
  note h = locked_office [OF office log]
  have "distinct (map vt_token_hash (db_view_tokens d))" using assms(2) by (simp add: tokens_ok_def)
  from at_most_one_row [OF this, of "cp_rawDigest (capability_for sha256 raw)"]
  moreover have "?tokens = filter (\<lambda>t. cp_formatValid (capability_for sha256 raw) \<and> token_live clock t)
      (filter (\<lambda>t. vt_token_hash t = cp_rawDigest (capability_for sha256 raw)) (db_view_tokens d))"
    by (simp add: opening_tokens_def conj_commute)
  ultimately have "length ?tokens \<le> 1" by (metis length_filter_le order_trans)
  with t have ts: "?tokens = [t]" by (cases ?tokens) auto
  from log ne obtain p where p: "projection_rows d (vt_office_id t) = [p]" "projects p (last (office_events d (vt_office_id t)))"
    by (auto simp: log_ok_def)
  have "select_one (\<lambda>p. pj_revision p = of_revision office) (projection_rows d (vt_office_id t)) = Some p"
    using p last_event_revision [OF log ne] h by (simp add: projects_def)
  then have "current_projection d office = Some p"
    by (simp add: current_projection_def select_one_def projection_rows_def h(1) conj_commute)
  then have "first_row (snapshot_rows (capability_for sha256 raw) clock d) = Some (office, p)"
    by (simp add: snapshot_rows_def ts office)
  then show ?thesis
    using log by (simp add: get_snapshot_def h parse_log_revision)
qed

lemma snapshot_office_token:
  assumes "get_snapshot sha256 clock raw d = Inr (Some r)"
  shows "\<exists>t. t \<in> set (db_view_tokens d) \<and> unrevoked (sn_officeId r) t \<and> vt_token_hash t = sha256 (utf8 raw)
    \<and> token_live clock t \<and> TOKEN_PATTERN raw \<and> lock_office (sn_officeId r) d \<noteq> None"
proof -
  from assms obtain office p where first: "first_row (snapshot_rows (capability_for sha256 raw) clock d) = Some (office, p)"
    and r: "sn_officeId r = of_id office"
    by (auto simp: get_snapshot_def Let_def result_simps reader_parse_revision_def split: option.splits)
  from first_row_in [OF first] obtain t where "t \<in> set (opening_tokens (capability_for sha256 raw) clock d)"
    "of_id office = vt_office_id t" "lock_office (vt_office_id t) d = Some office" by (rule snapshot_rowsE)
  then show ?thesis
    by (intro exI [of _ t]) (auto simp: opening_tokens_def r unrevoked_def token_live_def capability_for_def)
qed

lemma page_office_token:
  assumes "acquire_locked_stream_page clock0 clock capability cursor limit d0 d = Inr page" "pg_officeId page = Some oid"
  shows "\<exists>t. t \<in> set (db_view_tokens d) \<and> unrevoked oid t \<and> vt_token_hash t = cp_rawDigest capability \<and> token_live clock t
    \<and> lock_office oid d \<noteq> None"
proof -
  from assms obtain candidate head p where
    f: "first_row (filter (\<lambda>(office, p). of_id office = vt_office_id (candidate :: view_token_row))
        (snapshot_rows capability clock d)) = Some (head, p)" and "pg_officeId page = Some (of_id head)"
    by (auto simp: acquire_locked_stream_page_def not_found_page_def stream_page_def result_simps
        split: option.splits if_splits)
  with assms(2) have "of_id head = oid" by simp
  from first_row_in [OF f] have "(head, p) \<in> set (snapshot_rows capability clock d)" by simp
  then obtain t where "t \<in> set (opening_tokens capability clock d)" "of_id head = vt_office_id t"
    "lock_office (vt_office_id t) d = Some head" by (rule snapshot_rowsE)
  then show ?thesis
    using \<open>of_id head = oid\<close> by (intro exI [of _ t]) (auto simp: opening_tokens_def unrevoked_def token_live_def)
qed

text \<open>
  C20: Rotating the token of an office replaces its capability. Afterwards nothing but the new
  token, or one with its digest, opens the office, and only until the new one expires; the new
  token does read the office's current revision while it is live, given that an event is
  retained.
\<close>

theorem rotation_replaces_capability:
  assumes rot: "rotate_public_view_token env officeId changedAt expiresAt d = Inr (Some rv, e)"
    and ok: "tokens_ok d" "logs_ok d"
  shows "(\<forall>raw clock r. get_snapshot (tk_sha256 env) clock raw e = Inr (Some r) \<and> sn_officeId r = officeId \<longrightarrow>
      tk_sha256 env (utf8 raw) = tk_sha256 env (utf8 (rv_rawToken rv))
      \<and> (\<forall>x. rv_expiresAt rv = Some x \<longrightarrow> clock < to_timestamp x))
    \<and> (\<forall>clock. TOKEN_PATTERN (rv_rawToken rv) \<and> (\<forall>x. rv_expiresAt rv = Some x \<longrightarrow> clock < to_timestamp x)
        \<and> office_events d officeId \<noteq> [] \<longrightarrow>
        (\<exists>r. get_snapshot (tk_sha256 env) clock (rv_rawToken rv) e = Inr (Some r) \<and> sn_officeId r = officeId
           \<and> sn_revision r = log_head d officeId))"
proof (intro conjI allI impI)
  note tab = rotate_table [OF rot ok(1)]
  let ?t = "fresh_token env officeId (the changedAt) (rv_expiresAt rv)"
  have only: "t = ?t" if "t \<in> set (db_view_tokens e)" "unrevoked officeId t" for t
  proof -
    have "t \<in> set (filter (unrevoked officeId) (db_view_tokens e))" using that by simp
    then show ?thesis by (simp add: tab(2))
  qed
  {
    fix raw clock r
    assume "get_snapshot (tk_sha256 env) clock raw e = Inr (Some r) \<and> sn_officeId r = officeId"
    with snapshot_office_token [of "tk_sha256 env" clock raw e r] obtain t where
      t: "t \<in> set (db_view_tokens e)" "unrevoked officeId t" "vt_token_hash t = tk_sha256 env (utf8 raw)" "token_live clock t"
      by auto
    with only [OF t(1,2)] have "vt_token_hash ?t = tk_sha256 env (utf8 raw)" "token_live clock ?t" by simp_all
    then show "tk_sha256 env (utf8 raw) = tk_sha256 env (utf8 (rv_rawToken rv))"
      "\<And>x. rv_expiresAt rv = Some x \<Longrightarrow> clock < to_timestamp x"
      by (auto simp: fresh_token_def tab(4) token_live_def)
  }
  fix clock
  assume a: "TOKEN_PATTERN (rv_rawToken rv) \<and> (\<forall>x. rv_expiresAt rv = Some x \<longrightarrow> clock < to_timestamp x)
        \<and> office_events d officeId \<noteq> []"
  note shape = rotate_shape [OF rot]
  have loge: "logs_ok e" using tokens_same_log(1) [OF shape] ok(2) by (simp add: db_evolves_def)
  note same = tokens_same_log(2) [OF shape]
  from rot obtain office where office: "lock_office officeId d = Some office"
    by (cases rule: rotate_cases) auto
  have officee: "lock_office officeId e = Some office"
    using office by (subst shape) (simp add: lock_office_def)
  have "?t \<in> set (filter (unrevoked officeId) (db_view_tokens e))" by (simp add: tab(2))
  then have "?t \<in> set (opening_tokens (capability_for (tk_sha256 env) (rv_rawToken rv)) clock e)"
    using a by (auto simp: opening_tokens_def capability_for_def fresh_token_def tab(4) token_live_def split: option.splits)
  moreover have t: "vt_office_id ?t = officeId" by (simp add: fresh_token_def)
  moreover have "office_events e officeId \<noteq> []" using a same by (simp add: same_log_def)
  ultimately obtain r where r: "get_snapshot (tk_sha256 env) clock (rv_rawToken rv) e = Inr (Some r)" "sn_officeId r = officeId"
    using get_snapshot_row [OF loge tab(1), of ?t "tk_sha256 env" "rv_rawToken rv" clock office] officee by auto
  have "sn_revision r = log_head e officeId"
    using snapshot_is_head [OF r(1) loge] r(2) by simp
  then show "\<exists>r. get_snapshot (tk_sha256 env) clock (rv_rawToken rv) e = Inr (Some r) \<and> sn_officeId r = officeId
           \<and> sn_revision r = log_head d officeId"
    using r same_log_ok(3) [OF same] by auto
qed

text \<open>
  C21: Revoking closes the office. From then on no token, at no instant, reads its snapshot or any
  page of its log, not even one that was looked up before the revocation.
\<close>

theorem revocation_closes_office:
  assumes "revoke_public_view_token officeId changedAt d = Inr (b, e)"
  shows "(\<forall>sha256 clock raw r. get_snapshot sha256 clock raw e = Inr (Some r) \<longrightarrow> sn_officeId r \<noteq> officeId)
    \<and> (\<forall>clock0 clock capability cursor limit d0 page.
        acquire_locked_stream_page clock0 clock capability cursor limit d0 e = Inr page \<longrightarrow> pg_officeId page \<noteq> Some officeId)"
proof (intro conjI allI impI notI)
  have closed: False if "t \<in> set (db_view_tokens e)" "unrevoked officeId t" "lock_office officeId e \<noteq> None" for t
  proof (cases "lock_office officeId d")
    case None
    with assms have "e = d" by (auto simp: revoke_public_view_token_def result_simps)
    with None that(3) show False by simp
  next
    case (Some office)
    then have "filter (unrevoked officeId) (db_view_tokens e) = []" using revoke_table(1) [OF assms] by simp
    with that(1,2) show False by (auto simp: filter_empty_conv)
  qed
  show False if "get_snapshot sha256 clock raw e = Inr (Some r)" "sn_officeId r = officeId" for sha256 clock raw r
    using snapshot_office_token [OF that(1)] that(2) closed by blast
  show False if "acquire_locked_stream_page clock0 clock capability cursor limit d0 e = Inr page"
    "pg_officeId page = Some officeId" for clock0 clock capability cursor limit d0 page
    using page_office_token [OF that] closed by blast
qed

definition sample_token_env :: token_env where
  "sample_token_env = \<lparr>tk_raw_token = replicate 43 65, tk_sha256 = sample_sha, tk_id = ''u''\<rparr>"

lemma sample_rotation:
  "\<exists>e. rotate_public_view_token sample_token_env ''f'' (Some 5) None sample_public_db
    = Inr (Some \<lparr>rv_rawToken = replicate 43 65, rv_expiresAt = None\<rparr>, e)"
proof -
  have "utf8 (replicate 43 65) = replicate 43 65" by (rule utf8_ascii) simp
  then have sha: "sample_sha (utf8 (replicate 43 65)) = replicate 32 65"
    by (simp add: sample_sha_def) (simp add: numeral_eq_Suc)
  then show ?thesis
    by (simp add: rotate_public_view_token_def assert_token_dates_def lock_office_def insert_view_token_def
        revoke_tokens_def sample_public_db_def sample_log_db_def Let_def empty_db_def sample_token_env_def
        fresh_token_def token_constraints_def update_where_Cons update_where_Nil unrevoked_def sample_token_def)
qed

lemma rotation_replaces_capability_witness:
  "\<exists>e r. rotate_public_view_token sample_token_env ''f'' (Some 5) None sample_public_db
      = Inr (Some \<lparr>rv_rawToken = replicate 43 65, rv_expiresAt = None\<rparr>, e)
    \<and> get_snapshot sample_sha 9000000 (replicate 43 65) e = Inr (Some r) \<and> sn_revision r = 3"
proof -
  from sample_rotation obtain e where rot: "rotate_public_view_token sample_token_env ''f'' (Some 5) None sample_public_db
      = Inr (Some \<lparr>rv_rawToken = replicate 43 65, rv_expiresAt = None\<rparr>, e)" by blast
  have "TOKEN_PATTERN (replicate 43 65)" by (simp add: TOKEN_PATTERN_def token_char_def numeral_eq_Suc)
  moreover have "office_events sample_public_db ''f'' \<noteq> []"
    by (simp add: office_events_def sample_public_db_def sample_log_db_def Let_def published_event_def)
  moreover have "tk_sha256 sample_token_env = sample_sha" by (simp add: sample_token_env_def)
  ultimately show ?thesis
    using rotation_replaces_capability [OF rot sample_public_ok(2,1)] rot by (fastforce simp: sample_head)
qed

lemma revocation_closes_office_witness:
  "\<exists>e. revoke_public_view_token ''f'' (Some 5) sample_public_db = Inr (True, e)
    \<and> (\<forall>sha256 clock raw r. get_snapshot sha256 clock raw e = Inr (Some r) \<longrightarrow> sn_officeId r \<noteq> ''f'')"
proof -
  have "\<exists>e. revoke_public_view_token ''f'' (Some 5) sample_public_db = Inr (True, e)"
    by (simp add: revoke_public_view_token_def assert_token_dates_def lock_office_def sample_public_db_def
        sample_log_db_def Let_def empty_db_def row_count_def unrevoked_def sample_token_def)
  with revocation_closes_office show ?thesis by blast
qed

lemma public_snapshot_is_current_witness:
  "\<exists>r. get_snapshot (\<lambda>_. replicate 32 1) 0 (replicate 43 65) sample_public_db = Inr (Some r) \<and> sn_revision r = 3"
proof -
  have tok: "TOKEN_PATTERN (replicate 43 65)" by (simp add: TOKEN_PATTERN_def token_char_def numeral_eq_Suc)
  have open_tok: "sample_token \<in> set (opening_tokens (capability_for (\<lambda>_. replicate 32 1) (replicate 43 65)) 0 sample_public_db)"
    using tok by (simp add: opening_tokens_def capability_for_def sample_public_db_def sample_token_def token_live_def)
  have id: "vt_office_id sample_token = ''f''" by (simp add: sample_token_def)
  obtain office where "lock_office ''f'' sample_public_db = Some office"
    by (simp add: lock_office_def sample_public_db_def sample_log_db_def Let_def empty_db_def)
  moreover have "office_events sample_public_db ''f'' \<noteq> []"
    by (simp add: office_events_def sample_public_db_def sample_log_db_def Let_def published_event_def)
  ultimately obtain r where r: "get_snapshot (\<lambda>_. replicate 32 1) 0 (replicate 43 65) sample_public_db = Inr (Some r)"
    "sn_officeId r = ''f''"
    using get_snapshot_row [OF sample_public_ok open_tok] by (auto simp: id)
  with public_snapshot_is_current [OF r(1) sample_public_ok(1)] show ?thesis by (auto simp: sample_head)
qed

section \<open>Cursors\<close>

lemma foldl_digits:
  "foldl (\<lambda>n c. 10 * n + (int c - 48)) n (digits_nat m) = n * 10 ^ length (digits_nat m) + int m"
proof (induction m arbitrary: n rule: digits_nat.induct)
  case (1 m)
  show ?case
  proof (cases "m < 10")
    case True
    then show ?thesis by (simp add: digits_nat.simps [of m])
  next
    case False
    then have "digits_nat m = digits_nat (m div 10) @ [48 + m mod 10]" by (simp add: digits_nat.simps [of m])
    moreover have "int m = 10 * int (m div 10) + int (m mod 10)" by presburger
    ultimately show ?thesis using "1.IH" [OF False] by (simp add: algebra_simps)
  qed
qed

lemma hd_digits: "n \<noteq> 0 \<Longrightarrow> hd (digits_nat n) \<noteq> 48"
proof (induction n rule: digits_nat.induct)
  case (1 n)
  show ?case
  proof (cases "n < 10")
    case True
    with "1.prems" show ?thesis by (simp add: digits_nat.simps [of n])
  next
    case False
    then have "digits_nat n = digits_nat (n div 10) @ [48 + n mod 10]" "n div 10 \<noteq> 0"
      by (simp_all add: digits_nat.simps [of n] div_eq_0_iff)
    with "1.IH" [OF False] show ?thesis by simp
  qed
qed

lemma decimal_value_digits: "decimal_value (digits_nat m) = int m"
  using foldl_digits [of 0 m] by (simp add: decimal_value_def)

lemma canonical_decimal_digits: "canonical_decimal (digits_nat m)"
proof -
  have "list_all (\<lambda>c. 48 \<le> c \<and> c \<le> 57) (digits_nat m)" using digits_nat_digits by (auto simp: list_all_iff)
  moreover have "length (digits_nat m) = 1" if "hd (digits_nat m) = 48"
    using that hd_digits [of m] by (cases "m = 0") (auto simp: digits_nat.simps [of 0])
  ultimately show ?thesis by (simp add: canonical_decimal_def)
qed

lemma canonical_decimal_unique: "canonical_decimal s \<Longrightarrow> 0 \<le> decimal_value s \<and> s = digits_nat (nat (decimal_value s))"
proof (induction s rule: rev_induct)
  case Nil
  then show ?case by (simp add: canonical_decimal_def)
next
  case (snoc c xs)
  from snoc.prems have c: "48 \<le> c" "c \<le> 57" by (simp_all add: canonical_decimal_def)
  have val: "decimal_value (xs @ [c]) = 10 * decimal_value xs + (int c - 48)" by (simp add: decimal_value_def)
  show ?case
  proof (cases "xs = []")
    case True
    then have "decimal_value (xs @ [c]) = int c - 48" by (simp add: decimal_value_def)
    moreover have "nat (int c - 48) = c - 48" "c - 48 < 10" using c by linarith+
    ultimately show ?thesis using True c by (simp add: digits_nat.simps [of "c - 48"])
  next
    case False
    with snoc.prems have can: "canonical_decimal xs" "hd xs \<noteq> 48" by (auto simp: canonical_decimal_def)
    from snoc.IH [OF can(1)] have v: "0 \<le> decimal_value xs" "xs = digits_nat (nat (decimal_value xs))" by auto
    have pos: "decimal_value xs \<noteq> 0"
    proof
      assume "decimal_value xs = 0"
      with v(2) have "xs = [48]" by (simp add: digits_nat.simps [of 0])
      with can(2) show False by simp
    qed
    let ?v = "nat (decimal_value xs)"
    have n: "nat (decimal_value (xs @ [c])) = 10 * ?v + (c - 48)" using v(1) c by (simp add: val nat_eq_iff of_nat_diff)
    have "\<not> 10 * ?v + (c - 48) < 10" using pos v(1) by linarith
    moreover have "c - 48 < 10" using c by linarith
    then have "(10 * ?v + (c - 48)) div 10 = ?v" "(10 * ?v + (c - 48)) mod 10 = c - 48" by simp_all
    ultimately have "digits_nat (10 * ?v + (c - 48)) = digits_nat ?v @ [48 + (c - 48)]"
      by (subst digits_nat.simps) simp
    with v c show ?thesis by (simp add: n) (simp add: val)
  qed
qed

text \<open>
  C22: A cursor that the server has sent is understood. The decimal text of every legal revision,
  which is what the stream writes as event id, parses to that revision; and the parser accepts
  no other text for it.
\<close>

theorem revision_cursor_roundtrip:
  assumes "0 \<le> n" "n \<le> MAX_SAFE_REVISION"
  shows "parse_public_revision_cursor (Some (Some s)) = Inr (Some n) \<longleftrightarrow> s = decimal n"
proof
  have dec: "decimal n = digits_nat (nat n)" using assms(1) by (simp add: decimal_def)
  show "s = decimal n" if "parse_public_revision_cursor (Some (Some s)) = Inr (Some n)"
    using that canonical_decimal_unique [of s]
    by (auto simp: parse_public_revision_cursor_def result_simps dec split: if_splits)
  have "assert_revision n = Inr ()"
    using assms by (simp add: assert_revision_def is_safe_integer_def MAX_SAFE_REVISION_def MAX_SAFE_INTEGER_def)
  then show "parse_public_revision_cursor (Some (Some s)) = Inr (Some n)" if "s = decimal n"
    using assms(1) by (simp add: that dec parse_public_revision_cursor_def canonical_decimal_digits decimal_value_digits)
qed

lemma revision_cursor_roundtrip_witness:
  "parse_public_revision_cursor (Some (Some (js ''120''))) = Inr (Some 120)
   \<and> parse_public_revision_cursor (Some (Some (js ''0120''))) \<noteq> Inr (Some 120)"
proof -
  have "decimal 120 = js ''120''" by (simp add: decimal_def digits_nat.simps js_def)
  moreover have "js ''0120'' \<noteq> js ''120''" by (simp add: js_def)
  ultimately show ?thesis using revision_cursor_roundtrip [of 120] by (simp add: MAX_SAFE_REVISION_def)
qed

end
