(* ===== verification/Public_Limiter.thy ===== *)
theory Public_Limiter
  imports Rate_Limits
begin

text \<open>
  The limiter of the public pages (public-office/application/public-rate-limiter.ts). A bucket is
  an object that the map of buckets and the release functions of the streams share, so buckets
  carry an identity: a release acts on the bucket of its key only while that is still the object
  it was given. The lemmas show that it always is, so that the open streams of an address or a
  token are counted exactly and stay within their limits.
\<close>

section \<open>Buckets\<close>

text \<open>The keys \<open>ip:...\<close> and \<open>token:...\<close>; the latter holds the digest of the token.\<close>

datatype limiter_key = Ip_key string | Token_key byte_string

record public_bucket =
  bk_id :: nat
  bk_windowStartedAt :: int
  bk_requests :: int
  bk_activeStreams :: int
  bk_touchedAt :: int

type_synonym bucket_map = "limiter_key \<rightharpoonup> public_bucket"

record public_rate_limiter =
  pl_snapshotBuckets :: bucket_map
  pl_streamBuckets :: bucket_map
  pl_callsSinceCleanup :: int
  pl_next_id :: nat

record limiter_limits =
  lm_ipRequests :: int
  lm_tokenRequests :: int
  lm_ipActive :: "int option"
  lm_tokenActive :: "int option"

definition SNAPSHOT_LIMITS :: limiter_limits where
  "SNAPSHOT_LIMITS = \<lparr>lm_ipRequests = 120, lm_tokenRequests = 10000, lm_ipActive = None, lm_tokenActive = None\<rparr>"

definition STREAM_LIMITS :: limiter_limits where
  "STREAM_LIMITS = \<lparr>lm_ipRequests = 20, lm_tokenRequests = 2000, lm_ipActive = Some 5, lm_tokenActive = Some 1000\<rparr>"

definition current_bucket :: "nat \<Rightarrow> public_bucket option \<Rightarrow> int \<Rightarrow> public_bucket" where
  "current_bucket fresh bucket now =
     (case bucket of
        None \<Rightarrow> \<lparr>bk_id = fresh, bk_windowStartedAt = now, bk_requests = 0, bk_activeStreams = 0, bk_touchedAt = now\<rparr>
      | Some b \<Rightarrow> if WINDOW_MS \<le> now - bk_windowStartedAt b
          then b\<lparr>bk_windowStartedAt := now, bk_requests := 0, bk_touchedAt := now\<rparr> else b)"

text \<open>The map after the current bucket of a key has been fetched, which updates it in place.\<close>

definition refresh :: "limiter_key \<Rightarrow> int \<Rightarrow> bucket_map \<Rightarrow> bucket_map" where
  "refresh key now buckets = (case buckets key of None \<Rightarrow> buckets
     | Some b \<Rightarrow> buckets(key \<mapsto> current_bucket 0 (Some b) now))"

definition bucket_blocked :: "public_bucket \<Rightarrow> int \<Rightarrow> int option \<Rightarrow> bool" where
  "bucket_blocked b requestLimit activeLimit \<longleftrightarrow> requestLimit \<le> bk_requests b
     \<or> (case activeLimit of None \<Rightarrow> False | Some l \<Rightarrow> l \<le> bk_activeStreams b)"

definition charge_bucket :: "public_bucket \<Rightarrow> int option \<Rightarrow> int \<Rightarrow> public_bucket" where
  "charge_bucket b activeLimit now = b\<lparr>bk_requests := bk_requests b + 1,
     bk_activeStreams := (if activeLimit \<noteq> None then bk_activeStreams b + 1 else bk_activeStreams b),
     bk_touchedAt := now\<rparr>"

text \<open>The buckets whose streams a release function gives back.\<close>

type_synonym release_handle = "(limiter_key \<times> nat) list"

definition take_request ::
  "bucket_map \<Rightarrow> limiter_key \<Rightarrow> limiter_key \<Rightarrow> limiter_limits \<Rightarrow> int \<Rightarrow> nat
   \<Rightarrow> rate_limit_decision \<times> release_handle \<times> bucket_map" where
  "take_request buckets ipKey tokenKey limits now fresh =
     (let ipBucket = current_bucket fresh (buckets ipKey) now;
          tokenBucket = current_bucket (fresh + 1) (buckets tokenKey) now;
          buckets1 = refresh tokenKey now (refresh ipKey now buckets);
          ipBlocked = bucket_blocked ipBucket (lm_ipRequests limits) (lm_ipActive limits);
          tokenBlocked = bucket_blocked tokenBucket (lm_tokenRequests limits) (lm_tokenActive limits)
      in if ipBlocked \<or> tokenBlocked
         then (\<lparr>rd_allowed = False, rd_retryAfterSeconds =
                 retry_after (bk_windowStartedAt (if ipBlocked then ipBucket else tokenBucket)) now\<rparr>, [], buckets1)
         else (\<lparr>rd_allowed = True, rd_retryAfterSeconds =
                 max (retry_after (bk_windowStartedAt ipBucket) now) (retry_after (bk_windowStartedAt tokenBucket) now)\<rparr>,
               (if lm_ipActive limits \<noteq> None then [(ipKey, bk_id ipBucket)] else [])
                 @ (if lm_tokenActive limits \<noteq> None then [(tokenKey, bk_id tokenBucket)] else []),
               buckets1(ipKey \<mapsto> charge_bucket ipBucket (lm_ipActive limits) now,
                        tokenKey \<mapsto> charge_bucket tokenBucket (lm_tokenActive limits) now)))"

definition release_bucket :: "limiter_key \<times> nat \<Rightarrow> bucket_map \<Rightarrow> bucket_map" where
  "release_bucket = (\<lambda>(key, i) buckets. case buckets key of
       None \<Rightarrow> buckets
     | Some b \<Rightarrow> if bk_id b = i then buckets(key \<mapsto> b\<lparr>bk_activeStreams := max 0 (bk_activeStreams b - 1)\<rparr>) else buckets)"

definition cleanup_buckets :: "int \<Rightarrow> bucket_map \<Rightarrow> bucket_map" where
  "cleanup_buckets now buckets = (\<lambda>k. case buckets k of None \<Rightarrow> None
     | Some b \<Rightarrow> if bk_activeStreams b = 0 \<and> WINDOW_MS * 2 < now - bk_touchedAt b then None else Some b)"

definition limiter_cleanup :: "int \<Rightarrow> public_rate_limiter \<Rightarrow> public_rate_limiter" where
  "limiter_cleanup now l =
     (let calls = pl_callsSinceCleanup l + 1 in
      if calls < 256 then l\<lparr>pl_callsSinceCleanup := calls\<rparr>
      else l\<lparr>pl_callsSinceCleanup := 0, pl_snapshotBuckets := cleanup_buckets now (pl_snapshotBuckets l),
             pl_streamBuckets := cleanup_buckets now (pl_streamBuckets l)\<rparr>)"

definition take_snapshot ::
  "(byte_string \<Rightarrow> byte_string) \<Rightarrow> string \<Rightarrow> js_string \<Rightarrow> int \<Rightarrow> public_rate_limiter
   \<Rightarrow> rate_limit_decision \<times> public_rate_limiter" where
  "take_snapshot sha256 ip rawToken now l0 =
     (let l = limiter_cleanup now l0 in
      case take_request (pl_snapshotBuckets l) (Ip_key ip) (Token_key (sha256 (utf8 rawToken))) SNAPSHOT_LIMITS now (pl_next_id l) of
        (decision, _, buckets) \<Rightarrow> (decision, l\<lparr>pl_snapshotBuckets := buckets, pl_next_id := pl_next_id l + 2\<rparr>))"

definition take_stream ::
  "(byte_string \<Rightarrow> byte_string) \<Rightarrow> string \<Rightarrow> js_string \<Rightarrow> int \<Rightarrow> public_rate_limiter
   \<Rightarrow> rate_limit_decision \<times> release_handle \<times> public_rate_limiter" where
  "take_stream sha256 ip rawToken now l0 =
     (let l = limiter_cleanup now l0 in
      case take_request (pl_streamBuckets l) (Ip_key ip) (Token_key (sha256 (utf8 rawToken))) STREAM_LIMITS now (pl_next_id l) of
        (decision, handle, buckets) \<Rightarrow> (decision, handle, l\<lparr>pl_streamBuckets := buckets, pl_next_id := pl_next_id l + 2\<rparr>))"

definition release_stream :: "release_handle \<Rightarrow> public_rate_limiter \<Rightarrow> public_rate_limiter" where
  "release_stream handle l = l\<lparr>pl_streamBuckets := fold release_bucket handle (pl_streamBuckets l)\<rparr>"

definition create_public_rate_limiter :: public_rate_limiter where
  "create_public_rate_limiter = \<lparr>pl_snapshotBuckets = Map.empty, pl_streamBuckets = Map.empty,
     pl_callsSinceCleanup = 0, pl_next_id = 0\<rparr>"

section \<open>Runs\<close>

text \<open>
  The handles of the streams that are open, oldest first. A release function works once, so a
  handle leaves the list when it is called.
\<close>

datatype limiter_action =
    Snapshot_request string js_string int
  | Stream_request string js_string int
  | Stream_release nat

definition limiter_step ::
  "(byte_string \<Rightarrow> byte_string) \<Rightarrow> limiter_action \<Rightarrow> public_rate_limiter \<times> release_handle list
   \<Rightarrow> public_rate_limiter \<times> release_handle list" where
  "limiter_step sha256 action = (\<lambda>(l, handles). case action of
       Snapshot_request ip raw now \<Rightarrow> (snd (take_snapshot sha256 ip raw now l), handles)
     | Stream_request ip raw now \<Rightarrow> (case take_stream sha256 ip raw now l of
         (decision, handle, l') \<Rightarrow> (l', if rd_allowed decision then handles @ [handle] else handles))
     | Stream_release i \<Rightarrow> if i < length handles
         then (release_stream (handles ! i) l, take i handles @ drop (i + 1) handles) else (l, handles))"

definition limiter_run ::
  "(byte_string \<Rightarrow> byte_string) \<Rightarrow> limiter_action list \<Rightarrow> public_rate_limiter \<times> release_handle list" where
  "limiter_run sha256 actions = fold (limiter_step sha256) actions (create_public_rate_limiter, [])"

section \<open>The invariant\<close>

definition open_on :: "limiter_key \<Rightarrow> release_handle list \<Rightarrow> int" where
  "open_on key handles = int (length (filter (\<lambda>h. key \<in> set (map fst h)) handles))"

definition active_limit :: "limiter_key \<Rightarrow> int" where
  "active_limit key = (case key of Ip_key _ \<Rightarrow> 5 | Token_key _ \<Rightarrow> 1000)"

text \<open>Every open stream holds an address and a token bucket, which are still the map's objects.\<close>

definition handle_ok :: "bucket_map \<Rightarrow> release_handle \<Rightarrow> bool" where
  "handle_ok buckets h \<longleftrightarrow> (\<exists>ip i dg j. h = [(Ip_key ip, i), (Token_key dg, j)])
     \<and> (\<forall>(key, i)\<in>set h. \<exists>b. buckets key = Some b \<and> bk_id b = i)"

definition streams_ok :: "bucket_map \<Rightarrow> release_handle list \<Rightarrow> bool" where
  "streams_ok buckets handles \<longleftrightarrow> (\<forall>h\<in>set handles. handle_ok buckets h)
     \<and> (\<forall>key b. buckets key = Some b \<longrightarrow> bk_activeStreams b = open_on key handles \<and> bk_activeStreams b \<le> active_limit key)"

lemma open_on_nonneg: "0 \<le> open_on key handles"
  by (simp add: open_on_def)

lemma open_on_present:
  assumes "streams_ok buckets handles" "0 < open_on key handles"
  shows "\<exists>b. buckets key = Some b"
proof -
  from assms(2) obtain h where "h \<in> set handles" "key \<in> fst ` set h"
    by (auto simp: open_on_def filter_empty_conv)
  with assms(1) show ?thesis by (fastforce simp: streams_ok_def handle_ok_def)
qed

lemma streams_bounded: "streams_ok buckets handles \<Longrightarrow> open_on key handles \<le> active_limit key"
proof (cases "0 < open_on key handles")
  case True
  assume ok: "streams_ok buckets handles"
  from open_on_present [OF this True] obtain b where "buckets key = Some b" ..
  with ok show ?thesis unfolding streams_ok_def by metis
next
  case False
  have "0 \<le> active_limit key" by (cases key) (simp_all add: active_limit_def)
  with False show ?thesis by simp
qed

lemma handle_member: "h \<in> set handles \<Longrightarrow> (key, i) \<in> set h \<Longrightarrow> 0 < open_on key handles"
  by (force simp: open_on_def filter_empty_conv)

text \<open>The map may change in everything but the identity and the streams of the buckets held.\<close>

lemma streams_ok_change:
  assumes ok: "streams_ok buckets handles"
    and keep: "\<And>key b. buckets key = Some b \<Longrightarrow> 0 < open_on key handles \<Longrightarrow> \<exists>b'. buckets' key = Some b' \<and> bk_id b' = bk_id b"
    and act: "\<And>key b'. buckets' key = Some b' \<Longrightarrow> bk_activeStreams b' = open_on key handles"
  shows "streams_ok buckets' handles"
  unfolding streams_ok_def
proof (intro conjI ballI allI impI)
  fix h assume h: "h \<in> set handles"
  then have ho: "handle_ok buckets h" using ok by (simp add: streams_ok_def)
  have "\<exists>b'. buckets' key = Some b' \<and> bk_id b' = i" if m: "(key, i) \<in> set h" for key i
  proof -
    from ho m obtain b where "buckets key = Some b" "bk_id b = i" by (fastforce simp: handle_ok_def)
    with keep [OF this(1) handle_member [OF h m]] show ?thesis by auto
  qed
  with ho show "handle_ok buckets' h" unfolding handle_ok_def by fast
next
  fix key b assume b: "buckets' key = Some b"
  show "bk_activeStreams b = open_on key handles" by (rule act [OF b])
  then show "bk_activeStreams b \<le> active_limit key" using streams_bounded [OF ok] by simp
qed

lemma cleanup_streams_ok:
  assumes ok: "streams_ok buckets handles"
  shows "streams_ok (cleanup_buckets now buckets) handles"
proof (rule streams_ok_change [OF ok])
  fix key b assume b: "buckets key = Some b" "0 < open_on key handles"
  then have "bk_activeStreams b \<noteq> 0" using ok unfolding streams_ok_def by (metis less_irrefl)
  with b show "\<exists>b'. cleanup_buckets now buckets key = Some b' \<and> bk_id b' = bk_id b" by (simp add: cleanup_buckets_def)
next
  fix key b' assume "cleanup_buckets now buckets key = Some b'"
  then have "buckets key = Some b'" by (auto simp: cleanup_buckets_def split: option.splits if_splits)
  with ok show "bk_activeStreams b' = open_on key handles" unfolding streams_ok_def by metis
qed

lemma current_bucket_keeps [simp]:
  "bk_id (current_bucket fresh (Some b) now) = bk_id b"
  "bk_activeStreams (current_bucket fresh (Some b) now) = bk_activeStreams b"
  "bk_activeStreams (current_bucket fresh None now) = 0" "bk_id (current_bucket fresh None now) = fresh"
  by (simp_all add: current_bucket_def)

lemma current_bucket_fresh: "current_bucket i (Some b) now = current_bucket j (Some b) now"
  by (simp add: current_bucket_def)

lemma refresh_streams_ok:
  assumes ok: "streams_ok buckets handles"
  shows "streams_ok (refresh key now buckets) handles"
proof (rule streams_ok_change [OF ok])
  fix k b assume "buckets k = Some b"
  then show "\<exists>b'. refresh key now buckets k = Some b' \<and> bk_id b' = bk_id b"
    by (auto simp: refresh_def split: option.splits)
next
  fix k b' assume "refresh key now buckets k = Some b'"
  then obtain b where "buckets k = Some b" "bk_activeStreams b' = bk_activeStreams b"
    by (auto simp: refresh_def split: option.splits if_splits)
  with ok show "bk_activeStreams b' = open_on k handles" unfolding streams_ok_def by metis
qed

lemma current_active:
  assumes "streams_ok buckets handles"
  shows "bk_activeStreams (current_bucket fresh (buckets key) now) = open_on key handles"
proof (cases "buckets key")
  case None
  then have "\<not> 0 < open_on key handles" using open_on_present [OF assms, of key] by auto
  with None open_on_nonneg [of key handles] show ?thesis by simp
next
  case (Some b)
  with assms have "bk_activeStreams b = open_on key handles" unfolding streams_ok_def by metis
  then show ?thesis by (simp add: Some)
qed

lemma open_on_append:
  "open_on key (handles @ [h]) = open_on key handles + (if key \<in> set (map fst h) then 1 else 0)"
  by (simp add: open_on_def)

lemma take_stream_request_ok:
  assumes ok: "streams_ok buckets handles"
    and take: "take_request buckets (Ip_key ip) (Token_key dg) STREAM_LIMITS now fresh = (decision, handle, buckets')"
  shows "streams_ok buckets' (if rd_allowed decision then handles @ [handle] else handles)"
proof -
  define ib where "ib = current_bucket fresh (buckets (Ip_key ip)) now"
  define tb where "tb = current_bucket (fresh + 1) (buckets (Token_key dg)) now"
  define b1 where "b1 = refresh (Token_key dg) now (refresh (Ip_key ip) now buckets)"
  have ok1: "streams_ok b1 handles" unfolding b1_def by (intro refresh_streams_ok ok)
  have act: "bk_activeStreams ib = open_on (Ip_key ip) handles" "bk_activeStreams tb = open_on (Token_key dg) handles"
    by (simp_all add: ib_def tb_def current_active [OF ok])
  show ?thesis
  proof (cases "bucket_blocked ib 20 (Some 5) \<or> bucket_blocked tb 2000 (Some 1000)")
    case True
    with take ok1 show ?thesis by (auto simp: take_request_def Let_def ib_def tb_def b1_def STREAM_LIMITS_def)
  next
    case False
    with take have dec: "rd_allowed decision" and h: "handle = [(Ip_key ip, bk_id ib), (Token_key dg, bk_id tb)]"
      and b': "buckets' = b1(Ip_key ip \<mapsto> charge_bucket ib (Some 5) now, Token_key dg \<mapsto> charge_bucket tb (Some 1000) now)"
      by (auto simp: take_request_def Let_def ib_def tb_def b1_def STREAM_LIMITS_def)
    have room: "open_on (Ip_key ip) handles < 5" "open_on (Token_key dg) handles < 1000"
      using False act by (simp_all add: bucket_blocked_def)
    have id: "b1 (Ip_key ip) = Some b \<Longrightarrow> bk_id b = bk_id ib" "b1 (Token_key dg) = Some b \<Longrightarrow> bk_id b = bk_id tb" for b
      by (auto simp: b1_def refresh_def ib_def tb_def split: option.splits if_splits)
    have old: "handle_ok buckets' x" if "x \<in> set handles" for x
    proof -
      from ok1 that have hb: "handle_ok b1 x" by (simp add: streams_ok_def)
      have "\<exists>b. buckets' key = Some b \<and> bk_id b = i" if m: "(key, i) \<in> set x" for key i
      proof -
        from hb m obtain b where "b1 key = Some b" "bk_id b = i" by (fastforce simp: handle_ok_def)
        with id [of b] show ?thesis
          by (cases "key = Ip_key ip"; cases "key = Token_key dg") (auto simp: b' charge_bucket_def)
      qed
      with hb show ?thesis unfolding handle_ok_def by fast
    qed
    have new: "handle_ok buckets' handle" unfolding h by (simp add: handle_ok_def b' charge_bucket_def)
    have all: "bk_activeStreams b = open_on key (handles @ [handle]) \<and> bk_activeStreams b \<le> active_limit key"
      if b: "buckets' key = Some b" for key b
    proof (cases "key = Ip_key ip \<or> key = Token_key dg")
      case True
      with b act room show ?thesis
        by (auto simp: b' h open_on_append charge_bucket_def active_limit_def)
    next
      case False
      with b have "b1 key = Some b" by (simp add: b')
      with ok1 have "bk_activeStreams b = open_on key handles \<and> bk_activeStreams b \<le> active_limit key"
        unfolding streams_ok_def by metis
      with False show ?thesis by (auto simp: h open_on_append)
    qed
    have "streams_ok buckets' (handles @ [handle])"
      unfolding streams_ok_def
    proof (intro conjI ballI allI impI)
      fix x assume "x \<in> set (handles @ [handle])"
      with old new show "handle_ok buckets' x" by auto
    qed (use all in blast)+
    with dec show ?thesis by simp
  qed
qed

lemma open_on_remove:
  "i < length handles \<Longrightarrow> open_on key handles
    = open_on key (take i handles @ drop (i + 1) handles) + (if key \<in> set (map fst (handles ! i)) then 1 else 0)"
proof -
  assume "i < length handles"
  then have "handles = take i handles @ handles ! i # drop (Suc i) handles" by (rule id_take_nth_drop)
  then have "filter (\<lambda>h. key \<in> set (map fst h)) handles
      = filter (\<lambda>h. key \<in> set (map fst h)) (take i handles @ handles ! i # drop (Suc i) handles)" by simp
  then show ?thesis by (simp add: open_on_def)
qed

lemma release_bucket_held:
  assumes "buckets key = Some b" "bk_id b = i" "0 < bk_activeStreams b"
  shows "release_bucket (key, i) buckets = buckets(key \<mapsto> b\<lparr>bk_activeStreams := bk_activeStreams b - 1\<rparr>)"
  using assms by (simp add: release_bucket_def max_def)

lemma release_streams_ok:
  assumes ok: "streams_ok buckets handles" and i: "i < length handles"
  shows "streams_ok (fold release_bucket (handles ! i) buckets) (take i handles @ drop (i + 1) handles)"
proof -
  let ?rest = "take i handles @ drop (i + 1) handles"
  have mem: "handles ! i \<in> set handles" using i by simp
  with ok have "handle_ok buckets (handles ! i)" by (simp add: streams_ok_def)
  then obtain ip dg a b ib tb where h: "handles ! i = [(Ip_key ip, a), (Token_key dg, b)]"
    and ib: "buckets (Ip_key ip) = Some ib" "bk_id ib = a" and tb: "buckets (Token_key dg) = Some tb" "bk_id tb = b"
    by (auto simp: handle_ok_def)
  have act: "bk_activeStreams ib = open_on (Ip_key ip) handles" "bk_activeStreams tb = open_on (Token_key dg) handles"
    using ok ib(1) tb(1) unfolding streams_ok_def by metis+
  have pos: "0 < bk_activeStreams ib" "0 < bk_activeStreams tb"
    using handle_member [OF mem, of "Ip_key ip" a] handle_member [OF mem, of "Token_key dg" b] by (simp_all add: act h)
  define buckets' where "buckets' = buckets(Ip_key ip \<mapsto> ib\<lparr>bk_activeStreams := bk_activeStreams ib - 1\<rparr>,
    Token_key dg \<mapsto> tb\<lparr>bk_activeStreams := bk_activeStreams tb - 1\<rparr>)"
  have fold: "fold release_bucket (handles ! i) buckets = buckets'"
    using release_bucket_held [of buckets "Ip_key ip" ib a, OF ib pos(1)] tb pos(2)
    by (simp add: h buckets'_def release_bucket_def max_def)
  have sub: "set ?rest \<subseteq> set handles" by (auto dest: in_set_takeD in_set_dropD)
  have "handle_ok buckets' x" if "x \<in> set ?rest" for x
  proof -
    have hb: "handle_ok buckets x" using that sub ok by (auto simp: streams_ok_def)
    have "\<exists>b. buckets' key = Some b \<and> bk_id b = j" if m: "(key, j) \<in> set x" for key j
    proof -
      from hb m obtain b where "buckets key = Some b" "bk_id b = j" by (fastforce simp: handle_ok_def)
      with ib tb show ?thesis
        by (cases "key = Ip_key ip"; cases "key = Token_key dg") (auto simp: buckets'_def)
    qed
    with hb show ?thesis unfolding handle_ok_def by fast
  qed
  moreover have "bk_activeStreams x = open_on key ?rest \<and> bk_activeStreams x \<le> active_limit key"
    if x: "buckets' key = Some x" for key x
  proof -
    have lim: "open_on key handles \<le> active_limit key" by (rule streams_bounded [OF ok])
    note rem = open_on_remove [OF i, of key]
    show ?thesis
    proof (cases "key = Ip_key ip \<or> key = Token_key dg")
      case True
      with x act lim rem show ?thesis by (auto simp: buckets'_def h)
    next
      case False
      with x have "buckets key = Some x" by (simp add: buckets'_def)
      with ok have "bk_activeStreams x = open_on key handles" unfolding streams_ok_def by metis
      with False lim rem show ?thesis by (auto simp: h)
    qed
  qed
  ultimately show ?thesis unfolding fold streams_ok_def by blast
qed

section \<open>Every run\<close>

lemma limiter_cleanup_ok:
  "streams_ok (pl_streamBuckets l) handles \<Longrightarrow> streams_ok (pl_streamBuckets (limiter_cleanup now l)) handles"
  by (simp add: limiter_cleanup_def Let_def cleanup_streams_ok)

lemma limiter_step_ok:
  assumes ok: "streams_ok (pl_streamBuckets l) handles" and st: "limiter_step sha256 action (l, handles) = (l', handles')"
  shows "streams_ok (pl_streamBuckets l') handles'"
proof (cases action)
  case (Snapshot_request ip raw now)
  with st limiter_cleanup_ok [OF ok, of now] show ?thesis
    by (auto simp: limiter_step_def take_snapshot_def Let_def split: prod.splits)
next
  case (Stream_request ip raw now)
  let ?l = "limiter_cleanup now l"
  obtain decision handle buckets' where t: "take_request (pl_streamBuckets ?l) (Ip_key ip)
      (Token_key (sha256 (utf8 raw))) STREAM_LIMITS now (pl_next_id ?l) = (decision, handle, buckets')"
    by (rule prod_cases3)
  from take_stream_request_ok [OF limiter_cleanup_ok [OF ok] t] st show ?thesis
    by (auto simp: limiter_step_def take_stream_def Let_def t Stream_request)
next
  case (Stream_release i)
  with st ok release_streams_ok [OF ok, of i] show ?thesis
    by (auto simp: limiter_step_def release_stream_def split: if_splits)
qed

lemma limiter_run_ok: "limiter_run sha256 actions = (l, handles) \<Longrightarrow> streams_ok (pl_streamBuckets l) handles"
proof (induction actions arbitrary: l handles rule: rev_induct)
  case Nil
  then show ?case by (auto simp: limiter_run_def create_public_rate_limiter_def streams_ok_def)
next
  case (snoc a actions)
  obtain l1 h1 where r: "limiter_run sha256 actions = (l1, h1)" by (cases "limiter_run sha256 actions")
  with snoc.prems have "limiter_step sha256 a (l1, h1) = (l, handles)" by (simp add: limiter_run_def)
  with snoc.IH [OF r] show ?case by (rule limiter_step_ok)
qed

text \<open>
  C26: Open streams are counted exactly and stay within their limits. Whatever requests, releases
  and clean-ups have happened, every bucket of the stream limiter counts precisely the streams
  that are open on its address or token, and there are never more than 5 per address and 1000
  per token.
\<close>

theorem open_streams_bounded:
  "case limiter_run sha256 actions of (l, handles) \<Rightarrow>
     open_on (Ip_key ip) handles \<le> 5 \<and> open_on (Token_key dg) handles \<le> 1000
     \<and> (case pl_streamBuckets l (Ip_key ip) of None \<Rightarrow> open_on (Ip_key ip) handles = 0
        | Some b \<Rightarrow> bk_activeStreams b = open_on (Ip_key ip) handles)
     \<and> (case pl_streamBuckets l (Token_key dg) of None \<Rightarrow> open_on (Token_key dg) handles = 0
        | Some b \<Rightarrow> bk_activeStreams b = open_on (Token_key dg) handles)"
proof -
  obtain l handles where run: "limiter_run sha256 actions = (l, handles)" by (cases "limiter_run sha256 actions")
  note ok = limiter_run_ok [OF run]
  have exact: "case pl_streamBuckets l key of None \<Rightarrow> open_on key handles = 0
      | Some b \<Rightarrow> bk_activeStreams b = open_on key handles" for key
  proof (cases "pl_streamBuckets l key")
    case None
    with open_on_present [OF ok, of key] open_on_nonneg [of key handles] show ?thesis by force
  next
    case (Some b)
    with ok show ?thesis unfolding streams_ok_def by simp
  qed
  show ?thesis
    using exact streams_bounded [OF ok, of "Ip_key ip"] streams_bounded [OF ok, of "Token_key dg"]
    by (simp add: run active_limit_def)
qed

end
