(* ===== verification/Http.thy ===== *)
theory Http
  imports Projector
begin

text \<open>
  HTTP replies and the error handler of the control plane (app.ts): a status, headers, a content
  type and a body, which is a JSON value or bytes that are sent as they are.
\<close>

section \<open>Replies\<close>

datatype reply_body = Json_body json | Bytes_body byte_string

record http_reply =
  hr_status :: int
  hr_headers :: "(string \<times> js_string) list"
  hr_type :: string
  hr_body :: reply_body

definition optional_header :: "string \<Rightarrow> int option \<Rightarrow> (string \<times> js_string) list" where
  "optional_header name value = (case value of None \<Rightarrow> [] | Some n \<Rightarrow> [(name, decimal n)])"

definition optional_member :: "string \<Rightarrow> int option \<Rightarrow> (string \<times> json) list" where
  "optional_member name value = (case value of None \<Rightarrow> [] | Some n \<Rightarrow> [(name, JNum n)])"

section \<open>The error handler\<close>

definition send_protocol_headers :: "date_ms option \<Rightarrow> (string \<times> js_string) list" where
  "send_protocol_headers serverReceivedAt =
     [(''X-Protocol-Version'', js ''1''), (''X-Min-Supported-Protocol'', js ''1''), (''X-Supported-Protocols'', js ''1'')]
       @ (case serverReceivedAt of None \<Rightarrow> [] | Some t \<Rightarrow> [(''X-Server-Received-At'', to_iso_string t)])"

definition onboarding_code_text :: "onboarding_problem_code \<Rightarrow> string" where
  "onboarding_code_text code = (case code of
     Onboarding_invalid_request \<Rightarrow> ''invalid_request''
   | Pairing_not_found \<Rightarrow> ''pairing_not_found''
   | Pairing_expired \<Rightarrow> ''pairing_expired''
   | Pairing_conflict \<Rightarrow> ''pairing_conflict''
   | Onboarding_rate_limited \<Rightarrow> ''rate_limited'')"

definition onboarding_problem_title :: "onboarding_problem_code \<Rightarrow> string" where
  "onboarding_problem_title code = (case code of
     Onboarding_invalid_request \<Rightarrow> ''Invalid request''
   | Pairing_not_found \<Rightarrow> ''Pairing not found''
   | Pairing_expired \<Rightarrow> ''Pairing expired''
   | Pairing_conflict \<Rightarrow> ''Pairing conflict''
   | Onboarding_rate_limited \<Rightarrow> ''Rate limit exceeded'')"

definition problem_json :: "problem_body \<Rightarrow> json" where
  "problem_json b = jobj ([(''type'', jtext (pb_type b)), (''title'', jtext (pb_title b)), (''status'', JNum (pb_status b)),
      (''code'', jtext (problem_code_text (pb_code b))), (''detail'', jtext (pb_detail b))]
     @ optional_member ''expected_sequence'' (pb_expected_sequence b)
     @ optional_member ''current_protocol'' (pb_current_protocol b)
     @ optional_member ''min_supported_protocol'' (pb_min_supported_protocol b)
     @ optional_member ''retry_after_seconds'' (pb_retry_after_seconds b))"

definition protocol_problem_reply :: "protocol_problem \<Rightarrow> http_reply" where
  "protocol_problem_reply p =
     \<lparr>hr_status = pp_status p,
      hr_headers = send_protocol_headers None @ optional_header ''Retry-After'' (pp_retryAfterSeconds p),
      hr_type = ''application/problem+json'', hr_body = Json_body (problem_json (to_body p))\<rparr>"

definition onboarding_problem_reply :: "onboarding_problem \<Rightarrow> http_reply" where
  "onboarding_problem_reply p =
     \<lparr>hr_status = op_status p,
      hr_headers = (''Cache-Control'', js ''private, no-store'') # optional_header ''Retry-After'' (op_retryAfterSeconds p),
      hr_type = ''application/problem+json'',
      hr_body = Json_body (jobj ([
        (''type'', jtext (''https://workbuddy-buddy.invalid/problems/'' @ onboarding_code_text (op_code p))),
        (''title'', jtext (onboarding_problem_title (op_code p))), (''status'', JNum (op_status p)),
        (''code'', jtext (onboarding_code_text (op_code p))), (''detail'', jtext (op_message p))]
        @ optional_member ''retry_after_seconds'' (op_retryAfterSeconds p)))\<rparr>"

text \<open>What a route throws: a problem or another error of its own, or an error code of the server library.\<close>

datatype request_error = Thrown tx_error | Server_library string

definition BODY_ERRORS :: "string list" where
  "BODY_ERRORS = [''FST_ERR_CTP_EMPTY_JSON_BODY'', ''FST_ERR_CTP_INVALID_JSON_BODY'',
     ''FST_ERR_CTP_INVALID_CONTENT_LENGTH'', ''FST_ERR_CTP_INVALID_MEDIA_TYPE'']"

definition library_problem :: "string \<Rightarrow> protocol_problem" where
  "library_problem fastifyCode =
     (if fastifyCode = ''FST_ERR_CTP_BODY_TOO_LARGE''
      then protocol_problem Payload_too_large 413 ''The encoded report exceeds the configured request limit.''
      else if fastifyCode \<in> set BODY_ERRORS
      then protocol_problem Invalid_request 400 ''The report body must be valid JSON.''
      else protocol_problem Internal_error 500 ''The request could not be completed.'')"

definition error_handler :: "request_error \<Rightarrow> http_reply" where
  "error_handler err = (case err of
     Thrown (Onboarding p) \<Rightarrow> onboarding_problem_reply p
   | Thrown (Problem p) \<Rightarrow> protocol_problem_reply p
   | Thrown (Failure code) \<Rightarrow>
       protocol_problem_reply (protocol_problem Internal_error 500 ''The request could not be completed.'')
   | Server_library code \<Rightarrow> protocol_problem_reply (library_problem code))"

end
