(* ===== verification/Stream.thy ===== *)
theory Stream
  imports Reader Public_Limiter Http
begin

text \<open>
  The public routes (public-office/application/public-office-routes.ts): the snapshot of an
  office and its event stream. The stream is a state machine whose actions are what the handler
  awaits (a page, the end of its lease, a drained socket) and what may happen in between (a
  notification of the broker, the keep-alive timer, a disconnect). \<open>JSON.parse\<close> is a parameter;
  of its result only the member \<open>office_revision\<close> is used.
\<close>

section \<open>Replies\<close>

datatype public_problem_code =
    Public_invalid_request
  | Public_office_not_found
  | Public_revision_gap
  | Public_rate_limited
  | Public_temporarily_unavailable

definition public_problem_text :: "public_problem_code \<Rightarrow> string" where
  "public_problem_text code = (case code of
     Public_invalid_request \<Rightarrow> ''invalid_request''
   | Public_office_not_found \<Rightarrow> ''public_office_not_found''
   | Public_revision_gap \<Rightarrow> ''revision_gap''
   | Public_rate_limited \<Rightarrow> ''rate_limited''
   | Public_temporarily_unavailable \<Rightarrow> ''temporarily_unavailable'')"

definition public_problem_title :: "public_problem_code \<Rightarrow> string" where
  "public_problem_title code = (case code of
     Public_invalid_request \<Rightarrow> ''Invalid request''
   | Public_office_not_found \<Rightarrow> ''Public Office not found''
   | Public_revision_gap \<Rightarrow> ''Office revision gap''
   | Public_rate_limited \<Rightarrow> ''Rate limit exceeded''
   | Public_temporarily_unavailable \<Rightarrow> ''Temporarily unavailable'')"

definition CACHE_CONTROL :: string where
  "CACHE_CONTROL = ''private, no-store''"

definition send_public_problem :: "public_problem_code \<Rightarrow> int \<Rightarrow> int option \<Rightarrow> int option \<Rightarrow> http_reply" where
  "send_public_problem code status officeRevision retryAfterSeconds =
     \<lparr>hr_status = status,
      hr_headers = [(''Cache-Control'', js CACHE_CONTROL)]
        @ optional_header ''X-Office-Revision'' officeRevision @ optional_header ''Retry-After'' retryAfterSeconds,
      hr_type = ''application/problem+json'',
      hr_body = Json_body (jobj ([
        (''type'', jtext (''https://workbuddy-buddy.invalid/problems/'' @ public_problem_text code)),
        (''title'', jtext (public_problem_title code)), (''status'', JNum status),
        (''code'', jtext (public_problem_text code))]
        @ optional_member ''retry_after_seconds'' retryAfterSeconds))\<rparr>"

section \<open>The snapshot route\<close>

definition snapshot_reply :: "rate_limit_decision \<Rightarrow> public_snapshot_record option tx \<Rightarrow> http_reply" where
  "snapshot_reply rate result =
     (if \<not> rd_allowed rate
      then send_public_problem Public_rate_limited 429 None (Some (rd_retryAfterSeconds rate))
      else case result of
        Inl _ \<Rightarrow> send_public_problem Public_temporarily_unavailable 503 None (Some 1)
      | Inr None \<Rightarrow> send_public_problem Public_office_not_found 404 None None
      | Inr (Some snapshot) \<Rightarrow>
          \<lparr>hr_status = 200,
           hr_headers = [(''Cache-Control'', js CACHE_CONTROL),
             (''ETag'', js [CHR 0x22] @ js ''office-'' @ decimal (sn_revision snapshot) @ js [CHR 0x22]),
             (''X-Office-Revision'', decimal (sn_revision snapshot))],
           hr_type = ''application/json; charset=utf-8'',
           hr_body = Bytes_body (sn_canonicalPayload snapshot)\<rparr>)"

definition snapshot_route ::
  "(byte_string \<Rightarrow> byte_string) \<Rightarrow> timestamp_us \<Rightarrow> string \<Rightarrow> js_string \<Rightarrow> int \<Rightarrow> db \<Rightarrow> public_rate_limiter
   \<Rightarrow> http_reply \<times> public_rate_limiter" where
  "snapshot_route sha256 clock ip rawToken now d l =
     (case take_snapshot sha256 ip rawToken now l of
        (rate, l') \<Rightarrow> (snapshot_reply rate (get_snapshot sha256 clock rawToken d), l'))"

section \<open>The state of a stream\<close>

datatype stream_frame = Snapshot_frame int byte_string | Resync_frame | Keepalive_frame

definition frame_bytes :: "stream_frame \<Rightarrow> byte_string" where
  "frame_bytes f = (case f of
     Snapshot_frame revision payload \<Rightarrow>
       utf8 (js ''id: '' @ decimal revision @ [10] @ js ''event: office.snapshot'' @ [10] @ js ''data: '')
         @ payload @ utf8 [10, 10]
   | Resync_frame \<Rightarrow> utf8 (js ''event: resync.required'' @ [10] @ js ''data: {'' @ [34] @ js ''reason'' @ [34, 58, 34]
       @ js ''revision_gap'' @ [34] @ js ''}'' @ [10, 10])
   | Keepalive_frame \<Rightarrow> utf8 (js '': keepalive'' @ [10, 10]))"

text \<open>What is left to do once the lease of the first page has been given back.\<close>

datatype initial_next = Stop_quietly | Refuse http_reply | Go_on bool

text \<open>Where the handler, or the pump, is waiting.\<close>

datatype stream_phase =
    Await_preflight
  | Await_authoritative
  | Await_initial_release initial_next
  | Await_initial_drain
  | Handler_done
  | Pump_acquiring
  | Pump_releasing bool bool
  | Pump_draining

datatype stream_reply = Reply http_reply | Handler_error

record stream_state =
  st_phase :: stream_phase
  st_cursor :: int
  st_disconnected :: bool
  st_closed :: bool
  st_streamStarted :: bool
  st_writableEnded :: bool
  st_subscribed :: bool
  st_timer :: bool
  st_releases :: nat
  st_pumping :: bool
  st_pendingPump :: bool
  st_initialReplayComplete :: bool
  st_lastSent :: int
  st_written :: "stream_frame list"
  st_reply :: "stream_reply option"

definition stream_cleanup :: "stream_state \<Rightarrow> stream_state" where
  "stream_cleanup s = (if st_closed s then s
     else s\<lparr>st_closed := True, st_timer := False, st_subscribed := False, st_releases := st_releases s + 1\<rparr>)"

definition stream_close :: "stream_state \<Rightarrow> stream_state" where
  "stream_close s = (let s' = stream_cleanup s in
     if st_streamStarted s' \<and> \<not> st_writableEnded s' then s'\<lparr>st_writableEnded := True\<rparr> else s')"

definition write_frame :: "stream_frame \<Rightarrow> stream_state \<Rightarrow> stream_state" where
  "write_frame f s = s\<lparr>st_written := st_written s @ [f]\<rparr>"

definition send_resync_and_close :: "stream_state \<Rightarrow> stream_state" where
  "send_resync_and_close s =
     stream_close (if \<not> st_closed s \<and> st_streamStarted s then write_frame Resync_frame s else s)"

definition refuse :: "http_reply \<Rightarrow> stream_state \<Rightarrow> stream_state" where
  "refuse reply s = (stream_cleanup s)\<lparr>st_reply := Some (Reply reply), st_phase := Handler_done\<rparr>"

section \<open>Sending events\<close>

type_synonym json_parser = "byte_string \<Rightarrow> json option"

definition canonical_payload_matches_revision :: "json_parser \<Rightarrow> replay_event \<Rightarrow> bool" where
  "canonical_payload_matches_revision parse ev =
     (case parse (ev_canonicalPayload ev) of
        Some (JObj members) \<Rightarrow> map_of (rev members) (js ''office_revision'') = Some (JNum (ev_revision ev))
      | _ \<Rightarrow> False)"

datatype queue_event_result = Queued | Backpressure | Stream_closed

definition queue_event :: "json_parser \<Rightarrow> replay_event \<Rightarrow> bool \<Rightarrow> stream_state \<Rightarrow> queue_event_result \<times> stream_state" where
  "queue_event parse ev writable s =
     (if st_closed s then (Stream_closed, s)
      else if ev_revision ev \<le> st_lastSent s then (Queued, s)
      else if ev_revision ev \<noteq> st_lastSent s + 1 then (Stream_closed, send_resync_and_close s)
      else if \<not> canonical_payload_matches_revision parse ev then (Stream_closed, send_resync_and_close s)
      else (if writable then Queued else Backpressure,
            (write_frame (Snapshot_frame (ev_revision ev) (ev_canonicalPayload ev)) s)\<lparr>st_lastSent := ev_revision ev\<rparr>))"

text \<open>The loop over the events of a page; \<open>writables\<close> is what the socket answers to each.\<close>

fun queue_events ::
  "json_parser \<Rightarrow> (replay_event \<times> bool) list \<Rightarrow> stream_state \<Rightarrow> queue_event_result \<times> stream_state" where
  "queue_events parse [] s = (Queued, s)"
| "queue_events parse ((ev, writable) # evs) s =
     (case queue_event parse ev writable s of
        (Queued, s') \<Rightarrow> queue_events parse evs s'
      | (result, s') \<Rightarrow> (result, s'))"

definition page_events :: "public_stream_page \<Rightarrow> (nat \<Rightarrow> bool) \<Rightarrow> (replay_event \<times> bool) list" where
  "page_events page writable = (let evs = (case pg_events page of None \<Rightarrow> [] | Some evs \<Rightarrow> evs) in
     zip evs (map writable [0..<length evs]))"

section \<open>The pump\<close>

definition start_pump :: "stream_state \<Rightarrow> stream_state" where
  "start_pump s = (if st_closed s then s
     else if st_pumping s then s\<lparr>st_pendingPump := True\<rparr>
     else s\<lparr>st_pumping := True, st_pendingPump := False, st_phase := Pump_acquiring\<rparr>)"

definition pump_finish :: "stream_state \<Rightarrow> stream_state" where
  "pump_finish s = (let s' = s\<lparr>st_pumping := False, st_phase := Handler_done\<rparr> in
     if st_pendingPump s' \<and> \<not> st_closed s' then start_pump s' else s')"

definition pump_again :: "stream_state \<Rightarrow> stream_state" where
  "pump_again s = (if st_pendingPump s \<and> \<not> st_closed s
     then s\<lparr>st_pendingPump := False, st_phase := Pump_acquiring\<rparr> else pump_finish s)"

text \<open>A page has arrived, or acquiring it has thrown.\<close>

definition pump_page :: "json_parser \<Rightarrow> public_stream_page tx \<Rightarrow> (nat \<Rightarrow> bool) \<Rightarrow> stream_state \<Rightarrow> stream_state" where
  "pump_page parse result writable s =
     (case result of
        Inl _ \<Rightarrow> pump_finish (stream_close s)
      | Inr page \<Rightarrow>
          if pg_status page \<noteq> Page_ok
          then (if pg_status page = Page_revision_gap then send_resync_and_close s else stream_close s)
                 \<lparr>st_phase := Pump_releasing True False\<rparr>
          else (case queue_events parse (page_events page writable) s of
                  (Stream_closed, s') \<Rightarrow> s'\<lparr>st_phase := Pump_releasing True False\<rparr>
                | (Backpressure, s') \<Rightarrow> s'\<lparr>st_phase := Pump_releasing False True\<rparr>
                | (Queued, s') \<Rightarrow>
                    (case pg_currentRevision page of
                       Some current \<Rightarrow> if st_lastSent s' < current then s'\<lparr>st_pendingPump := True\<rparr> else s'
                     | None \<Rightarrow> s')\<lparr>st_phase := Pump_releasing False False\<rparr>))"

definition pump_released :: "bool \<Rightarrow> bool \<Rightarrow> bool \<Rightarrow> stream_state \<Rightarrow> stream_state" where
  "pump_released returning draining committed s =
     (if \<not> committed then pump_finish (stream_close s)
      else if returning then pump_finish s
      else if draining then s\<lparr>st_phase := Pump_draining\<rparr>
      else pump_again s)"

definition pump_drained :: "bool \<Rightarrow> stream_state \<Rightarrow> stream_state" where
  "pump_drained drained s =
     (if \<not> drained \<or> st_closed s then pump_finish (stream_close s)
      else pump_again (s\<lparr>st_pendingPump := True\<rparr>))"

section \<open>Opening the stream\<close>

definition initial_stream :: "int \<Rightarrow> stream_state" where
  "initial_stream cursor = \<lparr>st_phase = Await_preflight, st_cursor = cursor, st_disconnected = False, st_closed = False,
     st_streamStarted = False, st_writableEnded = False, st_subscribed = False, st_timer = False, st_releases = 0,
     st_pumping = False, st_pendingPump = False, st_initialReplayComplete = False, st_lastSent = cursor,
     st_written = [], st_reply = None\<rparr>"

definition request_cursor :: "js_string option option \<Rightarrow> js_string option option \<Rightarrow> int option" where
  "request_cursor header query =
     (case (parse_public_revision_cursor header, parse_public_revision_cursor query) of
        (Inr (Some h), Inr (Some q)) \<Rightarrow> if h \<noteq> q then None else Some h
      | (Inr (Some h), Inr None) \<Rightarrow> Some h
      | (Inr None, Inr (Some q)) \<Rightarrow> Some q
      | (Inr None, Inr None) \<Rightarrow> Some 0
      | _ \<Rightarrow> None)"

text \<open>A request over the limit is refused before there is a stream to clean up.\<close>

definition open_stream ::
  "rate_limit_decision \<Rightarrow> js_string option option \<Rightarrow> js_string option option \<Rightarrow> http_reply + stream_state" where
  "open_stream rate header query =
     (if \<not> rd_allowed rate
      then Inl (send_public_problem Public_rate_limited 429 None (Some (rd_retryAfterSeconds rate)))
      else Inr (case request_cursor header query of
        None \<Rightarrow> refuse (send_public_problem Public_invalid_request 400 None None) (initial_stream 0)
      | Some cursor \<Rightarrow> initial_stream cursor))"

definition unavailable :: http_reply where
  "unavailable = send_public_problem Public_temporarily_unavailable 503 None (Some 1)"

definition gap_reply :: "int option \<Rightarrow> http_reply" where
  "gap_reply currentRevision = (case currentRevision of None \<Rightarrow> unavailable
     | Some r \<Rightarrow> send_public_problem Public_revision_gap 409 (Some r) None)"

text \<open>\<open>page.events?.[0]\<close> does not continue at the cursor.\<close>

definition replay_broken :: "int \<Rightarrow> public_stream_page \<Rightarrow> bool" where
  "replay_broken cursor page =
     (case pg_events page of Some (ev # _) \<Rightarrow> ev_revision ev \<noteq> cursor + 1 | _ \<Rightarrow> True)"

definition on_preflight :: "public_stream_page tx \<Rightarrow> stream_state \<Rightarrow> stream_state" where
  "on_preflight result s =
     (case result of
        Inl _ \<Rightarrow> refuse unavailable s
      | Inr page \<Rightarrow>
          if st_disconnected s then s\<lparr>st_phase := Handler_done\<rparr>
          else case pg_status page of
            Page_not_found \<Rightarrow> refuse (send_public_problem Public_office_not_found 404 None None) s
          | Page_revision_gap \<Rightarrow> refuse (gap_reply (pg_currentRevision page)) s
          | Page_ok \<Rightarrow>
              (case (pg_currentRevision page, pg_officeId page) of
                 (Some current, Some _) \<Rightarrow>
                   if current < st_cursor s then refuse (send_public_problem Public_invalid_request 400 None None) s
                   else if st_cursor s < current \<and> replay_broken (st_cursor s) page
                   then refuse (gap_reply (Some current)) s
                   else s\<lparr>st_subscribed := True, st_phase := Await_authoritative\<rparr>
               | _ \<Rightarrow> refuse unavailable s))"

definition begin_stream :: "json_parser \<Rightarrow> public_stream_page \<Rightarrow> int \<Rightarrow> (nat \<Rightarrow> bool) \<Rightarrow> stream_state \<Rightarrow> stream_state" where
  "begin_stream parse page current writable s =
     (case queue_events parse (page_events page writable) (s\<lparr>st_streamStarted := True\<rparr>) of
        (Stream_closed, s') \<Rightarrow> s'\<lparr>st_phase := Await_initial_release Stop_quietly\<rparr>
      | (Backpressure, s') \<Rightarrow> s'\<lparr>st_phase := Await_initial_release (Go_on True)\<rparr>
      | (Queued, s') \<Rightarrow>
          (if st_lastSent s' < current then s'\<lparr>st_pendingPump := True\<rparr> else s')
            \<lparr>st_phase := Await_initial_release (Go_on False)\<rparr>)"

definition on_authoritative ::
  "json_parser \<Rightarrow> public_stream_page tx \<Rightarrow> (nat \<Rightarrow> bool) \<Rightarrow> stream_state \<Rightarrow> stream_state" where
  "on_authoritative parse result writable s =
     (case result of
        Inl _ \<Rightarrow> refuse unavailable s
      | Inr page \<Rightarrow>
          if st_disconnected s then s\<lparr>st_phase := Await_initial_release Stop_quietly\<rparr>
          else case pg_status page of
            Page_not_found \<Rightarrow>
              s\<lparr>st_phase := Await_initial_release (Refuse (send_public_problem Public_office_not_found 404 None None))\<rparr>
          | Page_revision_gap \<Rightarrow> s\<lparr>st_phase := Await_initial_release (Refuse (gap_reply (pg_currentRevision page)))\<rparr>
          | Page_ok \<Rightarrow>
              (case pg_currentRevision page of
                 None \<Rightarrow> s\<lparr>st_phase := Await_initial_release (Refuse (send_public_problem Public_invalid_request 400 None None))\<rparr>
               | Some current \<Rightarrow>
                   if st_cursor s < current \<and> replay_broken (st_cursor s) page
                   then s\<lparr>st_phase := Await_initial_release (Refuse (gap_reply (Some current)))\<rparr>
                   else if current < st_cursor s
                   then s\<lparr>st_phase := Await_initial_release (Refuse (send_public_problem Public_invalid_request 400 None None))\<rparr>
                   else begin_stream parse page current writable s))"

definition initial_done :: "stream_state \<Rightarrow> stream_state" where
  "initial_done s0 =
     (let s = s0\<lparr>st_initialReplayComplete := True, st_phase := Handler_done\<rparr> in
      if st_closed s then s
      else let s' = s\<lparr>st_timer := True\<rparr> in if st_pendingPump s' then start_pump s' else s')"

text \<open>An error of the release makes the handler reject.\<close>

definition on_initial_release :: "initial_next \<Rightarrow> bool \<Rightarrow> stream_state \<Rightarrow> stream_state" where
  "on_initial_release next committed s =
     (if \<not> committed
      then s\<lparr>st_phase := Handler_done, st_reply := (if st_streamStarted s then st_reply s else Some Handler_error)\<rparr>
      else case next of
        Stop_quietly \<Rightarrow> s\<lparr>st_phase := Handler_done\<rparr>
      | Refuse reply \<Rightarrow> refuse reply s
      | Go_on True \<Rightarrow> s\<lparr>st_phase := Await_initial_drain\<rparr>
      | Go_on False \<Rightarrow> initial_done s)"

definition on_initial_drain :: "bool \<Rightarrow> stream_state \<Rightarrow> stream_state" where
  "on_initial_drain drained s =
     (if \<not> drained \<or> st_closed s then (stream_close s)\<lparr>st_phase := Handler_done\<rparr>
      else initial_done (s\<lparr>st_pendingPump := True\<rparr>))"

section \<open>The machine\<close>

text \<open>
  A page comes with the answers of the socket to the writes of its events, a drain with whether
  the socket drained before its timeout. \<open>Disconnected\<close> is the close event of the request,
  \<open>Response_closed\<close> that of the response. An action that the state does not wait for changes
  nothing.
\<close>

datatype stream_action =
    Page_arrives "public_stream_page tx" "nat \<Rightarrow> bool"
  | Lease_released bool
  | Drain_settles bool
  | Notified
  | Timer_fires bool
  | Disconnected
  | Response_closed

definition on_page :: "json_parser \<Rightarrow> public_stream_page tx \<Rightarrow> (nat \<Rightarrow> bool) \<Rightarrow> stream_state \<Rightarrow> stream_state" where
  "on_page parse result writable s =
     (case st_phase s of
        Await_preflight \<Rightarrow> on_preflight result s
      | Await_authoritative \<Rightarrow> on_authoritative parse result writable s
      | Pump_acquiring \<Rightarrow> pump_page parse result writable s
      | _ \<Rightarrow> s)"

definition on_release :: "bool \<Rightarrow> stream_state \<Rightarrow> stream_state" where
  "on_release committed s =
     (case st_phase s of
        Await_initial_release next \<Rightarrow> on_initial_release next committed s
      | Pump_releasing returning draining \<Rightarrow> pump_released returning draining committed s
      | _ \<Rightarrow> s)"

definition on_drain :: "bool \<Rightarrow> stream_state \<Rightarrow> stream_state" where
  "on_drain drained s =
     (case st_phase s of
        Await_initial_drain \<Rightarrow> on_initial_drain drained s
      | Pump_draining \<Rightarrow> pump_drained drained s
      | _ \<Rightarrow> s)"

definition on_notified :: "stream_state \<Rightarrow> stream_state" where
  "on_notified s =
     (if \<not> st_subscribed s then s
      else let s' = s\<lparr>st_pendingPump := True\<rparr> in
           if st_streamStarted s' \<and> st_initialReplayComplete s' then start_pump s' else s')"

definition on_timer :: "bool \<Rightarrow> stream_state \<Rightarrow> stream_state" where
  "on_timer writable s =
     (if \<not> st_timer s \<or> st_closed s then s
      else let s' = write_frame Keepalive_frame s in if \<not> writable then stream_close s' else start_pump s')"

definition stream_step :: "json_parser \<Rightarrow> stream_action \<Rightarrow> stream_state \<Rightarrow> stream_state" where
  "stream_step parse action s =
     (case action of
        Page_arrives result writable \<Rightarrow> on_page parse result writable s
      | Lease_released committed \<Rightarrow> on_release committed s
      | Drain_settles drained \<Rightarrow> on_drain drained s
      | Notified \<Rightarrow> on_notified s
      | Timer_fires writable \<Rightarrow> on_timer writable s
      | Disconnected \<Rightarrow> stream_cleanup (s\<lparr>st_disconnected := True\<rparr>)
      | Response_closed \<Rightarrow> if st_streamStarted s then stream_cleanup s else s)"

definition stream_run :: "json_parser \<Rightarrow> stream_action list \<Rightarrow> stream_state \<Rightarrow> stream_state" where
  "stream_run parse actions s = fold (stream_step parse) actions s"

section \<open>What every stream keeps\<close>

fun sent :: "stream_frame list \<Rightarrow> replay_event list" where
  "sent [] = []"
| "sent (Snapshot_frame r p # fs) = \<lparr>ev_revision = r, ev_canonicalPayload = p\<rparr> # sent fs"
| "sent (Resync_frame # fs) = sent fs"
| "sent (Keepalive_frame # fs) = sent fs"

lemma sent_append [simp]: "sent (fs @ gs) = sent fs @ sent gs"
  by (induction fs rule: sent.induct) simp_all

text \<open>The frames written so far, and what a closed stream has given back.\<close>

definition frames_ok :: "json_parser \<Rightarrow> stream_state \<Rightarrow> bool" where
  "frames_ok parse s \<longleftrightarrow> st_cursor s \<le> st_lastSent s
     \<and> map ev_revision (sent (st_written s)) = [st_cursor s + 1..st_lastSent s]
     \<and> list_all (canonical_payload_matches_revision parse) (sent (st_written s))
     \<and> Resync_frame \<notin> set (butlast (st_written s))
     \<and> (Resync_frame \<in> set (st_written s) \<longrightarrow> st_closed s)
     \<and> (st_written s \<noteq> [] \<longrightarrow> st_streamStarted s)"

definition closed_ok :: "stream_state \<Rightarrow> bool" where
  "closed_ok s \<longleftrightarrow> st_releases s = (if st_closed s then 1 else 0)
     \<and> (st_closed s \<longrightarrow> \<not> st_timer s \<and> \<not> st_subscribed s)
     \<and> (st_writableEnded s \<or> st_disconnected s \<longrightarrow> st_closed s)"

text \<open>
  Where the stream may wait, given its flags: a completed and open stream has its timer, and a
  pump that is wanted is running.
\<close>

definition phase_ok :: "stream_state \<Rightarrow> bool" where
  "phase_ok s \<longleftrightarrow> (st_timer s \<longrightarrow> st_initialReplayComplete s) \<and> (st_initialReplayComplete s \<longrightarrow> st_streamStarted s)
     \<and> (st_reply s \<noteq> None \<longrightarrow> st_phase s = Handler_done \<and> \<not> st_streamStarted s)
     \<and> (st_initialReplayComplete s \<and> \<not> st_closed s \<longrightarrow> st_timer s \<and> (st_pendingPump s \<longrightarrow> st_pumping s))
     \<and> (case st_phase s of
          Await_preflight \<Rightarrow> \<not> st_streamStarted s \<and> \<not> st_pumping s
        | Await_authoritative \<Rightarrow> \<not> st_streamStarted s \<and> \<not> st_pumping s
        | Await_initial_release next \<Rightarrow> \<not> st_initialReplayComplete s \<and> \<not> st_pumping s
            \<and> (case next of Refuse _ \<Rightarrow> \<not> st_streamStarted s | Go_on _ \<Rightarrow> st_streamStarted s | Stop_quietly \<Rightarrow> st_closed s)
        | Await_initial_drain \<Rightarrow> \<not> st_initialReplayComplete s \<and> st_streamStarted s \<and> \<not> st_pumping s
        | Handler_done \<Rightarrow> \<not> st_pumping s
        | _ \<Rightarrow> st_pumping s \<and> st_initialReplayComplete s)"

lemmas stream_ops = stream_cleanup_def stream_close_def write_frame_def send_resync_and_close_def refuse_def

text \<open>What the operations of a stream leave alone.\<close>

definition same_course :: "stream_state \<Rightarrow> stream_state \<Rightarrow> bool" where
  "same_course s s' \<longleftrightarrow> st_phase s' = st_phase s \<and> st_cursor s' = st_cursor s \<and> st_disconnected s' = st_disconnected s
     \<and> st_streamStarted s' = st_streamStarted s \<and> st_pumping s' = st_pumping s \<and> st_pendingPump s' = st_pendingPump s
     \<and> st_initialReplayComplete s' = st_initialReplayComplete s \<and> st_reply s' = st_reply s
     \<and> (st_closed s \<longrightarrow> st_closed s') \<and> (\<not> st_closed s' \<longrightarrow> st_timer s' = st_timer s \<and> st_subscribed s' = st_subscribed s)"

lemma same_course_trans: "same_course s t \<Longrightarrow> same_course t u \<Longrightarrow> same_course s u"
  by (auto simp: same_course_def)

lemma stream_close_ok:
  assumes "frames_ok parse s" "closed_ok s"
  shows "frames_ok parse (stream_close s)" "closed_ok (stream_close s)" "st_closed (stream_close s)"
    "same_course s (stream_close s)" "frames_ok parse (stream_cleanup s)" "closed_ok (stream_cleanup s)"
    "st_closed (stream_cleanup s)" "same_course s (stream_cleanup s)"
  using assms by (auto simp: frames_ok_def closed_ok_def stream_ops Let_def same_course_def)

lemma resync_ok:
  assumes "frames_ok parse s" "closed_ok s"
  shows "frames_ok parse (send_resync_and_close s)" "closed_ok (send_resync_and_close s)"
    "st_closed (send_resync_and_close s)" "same_course s (send_resync_and_close s)"
  using assms by (auto simp: frames_ok_def closed_ok_def stream_ops Let_def butlast_append same_course_def dest: in_set_butlastD)

lemma queue_event_ok:
  assumes "queue_event parse ev writable s = (result, s')" "frames_ok parse s" "closed_ok s" "st_streamStarted s"
  shows "frames_ok parse s' \<and> closed_ok s' \<and> same_course s s' \<and> (result = Stream_closed \<longrightarrow> st_closed s')"
proof (cases "st_closed s \<or> ev_revision ev \<le> st_lastSent s \<or> ev_revision ev \<noteq> st_lastSent s + 1
    \<or> \<not> canonical_payload_matches_revision parse ev")
  case True
  with assms resync_ok [OF assms(2,3)] show ?thesis
    by (auto simp: queue_event_def same_course_def split: if_splits)
next
  case False
  then have step: "s' = s\<lparr>st_written := st_written s @ [Snapshot_frame (ev_revision ev) (ev_canonicalPayload ev)],
      st_lastSent := st_lastSent s + 1\<rparr>" "result \<noteq> Stream_closed"
    using assms(1) by (auto simp: queue_event_def write_frame_def split: if_splits)
  have "[st_cursor s + 1..st_lastSent s + 1] = [st_cursor s + 1..st_lastSent s] @ [st_lastSent s + 1]"
    using assms(2) by (simp add: frames_ok_def upto_rec2)
  moreover have "Resync_frame \<notin> set (st_written s)" using False assms(2) by (simp add: frames_ok_def)
  ultimately show ?thesis
    using False assms(2-4) step(2) unfolding step(1)
    by (cases ev) (simp add: frames_ok_def closed_ok_def same_course_def butlast_append)
qed

lemma queue_events_ok:
  assumes "queue_events parse evs s = (result, s')" "frames_ok parse s" "closed_ok s" "st_streamStarted s"
  shows "frames_ok parse s' \<and> closed_ok s' \<and> same_course s s' \<and> (result = Stream_closed \<longrightarrow> st_closed s')"
  using assms
proof (induction evs arbitrary: s)
  case Nil
  then show ?case by (auto simp: same_course_def)
next
  case (Cons ew evs)
  obtain ev writable where ew: "ew = (ev, writable)" by (cases ew)
  obtain r t where q: "queue_event parse ev writable s = (r, t)" by (cases "queue_event parse ev writable s")
  note t = queue_event_ok [OF q Cons.prems(2-4)]
  show ?case
  proof (cases "r = Queued")
    case True
    with Cons.prems(1) have "queue_events parse evs t = (result, s')" by (simp add: ew q)
    with Cons.IH [OF this] t Cons.prems(4) show ?thesis by (auto simp: same_course_def)
  next
    case False
    with Cons.prems(1) have "(result, s') = (r, t)" by (cases r) (simp_all add: ew q)
    with t show ?thesis by simp
  qed
qed

text \<open>The three parts together, and that every step keeps them.\<close>

definition stream_ok :: "json_parser \<Rightarrow> stream_state \<Rightarrow> bool" where
  "stream_ok parse s \<longleftrightarrow> frames_ok parse s \<and> closed_ok s \<and> phase_ok s"

text \<open>Changes of the flags that concern neither the frames nor what was given back.\<close>

lemma frames_closed_cong:
  assumes "st_cursor s' = st_cursor s" "st_lastSent s' = st_lastSent s" "st_written s' = st_written s"
    "st_closed s' = st_closed s" "st_streamStarted s' = st_streamStarted s" "st_releases s' = st_releases s"
    "st_writableEnded s' = st_writableEnded s" "st_disconnected s' = st_disconnected s"
    "st_closed s \<longrightarrow> st_timer s' = st_timer s \<and> st_subscribed s' = st_subscribed s"
  shows "frames_ok parse s' = frames_ok parse s" "closed_ok s' = closed_ok s"
  using assms by (auto simp: frames_ok_def closed_ok_def)

lemma start_pump_ok:
  assumes "frames_ok parse s" "closed_ok s" "phase_ok s" "st_initialReplayComplete s"
  shows "stream_ok parse (start_pump s)"
proof -
  have "frames_ok parse (start_pump s) = frames_ok parse s" "closed_ok (start_pump s) = closed_ok s"
    by (rule frames_closed_cong; simp add: start_pump_def)+
  moreover have "phase_ok (start_pump s)"
    using assms(3,4) by (cases "st_phase s") (auto simp: phase_ok_def start_pump_def split: initial_next.splits)
  ultimately show ?thesis using assms by (simp add: stream_ok_def)
qed

text \<open>A pump that ends starts again if it is wanted; so nothing stays wanted when it has ended.\<close>

definition pump_running :: "stream_state \<Rightarrow> bool" where
  "pump_running s \<longleftrightarrow> st_pumping s \<and> st_initialReplayComplete s \<and> st_streamStarted s \<and> st_reply s = None
     \<and> (\<not> st_closed s \<longrightarrow> st_timer s)"

lemma pump_finish_ok:
  assumes "frames_ok parse s" "closed_ok s" "pump_running s"
  shows "stream_ok parse (pump_finish s)"
proof -
  have "frames_ok parse (pump_finish s) = frames_ok parse s" "closed_ok (pump_finish s) = closed_ok s"
    by (rule frames_closed_cong; simp add: pump_finish_def start_pump_def Let_def)+
  moreover have "phase_ok (pump_finish s)"
    using assms(2,3) by (auto simp: phase_ok_def pump_finish_def start_pump_def pump_running_def closed_ok_def Let_def)
  ultimately show ?thesis using assms by (simp add: stream_ok_def)
qed

lemma pump_again_ok:
  assumes "frames_ok parse s" "closed_ok s" "pump_running s"
  shows "stream_ok parse (pump_again s)"
proof (cases "st_pendingPump s \<and> \<not> st_closed s")
  case True
  then have eq: "pump_again s = s\<lparr>st_pendingPump := False, st_phase := Pump_acquiring\<rparr>" by (simp add: pump_again_def)
  have "frames_ok parse (pump_again s) = frames_ok parse s" "closed_ok (pump_again s) = closed_ok s"
    by (rule frames_closed_cong; simp add: eq)+
  moreover have "phase_ok (pump_again s)"
    using assms(3) by (auto simp: phase_ok_def eq pump_running_def)
  ultimately show ?thesis using assms by (simp add: stream_ok_def)
next
  case False
  then show ?thesis using pump_finish_ok [OF assms] by (auto simp: pump_again_def)
qed

lemma phase_pump_running:
  assumes "phase_ok s" "st_phase s \<in> {Pump_acquiring, Pump_draining} \<or> (\<exists>r d. st_phase s = Pump_releasing r d)"
  shows "pump_running s"
  using assms by (auto simp: phase_ok_def pump_running_def)

lemma same_course_running: "same_course s s' \<Longrightarrow> pump_running s \<Longrightarrow> pump_running s'"
  by (auto simp: same_course_def pump_running_def)

text \<open>The stream waits in a phase of the pump.\<close>

fun pump_wait :: "stream_phase \<Rightarrow> bool" where
  "pump_wait (Pump_releasing r d) = True"
| "pump_wait Pump_draining = True"
| "pump_wait _ = False"

lemma releasing_ok:
  assumes "frames_ok parse s" "closed_ok s" "pump_running s"
    and "pump_wait ph"
  shows "stream_ok parse (s\<lparr>st_phase := ph\<rparr>)" "stream_ok parse (s\<lparr>st_pendingPump := True, st_phase := ph\<rparr>)"
proof -
  have "frames_ok parse (s\<lparr>st_phase := ph\<rparr>)" "closed_ok (s\<lparr>st_phase := ph\<rparr>)"
    "frames_ok parse (s\<lparr>st_pendingPump := True, st_phase := ph\<rparr>)" "closed_ok (s\<lparr>st_pendingPump := True, st_phase := ph\<rparr>)"
    using assms(1,2) by (simp_all add: frames_ok_def closed_ok_def)
  moreover have "phase_ok (s\<lparr>st_phase := ph\<rparr>)" "phase_ok (s\<lparr>st_pendingPump := True, st_phase := ph\<rparr>)"
    using assms(2-4) by (cases ph; auto simp: phase_ok_def pump_running_def closed_ok_def)+
  ultimately show "stream_ok parse (s\<lparr>st_phase := ph\<rparr>)" "stream_ok parse (s\<lparr>st_pendingPump := True, st_phase := ph\<rparr>)"
    by (simp_all add: stream_ok_def)
qed

lemma pump_page_ok:
  assumes ok: "stream_ok parse s" and ph: "st_phase s = Pump_acquiring"
  shows "stream_ok parse (pump_page parse result writable s)"
proof -
  have s: "frames_ok parse s" "closed_ok s" "phase_ok s" using ok by (simp_all add: stream_ok_def)
  have run: "pump_running s" by (rule phase_pump_running [OF s(3)]) (simp add: ph)
  have started: "st_streamStarted s" using run by (simp add: pump_running_def)
  note cl = stream_close_ok [OF s(1,2)] and rs = resync_ok [OF s(1,2)]
  note run_cl = same_course_running [OF cl(4) run] and run_rs = same_course_running [OF rs(4) run]
  show ?thesis
  proof (cases result)
    case (Inl e)
    then show ?thesis using pump_finish_ok [OF cl(1,2) run_cl] by (simp add: pump_page_def)
  next
    case (Inr page)
    show ?thesis
    proof (cases "pg_status page = Page_ok")
      case False
      then show ?thesis
        using releasing_ok [OF cl(1,2) run_cl] releasing_ok [OF rs(1,2) run_rs] by (auto simp: pump_page_def Inr)
    next
      case True
      obtain r t where q: "queue_events parse (page_events page writable) s = (r, t)"
        by (cases "queue_events parse (page_events page writable) s")
      have t: "frames_ok parse t" "closed_ok t" "pump_running t"
        using queue_events_ok [OF q s(1,2) started] same_course_running [OF _ run] by blast+
      show ?thesis
        using releasing_ok [OF t] True by (cases r) (auto simp: pump_page_def Inr q split: option.splits)
    qed
  qed
qed

lemma pump_released_ok:
  assumes ok: "stream_ok parse s" and ph: "st_phase s = Pump_releasing r d"
  shows "stream_ok parse (pump_released r d committed s)"
proof -
  have s: "frames_ok parse s" "closed_ok s" "phase_ok s" using ok by (simp_all add: stream_ok_def)
  have run: "pump_running s" by (rule phase_pump_running [OF s(3)]) (simp add: ph)
  note cl = stream_close_ok [OF s(1,2)]
  show ?thesis
    using pump_finish_ok [OF cl(1,2) same_course_running [OF cl(4) run]] pump_finish_ok [OF s(1,2) run]
      pump_again_ok [OF s(1,2) run] releasing_ok [OF s(1,2) run] by (auto simp: pump_released_def)
qed

lemma pump_drained_ok:
  assumes ok: "stream_ok parse s" and ph: "st_phase s = Pump_draining"
  shows "stream_ok parse (pump_drained drained s)"
proof -
  have s: "frames_ok parse s" "closed_ok s" "phase_ok s" using ok by (simp_all add: stream_ok_def)
  have run: "pump_running s" by (rule phase_pump_running [OF s(3)]) (simp add: ph)
  note cl = stream_close_ok [OF s(1,2)]
  let ?t = "s\<lparr>st_pendingPump := True\<rparr>"
  have "frames_ok parse ?t = frames_ok parse s" "closed_ok ?t = closed_ok s" by (rule frames_closed_cong; simp)+
  with s have t: "frames_ok parse ?t" "closed_ok ?t" "pump_running ?t" using run by (simp_all add: pump_running_def)
  show ?thesis
    using pump_finish_ok [OF cl(1,2) same_course_running [OF cl(4) run]] pump_again_ok [OF t] by (simp add: pump_drained_def)
qed

text \<open>Before the stream: refusals, and the first page.\<close>

lemma refuse_ok:
  assumes "frames_ok parse s" "closed_ok s" "phase_ok s" "\<not> st_streamStarted s" "\<not> st_pumping s"
  shows "stream_ok parse (refuse reply s)"
  using assms by (auto simp: stream_ok_def frames_ok_def closed_ok_def phase_ok_def stream_ops)

lemma preflight_wait_ok:
  assumes "frames_ok parse s" "closed_ok s" "phase_ok s" "\<not> st_streamStarted s" "\<not> st_pumping s" "st_reply s = None"
  shows "st_disconnected s \<Longrightarrow> stream_ok parse (s\<lparr>st_phase := Handler_done\<rparr>)"
    "\<not> st_closed s \<Longrightarrow> stream_ok parse (s\<lparr>st_subscribed := True, st_phase := Await_authoritative\<rparr>)"
    "st_closed s \<Longrightarrow> stream_ok parse (s\<lparr>st_phase := Await_initial_release Stop_quietly\<rparr>)"
    "stream_ok parse (s\<lparr>st_phase := Await_initial_release (Refuse reply)\<rparr>)"
  using assms by (auto simp: stream_ok_def frames_ok_def closed_ok_def phase_ok_def)

text \<open>
  Only a disconnect closes a stream that has not begun; its route then returns without a reply.
\<close>

definition closed_by_disconnect :: "stream_state \<Rightarrow> bool" where
  "closed_by_disconnect s \<longleftrightarrow> (st_closed s \<and> \<not> st_streamStarted s \<and> st_phase s \<noteq> Handler_done \<longrightarrow> st_disconnected s)"

lemma on_preflight_ok:
  assumes ok: "stream_ok parse s" and ph: "st_phase s = Await_preflight" and cd: "closed_by_disconnect s"
  shows "stream_ok parse (on_preflight result s)"
proof -
  have s: "frames_ok parse s" "closed_ok s" "phase_ok s" using ok by (simp_all add: stream_ok_def)
  then have p: "\<not> st_streamStarted s" "\<not> st_pumping s" "st_reply s = None" using ph by (auto simp: phase_ok_def)
  have cl: "\<not> st_disconnected s \<Longrightarrow> \<not> st_closed s" using cd p ph by (auto simp: closed_by_disconnect_def)
  show ?thesis
    using refuse_ok [OF s p(1,2)] preflight_wait_ok(1,2) [OF s p] cl
    by (auto simp: on_preflight_def split: sum.splits page_status.splits option.splits)
qed

lemma begin_stream_ok:
  assumes s: "frames_ok parse s" "closed_ok s" "phase_ok s" and p: "\<not> st_streamStarted s" "\<not> st_pumping s" "st_reply s = None"
    and open_: "\<not> st_closed s"
  shows "stream_ok parse (begin_stream parse page current writable s)"
proof -
  let ?s = "s\<lparr>st_streamStarted := True\<rparr>"
  obtain r t where q: "queue_events parse (page_events page writable) ?s = (r, t)"
    by (cases "queue_events parse (page_events page writable) ?s")
  have init: "frames_ok parse ?s" "closed_ok ?s" using s by (auto simp: frames_ok_def closed_ok_def)
  note t = queue_events_ok [OF q init]
  have t': "frames_ok parse t" "closed_ok t" "same_course ?s t" "r = Stream_closed \<Longrightarrow> st_closed t" using t by simp_all
  have "\<not> st_initialReplayComplete s" "\<not> st_timer s" using s(3) p by (auto simp: phase_ok_def)
  with t'(3) p open_ have f: "\<not> st_initialReplayComplete t" "\<not> st_pumping t" "st_reply t = None" "st_streamStarted t"
    "\<not> st_timer t"
    using t'(2) by (auto simp: same_course_def closed_ok_def)
  show ?thesis
    using t'(1,2,4) f by (cases r) (auto simp: begin_stream_def q stream_ok_def frames_ok_def closed_ok_def phase_ok_def)
qed

lemma on_authoritative_ok:
  assumes ok: "stream_ok parse s" and ph: "st_phase s = Await_authoritative" and cd: "closed_by_disconnect s"
  shows "stream_ok parse (on_authoritative parse result writable s)"
proof -
  have s: "frames_ok parse s" "closed_ok s" "phase_ok s" using ok by (simp_all add: stream_ok_def)
  then have p: "\<not> st_streamStarted s" "\<not> st_pumping s" "st_reply s = None" using ph by (auto simp: phase_ok_def)
  have cl: "\<not> st_disconnected s \<Longrightarrow> \<not> st_closed s" using cd p ph by (auto simp: closed_by_disconnect_def)
  have dc: "st_disconnected s \<Longrightarrow> st_closed s" using s(2) by (simp add: closed_ok_def)
  show ?thesis
    using refuse_ok [OF s p(1,2)] preflight_wait_ok(3,4) [OF s p] begin_stream_ok [OF s p] cl dc
    by (auto simp: on_authoritative_def split: sum.splits page_status.splits option.splits)
qed

lemma initial_done_ok:
  assumes s: "frames_ok parse s" "closed_ok s" and p: "st_streamStarted s" "\<not> st_pumping s" "st_reply s = None" "\<not> st_timer s"
  shows "stream_ok parse (initial_done s)"
proof -
  let ?t = "s\<lparr>st_initialReplayComplete := True, st_phase := Handler_done\<rparr>"
  have t: "frames_ok parse ?t" "closed_ok ?t" using s by (auto simp: frames_ok_def closed_ok_def)
  show ?thesis
    using s p by (auto simp: initial_done_def Let_def start_pump_def stream_ok_def frames_ok_def closed_ok_def phase_ok_def)
qed

lemma on_initial_release_ok:
  assumes ok: "stream_ok parse s" and ph: "st_phase s = Await_initial_release next"
  shows "stream_ok parse (on_initial_release next committed s)"
proof -
  have s: "frames_ok parse s" "closed_ok s" "phase_ok s" using ok by (simp_all add: stream_ok_def)
  then have p: "\<not> st_initialReplayComplete s" "\<not> st_pumping s" "st_reply s = None" "\<not> st_timer s"
    using ph by (auto simp: phase_ok_def)
  show ?thesis
  proof (cases committed)
    case False
    then show ?thesis using s p ph
      by (auto simp: on_initial_release_def stream_ok_def frames_ok_def closed_ok_def phase_ok_def)
  next
    case c: True
    show ?thesis
    proof (cases "next")
      case Stop_quietly
      then show ?thesis using c s p ph
        by (auto simp: on_initial_release_def stream_ok_def frames_ok_def closed_ok_def phase_ok_def)
    next
      case (Refuse reply)
      then have "\<not> st_streamStarted s" using s(3) ph by (simp add: phase_ok_def)
      from refuse_ok [OF s this p(2)] Refuse c show ?thesis by (simp add: on_initial_release_def)
    next
      case (Go_on waiting)
      then have st: "st_streamStarted s" using s(3) ph by (simp add: phase_ok_def)
      have "stream_ok parse (s\<lparr>st_phase := Await_initial_drain\<rparr>)"
        using s p st by (auto simp: stream_ok_def frames_ok_def closed_ok_def phase_ok_def)
      with initial_done_ok [OF s(1,2) st p(2-4)] Go_on c show ?thesis
        by (cases waiting) (simp_all add: on_initial_release_def)
    qed
  qed
qed

lemma on_initial_drain_ok:
  assumes ok: "stream_ok parse s" and ph: "st_phase s = Await_initial_drain"
  shows "stream_ok parse (on_initial_drain drained s)"
proof -
  have s: "frames_ok parse s" "closed_ok s" "phase_ok s" using ok by (simp_all add: stream_ok_def)
  then have p: "\<not> st_initialReplayComplete s" "\<not> st_pumping s" "st_reply s = None" "\<not> st_timer s" "st_streamStarted s"
    using ph by (auto simp: phase_ok_def)
  have t: "frames_ok parse (s\<lparr>st_pendingPump := True\<rparr>)" "closed_ok (s\<lparr>st_pendingPump := True\<rparr>)"
    using s by (simp_all add: frames_ok_def closed_ok_def)
  have "stream_ok parse ((stream_close s)\<lparr>st_phase := Handler_done\<rparr>)"
    using s p by (auto simp: stream_ok_def stream_ops Let_def frames_ok_def closed_ok_def phase_ok_def)
  with initial_done_ok [OF t] p show ?thesis by (simp add: on_initial_drain_def)
qed

section \<open>Every run\<close>

lemma on_notified_ok:
  assumes ok: "stream_ok parse s"
  shows "stream_ok parse (on_notified s)"
proof -
  have s: "frames_ok parse s" "closed_ok s" "phase_ok s" using ok by (simp_all add: stream_ok_def)
  let ?t = "s\<lparr>st_pendingPump := True\<rparr>"
  have t: "frames_ok parse ?t" "closed_ok ?t" using s by (simp_all add: frames_ok_def closed_ok_def)
  show ?thesis
  proof (cases "st_subscribed s \<and> st_initialReplayComplete s")
    case True
    then have "\<not> st_closed s" "st_streamStarted s" "st_reply s = None" using s by (auto simp: closed_ok_def phase_ok_def)
    with True s(3) have "phase_ok (start_pump ?t)"
      by (cases "st_phase s") (auto simp: on_notified_def start_pump_def phase_ok_def)
    moreover have "frames_ok parse (start_pump ?t) = frames_ok parse ?t" "closed_ok (start_pump ?t) = closed_ok ?t"
      by (rule frames_closed_cong; simp add: start_pump_def)+
    ultimately show ?thesis using t True \<open>st_streamStarted s\<close> by (simp add: on_notified_def stream_ok_def Let_def)
  next
    case False
    then have eq: "on_notified s = (if st_subscribed s then ?t else s)" by (auto simp: on_notified_def)
    have "phase_ok ?t" if "st_subscribed s"
      using that False s(3) by (cases "st_phase s") (auto simp: phase_ok_def split: initial_next.splits)
    then show ?thesis using s t by (simp add: eq stream_ok_def)
  qed
qed

lemma write_keepalive_ok:
  assumes "frames_ok parse s" "closed_ok s" "\<not> st_closed s" "st_streamStarted s"
  shows "frames_ok parse (write_frame Keepalive_frame s)" "closed_ok (write_frame Keepalive_frame s)"
    "same_course s (write_frame Keepalive_frame s)"
  using assms by (auto simp: frames_ok_def closed_ok_def write_frame_def same_course_def butlast_append)

lemma phase_close_ok: "phase_ok s \<Longrightarrow> same_course s t \<Longrightarrow> closed_ok t \<Longrightarrow> st_closed t \<Longrightarrow> phase_ok t"
  by (cases "st_phase s") (auto simp: phase_ok_def same_course_def closed_ok_def split: initial_next.splits)

lemma on_timer_ok:
  assumes ok: "stream_ok parse s"
  shows "stream_ok parse (on_timer writable s)"
proof (cases "st_timer s \<and> \<not> st_closed s")
  case False
  with ok show ?thesis by (auto simp: on_timer_def)
next
  case True
  have s: "frames_ok parse s" "closed_ok s" "phase_ok s" using ok by (simp_all add: stream_ok_def)
  let ?t = "write_frame Keepalive_frame s"
  have st: "st_streamStarted s" "st_initialReplayComplete s" using s(3) True by (auto simp: phase_ok_def)
  note t = write_keepalive_ok [OF s(1,2) _ st(1)]
  have ph: "phase_ok ?t" using s(3) True
    by (cases "st_phase s") (auto simp: phase_ok_def write_frame_def split: initial_next.splits)
  have ini: "st_initialReplayComplete ?t" using st by (simp add: write_frame_def)
  note cl = stream_close_ok [OF t(1,2)]
  show ?thesis
    using True t start_pump_ok [OF t(1,2) ph ini] cl(1,2) phase_close_ok [OF ph cl(4,2,3)]
    by (simp add: on_timer_def Let_def stream_ok_def)
qed

lemma stream_step_ok:
  assumes ok: "stream_ok parse s" and cd: "closed_by_disconnect s"
  shows "stream_ok parse (stream_step parse action s)"
proof -
  have s: "frames_ok parse s" "closed_ok s" "phase_ok s" using ok by (simp_all add: stream_ok_def)
  show ?thesis
  proof (cases action)
    case (Page_arrives result writable)
    then show ?thesis using on_preflight_ok [OF ok _ cd] on_authoritative_ok [OF ok _ cd] pump_page_ok [OF ok] ok
      by (simp add: stream_step_def on_page_def split: stream_phase.splits)
  next
    case (Lease_released committed)
    then show ?thesis using on_initial_release_ok [OF ok] pump_released_ok [OF ok] ok
      by (simp add: stream_step_def on_release_def split: stream_phase.splits)
  next
    case (Drain_settles drained)
    then show ?thesis using on_initial_drain_ok [OF ok] pump_drained_ok [OF ok] ok
      by (simp add: stream_step_def on_drain_def split: stream_phase.splits)
  next
    case Notified
    then show ?thesis using on_notified_ok [OF ok] by (simp add: stream_step_def)
  next
    case (Timer_fires writable)
    then show ?thesis using on_timer_ok [OF ok] by (simp add: stream_step_def)
  next
    case Disconnected
    have "frames_ok parse (stream_cleanup (s\<lparr>st_disconnected := True\<rparr>)) \<and> closed_ok (stream_cleanup (s\<lparr>st_disconnected := True\<rparr>))"
      using s by (auto simp: frames_ok_def closed_ok_def stream_cleanup_def)
    moreover have "phase_ok (stream_cleanup (s\<lparr>st_disconnected := True\<rparr>))"
      using s(3) by (cases "st_phase s") (auto simp: phase_ok_def stream_cleanup_def split: initial_next.splits)
    ultimately show ?thesis using Disconnected by (simp add: stream_step_def stream_ok_def)
  next
    case Response_closed
    note cl = stream_close_ok [OF s(1,2)]
    have "stream_ok parse (stream_cleanup s)"
      using cl(5,6) phase_close_ok [OF s(3) cl(8,6,7)] by (simp add: stream_ok_def)
    with ok Response_closed show ?thesis by (simp add: stream_step_def)
  qed
qed

lemma started_by_disconnect: "st_streamStarted s \<Longrightarrow> closed_by_disconnect s"
  by (simp add: closed_by_disconnect_def)

text \<open>What fixes a stream once it has begun: its cursor, and that it has.\<close>

definition same_begin :: "stream_state \<Rightarrow> stream_state \<Rightarrow> bool" where
  "same_begin s s' \<longleftrightarrow> st_cursor s' = st_cursor s \<and> st_streamStarted s' = st_streamStarted s"

lemma pump_keeps_started [simp]:
  "same_begin s (pump_finish t) = same_begin s t" "same_begin s (pump_again t) = same_begin s t"
  "same_begin s (stream_close t) = same_begin s t" "same_begin s (send_resync_and_close t) = same_begin s t"
  "same_begin s (start_pump t) = same_begin s t" "same_begin s (initial_done t) = same_begin s t"
  "same_begin s (write_frame f t) = same_begin s t" "same_begin s (stream_cleanup t) = same_begin s t"
  "same_begin s (refuse reply t) = same_begin s t" "same_begin s s"
  "same_begin s (t\<lparr>st_phase := ph\<rparr>) = same_begin s t" "same_begin s (t\<lparr>st_pendingPump := b\<rparr>) = same_begin s t"
  "same_begin s (t\<lparr>st_lastSent := n\<rparr>) = same_begin s t" "same_begin s (t\<lparr>st_subscribed := b\<rparr>) = same_begin s t"
  "same_begin s (t\<lparr>st_phase := ph, st_reply := rp\<rparr>) = same_begin s t" "same_begin s (t\<lparr>st_reply := rp\<rparr>) = same_begin s t" "same_begin s (t\<lparr>st_disconnected := b\<rparr>) = same_begin s t"
  by (simp_all add: same_begin_def pump_finish_def pump_again_def stream_ops start_pump_def initial_done_def Let_def)

lemma queue_event_same: "same_begin s (snd (queue_event parse ev writable t)) = same_begin s t"
  by (simp add: queue_event_def)

lemma queue_events_same: "same_begin s (snd (queue_events parse evs t)) = same_begin s t"
proof (induction evs arbitrary: t)
  case (Cons ew evs)
  obtain ev writable where ew: "ew = (ev, writable)" by (cases ew)
  obtain r u where q: "queue_event parse ev writable t = (r, u)" by (cases "queue_event parse ev writable t")
  then have "same_begin s u = same_begin s t" using queue_event_same [of s parse ev writable t] by simp
  with Cons show ?case by (cases r) (simp_all add: ew q)
qed simp

lemma begin_stream_same: "same_begin (s\<lparr>st_streamStarted := True\<rparr>) (begin_stream parse page current writable s)"
  using queue_events_same [of "s\<lparr>st_streamStarted := True\<rparr>" parse "page_events page writable" "s\<lparr>st_streamStarted := True\<rparr>"]
  by (auto simp: begin_stream_def split: prod.splits queue_event_result.splits)

lemma pump_page_same [simp]: "same_begin s (pump_page parse result writable t) = same_begin s t"
proof (cases result)
  case (Inr page)
  then show ?thesis using queue_events_same [of s parse "page_events page writable" t]
    by (auto simp: pump_page_def split: prod.splits queue_event_result.splits option.splits)
qed (simp add: pump_page_def)

lemma on_page_same:
  "same_begin s (on_page parse result writable s)
    \<or> st_phase s = Await_authoritative \<and> same_begin (s\<lparr>st_streamStarted := True\<rparr>) (on_page parse result writable s)"
  by (cases "st_phase s") (auto simp: on_page_def on_preflight_def on_authoritative_def begin_stream_same
      split: sum.splits page_status.splits option.splits)

lemma other_steps_same [simp]:
  "same_begin s (on_release committed t) = same_begin s t" "same_begin s (on_drain drained t) = same_begin s t"
  "same_begin s (on_notified t) = same_begin s t" "same_begin s (on_timer writable t) = same_begin s t"
  by (auto simp: on_release_def on_initial_release_def pump_released_def on_drain_def on_initial_drain_def pump_drained_def
      on_notified_def on_timer_def Let_def split: stream_phase.splits initial_next.splits bool.splits)

lemma stream_step_same:
  "same_begin s (stream_step parse action s)
    \<or> st_phase s = Await_authoritative \<and> same_begin (s\<lparr>st_streamStarted := True\<rparr>) (stream_step parse action s)"
  by (cases action) (auto simp: stream_step_def on_page_same)

lemma step_by_disconnect:
  assumes cd: "closed_by_disconnect s" and ok: "stream_ok parse s"
  shows "closed_by_disconnect (stream_step parse action s)"
proof (cases "st_streamStarted (stream_step parse action s)")
  case True
  then show ?thesis by (rule started_by_disconnect)
next
  case False
  have ph: "phase_ok s" using ok by (simp add: stream_ok_def)
  have ns: "\<not> st_streamStarted s" using stream_step_same [of s parse action] False by (auto simp: same_begin_def)
  then have np: "st_phase s \<noteq> Pump_acquiring" "st_phase s \<noteq> Pump_draining" "st_phase s \<noteq> Pump_releasing r d"
    "st_phase s \<noteq> Await_initial_drain" "st_phase s \<noteq> Await_initial_release (Go_on b)" "\<not> st_timer s" for r d b
    using ph by (auto simp: phase_ok_def)
  have done_: "closed_by_disconnect (refuse reply t)" for reply t by (simp add: closed_by_disconnect_def refuse_def)
  show ?thesis
  proof (cases action)
    case (Page_arrives result writable)
    consider "st_phase s = Await_preflight" | "st_phase s = Await_authoritative" | "stream_step parse action s = s"
      using np by (cases "st_phase s") (auto simp: Page_arrives stream_step_def on_page_def)
    then show ?thesis
    proof cases
      case 1
      then have eq: "stream_step parse action s = on_preflight result s" by (simp add: Page_arrives stream_step_def on_page_def)
      show ?thesis unfolding eq using cd done_ 1
        by (auto simp: on_preflight_def closed_by_disconnect_def split: sum.splits page_status.splits option.splits)
    next
      case 2
      then have eq: "stream_step parse action s = on_authoritative parse result writable s"
        by (simp add: Page_arrives stream_step_def on_page_def)
      have "closed_by_disconnect (begin_stream parse page current writable s)" for page current
        using begin_stream_same [of s parse page current writable] by (simp add: closed_by_disconnect_def same_begin_def)
      then show ?thesis unfolding eq using cd done_ 2
        by (auto simp: on_authoritative_def closed_by_disconnect_def split: sum.splits page_status.splits option.splits)
    qed (use cd in simp)
  next
    case (Lease_released committed)
    with np cd done_ show ?thesis
      by (auto simp: stream_step_def on_release_def on_initial_release_def closed_by_disconnect_def
          split: stream_phase.splits initial_next.splits bool.splits)
  next
    case (Drain_settles drained)
    with np cd show ?thesis by (auto simp: stream_step_def on_drain_def split: stream_phase.splits)
  next
    case Notified
    with cd ns show ?thesis by (auto simp: stream_step_def on_notified_def Let_def closed_by_disconnect_def)
  next
    case (Timer_fires writable)
    with np cd show ?thesis by (simp add: stream_step_def on_timer_def)
  next
    case Disconnected
    then show ?thesis by (simp add: stream_step_def closed_by_disconnect_def stream_cleanup_def)
  next
    case Response_closed
    with cd ns show ?thesis by (simp add: stream_step_def)
  qed
qed

lemma stream_run_ok:
  assumes "stream_ok parse s" "closed_by_disconnect s"
  shows "stream_ok parse (stream_run parse actions s) \<and> closed_by_disconnect (stream_run parse actions s)"
  using assms unfolding stream_run_def
  by (induction actions arbitrary: s) (simp_all add: stream_step_ok step_by_disconnect)

lemma initial_stream_ok: "stream_ok parse (initial_stream cursor) \<and> closed_by_disconnect (initial_stream cursor)"
  by (simp add: initial_stream_def stream_ok_def frames_ok_def closed_ok_def phase_ok_def closed_by_disconnect_def)

lemma open_stream_ok:
  assumes "open_stream rate header query = Inr s"
  shows "stream_ok parse s \<and> closed_by_disconnect s"
  using assms refuse_ok [of parse "initial_stream 0"] initial_stream_ok [of parse]
  by (auto simp: open_stream_def stream_ok_def closed_by_disconnect_def refuse_def initial_stream_def split: if_splits option.splits)

lemma opened_run_ok:
  assumes "open_stream rate header query = Inr s"
  shows "stream_ok parse (stream_run parse actions s)"
  using stream_run_ok [of parse s actions] open_stream_ok [OF assms, of parse] by blast

lemma stream_step_cursor: "st_cursor (stream_step parse action s) = st_cursor s"
  using stream_step_same [of s parse action] by (auto simp: same_begin_def)

end
