(* ===== verification/Stream_Claims.thy ===== *)
theory Stream_Claims
  imports Stream
begin

text \<open>
  What holds of every event stream (public-office/application/public-office-routes.ts): its
  frames are consecutive snapshots, it ends once and for good, and a notified stream reaches the
  head of the log.
\<close>

section \<open>A closed stream is silent\<close>

definition silent :: "stream_state \<Rightarrow> stream_state \<Rightarrow> bool" where
  "silent s s' \<longleftrightarrow> st_closed s' \<and> st_written s' = st_written s \<and> st_releases s' = st_releases s"

lemma silent_ops [simp]:
  assumes "st_closed s"
  shows "silent s s" "stream_cleanup s = s" "silent s (stream_close s)" "silent s (send_resync_and_close s)"
    "silent s (pump_finish s)" "silent s (pump_again s)" "silent s (pump_finish (stream_close s))" "start_pump s = s"
    "silent s (initial_done s)" "silent s (s\<lparr>st_phase := ph\<rparr>)" "silent s ((stream_close s)\<lparr>st_phase := ph\<rparr>)"
    "silent s ((send_resync_and_close s)\<lparr>st_phase := ph\<rparr>)" "silent s (refuse reply s)"
    "silent s (pump_finish (stream_close s))" "silent s (initial_done (s\<lparr>st_pendingPump := b\<rparr>))"
    "silent s (pump_again (s\<lparr>st_pendingPump := b\<rparr>))"
  using assms by (simp_all add: silent_def stream_ops Let_def pump_finish_def pump_again_def start_pump_def initial_done_def)

lemma queue_events_silent:
  "st_closed s \<Longrightarrow> queue_events parse evs s = (if evs = [] then Queued else Stream_closed, s)"
  by (cases evs) (auto simp: queue_event_def)

lemma pump_page_silent: "st_closed s \<Longrightarrow> silent s (pump_page parse result writable s)"
  by (auto simp: pump_page_def queue_events_silent silent_def stream_ops Let_def pump_finish_def split: sum.splits option.splits)

lemma begin_stream_silent: "st_closed s \<Longrightarrow> silent s (begin_stream parse page current writable s)"
  by (auto simp: begin_stream_def queue_events_silent silent_def)

lemma stream_step_silent:
  assumes "st_closed s"
  shows "silent s (stream_step parse action s)"
proof (cases action)
  case (Page_arrives result writable)
  then show ?thesis using assms pump_page_silent [OF assms] begin_stream_silent [OF assms]
    by (cases "st_phase s") (auto simp: stream_step_def on_page_def on_preflight_def on_authoritative_def silent_def refuse_def
        split: sum.splits page_status.splits option.splits)
next
  case (Lease_released committed)
  with assms show ?thesis
    by (cases "st_phase s") (auto simp: stream_step_def on_release_def on_initial_release_def pump_released_def
        silent_def [of s "s\<lparr>st_phase := _, st_reply := _\<rparr>"] split: initial_next.splits bool.splits)
next
  case (Drain_settles drained)
  with assms show ?thesis
    by (cases "st_phase s") (auto simp: stream_step_def on_drain_def on_initial_drain_def pump_drained_def)
next
  case Notified
  with assms show ?thesis
    by (auto simp: stream_step_def on_notified_def Let_def silent_def start_pump_def)
next
  case (Timer_fires writable)
  with assms show ?thesis by (simp add: stream_step_def on_timer_def)
next
  case Disconnected
  with assms show ?thesis by (simp add: stream_step_def silent_def stream_cleanup_def)
next
  case Response_closed
  with assms show ?thesis by (simp add: stream_step_def)
qed

lemma stream_run_silent: "st_closed s \<Longrightarrow> silent s (stream_run parse actions s)"
proof (induction actions arbitrary: s)
  case (Cons a actions)
  have "silent s (stream_step parse a s)" by (rule stream_step_silent [OF Cons.prems])
  with Cons.IH [of "stream_step parse a s"] show ?case by (simp add: stream_run_def silent_def)
qed (simp add: stream_run_def)

lemma stream_run_cursor: "st_cursor (stream_run parse actions s) = st_cursor s"
  unfolding stream_run_def by (induction actions arbitrary: s) (simp_all add: stream_step_cursor)

lemma stream_run_append: "stream_run parse (xs @ ys) s = stream_run parse ys (stream_run parse xs s)"
  by (simp add: stream_run_def)

section \<open>Catching up\<close>

text \<open>
  The token names the office at the cursor; since the lookup does not depend on the cursor, it
  does so at every cursor the log still serves.
\<close>

lemma locked_page_any_cursor:
  assumes "acquire_locked_stream_page clock0 clock capability c limit d0 d = Inr page" "pg_status page = Page_ok"
    "pg_officeId page = Some oid" "logs_ok d" "0 \<le> c'" "c' \<le> MAX_SAFE_REVISION" "1 \<le> limit" "limit \<le> 1000"
    "log_floor d oid \<le> c'"
  obtains evs page' where "acquire_locked_stream_page clock0 clock capability c' limit d0 d = Inr page'"
    "log_ok d oid" "served d oid c' limit evs" "pg_status page' = Page_ok" "pg_officeId page' = Some oid"
    "pg_currentRevision page' = Some (log_head d oid)" "pg_events page' = Some evs"
proof -
  let ?found = "first_row (filter (\<lambda>t. lock_office (vt_office_id t) d0 \<noteq> None) (opening_tokens capability clock0 d0))"
  have ac: "assert_revision n = Inr ()" if "0 \<le> n" "n \<le> MAX_SAFE_REVISION" for n
    using that by (simp add: assert_revision_def is_safe_integer_def MAX_SAFE_REVISION_def MAX_SAFE_INTEGER_def)
  from assms(1) have "assert_revision c = Inr ()" by (auto simp: acquire_locked_stream_page_def simp: rbind_eq_Inr)
  with assms(1,2,7,8) obtain candidate where found: "?found = Some candidate"
    by (auto simp: acquire_locked_stream_page_def not_found_page_def split: option.splits)
  let ?rows = "first_row (filter (\<lambda>(office, p). of_id office = vt_office_id candidate) (snapshot_rows capability clock d))"
  have lk: "lock_office (vt_office_id candidate) d \<noteq> None"
    using assms(1,2,7,8) \<open>assert_revision c = Inr ()\<close> found
    by (auto simp: acquire_locked_stream_page_def not_found_page_def split: if_splits)
  with assms(1,2,7,8) \<open>assert_revision c = Inr ()\<close> found obtain head p where rows: "?rows = Some (head, p)"
    by (auto simp: acquire_locked_stream_page_def not_found_page_def split: option.splits)
  have at: "acquire_locked_stream_page clock0 clock capability n limit d0 d = stream_page head n limit d"
    if "assert_revision n = Inr ()" for n
    using that found lk rows assms(7,8) by (auto simp: acquire_locked_stream_page_def)
  have "(head, p) \<in> set (snapshot_rows capability clock d)"
    using first_row_in [OF rows] by auto
  then obtain t :: view_token_row where t: "lock_office (vt_office_id t) d = Some head" by (rule snapshot_rowsE)
  have "stream_page head c limit d = Inr page" using assms(1) at [OF \<open>assert_revision c = Inr ()\<close>] by simp
  with stream_page_reads [OF t assms(4,7), of c] have "page_reads d c limit page" by simp
  have sp: "stream_page head n limit d = Inr q \<Longrightarrow> pg_officeId q = Some (of_id head)" for n q
    by (auto simp: stream_page_def simp: rbind_eq_Inr split: if_splits)
  have oid: "of_id head = oid"
    using sp [OF \<open>stream_page head c limit d = Inr page\<close>] assms(3) by simp
  from stream_page_reads [OF t assms(4,7), of c'] obtain page' where
    p': "stream_page head c' limit d = Inr page'" "page_reads d c' limit page'" by blast
  have po: "pg_officeId page' = Some oid" using sp [OF p'(1)] oid by simp
  from p'(2) po assms(9) obtain evs where
    "log_ok d oid" "served d oid c' limit evs" "pg_status page' = Page_ok"
    "pg_currentRevision page' = Some (log_head d oid)" "pg_events page' = Some evs"
    by (auto simp: page_reads_def not_found_page_def)
  then show thesis using that po p'(1) at [OF ac [OF assms(5,6)]] by simp
qed

text \<open>Queueing the events of a page that continues at the last revision sent.\<close>

lemma queue_events_progress:
  assumes "map ev_revision (map fst evs) = [st_lastSent s + 1..st_lastSent s + int (length evs)]" "\<not> st_closed s"
    "list_all (canonical_payload_matches_revision parse) (map fst evs)" "queue_events parse evs s = (r, t)"
  shows "r \<noteq> Stream_closed \<and> t = s\<lparr>st_written := st_written t, st_lastSent := st_lastSent t\<rparr>
    \<and> (r = Queued \<longrightarrow> st_lastSent t = st_lastSent s + int (length evs))
    \<and> (evs \<noteq> [] \<longrightarrow> st_lastSent s < st_lastSent t) \<and> st_lastSent s \<le> st_lastSent t
    \<and> st_lastSent t \<le> st_lastSent s + int (length evs)"
  using assms
proof (induction evs arbitrary: s)
  case Nil
  then show ?case by auto
next
  case (Cons ew evs)
  obtain ev writable where ew: "ew = (ev, writable)" by (cases ew)
  have "[st_lastSent s + 1..st_lastSent s + int (length (ew # evs))]
      = (st_lastSent s + 1) # [st_lastSent s + 1 + 1..st_lastSent s + int (length (ew # evs))]" by (rule upto_rec1) simp
  with Cons.prems(1) have rev: "ev_revision ev = st_lastSent s + 1"
    "map ev_revision (map fst evs) = [st_lastSent s + 1 + 1..st_lastSent s + 1 + int (length evs)]"
    by (simp_all add: ew add.assoc)
  define u where "u = s\<lparr>st_written := st_written s @ [Snapshot_frame (ev_revision ev) (ev_canonicalPayload ev)],
    st_lastSent := st_lastSent s + 1\<rparr>"
  have q: "queue_event parse ev writable s = (if writable then Queued else Backpressure, u)"
    using Cons.prems(2,3) rev(1) by (simp add: ew queue_event_def write_frame_def u_def)
  show ?case
  proof (cases writable)
    case True
    with Cons.prems(4) q have "queue_events parse evs u = (r, t)" by (simp add: ew)
    from Cons.IH [OF _ _ _ this] rev(2) Cons.prems(2,3)
    have "r \<noteq> Stream_closed \<and> t = u\<lparr>st_written := st_written t, st_lastSent := st_lastSent t\<rparr>
      \<and> (r = Queued \<longrightarrow> st_lastSent t = st_lastSent u + int (length evs))
      \<and> st_lastSent u \<le> st_lastSent t \<and> st_lastSent t \<le> st_lastSent u + int (length evs)" by (simp add: u_def ew)
    moreover have "u\<lparr>st_written := w, st_lastSent := n\<rparr> = s\<lparr>st_written := w, st_lastSent := n\<rparr>" for w n by (simp add: u_def)
    moreover have "st_lastSent u = st_lastSent s + 1" by (simp add: u_def)
    ultimately show ?thesis by auto
  next
    case False
    with Cons.prems(4) q show ?thesis by (auto simp: ew u_def)
  qed
qed

text \<open>
  One round of the pump: the page at the last revision sent, its lease given back, and, if the
  socket was full, the wait for it to drain.
\<close>

definition pump_round ::
  "json_parser \<Rightarrow> (int \<Rightarrow> public_stream_page tx) \<Rightarrow> (nat \<Rightarrow> bool) \<Rightarrow> stream_state \<Rightarrow> stream_state" where
  "pump_round parse acquire writable s =
     stream_run parse [Page_arrives (acquire (st_lastSent s)) writable, Lease_released True, Drain_settles True] s"

fun pump_rounds ::
  "json_parser \<Rightarrow> (int \<Rightarrow> public_stream_page tx) \<Rightarrow> (nat \<Rightarrow> nat \<Rightarrow> bool) \<Rightarrow> nat \<Rightarrow> stream_state \<Rightarrow> stream_state" where
  "pump_rounds parse acquire sockets 0 s = s"
| "pump_rounds parse acquire sockets (Suc n) s =
     pump_rounds parse acquire sockets n (pump_round parse acquire (sockets n) s)"

definition pumping_at :: "stream_state \<Rightarrow> bool" where
  "pumping_at s \<longleftrightarrow> st_phase s = Pump_acquiring \<and> \<not> st_closed s \<and> \<not> st_pendingPump s \<and> st_pumping s"

lemma pump_round_progress:
  assumes at: "pumping_at s" and page: "acquire (st_lastSent s) = Inr page" "pg_status page = Page_ok"
    "pg_currentRevision page = Some head" "pg_events page = Some evs"
    and evs: "map ev_revision evs = [st_lastSent s + 1..st_lastSent s + int (length evs)]"
    "list_all (canonical_payload_matches_revision parse) evs"
    "evs \<noteq> [] \<Longrightarrow> st_lastSent s + int (length evs) \<le> head" "st_lastSent s < head \<Longrightarrow> evs \<noteq> []" "st_lastSent s \<le> head"
  shows "let s' = pump_round parse acquire writable s in
    \<not> st_closed s' \<and> st_lastSent s' \<le> head
    \<and> (pumping_at s' \<and> st_lastSent s < st_lastSent s' \<or> st_phase s' = Handler_done \<and> st_lastSent s' = head)"
proof -
  have fst: "map fst (page_events page writable) = evs" "length (page_events page writable) = length evs"
    by (simp_all add: page_events_def page(4))
  obtain r t where q: "queue_events parse (page_events page writable) s = (r, t)"
    by (cases "queue_events parse (page_events page writable) s")
  from queue_events_progress [OF _ _ _ q] at evs(1,2) have prog:
    "r \<noteq> Stream_closed" "t = s\<lparr>st_written := st_written t, st_lastSent := st_lastSent t\<rparr>"
    "r = Queued \<Longrightarrow> st_lastSent t = st_lastSent s + int (length evs)"
    "page_events page writable \<noteq> [] \<Longrightarrow> st_lastSent s < st_lastSent t"
    "st_lastSent t \<le> st_lastSent s + int (length evs)" by (simp_all add: fst pumping_at_def)
  have adv: "st_lastSent s < head \<Longrightarrow> st_lastSent s < st_lastSent t" using prog(4) evs(4) fst by force
  have mono: "st_lastSent s \<le> st_lastSent t" using adv evs(5) prog(3) queue_events_progress [OF _ _ _ q] at evs(1,2)
    by (simp add: fst pumping_at_def)
  have top: "st_lastSent t \<le> head" using prog(5) evs(3,5) by (cases "evs = []") auto
  have full: "r = Backpressure \<Longrightarrow> st_lastSent s < st_lastSent t"
    using prog(4) q by (cases "page_events page writable") auto
  have flags: "\<not> st_closed t" "\<not> st_pendingPump t" "st_pumping t" "st_phase t = Pump_acquiring"
    using at by (subst prog(2); simp add: pumping_at_def)+
  show ?thesis
  proof (cases r)
    case Queued
    consider "st_lastSent t < head" "st_lastSent s < st_lastSent t" | "st_lastSent t = head" using top mono adv by fastforce
    then show ?thesis using flags top at
      by cases (simp_all add: pump_round_def stream_run_def stream_step_def on_page_def page pump_page_def q Queued on_release_def
          pump_released_def pump_again_def pump_finish_def on_drain_def pumping_at_def Let_def)
  next
    case Backpressure
    then show ?thesis using flags full [OF Backpressure] top at
      by (simp add: pump_round_def stream_run_def stream_step_def on_page_def page pump_page_def q on_release_def
          pump_released_def pump_drained_def pump_again_def on_drain_def pumping_at_def Let_def)
  qed (use prog(1) in simp)
qed

section \<open>An open stream is subscribed\<close>

definition keeps_sub :: "stream_state \<Rightarrow> stream_state \<Rightarrow> bool" where
  "keeps_sub s t \<longleftrightarrow> (\<not> st_closed t \<longrightarrow> \<not> st_closed s \<and> (st_subscribed s \<longrightarrow> st_subscribed t))"

lemma keeps_sub_ops [simp]:
  "keeps_sub s (stream_cleanup t)" "keeps_sub s (stream_close t)" "keeps_sub s (send_resync_and_close t)"
  "keeps_sub s (refuse reply t)" "keeps_sub s s"
  "keeps_sub s (s\<lparr>st_subscribed := True\<rparr>)"
  "keeps_sub s ((stream_close t)\<lparr>st_phase := ph\<rparr>)" "keeps_sub s ((send_resync_and_close t)\<lparr>st_phase := ph\<rparr>)"
  by (simp_all add: keeps_sub_def stream_ops Let_def)

lemma keeps_sub_cong [simp]:
  "keeps_sub s (t\<lparr>st_phase := ph\<rparr>) = keeps_sub s t" "keeps_sub s (t\<lparr>st_pendingPump := b\<rparr>) = keeps_sub s t"
  "keeps_sub s (t\<lparr>st_phase := ph, st_reply := rp\<rparr>) = keeps_sub s t"
  "keeps_sub s (write_frame f t) = keeps_sub s t" "keeps_sub s (t\<lparr>st_lastSent := n\<rparr>) = keeps_sub s t"
  "keeps_sub s (start_pump t) = keeps_sub s t" "keeps_sub s (pump_finish t) = keeps_sub s t"
  "keeps_sub s (pump_again t) = keeps_sub s t" "keeps_sub s (initial_done t) = keeps_sub s t"
  "keeps_sub s (t\<lparr>st_streamStarted := b\<rparr>) = keeps_sub s t"
  by (simp_all add: keeps_sub_def write_frame_def start_pump_def pump_finish_def pump_again_def initial_done_def Let_def)

lemma queue_event_sub: "keeps_sub s t \<Longrightarrow> keeps_sub s (snd (queue_event parse ev writable t))"
  by (simp add: queue_event_def)

lemma queue_events_sub: "keeps_sub s t \<Longrightarrow> keeps_sub s (snd (queue_events parse evs t))"
proof (induction evs arbitrary: t)
  case (Cons ew evs)
  obtain ev writable where ew: "ew = (ev, writable)" by (cases ew)
  obtain r u where q: "queue_event parse ev writable t = (r, u)" by (cases "queue_event parse ev writable t")
  then have "keeps_sub s u" using queue_event_sub [OF Cons.prems, of parse ev writable] by simp
  with Cons.IH show ?case by (cases r) (simp_all add: ew q)
qed simp

lemma on_page_sub: "keeps_sub s (on_page parse result writable s)"
proof -
  have "keeps_sub s (begin_stream parse page current writable s)" for page current
    using queue_events_sub [of s "s\<lparr>st_streamStarted := True\<rparr>" parse "page_events page writable"]
    by (auto simp: begin_stream_def split: prod.splits queue_event_result.splits)
  moreover have "keeps_sub s (pump_page parse result writable s)"
    using queue_events_sub [of s s parse "page_events (projr result) writable"]
    by (auto simp: pump_page_def split: sum.splits prod.splits queue_event_result.splits option.splits)
  ultimately show ?thesis
    by (cases "st_phase s") (auto simp: on_page_def on_preflight_def on_authoritative_def
      split: sum.splits page_status.splits option.splits)
qed

lemma stream_step_sub: "keeps_sub s (stream_step parse action s)"
proof (cases action)
  case (Lease_released committed)
  then show ?thesis
    by (auto simp: stream_step_def on_release_def on_initial_release_def pump_released_def
        split: stream_phase.splits initial_next.splits bool.splits)
next
  case (Drain_settles drained)
  then show ?thesis
    by (auto simp: stream_step_def on_drain_def on_initial_drain_def pump_drained_def split: stream_phase.splits)
qed (auto simp: stream_step_def on_page_sub on_notified_def on_timer_def Let_def)

lemma stream_step_awaiting:
  "st_phase (stream_step parse action s) = Await_authoritative
    \<Longrightarrow> st_phase s = Await_authoritative \<or> st_subscribed (stream_step parse action s)"
proof (cases action)
  case (Page_arrives result writable)
  assume "st_phase (stream_step parse action s) = Await_authoritative"
  then show ?thesis unfolding Page_arrives
    by (cases "st_phase s") (auto simp: stream_step_def on_page_def on_preflight_def pump_page_def pump_finish_def start_pump_def
        refuse_def Let_def split: sum.splits page_status.splits option.splits prod.splits queue_event_result.splits if_splits)
next
  case (Lease_released committed)
  assume "st_phase (stream_step parse action s) = Await_authoritative"
  then show ?thesis unfolding Lease_released
    by (auto simp: stream_step_def on_release_def on_initial_release_def pump_released_def pump_again_def pump_finish_def
        start_pump_def initial_done_def refuse_def Let_def split: stream_phase.splits initial_next.splits bool.splits if_splits)
next
  case (Drain_settles drained)
  assume "st_phase (stream_step parse action s) = Await_authoritative"
  then show ?thesis unfolding Drain_settles
    by (auto simp: stream_step_def on_drain_def on_initial_drain_def pump_drained_def pump_again_def pump_finish_def
        start_pump_def initial_done_def Let_def split: stream_phase.splits if_splits)
qed (auto simp: stream_step_def on_notified_def on_timer_def start_pump_def stream_ops Let_def split: if_splits)

definition subscribed_ok :: "stream_state \<Rightarrow> bool" where
  "subscribed_ok s \<longleftrightarrow> (st_streamStarted s \<or> st_phase s = Await_authoritative) \<and> \<not> st_closed s \<longrightarrow> st_subscribed s"

lemma stream_run_subscribed:
  assumes "subscribed_ok s"
  shows "subscribed_ok (stream_run parse actions s)"
  using assms
proof (induction actions arbitrary: s)
  case (Cons a actions)
  have "subscribed_ok (stream_step parse a s)"
    using Cons.prems stream_step_sub [of s parse a] stream_step_awaiting [of parse a s] stream_step_same [of s parse a]
    unfolding subscribed_ok_def keeps_sub_def same_begin_def by auto
  with Cons.IH show ?case by (simp add: stream_run_def)
qed (simp add: stream_run_def)

lemma open_stream_subscribed: "open_stream rate header query = Inr s \<Longrightarrow> subscribed_ok s"
  by (auto simp: open_stream_def subscribed_ok_def refuse_def stream_ops initial_stream_def split: if_splits option.splits)

section \<open>Properties\<close>

text \<open>
  C23: The frames of a stream are consecutive snapshots. Whatever pages arrive and however
  notifications, timers, drains and disconnects interleave, the snapshot frames written to a
  stream carry exactly the revisions from the one after its cursor to the last one sent, without
  a gap, a repetition or a swap, each with a payload that names its revision; a resync frame is
  only ever the last frame, and a frame is only written once the response has begun.
\<close>

theorem stream_frames_contiguous:
  assumes "open_stream rate header query = Inr s0" "s = stream_run parse actions s0"
  shows "map ev_revision (sent (st_written s)) = [st_cursor s0 + 1..st_lastSent s]
    \<and> (\<forall>ev\<in>set (sent (st_written s)). canonical_payload_matches_revision parse ev)
    \<and> Resync_frame \<notin> set (butlast (st_written s)) \<and> (Resync_frame \<in> set (st_written s) \<longrightarrow> st_closed s)
    \<and> (st_written s \<noteq> [] \<longrightarrow> st_streamStarted s)"
proof -
  have "frames_ok parse s" using opened_run_ok [OF assms(1), of parse actions] assms(2) by (simp add: stream_ok_def)
  moreover have "st_cursor s = st_cursor s0" by (simp add: assms(2) stream_run_cursor)
  ultimately show ?thesis by (simp add: frames_ok_def list_all_iff)
qed


lemma pump_rounds_run: "\<exists>acts. pump_rounds parse acquire sockets n s = stream_run parse acts s"
proof (induction n arbitrary: s)
  case 0
  show ?case by (rule exI [of _ "[]"]) (simp add: stream_run_def)
next
  case (Suc n)
  obtain acts where "pump_rounds parse acquire sockets (Suc n) s = stream_run parse acts (pump_round parse acquire (sockets n) s)"
    using Suc.IH by auto
  then show ?case unfolding pump_round_def stream_run_append [symmetric] by blast
qed

lemma pump_rounds_idle: "st_phase s = Handler_done \<Longrightarrow> pump_rounds parse acquire sockets n s = s"
proof (induction n)
  case (Suc n)
  then have "pump_round parse acquire (sockets n) s = s"
    by (simp add: pump_round_def stream_run_def stream_step_def on_page_def on_release_def on_drain_def)
  with Suc show ?case by simp
qed simp

text \<open>The events a round sends come from the page it read.\<close>

definition sends_from :: "replay_event set \<Rightarrow> stream_state \<Rightarrow> stream_state \<Rightarrow> bool" where
  "sends_from A s t \<longleftrightarrow> set (sent (st_written t)) \<subseteq> set (sent (st_written s)) \<union> A"

lemma sends_from_cong [simp]:
  "sends_from A s (pump_finish t) = sends_from A s t" "sends_from A s (pump_again t) = sends_from A s t"
  "sends_from A s (stream_close t) = sends_from A s t" "sends_from A s (send_resync_and_close t) = sends_from A s t"
  "sends_from A s (start_pump t) = sends_from A s t" "sends_from A s (t\<lparr>st_phase := ph\<rparr>) = sends_from A s t"
  "sends_from A s (t\<lparr>st_pendingPump := b\<rparr>) = sends_from A s t" "sends_from A s s"
  "sends_from A s (refuse reply t) = sends_from A s t" "sends_from A s (initial_done t) = sends_from A s t"
  "sends_from A s (t\<lparr>st_phase := ph, st_reply := rp\<rparr>) = sends_from A s t"
  by (simp_all add: sends_from_def pump_finish_def pump_again_def stream_ops start_pump_def initial_done_def Let_def)

lemma settling_sends [simp]:
  "sends_from A s (on_release committed t) = sends_from A s t" "sends_from A s (on_drain drained t) = sends_from A s t"
  by (simp_all add: on_release_def on_initial_release_def pump_released_def on_drain_def on_initial_drain_def pump_drained_def
      split: stream_phase.splits initial_next.splits bool.splits)

lemma queue_events_from: "set (map fst evs) \<subseteq> A \<Longrightarrow> sends_from A s t \<Longrightarrow> sends_from A s (snd (queue_events parse evs t))"
proof (induction evs arbitrary: t)
  case (Cons ew evs)
  obtain ev writable where ew: "ew = (ev, writable)" by (cases ew)
  obtain r u where q: "queue_event parse ev writable t = (r, u)" by (cases "queue_event parse ev writable t")
  have "ev \<in> A" using Cons.prems(1) by (simp add: ew)
  then have "sends_from A s u" using q Cons.prems(2)
    by (cases ev) (auto simp: queue_event_def sends_from_def stream_ops Let_def split: if_splits)
  with Cons.IH [of u] Cons.prems(1) show ?case by (cases r) (simp_all add: ew q)
qed simp

lemma pump_round_from:
  assumes "st_phase s = Pump_acquiring" "acquire (st_lastSent s) = Inr page" "pg_events page = Some evs"
    "pg_status page = Page_ok"
  shows "sends_from (set evs) s (pump_round parse acquire writable s)"
proof -
  have "map fst (page_events page writable) = evs" by (simp add: page_events_def assms(3))
  with queue_events_from [of "page_events page writable" "set evs" s s parse]
  have "sends_from (set evs) s (snd (queue_events parse (page_events page writable) s))" by simp
  then have "sends_from (set evs) s (pump_page parse (Inr page) writable s)"
    by (auto simp: pump_page_def assms(4) split: prod.splits queue_event_result.splits option.splits)
  then show ?thesis
    by (simp add: pump_round_def stream_run_def stream_step_def on_page_def assms(1,2))
qed

text \<open>Enough rounds reach the head.\<close>

lemma pump_rounds_reach:
  assumes log: "\<And>c. floor \<le> c \<Longrightarrow> c \<le> head \<Longrightarrow> \<exists>page evs. acquire c = Inr page \<and> pg_status page = Page_ok
      \<and> pg_currentRevision page = Some head \<and> pg_events page = Some evs
      \<and> map ev_revision evs = [c + 1..c + int (length evs)] \<and> (evs \<noteq> [] \<longrightarrow> c + int (length evs) \<le> head)
      \<and> (c < head \<longrightarrow> evs \<noteq> []) \<and> set evs \<subseteq> A"
    and A: "\<forall>ev\<in>A. canonical_payload_matches_revision parse ev"
    and "pumping_at s" "floor \<le> st_lastSent s" "st_lastSent s \<le> head" "nat (head - st_lastSent s) < n"
  shows "let s' = pump_rounds parse acquire sockets n s in
    st_phase s' = Handler_done \<and> \<not> st_closed s' \<and> st_lastSent s' = head \<and> sends_from A s s'"
  using assms(3-6)
proof (induction n arbitrary: s)
  case (Suc n)
  from log [OF Suc.prems(2,3)] obtain page evs where page: "acquire (st_lastSent s) = Inr page" "pg_status page = Page_ok"
      "pg_currentRevision page = Some head" "pg_events page = Some evs"
    and evs: "map ev_revision evs = [st_lastSent s + 1..st_lastSent s + int (length evs)]"
      "evs \<noteq> [] \<Longrightarrow> st_lastSent s + int (length evs) \<le> head" "st_lastSent s < head \<Longrightarrow> evs \<noteq> []" "set evs \<subseteq> A" by blast
  have match: "list_all (canonical_payload_matches_revision parse) evs" using evs(4) A by (auto simp: list_all_iff)
  define t where "t = pump_round parse acquire (sockets n) s"
  have t: "\<not> st_closed t" "st_lastSent t \<le> head"
    "pumping_at t \<and> st_lastSent s < st_lastSent t \<or> st_phase t = Handler_done \<and> st_lastSent t = head"
    using pump_round_progress [where acquire = acquire and writable = "sockets n", OF Suc.prems(1) page evs(1) match _ _ Suc.prems(3)] evs(2,3)
    by (simp_all add: t_def Let_def)
  have "st_phase s = Pump_acquiring" using Suc.prems(1) by (simp add: pumping_at_def)
  from pump_round_from [where acquire = acquire, OF this page(1,4,2)] evs(4) have from_: "sends_from A s t" by (auto simp: t_def sends_from_def)
  from t(3) show ?case
  proof
    assume go: "pumping_at t \<and> st_lastSent s < st_lastSent t"
    then have "nat (head - st_lastSent t) < n" "floor \<le> st_lastSent t" using Suc.prems(2,4) t(2) by linarith+
    with Suc.IH [of t] go t(2) from_ show ?thesis by (auto simp: t_def [symmetric] Let_def sends_from_def)
  next
    assume "st_phase t = Handler_done \<and> st_lastSent t = head"
    with t(1) from_ show ?thesis by (simp add: t_def [symmetric] pump_rounds_idle)
  qed
qed simp

text \<open>
  C24: A notified stream catches up. An open stream that is idle and has completed its first
  replay, whose token opens an office with sound logs that still serve the last revision sent,
  reaches the head of the log after a notification: with the pages that the reader returns, each
  leased and given back, and a socket that drains whenever it fills up, at most one round of the
  pump per missing revision and a last one send every missing revision; the stream is then
  open and idle again, and what it sent are the canonical snapshots of the events of the log.
\<close>

theorem notified_stream_catches_up:
  assumes "open_stream rate header query = Inr s0" "s = stream_run parse actions s0"
    and "st_initialReplayComplete s" "\<not> st_closed s" "st_phase s = Handler_done"
    and "logs_ok d" "1 \<le> limit" "limit \<le> 1000"
    and "acquire = (\<lambda>c. acquire_locked_stream_page clock0 clock capability c limit d0 d)"
    and "acquire (st_lastSent s) = Inr page" "pg_status page = Page_ok" "pg_officeId page = Some oid"
    and "log_floor d oid \<le> st_lastSent s" "st_lastSent s \<le> log_head d oid"
    and "\<forall>e\<in>set (office_events d oid). \<forall>ev. event_of e ev \<longrightarrow> canonical_payload_matches_revision parse ev"
    and "nat (log_head d oid - st_lastSent s) < rounds"
  shows "let s' = pump_rounds parse acquire sockets rounds (stream_step parse Notified s) in
    st_lastSent s' = log_head d oid \<and> \<not> st_closed s' \<and> st_phase s' = Handler_done
    \<and> map ev_revision (sent (st_written s')) = [st_cursor s0 + 1..log_head d oid]
    \<and> (\<forall>ev\<in>set (sent (st_written s')). ev \<in> set (sent (st_written s)) \<or> (\<exists>e\<in>set (office_events d oid). event_of e ev))"
proof -
  let ?A = "{ev. \<exists>e\<in>set (office_events d oid). event_of e ev}"
  let ?t = "stream_step parse Notified s"
  have ok: "stream_ok parse s" using opened_run_ok [OF assms(1), of parse actions] assms(2) by simp
  have sub: "subscribed_ok s" unfolding assms(2) by (rule stream_run_subscribed [OF open_stream_subscribed [OF assms(1)]])
  have flags: "st_streamStarted s" "\<not> st_pumping s" using ok assms(3,5) by (auto simp: stream_ok_def phase_ok_def)
  with sub assms(4) have "st_subscribed s" by (simp add: subscribed_ok_def)
  with flags assms(3,4) have t: "?t = s\<lparr>st_pumping := True, st_pendingPump := False, st_phase := Pump_acquiring\<rparr>"
    by (simp add: stream_step_def on_notified_def Let_def start_pump_def)
  then have at: "pumping_at ?t" "st_lastSent ?t = st_lastSent s" "st_written ?t = st_written s" "st_cursor ?t = st_cursor s"
    using assms(4) by (simp_all add: pumping_at_def)
  have acq: "acquire_locked_stream_page clock0 clock capability (st_lastSent s) limit d0 d = Inr page" using assms(9,10) by simp
  then have "assert_revision (st_lastSent s) = Inr ()" by (auto simp: acquire_locked_stream_page_def rbind_eq_Inr)
  then have lo: "0 \<le> st_lastSent s" "st_lastSent s \<le> MAX_SAFE_REVISION" by (simp_all add: assert_revision_def guard_r_def split: if_splits)
  note pages = locked_page_any_cursor [OF acq assms(11,12,6) _ _ assms(7,8)]
  have "log_ok d oid" by (rule pages [OF lo assms(13)])
  then have log: "log_head d oid \<le> MAX_SAFE_REVISION" by (simp add: log_ok_def MAX_SAFE_INTEGER_def MAX_SAFE_REVISION_def)
  have serve: "\<exists>page evs. acquire c = Inr page \<and> pg_status page = Page_ok
      \<and> pg_currentRevision page = Some (log_head d oid) \<and> pg_events page = Some evs
      \<and> map ev_revision evs = [c + 1..c + int (length evs)] \<and> (evs \<noteq> [] \<longrightarrow> c + int (length evs) \<le> log_head d oid)
      \<and> (c < log_head d oid \<longrightarrow> evs \<noteq> []) \<and> set evs \<subseteq> ?A" if "st_lastSent s \<le> c" "c \<le> log_head d oid" for c
  proof -
    have c: "0 \<le> c" "c \<le> MAX_SAFE_REVISION" "log_floor d oid \<le> c" using that lo(1) log assms(13) by auto
    from pages [OF c] obtain evs page' where pg: "acquire c = Inr page'" "pg_status page' = Page_ok"
      "pg_currentRevision page' = Some (log_head d oid)" "pg_events page' = Some evs" and "served d oid c limit evs"
      unfolding assms(9) by blast
    then show ?thesis by (intro exI [of _ page'] exI [of _ evs]) (auto simp: served_def)
  qed
  have A: "\<forall>ev\<in>?A. canonical_payload_matches_revision parse ev" using assms(15) by blast
  have end_: "let s' = pump_rounds parse acquire sockets rounds ?t in
    st_phase s' = Handler_done \<and> \<not> st_closed s' \<and> st_lastSent s' = log_head d oid \<and> sends_from ?A ?t s'"
    by (rule pump_rounds_reach [where floor = "st_lastSent s", OF serve A at(1)]) (use at(2) assms(14,16) in simp_all)
  obtain acts where acts: "pump_rounds parse acquire sockets rounds ?t = stream_run parse (actions @ Notified # acts) s0"
    using pump_rounds_run [of parse acquire sockets rounds ?t] by (auto simp: assms(2) stream_run_def)
  have "map ev_revision (sent (st_written (stream_run parse (actions @ Notified # acts) s0)))
      = [st_cursor s0 + 1..st_lastSent (stream_run parse (actions @ Notified # acts) s0)]"
    using opened_run_ok [OF assms(1), of parse "actions @ Notified # acts"] stream_run_cursor [of parse "actions @ Notified # acts" s0]
    by (simp add: stream_ok_def frames_ok_def)
  with end_ show ?thesis by (auto simp: Let_def acts sends_from_def at(3))
qed

section \<open>A stream of a sample office\<close>

text \<open>An office whose log serves the revision 3, and a stream that has begun at the cursor 2.\<close>

definition sample_stream_db :: db where
  "sample_stream_db = sample_public_db\<lparr>
     db_offices := map (\<lambda>office. office\<lparr>of_minimum_replay_revision := 2\<rparr>) (db_offices sample_public_db),
     db_revision_events := filter (\<lambda>e. re_revision e = 3) (db_revision_events sample_public_db)\<rparr>"

definition sample_parser :: json_parser where
  "sample_parser bytes = (if bytes = canonical_bytes (snapshot_json (sample_public_snapshot 3))
     then Some (snapshot_json (sample_public_snapshot 3)) else None)"

definition sample_rate :: rate_limit_decision where
  "sample_rate = \<lparr>rd_allowed = True, rd_retryAfterSeconds = 0\<rparr>"

definition sample_page :: public_stream_page where
  "sample_page = \<lparr>pg_status = Page_ok, pg_officeId = Some ''f'', pg_currentRevision = Some 2,
     pg_minimumReplayRevision = Some 2, pg_events = Some []\<rparr>"

definition sample_opening :: "stream_action list" where
  "sample_opening = [Page_arrives (Inr sample_page) (\<lambda>_. True), Page_arrives (Inr sample_page) (\<lambda>_. True), Lease_released True]"

lemma sample_stream_logs: "logs_ok sample_stream_db" "log_floor sample_stream_db ''f'' = 2" "log_head sample_stream_db ''f'' = 3"
proof -
  have up: "[3..3] = [3 :: int]" by simp
  show "logs_ok sample_stream_db"
    by (simp add: logs_ok_def outbox_ok_def log_ok_def sample_stream_db_def sample_public_db_def sample_log_db_def log_floor_def
        log_head_def office_rows_def office_events_def projection_rows_def published_event_def published_projection_def
        event_sound_def projects_def sample_public_snapshot_def empty_db_def MAX_SAFE_INTEGER_def Let_def)
  show "log_floor sample_stream_db ''f'' = 2" "log_head sample_stream_db ''f'' = 3"
    by (simp_all add: sample_stream_db_def sample_public_db_def sample_log_db_def log_floor_def log_head_def office_rows_def
        Let_def empty_db_def)
qed

lemma sample_opens: "open_stream sample_rate (Some (Some (js ''2''))) None = Inr (initial_stream 2)"
  by (simp add: open_stream_def sample_rate_def request_cursor_def parse_public_revision_cursor_def js_def canonical_decimal_def
      decimal_value_def assert_revision_def is_safe_integer_def MAX_SAFE_INTEGER_def MAX_SAFE_REVISION_def)

lemma sample_running:
  "stream_run parse sample_opening (initial_stream 2) = (initial_stream 2)\<lparr>st_subscribed := True, st_streamStarted := True,
     st_initialReplayComplete := True, st_timer := True, st_phase := Handler_done\<rparr>"
  by (simp add: stream_run_def sample_opening_def stream_step_def on_page_def on_preflight_def on_authoritative_def
      initial_stream_def sample_page_def begin_stream_def page_events_def on_release_def on_initial_release_def initial_done_def)

lemma sample_stream_page:
  "\<exists>page. acquire_locked_stream_page 0 0 sample_capability 2 100 sample_stream_db sample_stream_db = Inr page
    \<and> pg_status page = Page_ok \<and> pg_officeId page = Some ''f''"
  by (simp add: acquire_locked_stream_page_def assert_revision_def is_safe_integer_def MAX_SAFE_INTEGER_def MAX_SAFE_REVISION_def
      opening_tokens_def sample_stream_db_def sample_public_db_def sample_log_db_def sample_token_def sample_capability_def
      token_live_def lock_office_def snapshot_rows_def current_projection_def stream_page_def reader_parse_revision_def
      replay_candidates_def published_event_def published_projection_def empty_db_def Let_def replay_page_def
      replay_event_of_def sort_by_def)

text \<open>The only event of the sample log names its revision.\<close>

lemma sample_matches:
  "\<forall>e\<in>set (office_events sample_stream_db ''f''). \<forall>ev. event_of e ev \<longrightarrow> canonical_payload_matches_revision sample_parser ev"
proof -
  have events: "office_events sample_stream_db ''f'' = [published_event
      \<lparr>ri_officeId = ''f'', ri_eventType = Projection_ticked, ri_sourceKind = Projection_tick, ri_sourceKey = js ''k'',
        ri_sourceReceiptId = None, ri_at = 0\<rparr> 3 3 (sample_public_snapshot 3)]"
    by (simp add: sample_stream_db_def sample_public_db_def sample_log_db_def office_events_def published_event_def Let_def)
  have "snapshot_json (sample_public_snapshot 3) = JObj members \<Longrightarrow>
      map_of (rev members) (js ''office_revision'') = Some (JNum 3)" for members
    by (simp add: snapshot_json_def jobj_def js_def sample_public_snapshot_def) (auto simp: map_of_append)
  then show ?thesis
    by (auto simp: events published_event_def event_of_def canonical_payload_matches_revision_def sample_parser_def
        sample_public_snapshot_def snapshot_json_def jobj_def)
qed

lemma notified_stream_catches_up_witness:
  "\<exists>s'. st_lastSent s' = 3 \<and> \<not> st_closed s' \<and> map ev_revision (sent (st_written s')) = [3]
    \<and> s' = pump_rounds sample_parser
        (\<lambda>c. acquire_locked_stream_page 0 0 sample_capability c 100 sample_stream_db sample_stream_db) (\<lambda>_ _. False) 2
        (stream_step sample_parser Notified (stream_run sample_parser sample_opening (initial_stream 2)))"
proof -
  let ?s = "stream_run sample_parser sample_opening (initial_stream 2)"
  obtain page where page: "acquire_locked_stream_page 0 0 sample_capability 2 100 sample_stream_db sample_stream_db = Inr page"
    "pg_status page = Page_ok" "pg_officeId page = Some ''f''" using sample_stream_page by blast
  have s: "st_initialReplayComplete ?s" "\<not> st_closed ?s" "st_phase ?s = Handler_done" "st_lastSent ?s = 2"
    by (simp_all add: sample_running) (simp_all add: initial_stream_def)
  let ?acquire = "\<lambda>c. acquire_locked_stream_page 0 0 sample_capability c 100 sample_stream_db sample_stream_db"
  have at: "?acquire (st_lastSent ?s) = Inr page" using page(1) s(4) by simp
  have "st_cursor (initial_stream 2) = 2" by (simp add: initial_stream_def)
  with notified_stream_catches_up [OF sample_opens refl s(1-3) sample_stream_logs(1) _ _ refl at page(2,3) _ _ sample_matches,
      of 2 "\<lambda>_ _. False"]
  show ?thesis by (auto simp: s(4) sample_stream_logs(2,3) Let_def)
qed

lemma stream_frames_contiguous_witness:
  "\<exists>actions. map ev_revision (sent (st_written (stream_run sample_parser actions (initial_stream 2)))) = [3]"
proof -
  let ?page = "sample_page\<lparr>pg_currentRevision := Some 3, pg_events := Some [\<lparr>ev_revision = 3,
    ev_canonicalPayload = canonical_bytes (snapshot_json (sample_public_snapshot 3))\<rparr>]\<rparr>"
  let ?acts = "sample_opening @ [Notified, Page_arrives (Inr ?page) (\<lambda>_. True)]"
  have "st_lastSent (stream_run sample_parser ?acts (initial_stream 2)) = 3"
  proof -
    have "canonical_payload_matches_revision sample_parser \<lparr>ev_revision = 3,
      ev_canonicalPayload = canonical_bytes (snapshot_json (sample_public_snapshot 3))\<rparr>"
      by (auto simp: canonical_payload_matches_revision_def sample_parser_def snapshot_json_def jobj_def sample_public_snapshot_def)
    then show ?thesis
      by (simp add: stream_run_append sample_running) (simp add: stream_run_def stream_step_def on_notified_def initial_stream_def
        start_pump_def on_page_def pump_page_def sample_page_def page_events_def queue_event_def write_frame_def)
  qed
  with stream_frames_contiguous [OF sample_opens refl, of sample_parser ?acts] show ?thesis
    by (intro exI [of _ ?acts]) (simp add: initial_stream_def)
qed


end
