(* ===== verification/Edge_Validator.thy ===== *)
theory Edge_Validator
  imports Ingest
begin

text \<open>
  Preparing a report (platform/contracts/edge-report-validator.ts): the protocol version, the
  JSON schema of the report (contracts/schemas/edge-report-envelope.v1.schema.json, written out
  here), and the semantic checks the schema cannot express. The formats \<open>uuid\<close> and \<open>date-time\<close>
  and the number of errors that the schema library reports are parameters; a \<open>date-time\<close> is
  ASCII text. A request body is a JSON value whose objects have one value per member.
\<close>

section \<open>Members of a value\<close>

definition member_of :: "string \<Rightarrow> json \<Rightarrow> json option" where
  "member_of k v = (case v of JObj kvs \<Rightarrow> map_of kvs (js k) | _ \<Rightarrow> None)"

definition text_of :: "js_string \<Rightarrow> string" where
  "text_of s = map char_of s"

definition text_member :: "string \<Rightarrow> json \<Rightarrow> string" where
  "text_member k v = (case member_of k v of Some (JStr s) \<Rightarrow> text_of s | _ \<Rightarrow> [])"

definition int_member :: "string \<Rightarrow> json \<Rightarrow> int" where
  "int_member k v = (case member_of k v of Some (JNum n) \<Rightarrow> n | _ \<Rightarrow> 0)"

definition list_member :: "string \<Rightarrow> json \<Rightarrow> json list" where
  "list_member k v = (case member_of k v of Some (JArr vs) \<Rightarrow> vs | _ \<Rightarrow> [])"

text \<open>An object with exactly the listed members, each satisfying its schema.\<close>

definition closed_object :: "(string \<times> (json \<Rightarrow> bool)) list \<Rightarrow> json \<Rightarrow> bool" where
  "closed_object members v =
     (case v of
        JObj kvs \<Rightarrow> list_all (\<lambda>(k, _). k \<in> set (map (\<lambda>(f, _). js f) members)) kvs
          \<and> list_all (\<lambda>(f, ok). case member_of f v of None \<Rightarrow> False | Some x \<Rightarrow> ok x) members
      | _ \<Rightarrow> False)"

section \<open>The schema\<close>

record validator_env =
  ve_uuid_format :: "string \<Rightarrow> bool"
  ve_date_time_format :: "string \<Rightarrow> bool"
  ve_error_count :: "json \<Rightarrow> int"
  ve_sha256 :: "byte_string \<Rightarrow> byte_string"

definition text_schema :: "(js_string \<Rightarrow> bool) \<Rightarrow> json \<Rightarrow> bool" where
  "text_schema ok v = (case v of JStr s \<Rightarrow> ok s | _ \<Rightarrow> False)"

definition digit_unit :: "nat \<Rightarrow> bool" where
  "digit_unit c \<longleftrightarrow> 48 \<le> c \<and> c \<le> 57"

definition hex_unit :: "nat \<Rightarrow> bool" where
  "hex_unit c \<longleftrightarrow> digit_unit c \<or> 97 \<le> c \<and> c \<le> 102 \<or> 65 \<le> c \<and> c \<le> 70"

definition uuid_pattern :: "js_string \<Rightarrow> bool" where
  "uuid_pattern s \<longleftrightarrow> length s = 36
     \<and> list_all (\<lambda>i. if i \<in> {8, 13, 18, 23} then s ! i = 45 else hex_unit (s ! i)) [0..<36]
     \<and> 49 \<le> s ! 14 \<and> s ! 14 \<le> 56 \<and> s ! 19 \<in> {56, 57, 97, 98, 65, 66}"

definition uuid_schema :: "validator_env \<Rightarrow> json \<Rightarrow> bool" where
  "uuid_schema env = text_schema (\<lambda>s. uuid_pattern s \<and> ve_uuid_format env (text_of s))"

definition sequence_schema :: "json \<Rightarrow> bool" where
  "sequence_schema v = (case v of JNum n \<Rightarrow> 1 \<le> n \<and> n \<le> 9007199254740991 | _ \<Rightarrow> False)"

definition timestamp_schema :: "validator_env \<Rightarrow> json \<Rightarrow> bool" where
  "timestamp_schema env = text_schema (\<lambda>s. list_all (\<lambda>c. c < 128) s \<and> ve_date_time_format env (text_of s)
     \<and> 20 \<le> length s \<and> length s \<le> 35)"

fun split_units :: "nat \<Rightarrow> js_string \<Rightarrow> js_string list" where
  "split_units sep [] = [[]]"
| "split_units sep (c # cs) =
     (if c = sep then [] # split_units sep cs
      else case split_units sep cs of [] \<Rightarrow> [[c]] | p # ps \<Rightarrow> (c # p) # ps)"

definition numeric_identifier :: "js_string \<Rightarrow> bool" where
  "numeric_identifier s \<longleftrightarrow> s = [48] \<or> s \<noteq> [] \<and> hd s \<noteq> 48 \<and> list_all digit_unit s"

definition identifier_unit :: "nat \<Rightarrow> bool" where
  "identifier_unit c \<longleftrightarrow> digit_unit c \<or> 65 \<le> c \<and> c \<le> 90 \<or> 97 \<le> c \<and> c \<le> 122 \<or> c = 45"

definition dotted_identifiers :: "js_string \<Rightarrow> bool" where
  "dotted_identifiers s \<longleftrightarrow> list_all (\<lambda>p. p \<noteq> [] \<and> list_all identifier_unit p) (split_units 46 s)"

text \<open>The version core, then \<open>-\<close> and the pre-release, then \<open>+\<close> and the build.\<close>

definition version_pattern :: "js_string \<Rightarrow> bool" where
  "version_pattern s =
     (let core = takeWhile (\<lambda>c. c \<noteq> 45 \<and> c \<noteq> 43) s; rest = dropWhile (\<lambda>c. c \<noteq> 45 \<and> c \<noteq> 43) s;
          build = dropWhile (\<lambda>c. c \<noteq> 43) rest in
      length (split_units 46 core) = 3 \<and> list_all numeric_identifier (split_units 46 core)
      \<and> (rest = [] \<or> hd rest = 43 \<or> dotted_identifiers (takeWhile (\<lambda>c. c \<noteq> 43) (tl rest)))
      \<and> (build = [] \<or> dotted_identifiers (tl build)))"

definition version_schema :: "json \<Rightarrow> bool" where
  "version_schema = text_schema (\<lambda>s. 5 \<le> length s \<and> length s \<le> 64 \<and> version_pattern s)"

definition base64_unit :: "nat \<Rightarrow> bool" where
  "base64_unit c \<longleftrightarrow> 65 \<le> c \<and> c \<le> 90 \<or> 97 \<le> c \<and> c \<le> 122 \<or> digit_unit c \<or> c = 43 \<or> c = 47"

definition signature_pattern :: "js_string \<Rightarrow> bool" where
  "signature_pattern s \<longleftrightarrow> length s = 88 \<and> list_all base64_unit (take 86 s) \<and> drop 86 s = [61, 61]"

definition signature_schema :: "json \<Rightarrow> bool" where
  "signature_schema = text_schema signature_pattern"

definition enum_schema :: "string list \<Rightarrow> json \<Rightarrow> bool" where
  "enum_schema values v \<longleftrightarrow> v \<in> set (map jtext values)"

definition SCHEMA_PET_IDS :: "string list" where
  "SCHEMA_PET_IDS = [''bloop'', ''buzz-bit'', ''comet-lop'', ''gizmo-kernel'', ''kiki-koala'', ''momo-mug'',
     ''moss-shell'', ''nimbus-noodle'', ''nori-nibble'', ''olli-orbit'', ''pico-patch'', ''pogo-ping'',
     ''rumi-relay'', ''sora-shiba'', ''taro-tinker'']"

definition display_names :: "(string \<times> display_state) list" where
  "display_names = [(''idle'', D_idle), (''working'', D_working), (''waiting'', D_waiting), (''done'', D_done),
     (''failed'', D_failed)]"

definition activity_names :: "(string \<times> activity_state) list" where
  "activity_names = [(''unknown'', A_unknown), (''active'', A_active), (''eligible_idle'', A_eligible_idle),
     (''waiting'', A_waiting), (''failed'', A_failed)]"

text \<open>The alternatives of \<open>oneOf\<close> for the states of a transition.\<close>

definition state_pairs :: "(string \<times> string list) list" where
  "state_pairs = [(''idle'', [''unknown'', ''eligible_idle'']), (''working'', [''active'']),
     (''waiting'', [''waiting'', ''active'', ''eligible_idle'']), (''done'', [''eligible_idle'']),
     (''failed'', [''failed''])]"

definition one_of :: "bool list \<Rightarrow> bool" where
  "one_of bs \<longleftrightarrow> length (filter (\<lambda>b. b) bs) = 1"

definition property_schema :: "string \<Rightarrow> (json \<Rightarrow> bool) \<Rightarrow> json \<Rightarrow> bool" where
  "property_schema k ok v = (case member_of k v of None \<Rightarrow> True | Some x \<Rightarrow> ok x)"

definition transition_schema :: "validator_env \<Rightarrow> json \<Rightarrow> bool" where
  "transition_schema env v \<longleftrightarrow>
     closed_object [(''sequence'', sequence_schema), (''kind'', enum_schema [''state_transition'']),
       (''observed_at'', timestamp_schema env), (''display_state'', enum_schema (map fst display_names)),
       (''activity_state'', enum_schema (map fst activity_names)), (''pet_id'', enum_schema SCHEMA_PET_IDS)] v
     \<and> one_of (map (\<lambda>(display, activities). property_schema ''display_state'' (enum_schema [display]) v
         \<and> property_schema ''activity_state'' (enum_schema activities) v) state_pairs)"

definition heartbeat_schema :: "validator_env \<Rightarrow> json \<Rightarrow> bool" where
  "heartbeat_schema env = closed_object [(''sequence'', sequence_schema), (''kind'', enum_schema [''heartbeat'']),
     (''observed_at'', timestamp_schema env)]"

definition batch_events_schema :: "validator_env \<Rightarrow> json \<Rightarrow> bool" where
  "batch_events_schema env v = (case v of
     JArr vs \<Rightarrow> 1 \<le> length vs \<and> length vs \<le> 64 \<and> list_all (\<lambda>x. one_of [transition_schema env x, heartbeat_schema env x]) vs
   | _ \<Rightarrow> False)"

definition heartbeat_events_schema :: "validator_env \<Rightarrow> json \<Rightarrow> bool" where
  "heartbeat_events_schema env v = (case v of JArr [x] \<Rightarrow> heartbeat_schema env x | _ \<Rightarrow> False)"

definition envelope_schema :: "validator_env \<Rightarrow> edge_endpoint \<Rightarrow> json \<Rightarrow> bool" where
  "envelope_schema env endpoint =
     closed_object [(''protocol_version'', \<lambda>v. v = JNum 1), (''instance_id'', uuid_schema env),
       (''key_id'', uuid_schema env), (''boot_id'', uuid_schema env),
       (''previous_boot_id'', \<lambda>v. one_of [uuid_schema env v, v = JNull]), (''first_sequence'', sequence_schema),
       (''events'', case endpoint of Heartbeat_endpoint \<Rightarrow> heartbeat_events_schema env
          | Batch_endpoint \<Rightarrow> batch_events_schema env),
       (''sent_at'', timestamp_schema env), (''client_version'', version_schema), (''signature'', signature_schema)]"

section \<open>Reading the envelope\<close>

definition event_of_json :: "json \<Rightarrow> edge_event" where
  "event_of_json v =
     (if text_member ''kind'' v = ''heartbeat''
      then Heartbeat \<lparr>hb_sequence = int_member ''sequence'' v, hb_observed_at = text_member ''observed_at'' v\<rparr>
      else State_transition \<lparr>st_sequence = int_member ''sequence'' v, st_observed_at = text_member ''observed_at'' v,
        st_display_state = (case map_of display_names (text_member ''display_state'' v) of None \<Rightarrow> D_idle | Some x \<Rightarrow> x),
        st_activity_state = (case map_of activity_names (text_member ''activity_state'' v) of None \<Rightarrow> A_unknown | Some x \<Rightarrow> x),
        st_pet_id = text_member ''pet_id'' v\<rparr>)"

definition envelope_of_json :: "json \<Rightarrow> edge_report_envelope" where
  "envelope_of_json v =
     \<lparr>en_instance_id = text_member ''instance_id'' v, en_key_id = text_member ''key_id'' v,
      en_boot_id = text_member ''boot_id'' v,
      en_previous_boot_id = (case member_of ''previous_boot_id'' v of Some (JStr s) \<Rightarrow> Some (text_of s) | _ \<Rightarrow> None),
      en_first_sequence = int_member ''first_sequence'' v,
      en_events = map event_of_json (list_member ''events'' v), en_sent_at = text_member ''sent_at'' v,
      en_client_version = text_member ''client_version'' v, en_signature = text_member ''signature'' v\<rparr>"

section \<open>Preparing a report\<close>

definition assert_protocol_version :: "json \<Rightarrow> unit tx" where
  "assert_protocol_version input =
     (case input of
        JObj _ \<Rightarrow> (case member_of ''protocol_version'' input of
          None \<Rightarrow> Inr ()
        | Some v \<Rightarrow> guard_r (v = JNum 1) (problem Protocol_version_unsupported 426 ''This server accepts protocol version 1.''))
      | _ \<Rightarrow> Inr ())"

definition assert_schema_valid :: "validator_env \<Rightarrow> edge_endpoint \<Rightarrow> json \<Rightarrow> unit tx" where
  "assert_schema_valid env endpoint input =
     guard_r (envelope_schema env endpoint input)
       (problem Invalid_request 400 (''The report does not match the protocol schema (''
          @ text_of (decimal (ve_error_count env input)) @ '' validation error).''))"

definition sequence_mismatch :: "problem_code \<Rightarrow> string \<Rightarrow> int \<Rightarrow> tx_error" where
  "sequence_mismatch code detail expected =
     Problem ((protocol_problem code 409 detail)\<lparr>pp_expectedSequence := Some expected\<rparr>)"

fun assert_contiguous :: "int \<Rightarrow> edge_event list \<Rightarrow> unit tx" where
  "assert_contiguous expected [] = Inr ()"
| "assert_contiguous expected (event # events) =
     (if MAX_SAFE_SEQUENCE < expected
      then Inl (problem Report_semantics_invalid 422 ''The report exceeds the protocol sequence range.'')
      else if expected < event_sequence event
      then Inl (sequence_mismatch Sequence_gap ''Event sequences must be contiguous within a batch.'' expected)
      else if event_sequence event < expected
      then Inl (sequence_mismatch Sequence_overlap
             ''Event sequences must not repeat or move backwards within a batch.'' expected)
      else assert_contiguous (expected + 1) events)"

definition assert_intrinsic_semantics :: "edge_report_envelope \<Rightarrow> edge_endpoint \<Rightarrow> unit tx" where
  "assert_intrinsic_semantics envelope endpoint =
     rbind (guard_r (case en_events envelope of [] \<Rightarrow> False | e # _ \<Rightarrow> event_sequence e = en_first_sequence envelope)
       (problem Report_semantics_invalid 422 ''first_sequence must equal the first event sequence.'')) (\<lambda>_.
     rbind (assert_contiguous (en_first_sequence envelope) (en_events envelope)) (\<lambda>_.
       guard_r (\<not> (endpoint = Heartbeat_endpoint
           \<and> (length (en_events envelope) \<noteq> 1 \<or> is_state_transition (hd (en_events envelope)))))
         (problem Report_semantics_invalid 422 ''The heartbeat endpoint accepts exactly one heartbeat event.'')))"

definition canonical_event_of :: "validator_env \<Rightarrow> json \<Rightarrow> canonical_event" where
  "canonical_event_of env v = \<lparr>ce_event = event_of_json v, ce_bytes = canonical_bytes v,
     ce_hash = ve_sha256 env (canonical_bytes v)\<rparr>"

definition prepare :: "validator_env \<Rightarrow> json \<Rightarrow> edge_endpoint \<Rightarrow> prepared_edge_report tx" where
  "prepare env input endpoint =
     rbind (assert_protocol_version input) (\<lambda>_.
     rbind (assert_schema_valid env endpoint input) (\<lambda>_.
     rbind (assert_intrinsic_semantics (envelope_of_json input) endpoint) (\<lambda>_.
       Inr \<lparr>pr_envelope = envelope_of_json input, pr_endpoint = endpoint,
         pr_signingPayload = create_edge_report_signing_payload input,
         pr_canonicalPayload = canonical_bytes input,
         pr_canonicalPayloadHash = ve_sha256 env (canonical_bytes input),
         pr_canonicalEvents = map (canonical_event_of env) (list_member ''events'' input)\<rparr>)))"

section \<open>What the schema admits\<close>

lemma text_of_js [simp]: "text_of (js s) = s"
  by (simp add: text_of_def js_def comp_def)

lemma closed_object_member:
  "closed_object members v \<Longrightarrow> (f, ok) \<in> set members \<Longrightarrow> \<exists>x. member_of f v = Some x \<and> ok x"
  by (cases v) (fastforce simp: closed_object_def list_all_iff split: option.splits)+

lemma enum_text: "member_of k v = Some x \<Longrightarrow> enum_schema values x \<Longrightarrow> text_member k v \<in> set values"
  by (auto simp: enum_schema_def text_member_def jtext_def)

lemma enum_property: "member_of k v = Some x \<Longrightarrow> enum_schema names x \<Longrightarrow>
    property_schema k (enum_schema values) v \<longleftrightarrow> text_member k v \<in> set values"
  by (auto simp: property_schema_def enum_schema_def text_member_def jtext_def)

lemma sequence_int: "member_of k v = Some x \<Longrightarrow> sequence_schema x \<Longrightarrow> 1 \<le> int_member k v \<and> int_member k v \<le> MAX_SAFE_SEQUENCE"
  by (cases x) (simp_all add: sequence_schema_def int_member_def MAX_SAFE_SEQUENCE_def)

definition event_admitted :: "edge_event \<Rightarrow> bool" where
  "event_admitted e \<longleftrightarrow> 1 \<le> event_sequence e \<and> event_sequence e \<le> MAX_SAFE_SEQUENCE
     \<and> (case e of State_transition s \<Rightarrow> allowed_pair (st_display_state s) (st_activity_state s)
            \<and> st_pet_id s \<in> set ONBOARDING_PET_IDS
        | Heartbeat _ \<Rightarrow> True)"

lemma transition_admitted:
  assumes "transition_schema env v"
  shows "event_admitted (event_of_json v)" "is_state_transition (event_of_json v)"
proof -
  note mem = closed_object_member [OF assms [unfolded transition_schema_def, THEN conjunct1]]
  obtain xs where sq: "member_of ''sequence'' v = Some xs" "sequence_schema xs"
    using mem [of "''sequence''" sequence_schema] by auto
  obtain xk where kind: "member_of ''kind'' v = Some xk" "enum_schema [''state_transition''] xk"
    using mem [of "''kind''" "enum_schema [''state_transition'']"] by auto
  obtain xd where disp: "member_of ''display_state'' v = Some xd" "enum_schema (map fst display_names) xd"
    using mem [of "''display_state''" "enum_schema (map fst display_names)"] by auto
  obtain xa where act: "member_of ''activity_state'' v = Some xa" "enum_schema (map fst activity_names) xa"
    using mem [of "''activity_state''" "enum_schema (map fst activity_names)"] by auto
  obtain xp where pet: "member_of ''pet_id'' v = Some xp" "enum_schema SCHEMA_PET_IDS xp"
    using mem [of "''pet_id''" "enum_schema SCHEMA_PET_IDS"] by auto
  let ?d = "text_member ''display_state'' v" and ?a = "text_member ''activity_state'' v"
  have pairs: "one_of (map (\<lambda>(display, activities). ?d = display \<and> ?a \<in> set activities) state_pairs)"
    using assms by (simp add: transition_schema_def enum_property [OF disp] enum_property [OF act] cong: map_cong)
  have "allowed_pair (case map_of display_names ?d of None \<Rightarrow> D_idle | Some x \<Rightarrow> x)
      (case map_of activity_names ?a of None \<Rightarrow> A_unknown | Some x \<Rightarrow> x)"
    using enum_text [OF disp] enum_text [OF act] pairs
    by (auto simp: display_names_def activity_names_def state_pairs_def one_of_def allowed_pair_def)
  moreover have "text_member ''pet_id'' v \<in> set ONBOARDING_PET_IDS"
    using enum_text [OF pet] by (auto simp: SCHEMA_PET_IDS_def ONBOARDING_PET_IDS_def)
  moreover have "text_member ''kind'' v \<noteq> ''heartbeat''" using enum_text [OF kind] by auto
  ultimately show "event_admitted (event_of_json v)" "is_state_transition (event_of_json v)"
    using sequence_int [OF sq] by (simp_all add: event_of_json_def event_admitted_def)
qed

lemma heartbeat_admitted:
  assumes "heartbeat_schema env v"
  shows "event_admitted (event_of_json v)" "\<not> is_state_transition (event_of_json v)"
proof -
  note mem = closed_object_member [OF assms [unfolded heartbeat_schema_def]]
  obtain xs where sq: "member_of ''sequence'' v = Some xs" "sequence_schema xs"
    using mem [of "''sequence''" sequence_schema] by auto
  obtain xk where kind: "member_of ''kind'' v = Some xk" "enum_schema [''heartbeat''] xk"
    using mem [of "''kind''" "enum_schema [''heartbeat'']"] by auto
  have "text_member ''kind'' v = ''heartbeat''" using enum_text [OF kind] by auto
  then show "event_admitted (event_of_json v)" "\<not> is_state_transition (event_of_json v)"
    using sequence_int [OF sq] by (simp_all add: event_of_json_def event_admitted_def)
qed

definition events_schema :: "validator_env \<Rightarrow> edge_endpoint \<Rightarrow> json \<Rightarrow> bool" where
  "events_schema env endpoint = (case endpoint of Heartbeat_endpoint \<Rightarrow> heartbeat_events_schema env
     | Batch_endpoint \<Rightarrow> batch_events_schema env)"

lemma events_admitted:
  assumes "envelope_schema env endpoint v"
  shows "1 \<le> length (en_events (envelope_of_json v))" "length (en_events (envelope_of_json v)) \<le> 64"
    "list_all event_admitted (en_events (envelope_of_json v))"
    "endpoint = Heartbeat_endpoint \<Longrightarrow> \<exists>h. en_events (envelope_of_json v) = [Heartbeat h]"
proof -
  note mem = closed_object_member [OF assms [unfolded envelope_schema_def events_schema_def [symmetric]]]
  obtain x where x: "member_of ''events'' v = Some x" "events_schema env endpoint x"
    using mem [of "''events''" "events_schema env endpoint"] by auto
  from x(2) obtain vs where vs: "x = JArr vs" "1 \<le> length vs" "length vs \<le> 64"
      "\<forall>y\<in>set vs. transition_schema env y \<or> heartbeat_schema env y"
      "endpoint = Heartbeat_endpoint \<Longrightarrow> \<exists>y. vs = [y] \<and> heartbeat_schema env y"
    by (cases endpoint; cases x)
      (auto simp: events_schema_def batch_events_schema_def heartbeat_events_schema_def list_all_iff one_of_def
        split: list.splits if_splits)
  have ev: "en_events (envelope_of_json v) = map event_of_json vs"
    by (simp add: envelope_of_json_def list_member_def x(1) vs(1))
  show "1 \<le> length (en_events (envelope_of_json v))" "length (en_events (envelope_of_json v)) \<le> 64"
    using vs(2,3) by (simp_all add: ev)
  show "list_all event_admitted (en_events (envelope_of_json v))"
    using vs(4) transition_admitted heartbeat_admitted by (auto simp: ev list_all_iff)
  show "\<exists>h. en_events (envelope_of_json v) = [Heartbeat h]" if "endpoint = Heartbeat_endpoint"
  proof -
    from vs(5) [OF that] obtain y where "vs = [y]" "heartbeat_schema env y" by blast
    with heartbeat_admitted(2) [of env y] show ?thesis by (cases "event_of_json y") (auto simp: ev)
  qed
qed

lemma version_length:
  assumes "envelope_schema env endpoint v"
  shows "5 \<le> length (en_client_version (envelope_of_json v)) \<and> length (en_client_version (envelope_of_json v)) \<le> 64"
proof -
  from closed_object_member [OF assms [unfolded envelope_schema_def], of "''client_version''" version_schema]
  obtain x where "member_of ''client_version'' v = Some x" "version_schema x" by auto
  then show ?thesis by (cases x) (simp_all add: version_schema_def text_schema_def envelope_of_json_def text_member_def text_of_def)
qed

lemma contiguous_events:
  "assert_contiguous n es = Inr () \<longleftrightarrow> (\<forall>i<length es. n + int i \<le> MAX_SAFE_SEQUENCE \<and> event_sequence (es ! i) = n + int i)"
proof (induction n es rule: assert_contiguous.induct)
  case (2 expected event events)
  have "(\<forall>i<length (event # events). expected + int i \<le> MAX_SAFE_SEQUENCE \<and> event_sequence ((event # events) ! i) = expected + int i)
    \<longleftrightarrow> expected \<le> MAX_SAFE_SEQUENCE \<and> event_sequence event = expected
      \<and> (\<forall>i<length events. expected + 1 + int i \<le> MAX_SAFE_SEQUENCE \<and> event_sequence (events ! i) = expected + 1 + int i)"
    by (auto simp: All_less_Suc2 algebra_simps)
  with 2 show ?case by auto
qed simp

lemma contiguous_from:
  "assert_contiguous n es = Inr () \<Longrightarrow> list_all event_admitted es \<Longrightarrow> events_from n es"
  by (induction n es rule: assert_contiguous.induct)
    (auto simp: event_admitted_def split: if_splits edge_event.splits)

text \<open>The first event out of place, or the sequence beyond the range.\<close>

definition first_misplaced :: "int \<Rightarrow> edge_event list \<Rightarrow> nat \<Rightarrow> bool" where
  "first_misplaced n es i \<longleftrightarrow> i < length es \<and> (\<forall>j<i. event_sequence (es ! j) = n + int j)
     \<and> event_sequence (es ! i) \<noteq> n + int i"

definition contiguity_problem :: "int \<Rightarrow> edge_event list \<Rightarrow> protocol_problem \<Rightarrow> bool" where
  "contiguity_problem n es p \<longleftrightarrow>
     pp_code p = Report_semantics_invalid \<and> pp_status p = 422 \<and> MAX_SAFE_SEQUENCE < n + int (length es) - 1
     \<or> (\<exists>i. first_misplaced n es i \<and> pp_expectedSequence p = Some (n + int i) \<and> pp_status p = 409
          \<and> pp_code p = (if n + int i < event_sequence (es ! i) then Sequence_gap else Sequence_overlap))"

lemma first_misplaced_Suc:
  "first_misplaced (n + 1) es i \<Longrightarrow> event_sequence e = n \<Longrightarrow> first_misplaced n (e # es) (Suc i)"
  by (auto simp: first_misplaced_def All_less_Suc2 algebra_simps)

lemma contiguity_error: "assert_contiguous n es = Inl e \<Longrightarrow> \<exists>p. e = Problem p \<and> contiguity_problem n es p"
proof (induction n es rule: assert_contiguous.induct)
  case (2 n event events)
  consider "MAX_SAFE_SEQUENCE < n" | "n \<le> MAX_SAFE_SEQUENCE" "event_sequence event \<noteq> n"
    | "n \<le> MAX_SAFE_SEQUENCE" "event_sequence event = n" by linarith
  then show ?case
  proof cases
    case 1
    with "2.prems" show ?thesis by (auto simp: contiguity_problem_def problem_def protocol_problem_def)
  next
    case 2
    then have "first_misplaced n (event # events) 0" by (simp add: first_misplaced_def)
    with 2 "2.prems" show ?thesis
      by (intro exI [of _ "case e of Problem p \<Rightarrow> p"])
        (auto simp: contiguity_problem_def sequence_mismatch_def protocol_problem_def intro!: exI [of _ "0 :: nat"] split: if_splits)
  next
    case 3
    with "2.prems" have "assert_contiguous (n + 1) events = Inl e" by simp
    from "2.IH" [OF _ _ _ this] 3 obtain p where p: "e = Problem p" "contiguity_problem (n + 1) events p" by auto
    from p(2) consider "pp_code p = Report_semantics_invalid" "pp_status p = 422" "MAX_SAFE_SEQUENCE < n + 1 + int (length events) - 1"
      | i where "first_misplaced (n + 1) events i" "pp_expectedSequence p = Some (n + 1 + int i)" "pp_status p = 409"
        "pp_code p = (if n + 1 + int i < event_sequence (events ! i) then Sequence_gap else Sequence_overlap)"
      by (auto simp: contiguity_problem_def)
    then have "contiguity_problem n (event # events) p"
    proof cases
      case (2 i)
      with first_misplaced_Suc [OF 2(1) 3(2)] show ?thesis
        unfolding contiguity_problem_def by (intro disjI2 exI [of _ "Suc i"]) (simp add: algebra_simps)
    qed (simp add: contiguity_problem_def)
    with p(1) show ?thesis by blast
  qed
qed simp

lemma prepareE:
  assumes "prepare env input endpoint = Inr r"
  obtains "envelope_schema env endpoint input" "assert_intrinsic_semantics (envelope_of_json input) endpoint = Inr ()"
    "pr_envelope r = envelope_of_json input" "pr_endpoint r = endpoint"
    "pr_signingPayload r = create_edge_report_signing_payload input" "pr_canonicalPayload r = canonical_bytes input"
    "pr_canonicalPayloadHash r = ve_sha256 env (canonical_bytes input)"
    "pr_canonicalEvents r = map (canonical_event_of env) (list_member ''events'' input)"
  using assms by (auto simp: prepare_def assert_schema_valid_def result_simps)

lemma prepared_report_ok:
  assumes "prepare env input endpoint = Inr r" "\<And>bytes. length (ve_sha256 env bytes) = 32"
  shows "report_ok r"
  using assms(1)
proof (rule prepareE)
  assume schema: "envelope_schema env endpoint input" and sem: "assert_intrinsic_semantics (envelope_of_json input) endpoint = Inr ()"
    and r: "pr_envelope r = envelope_of_json input"
      "pr_canonicalPayloadHash r = ve_sha256 env (canonical_bytes input)"
      "pr_canonicalEvents r = map (canonical_event_of env) (list_member ''events'' input)"
  note ev = events_admitted [OF schema]
  have "assert_contiguous (en_first_sequence (envelope_of_json input)) (en_events (envelope_of_json input)) = Inr ()"
    using sem by (auto simp: assert_intrinsic_semantics_def result_simps)
  note from_first = contiguous_from [OF this ev(3)]
  have "map ce_event (pr_canonicalEvents r) = en_events (envelope_of_json input)"
    by (simp add: r(3) canonical_event_of_def envelope_of_json_def comp_def)
  moreover have "\<forall>c\<in>set (pr_canonicalEvents r). length (ce_hash c) = 32"
    by (auto simp: r(3) canonical_event_of_def assms(2))
  moreover have "en_events (envelope_of_json input) \<noteq> []" using ev(1) by auto
  ultimately show "report_ok r"
    using from_first ev(2) version_length [OF schema] by (simp add: report_ok_def r(1,2) assms(2))
qed

section \<open>Properties\<close>

text \<open>
  C28: Only well-formed reports are prepared. Whatever JSON value a device sends, a report that
  passes the protocol version, the schema and the semantic checks has between 1 and 64 events
  with consecutive safe sequences from its first sequence on, only allowed pairs of states and
  supported pets, exactly one heartbeat on the heartbeat endpoint, hashes of 32 bytes of its
  canonical text and events, and the signing payload of exactly the value that was sent.
\<close>

theorem prepared_reports_well_formed:
  assumes "prepare env input endpoint = Inr r" "\<And>bytes. length (ve_sha256 env bytes) = 32"
  shows "report_ok r \<and> assert_supported_pet_ids r = Inr () \<and> pr_endpoint r = endpoint
    \<and> (endpoint = Heartbeat_endpoint \<longrightarrow> (\<exists>h. en_events (pr_envelope r) = [Heartbeat h]))
    \<and> pr_signingPayload r = create_edge_report_signing_payload input
    \<and> pr_canonicalPayload r = canonical_bytes input"
  using assms(1)
proof (rule prepareE)
  assume schema: "envelope_schema env endpoint input" and sem: "assert_intrinsic_semantics (envelope_of_json input) endpoint = Inr ()"
    and r: "pr_envelope r = envelope_of_json input" "pr_endpoint r = endpoint"
      "pr_signingPayload r = create_edge_report_signing_payload input" "pr_canonicalPayload r = canonical_bytes input"
  note ev = events_admitted [OF schema]
  have "report_ok r" using assms by (rule prepared_report_ok)
  moreover have "assert_supported_pet_ids r = Inr ()"
    using ev(3) by (auto simp: assert_supported_pet_ids_def result_simps r(1) list_all_iff event_admitted_def
        split: edge_event.splits)
  ultimately show ?thesis using ev(4) r(2-4) by (auto simp: r(1))
qed

text \<open>
  A batch that is not contiguous is refused with the sequence the server expected. For a
  value of protocol version 1 that matches the schema, the report is refused as a gap or an
  overlap exactly at the first event whose sequence differs from its place in the batch, the
  problem carries the sequence of that place, and a report is refused in no other way than by
  its sequences.
\<close>

theorem batch_error_names_expected_sequence:
  assumes "assert_protocol_version input = Inr ()" "envelope_schema env endpoint input"
    and "first = en_first_sequence (envelope_of_json input)" "events = en_events (envelope_of_json input)"
  shows "case prepare env input endpoint of
      Inr r \<Rightarrow> (\<forall>i<length events. event_sequence (events ! i) = first + int i)
    | Inl (Problem p) \<Rightarrow>
        (pp_code p = Report_semantics_invalid \<and> pp_status p = 422
          \<and> (event_sequence (hd events) \<noteq> first \<or> MAX_SAFE_SEQUENCE < first + int (length events) - 1))
        \<or> (\<exists>i<length events. (\<forall>j<i. event_sequence (events ! j) = first + int j)
            \<and> event_sequence (events ! i) \<noteq> first + int i
            \<and> pp_expectedSequence p = Some (first + int i) \<and> pp_status p = 409
            \<and> pp_code p = (if first + int i < event_sequence (events ! i) then Sequence_gap else Sequence_overlap))
    | Inl _ \<Rightarrow> False"
proof -
  note ev = events_admitted [OF assms(2), folded assms(4)]
  then obtain e es where events: "events = e # es" by (cases events) auto
  have heartbeat: "endpoint = Heartbeat_endpoint \<Longrightarrow> length events = 1 \<and> \<not> is_state_transition (hd events)"
    using ev(4) by auto
  have eq: "prepare env input endpoint = rbind (assert_intrinsic_semantics (envelope_of_json input) endpoint) (\<lambda>_.
       Inr \<lparr>pr_envelope = envelope_of_json input, pr_endpoint = endpoint,
         pr_signingPayload = create_edge_report_signing_payload input, pr_canonicalPayload = canonical_bytes input,
         pr_canonicalPayloadHash = ve_sha256 env (canonical_bytes input),
         pr_canonicalEvents = map (canonical_event_of env) (list_member ''events'' input)\<rparr>)"
    by (simp add: prepare_def assms(1) assert_schema_valid_def assms(2))
  show ?thesis
  proof (cases "event_sequence e = first")
    case False
    then have "prepare env input endpoint = Inl (problem Report_semantics_invalid 422 ''first_sequence must equal the first event sequence.'')"
      unfolding eq assert_intrinsic_semantics_def assms(3,4) [symmetric] by (simp add: events)
    with False show ?thesis by (simp add: problem_def protocol_problem_def events)
  next
    case True
    then have sem: "assert_intrinsic_semantics (envelope_of_json input) endpoint = assert_contiguous first events"
      unfolding assert_intrinsic_semantics_def assms(3,4) [symmetric] using heartbeat
      by (cases "assert_contiguous first events") (auto simp: events)
    show ?thesis
    proof (cases "assert_contiguous first events")
      case (Inl err)
      from contiguity_error [OF Inl] obtain p where "err = Problem p" "contiguity_problem first events p" by blast
      with Inl show ?thesis by (auto simp: eq sem contiguity_problem_def first_misplaced_def)
    next
      case (Inr u)
      then have "assert_contiguous first events = Inr ()" by simp
      with contiguous_events [of first events] show ?thesis by (simp add: eq sem)
    qed
  qed
qed

section \<open>A sample report\<close>

definition sample_validator :: validator_env where
  "sample_validator = \<lparr>ve_uuid_format = (\<lambda>_. True), ve_date_time_format = (\<lambda>_. True), ve_error_count = (\<lambda>_. 1),
     ve_sha256 = (\<lambda>_. replicate 32 0)\<rparr>"

definition sample_uuid :: string where
  "sample_uuid = ''018f4f2e-0000-7000-8000-000000000001''"

definition sample_heartbeat :: "int \<Rightarrow> json" where
  "sample_heartbeat n = jobj [(''sequence'', JNum n), (''kind'', jtext ''heartbeat''),
     (''observed_at'', jtext ''2026-01-01T00:00:00Z'')]"

definition sample_signature :: string where
  "sample_signature = replicate 86 (CHR ''A'') @ ''==''"

definition sample_body :: "int \<Rightarrow> int list \<Rightarrow> json" where
  "sample_body first sequences = jobj [(''protocol_version'', JNum 1), (''instance_id'', jtext sample_uuid),
     (''key_id'', jtext sample_uuid), (''boot_id'', jtext sample_uuid), (''previous_boot_id'', JNull),
     (''first_sequence'', JNum first), (''events'', JArr (map sample_heartbeat sequences)),
     (''sent_at'', jtext ''2026-01-01T00:00:00Z''), (''client_version'', jtext ''1.2.3''),
     (''signature'', jtext sample_signature)]"

lemma sample_uuid_ok: "uuid_schema sample_validator (jtext sample_uuid)"
  by (simp add: uuid_schema_def jtext_def text_schema_def uuid_pattern_def sample_uuid_def js_def hex_unit_def digit_unit_def
      sample_validator_def upt_rec)

lemma sample_time_ok: "timestamp_schema sample_validator (jtext ''2026-01-01T00:00:00Z'')"
  by (simp add: timestamp_schema_def jtext_def text_schema_def js_def sample_validator_def)

lemma sample_version_ok: "version_schema (jtext ''1.2.3'')"
  by (simp add: version_schema_def jtext_def text_schema_def js_def version_pattern_def numeric_identifier_def digit_unit_def)

lemma sample_signature_ok: "signature_schema (jtext sample_signature)"
  by (simp add: signature_schema_def jtext_def text_schema_def js_def signature_pattern_def sample_signature_def
      base64_unit_def digit_unit_def list_all_iff)

lemma sample_heartbeat_ok: "1 \<le> n \<Longrightarrow> n \<le> 9007199254740991 \<Longrightarrow> heartbeat_schema sample_validator (sample_heartbeat n)"
  using sample_time_ok
  by (simp add: heartbeat_schema_def closed_object_def sample_heartbeat_def jobj_def member_of_def sequence_schema_def enum_schema_def)

lemma sample_not_transition: "\<not> transition_schema env (sample_heartbeat n)"
  by (simp add: transition_schema_def closed_object_def sample_heartbeat_def jobj_def member_of_def)

lemma sample_body_ok:
  assumes "1 \<le> length seqs" "length seqs \<le> 64" "\<forall>n\<in>set (first # seqs). 1 \<le> n \<and> n \<le> 9007199254740991"
  shows "envelope_schema sample_validator Batch_endpoint (sample_body first seqs)"
proof -
  have "batch_events_schema sample_validator (JArr (map sample_heartbeat seqs))"
    using assms sample_heartbeat_ok sample_not_transition by (auto simp: batch_events_schema_def list_all_iff one_of_def)
  moreover have "\<not> uuid_schema sample_validator JNull" by (simp add: uuid_schema_def text_schema_def)
  ultimately show ?thesis
    using assms(3) sample_uuid_ok sample_time_ok sample_version_ok sample_signature_ok
    by (simp add: envelope_schema_def closed_object_def sample_body_def jobj_def member_of_def sequence_schema_def one_of_def)
qed

lemma sample_body_envelope:
  "assert_protocol_version (sample_body first seqs) = Inr ()"
  "en_first_sequence (envelope_of_json (sample_body first seqs)) = first"
  "map event_sequence (en_events (envelope_of_json (sample_body first seqs))) = seqs"
proof -
  have "event_sequence (event_of_json (sample_heartbeat n)) = n" for n
    by (simp add: event_of_json_def sample_heartbeat_def text_member_def int_member_def member_of_def jobj_def jtext_def)
  then show "map event_sequence (en_events (envelope_of_json (sample_body first seqs))) = seqs"
    by (simp add: envelope_of_json_def list_member_def sample_body_def member_of_def jobj_def comp_def)
qed (simp_all add: assert_protocol_version_def envelope_of_json_def int_member_def sample_body_def member_of_def jobj_def)

lemma batch_error_names_expected_sequence_witness:
  "\<exists>p. prepare sample_validator (sample_body 5 [5, 6, 8]) Batch_endpoint = Inl (Problem p)
    \<and> pp_code p = Sequence_gap \<and> pp_expectedSequence p = Some 7"
proof -
  let ?es = "en_events (envelope_of_json (sample_body 5 [5, 6, 8]))"
  have schema: "envelope_schema sample_validator Batch_endpoint (sample_body 5 [5, 6, 8])" by (rule sample_body_ok) simp_all
  have es: "map event_sequence ?es = [5, 6, 8]" by (rule sample_body_envelope)
  then have len: "length ?es = 3" by (metis length_map length_Cons list.size(3) numeral_3_eq_3)
  have nth: "event_sequence (?es ! i) = [5, 6, 8] ! i" if "i < 3" for i using that es len by (metis nth_map)
  have all: "(\<forall>i<3. P i) \<longleftrightarrow> P 0 \<and> P 1 \<and> P 2" and ex: "(\<exists>i<3. P i) \<longleftrightarrow> P 0 \<or> P 1 \<or> P 2" for P :: "nat \<Rightarrow> bool"
    by (auto simp: numeral_3_eq_3 less_Suc_eq numeral_2_eq_2)
  have "hd ?es = ?es ! 0" using len by (intro hd_conv_nth) auto
  with batch_error_names_expected_sequence [OF sample_body_envelope(1) schema refl refl]
  show ?thesis
    by (auto simp: len all ex nth sample_body_envelope(2) MAX_SAFE_SEQUENCE_def less_Suc_eq numeral_2_eq_2
        split: sum.splits tx_error.splits)
qed

lemma prepared_reports_well_formed_witness:
  "\<exists>r. prepare sample_validator (sample_body 5 [5, 6]) Batch_endpoint = Inr r \<and> report_ok r"
proof -
  have "envelope_schema sample_validator Batch_endpoint (sample_body 5 [5, 6])" by (rule sample_body_ok) simp_all
  moreover obtain a b where es: "en_events (envelope_of_json (sample_body 5 [5, 6])) = [a, b]"
      "event_sequence a = 5" "event_sequence b = 6"
    using sample_body_envelope(3) [of 5 "[5, 6]"] by (auto simp: map_eq_Cons_conv)
  ultimately obtain r where r: "prepare sample_validator (sample_body 5 [5, 6]) Batch_endpoint = Inr r"
    by (simp add: prepare_def sample_body_envelope assert_schema_valid_def assert_intrinsic_semantics_def MAX_SAFE_SEQUENCE_def)
  have "\<And>bytes. length (ve_sha256 sample_validator bytes) = 32" by (simp add: sample_validator_def)
  from prepared_reports_well_formed [OF r this] r show ?thesis by blast
qed

end
