(* ===== verification/Edge_Request.thy ===== *)
theory Edge_Request
  imports Edge_Validator Rate_Limits Http Ingest_Claims
begin

text \<open>
  An Edge request from its arrival to its reply: the verifier (presence/application/edge-verifier.ts)
  and the two routes (registerEdgeRoute of app.ts), which pass a request through the ingress
  limiter, the validator, the verifier, the rate limit of the device and the ingestor. Ed25519
  and the import of a public key are parameters.
\<close>

section \<open>The signature text\<close>

definition base64_char :: "nat \<Rightarrow> nat" where
  "base64_char n = (if n < 26 then 65 + n else if n < 52 then 71 + n else if n < 62 then n - 4
     else if n = 62 then 43 else 47)"

definition base64_value :: "nat \<Rightarrow> nat" where
  "base64_value c = (if 65 \<le> c \<and> c \<le> 90 then c - 65 else if 97 \<le> c \<and> c \<le> 122 then c - 71
     else if 48 \<le> c \<and> c \<le> 57 then c + 4 else if c = 43 then 62 else 63)"

fun base64_encode :: "byte_string \<Rightarrow> js_string" where
  "base64_encode [] = []"
| "base64_encode [x] = [base64_char (x div 4), base64_char (x mod 4 * 16), 61, 61]"
| "base64_encode [x, y] = [base64_char (x div 4), base64_char (x mod 4 * 16 + y div 16), base64_char (y mod 16 * 4), 61]"
| "base64_encode (x # y # z # bytes) =
     [base64_char (x div 4), base64_char (x mod 4 * 16 + y div 16), base64_char (y mod 16 * 4 + z div 64), base64_char (z mod 64)]
       @ base64_encode bytes"

fun decode_sextets :: "nat list \<Rightarrow> byte_string" where
  "decode_sextets [] = []"
| "decode_sextets [a] = []"
| "decode_sextets [a, b] = [a * 4 + b div 16]"
| "decode_sextets [a, b, c] = [a * 4 + b div 16, b mod 16 * 16 + c div 4]"
| "decode_sextets (a # b # c # d # sextets) =
     [a * 4 + b div 16, b mod 16 * 16 + c div 4, c mod 4 * 64 + d] @ decode_sextets sextets"

text \<open>\<open>Buffer.from(s, 'base64')\<close> of a text over the alphabet up to its padding.\<close>

definition base64_decode :: "js_string \<Rightarrow> byte_string" where
  "base64_decode s = decode_sextets (map base64_value (takeWhile (\<lambda>c. c \<noteq> 61) s))"

definition ED25519_SIGNATURE_BYTES :: nat where
  "ED25519_SIGNATURE_BYTES = 64"

definition ED25519_RAW_PUBLIC_KEY_BYTES :: nat where
  "ED25519_RAW_PUBLIC_KEY_BYTES = 32"

definition ED25519_SPKI_PREFIX :: byte_string where
  "ED25519_SPKI_PREFIX = [48, 42, 48, 5, 6, 3, 43, 101, 112, 3, 33, 0]"

definition invalid_signature_problem :: tx_error where
  "invalid_signature_problem = problem Invalid_signature 401 ''The device signature is invalid.''"

definition decode_ed25519_signature :: "js_string \<Rightarrow> byte_string tx" where
  "decode_ed25519_signature encoded =
     (if \<not> signature_pattern encoded then Inl invalid_signature_problem
      else let decoded = base64_decode encoded in
        if length decoded \<noteq> ED25519_SIGNATURE_BYTES \<or> base64_encode decoded \<noteq> encoded
        then Inl invalid_signature_problem else Inr decoded)"

section \<open>The verifiers\<close>

record active_device_credential =
  dc_instanceId :: uuid
  dc_keyId :: uuid
  dc_publicKey :: byte_string

text \<open>
  The clock of the database, \<open>createPublicKey\<close> on a DER encoding, \<open>verify\<close> of a payload under an
  imported key, and SHA-256.
\<close>

record verifier_env =
  vx_clock :: timestamp_us
  vx_create_public_key :: "byte_string \<Rightarrow> byte_string option"
  vx_verify :: "byte_string \<Rightarrow> byte_string \<Rightarrow> byte_string \<Rightarrow> bool"
  vx_sha256 :: "byte_string \<Rightarrow> byte_string"

definition credential_active :: "timestamp_us \<Rightarrow> string \<Rightarrow> string \<Rightarrow> credential_row \<Rightarrow> bool" where
  "credential_active clock instanceId keyId c \<longleftrightarrow>
     cr_instance_id c = uuid_of_text instanceId \<and> cr_key_id c = uuid_of_text keyId
     \<and> cr_revoked_at c = None \<and> clock < to_timestamp (cr_valid_until c)"

definition find_active :: "timestamp_us \<Rightarrow> string \<Rightarrow> string \<Rightarrow> db \<Rightarrow> active_device_credential option" where
  "find_active clock instanceId keyId d =
     map_option (\<lambda>c. \<lparr>dc_instanceId = cr_instance_id c, dc_keyId = cr_key_id c, dc_publicKey = cr_public_key c\<rparr>)
       (first_row (filter (credential_active clock instanceId keyId) (db_credentials d)))"

definition create_ed25519_public_key :: "verifier_env \<Rightarrow> byte_string \<Rightarrow> byte_string tx" where
  "create_ed25519_public_key env rawPublicKey =
     (if length rawPublicKey \<noteq> ED25519_RAW_PUBLIC_KEY_BYTES then Inl invalid_signature_problem
      else case vx_create_public_key env (ED25519_SPKI_PREFIX @ rawPublicKey) of
        None \<Rightarrow> Inl invalid_signature_problem | Some key \<Rightarrow> Inr key)"

definition ed25519_verify :: "verifier_env \<Rightarrow> db \<Rightarrow> prepared_edge_report \<Rightarrow> verified_edge_context tx" where
  "ed25519_verify env d report =
     (case find_active (vx_clock env) (en_instance_id (pr_envelope report)) (en_key_id (pr_envelope report)) d of
        None \<Rightarrow> Inl (problem Device_revoked 401 ''The Agent instance or device credential is unavailable.'')
      | Some credential \<Rightarrow>
          rbind (create_ed25519_public_key env (dc_publicKey credential)) (\<lambda>publicKey.
          rbind (decode_ed25519_signature (js (en_signature (pr_envelope report)))) (\<lambda>signature.
            if \<not> vx_verify env publicKey (pr_signingPayload report) signature then Inl invalid_signature_problem
            else Inr \<lparr>vf_instanceId = dc_instanceId credential, vf_keyId = dc_keyId credential,
              vf_verification = Ed25519, vf_credentialPublicKeySha256 = Some (vx_sha256 env (dc_publicKey credential))\<rparr>)))"

datatype edge_verifier = Ed25519_verifier | Disabled_verifier | Development_bypass_verifier

definition verify :: "edge_verifier \<Rightarrow> verifier_env \<Rightarrow> db \<Rightarrow> prepared_edge_report \<Rightarrow> verified_edge_context tx" where
  "verify verifier env d report = (case verifier of
     Ed25519_verifier \<Rightarrow> ed25519_verify env d report
   | Disabled_verifier \<Rightarrow>
       Inl (problem Temporarily_unavailable 503 ''Edge reporting is disabled until a device verifier is configured.'')
   | Development_bypass_verifier \<Rightarrow>
       Inr \<lparr>vf_instanceId = en_instance_id (pr_envelope report), vf_keyId = en_key_id (pr_envelope report),
         vf_verification = Development_bypass, vf_credentialPublicKeySha256 = None\<rparr>)"

section \<open>The route\<close>

text \<open>The state of the server a route works on: the memory of the ingress limiter and the database.\<close>

record edge_server =
  sv_ingress :: ingress_limiter
  sv_rates :: report_rates
  sv_db :: db

text \<open>The body as the server library delivers it, after the ingress limiter: a value, or an error code.\<close>

datatype request_body = Parsed_body json | Body_error string

record edge_request =
  rq_ip :: string
  rq_endpoint :: edge_endpoint
  rq_body :: request_body

text \<open>What a request reads from outside, besides the environments of validator, verifier and ingestor.\<close>

record edge_env =
  ee_now :: int
  ee_validator :: validator_env
  ee_verifier :: edge_verifier
  ee_crypto :: verifier_env
  ee_rate_now :: timestamp_us
  ee_rate_clock :: timestamp_us
  ee_ingest :: ingest_env

definition ingress_refused :: "rate_limit_decision \<Rightarrow> tx_error" where
  "ingress_refused decision = Problem ((protocol_problem Rate_limited 429 ''The Edge ingress rate is temporarily limited.'')
     \<lparr>pp_retryAfterSeconds := Some (rd_retryAfterSeconds decision)\<rparr>)"

text \<open>The handler, on a parsed body. The rate limit of the device is its own transaction.\<close>

definition edge_handler ::
  "edge_env \<Rightarrow> edge_endpoint \<Rightarrow> json \<Rightarrow> edge_server \<Rightarrow> edge_report_ack tx \<times> edge_server" where
  "edge_handler env endpoint body sv =
     (case rbind (prepare (ee_validator env) body endpoint) (\<lambda>report.
             rbind (verify (ee_verifier env) (ee_crypto env) (sv_db sv) report) (\<lambda>verified. Inr (report, verified))) of
        Inl e \<Rightarrow> (Inl e, sv)
      | Inr (report, verified) \<Rightarrow>
          (case consume_report (sv_db sv) (vf_instanceId verified) (length (en_events (pr_envelope report)))
                  (ee_rate_now env) (ee_rate_clock env) (sv_rates sv) of
             (Inl e, rates) \<Rightarrow> (Inl e, sv\<lparr>sv_rates := rates\<rparr>)
           | (Inr _, rates) \<Rightarrow>
               (case ingest (ee_ingest env) report verified (sv_db sv) of
                  Inl p \<Rightarrow> (Inl (Problem p), sv\<lparr>sv_rates := rates\<rparr>)
                | Inr (ack, d) \<Rightarrow> (Inr ack, sv\<lparr>sv_rates := rates, sv_db := d\<rparr>))))"

definition edge_route :: "edge_env \<Rightarrow> edge_request \<Rightarrow> edge_server \<Rightarrow> (request_error, edge_report_ack) result \<times> edge_server" where
  "edge_route env request sv =
     (case ingress_take (rq_ip request) (ee_now env) (sv_ingress sv) of
        (decision, ingress) \<Rightarrow>
          let sv' = sv\<lparr>sv_ingress := ingress\<rparr> in
          if \<not> rd_allowed decision then (Inl (Thrown (ingress_refused decision)), sv')
          else case rq_body request of
            Body_error code \<Rightarrow> (Inl (Server_library code), sv')
          | Parsed_body body \<Rightarrow>
              (case edge_handler env (rq_endpoint request) body sv' of
                 (Inl e, sv'') \<Rightarrow> (Inl (Thrown e), sv'') | (Inr ack, sv'') \<Rightarrow> (Inr ack, sv'')))"

definition ack_json :: "edge_report_ack \<Rightarrow> json" where
  "ack_json ack = jobj [(''current_protocol'', JNum (ak_current_protocol ack)),
     (''min_supported_protocol'', JNum (ak_min_supported_protocol ack)), (''instance_id'', jtext (ak_instance_id ack)),
     (''boot_id'', jtext (ak_boot_id ack)), (''accepted_through_sequence'', JNum (ak_accepted_through_sequence ack)),
     (''server_received_at'', JStr (to_iso_string (ak_server_received_at ack))),
     (''lease_expires_at'', JStr (to_iso_string (ak_lease_expires_at ack)))]"

definition edge_reply :: "(request_error, edge_report_ack) result \<Rightarrow> http_reply" where
  "edge_reply result = (case result of
     Inl e \<Rightarrow> error_handler e
   | Inr ack \<Rightarrow> \<lparr>hr_status = 200, hr_headers = send_protocol_headers (Some (ak_server_received_at ack)),
       hr_type = ''application/json; charset=utf-8'', hr_body = Json_body (ack_json ack)\<rparr>)"

definition edge_request :: "edge_env \<Rightarrow> edge_request \<Rightarrow> edge_server \<Rightarrow> http_reply \<times> edge_server" where
  "edge_request env request sv = (case edge_route env request sv of (result, sv') \<Rightarrow> (edge_reply result, sv'))"

section \<open>Signature texts are canonical\<close>

lemma base64_char_value [simp]: "n < 64 \<Longrightarrow> base64_value (base64_char n) = n"
  by (auto simp: base64_char_def base64_value_def)

lemma base64_char_unit: "n < 64 \<Longrightarrow> base64_unit (base64_char n) \<and> base64_char n \<noteq> 61"
  by (auto simp: base64_char_def base64_unit_def digit_unit_def)

lemma base64_value_less: "base64_unit c \<Longrightarrow> base64_value c < 64"
  by (auto simp: base64_value_def base64_unit_def digit_unit_def)

text \<open>An encoding is the sextets of the bytes and the padding to a multiple of four.\<close>

lemma sextets_two:
  fixes x y :: nat
  assumes "x < 256" "y < 256"
  shows "x div 4 < 64" "x mod 4 * 16 + y div 16 < 64" "y mod 16 * 4 < 64"
    "x div 4 * 4 + (x mod 4 * 16 + y div 16) div 16 = x"
    "(x mod 4 * 16 + y div 16) mod 16 * 16 + y mod 16 = y"
proof -
  have "y div 16 \<le> 15" "x mod 4 * 16 \<le> 48" using assms by auto
  then show "x mod 4 * 16 + y div 16 < 64" by linarith
  have "(x mod 4 * 16 + y div 16) div 16 = x mod 4" "(x mod 4 * 16 + y div 16) mod 16 = y div 16"
    using assms by (simp_all add: div_mult2_eq [symmetric])
  then show "x div 4 * 4 + (x mod 4 * 16 + y div 16) div 16 = x"
    "(x mod 4 * 16 + y div 16) mod 16 * 16 + y mod 16 = y" by simp_all
qed (use assms in auto)

lemma sextets_three:
  fixes y z :: nat
  assumes "y < 256" "z < 256"
  shows "y mod 16 * 4 + z div 64 < 64" "z mod 64 < 64"
    "(y mod 16 * 4 + z div 64) div 4 = y mod 16" "(y mod 16 * 4 + z div 64) mod 4 * 64 + z mod 64 = z"
proof -
  have "z div 64 \<le> 3" "y mod 16 * 4 \<le> 60" using assms by auto
  then show "y mod 16 * 4 + z div 64 < 64" by linarith
  show "(y mod 16 * 4 + z div 64) div 4 = y mod 16" using assms by simp
  have "(y mod 16 * 4 + z div 64) mod 4 = z div 64" using assms by simp
  then show "(y mod 16 * 4 + z div 64) mod 4 * 64 + z mod 64 = z" by simp
qed simp

lemma base64_encode_sextets:
  "\<forall>b\<in>set bytes. b < 256 \<Longrightarrow>
   \<exists>us. base64_encode bytes = us @ replicate ((3 - length bytes mod 3) mod 3) 61 \<and> list_all base64_unit us
     \<and> length us = (4 * length bytes + 2) div 3 \<and> decode_sextets (map base64_value us) = bytes"
proof (induction bytes rule: base64_encode.induct)
  case (2 x)
  then have sx: "x div 4 < 64" "x mod 4 * 16 < 64" by auto
  have "decode_sextets (map base64_value [base64_char (x div 4), base64_char (x mod 4 * 16)]) = [x]"
    using sx by (simp add: base64_char_value)
  with sx base64_char_unit show ?case
    by (intro exI [of _ "[base64_char (x div 4), base64_char (x mod 4 * 16)]"]) (simp add: numeral_2_eq_2)
next
  case (3 x y)
  note sx = sextets_two [of x y]
  have "decode_sextets (map base64_value [base64_char (x div 4), base64_char (x mod 4 * 16 + y div 16), base64_char (y mod 16 * 4)]) = [x, y]"
    using sx 3 by simp
  with sx 3 base64_char_unit show ?case
    by (intro exI [of _ "[base64_char (x div 4), base64_char (x mod 4 * 16 + y div 16), base64_char (y mod 16 * 4)]"]) simp
next
  case (4 x y z bytes)
  then obtain us where us: "base64_encode bytes = us @ replicate ((3 - length bytes mod 3) mod 3) 61" "list_all base64_unit us"
    "length us = (4 * length bytes + 2) div 3" "decode_sextets (map base64_value us) = bytes" by auto
  have xyz: "x < 256" "y < 256" "z < 256" using "4.prems" by simp_all
  note sx = sextets_two [OF xyz(1,2)] sextets_three [OF xyz(2,3)]
  have dec: "decode_sextets (a # b # c # e # map base64_value us) = [a * 4 + b div 16, b mod 16 * 16 + c div 4, c mod 4 * 64 + e] @ bytes"
    for a b c e using us(4) by simp
  have pad: "length (x # y # z # bytes) mod 3 = length bytes mod 3"
    "(4 * length (x # y # z # bytes) + 2) div 3 = 4 + (4 * length bytes + 2) div 3" by simp_all
  let ?us = "[base64_char (x div 4), base64_char (x mod 4 * 16 + y div 16), base64_char (y mod 16 * 4 + z div 64), base64_char (z mod 64)] @ us"
  have "decode_sextets (map base64_value ?us) = x # y # z # bytes"
    using sx by (simp add: dec del: decode_sextets.simps)
  then show ?case
    using us sx base64_char_unit by (intro exI [of _ ?us]) (simp only: pad, simp del: decode_sextets.simps)
qed simp

lemma base64_encode_shape:
  assumes "length bytes mod 3 = 1" "\<forall>b\<in>set bytes. b < 256"
  shows "\<exists>us. base64_encode bytes = us @ [61, 61] \<and> list_all base64_unit us \<and> length us = 4 * (length bytes div 3) + 2
     \<and> decode_sextets (map base64_value us) = bytes"
proof -
  have "length bytes = 3 * (length bytes div 3) + 1" using assms(1) by presburger
  then have "(4 * length bytes + 2) div 3 = 4 * (length bytes div 3) + 2" by presburger
  with base64_encode_sextets [OF assms(2)] assms(1) show ?thesis by (auto simp: numeral_2_eq_2)
qed

lemma decode_sextets_bytes: "\<forall>n\<in>set sextets. n < 64 \<Longrightarrow> \<forall>b\<in>set (decode_sextets sextets). b < 256"
proof (induction sextets rule: decode_sextets.induct)
  case (3 a b)
  then have "a \<le> 63" "b div 16 \<le> 3" by auto
  then have "a * 4 + b div 16 < 256" by linarith
  then show ?case by simp
next
  case (4 a b c)
  then have "a \<le> 63" "b div 16 \<le> 3" "b mod 16 \<le> 15" "c div 4 \<le> 15" by auto
  then have "a * 4 + b div 16 < 256" "b mod 16 * 16 + c div 4 < 256" by linarith+
  then show ?case by simp
next
  case (5 a b c d sextets)
  then have "a \<le> 63" "b div 16 \<le> 3" "b mod 16 \<le> 15" "c div 4 \<le> 15" "c mod 4 \<le> 3" "d \<le> 63" by auto
  then have "a * 4 + b div 16 < 256" "b mod 16 * 16 + c div 4 < 256" "c mod 4 * 64 + d < 256" by linarith+
  with 5 show ?case by simp
qed simp_all

lemma signature_pattern_units:
  assumes "signature_pattern s"
  shows "takeWhile (\<lambda>c. c \<noteq> 61) s = take 86 s" "list_all base64_unit (take 86 s)"
proof -
  have s: "s = take 86 s @ [61, 61]" using assms by (metis append_take_drop_id signature_pattern_def)
  have u: "list_all base64_unit (take 86 s)" using assms by (simp add: signature_pattern_def)
  then have "\<forall>c\<in>set (take 86 s). c \<noteq> 61" by (auto simp: list_all_iff base64_unit_def digit_unit_def)
  then have "takeWhile (\<lambda>c. c \<noteq> 61) (take 86 s @ [61, 61]) = take 86 s" by (subst takeWhile_append2) auto
  with s u show "takeWhile (\<lambda>c. c \<noteq> 61) s = take 86 s" "list_all base64_unit (take 86 s)" by simp_all
qed

lemma signature_decodes:
  "decode_ed25519_signature s = Inr sig \<longleftrightarrow>
     length sig = 64 \<and> (\<forall>b\<in>set sig. b < 256) \<and> s = base64_encode sig"
proof
  assume "decode_ed25519_signature s = Inr sig"
  then have s: "signature_pattern s" "sig = base64_decode s" "length sig = 64" "base64_encode sig = s"
    by (auto simp: decode_ed25519_signature_def Let_def ED25519_SIGNATURE_BYTES_def split: if_splits)
  have "\<forall>n\<in>set (map base64_value (take 86 s)). n < 64"
    using signature_pattern_units(2) [OF s(1)] base64_value_less by (auto simp: list_all_iff)
  then have "\<forall>b\<in>set sig. b < 256"
    using decode_sextets_bytes [of "map base64_value (take 86 s)"] by (simp add: s(2) base64_decode_def signature_pattern_units(1) [OF s(1)])
  with s(3,4) show "length sig = 64 \<and> (\<forall>b\<in>set sig. b < 256) \<and> s = base64_encode sig" by simp
next
  assume sig: "length sig = 64 \<and> (\<forall>b\<in>set sig. b < 256) \<and> s = base64_encode sig"
  then have "length sig mod 3 = 1" "length sig div 3 = 21" by simp_all
  with sig base64_encode_shape [of sig] obtain us where us: "s = us @ [61, 61]" "list_all base64_unit us" "length us = 86"
    "decode_sextets (map base64_value us) = sig" by auto
  then have pat: "signature_pattern s" by (simp add: signature_pattern_def)
  from signature_pattern_units(1) [OF this] us have "base64_decode s = sig" by (simp add: base64_decode_def)
  with pat sig show "decode_ed25519_signature s = Inr sig"
    by (simp add: decode_ed25519_signature_def ED25519_SIGNATURE_BYTES_def)
qed

text \<open>
  C31: A signature has exactly one text. The decoder accepts a text exactly if it is the padded
  standard Base64 encoding of 64 bytes, and then yields those bytes; in particular no other
  spelling of an accepted signature is accepted.
\<close>

theorem signature_text_canonical:
  "decode_ed25519_signature s = Inr sig \<longleftrightarrow>
     length sig = 64 \<and> list_all (\<lambda>b. b < 256) sig \<and> s = base64_encode sig"
  by (simp add: signature_decodes list_all_iff)

section \<open>What a request does\<close>

text \<open>An accepted request: the report and identity that were ingested, at the rates it was charged.\<close>

lemma edge_route_accepted:
  assumes "edge_route env request sv = (Inr ack, sv')"
  obtains body report verified where "rq_body request = Parsed_body body"
    "prepare (ee_validator env) body (rq_endpoint request) = Inr report"
    "verify (ee_verifier env) (ee_crypto env) (sv_db sv) report = Inr verified"
    "consume_report (sv_db sv) (vf_instanceId verified) (length (en_events (pr_envelope report)))
       (ee_rate_now env) (ee_rate_clock env) (sv_rates sv) = (Inr (), sv_rates sv')"
    "ingest (ee_ingest env) report verified (sv_db sv) = Inr (ack, sv_db sv')"
    "rd_allowed (fst (ingress_take (rq_ip request) (ee_now env) (sv_ingress sv)))"
  using assms by (auto simp: edge_route_def edge_handler_def Let_def rbind_eq_Inr intro: that
      split: prod.splits if_splits request_body.splits sum.splits)

text \<open>A refused request: the tables of the model stay as they are.\<close>

lemma edge_route_refused:
  "edge_route env request sv = (Inl e, sv') \<Longrightarrow> sv_db sv' = sv_db sv"
  by (auto simp: edge_route_def edge_handler_def Let_def
      split: prod.splits if_splits request_body.splits sum.splits)

lemma find_activeE:
  assumes "find_active clock iid kid d = Some credential"
  obtains c where "c \<in> set (db_credentials d)" "credential_active clock iid kid c" "dc_publicKey credential = cr_public_key c"
    "dc_instanceId credential = uuid_of_text iid" "dc_keyId credential = uuid_of_text kid"
proof -
  from assms obtain c where c: "first_row (filter (credential_active clock iid kid) (db_credentials d)) = Some c"
    "credential = \<lparr>dc_instanceId = cr_instance_id c, dc_keyId = cr_key_id c, dc_publicKey = cr_public_key c\<rparr>"
    by (auto simp: find_active_def)
  from first_row_in [OF c(1)] have "c \<in> set (db_credentials d)" "credential_active clock iid kid c" by simp_all
  then show thesis using that c(2) by (simp add: credential_active_def)
qed

lemma ed25519_verifyE:
  assumes "ed25519_verify env d report = Inr verified"
  obtains c key signature where "c \<in> set (db_credentials d)"
    "credential_active (vx_clock env) (en_instance_id (pr_envelope report)) (en_key_id (pr_envelope report)) c"
    "vx_create_public_key env (ED25519_SPKI_PREFIX @ cr_public_key c) = Some key"
    "decode_ed25519_signature (js (en_signature (pr_envelope report))) = Inr signature"
    "vx_verify env key (pr_signingPayload report) signature"
    "verified = \<lparr>vf_instanceId = cr_instance_id c, vf_keyId = cr_key_id c, vf_verification = Ed25519,
       vf_credentialPublicKeySha256 = Some (vx_sha256 env (cr_public_key c))\<rparr>"
proof -
  from assms obtain credential where found: "find_active (vx_clock env) (en_instance_id (pr_envelope report))
      (en_key_id (pr_envelope report)) d = Some credential" by (auto simp: ed25519_verify_def split: option.splits)
  from found obtain c where c: "c \<in> set (db_credentials d)"
    "credential_active (vx_clock env) (en_instance_id (pr_envelope report)) (en_key_id (pr_envelope report)) c"
    "dc_publicKey credential = cr_public_key c" "dc_instanceId credential = uuid_of_text (en_instance_id (pr_envelope report))"
    "dc_keyId credential = uuid_of_text (en_key_id (pr_envelope report))" by (rule find_activeE)
  then have ids: "dc_instanceId credential = cr_instance_id c" "dc_keyId credential = cr_key_id c"
    by (simp_all add: credential_active_def)
  from assms obtain key signature where "create_ed25519_public_key env (cr_public_key c) = Inr key"
    and sig: "decode_ed25519_signature (js (en_signature (pr_envelope report))) = Inr signature"
      "vx_verify env key (pr_signingPayload report) signature"
      "verified = \<lparr>vf_instanceId = cr_instance_id c, vf_keyId = cr_key_id c, vf_verification = Ed25519,
        vf_credentialPublicKeySha256 = Some (vx_sha256 env (cr_public_key c))\<rparr>"
    by (auto simp: ed25519_verify_def found c(3) ids rbind_eq_Inr split: if_splits)
  moreover from this(1) have "vx_create_public_key env (ED25519_SPKI_PREFIX @ cr_public_key c) = Some key"
    by (auto simp: create_ed25519_public_key_def split: if_splits option.splits)
  ultimately show thesis using that c(1,2) by blast
qed

text \<open>
  C29: Only authentic requests change anything. With the Ed25519 verifier a request is acknowledged
  only if its body is a value whose signing payload verifies, under the canonical signature in
  its envelope, with the public key of a credential of the instance it names that is neither
  revoked nor expired when it is looked up, that is still stored, unrevoked and with the same
  key hash when the report is committed, and if the instance is active and is the one its agent
  reports with. Every other request is answered with an error and leaves the data unchanged.
\<close>

theorem acknowledged_requests_are_authentic:
  assumes "edge_route env request sv = (result, sv')" "ee_verifier env = Ed25519_verifier"
  shows "case result of
      Inl e \<Rightarrow> sv_db sv' = sv_db sv
    | Inr ack \<Rightarrow> \<exists>body c key signature n g. rq_body request = Parsed_body body \<and> c \<in> set (db_credentials (sv_db sv))
        \<and> cr_instance_id c = uuid_of_text (text_member ''instance_id'' body)
        \<and> cr_key_id c = uuid_of_text (text_member ''key_id'' body)
        \<and> cr_revoked_at c = None \<and> vx_clock (ee_crypto env) < to_timestamp (cr_valid_until c)
        \<and> vx_create_public_key (ee_crypto env) (ED25519_SPKI_PREFIX @ cr_public_key c) = Some key
        \<and> js (text_member ''signature'' body) = base64_encode signature \<and> length signature = 64
        \<and> vx_verify (ee_crypto env) key (create_edge_report_signing_payload body) signature
        \<and> n \<in> set (db_instances (sv_db sv)) \<and> in_id n = cr_instance_id c
        \<and> in_status n = Instance_active \<and> in_revoked_at n = None
        \<and> g \<in> set (db_agents (sv_db sv)) \<and> ag_id g = in_logical_agent_id n
        \<and> ag_active_reporting_instance_id g = Some (in_id n)
        \<and> (\<exists>c'\<in>set (db_credentials (sv_db sv)). cr_key_id c' = cr_key_id c \<and> cr_instance_id c' = cr_instance_id c \<and> cr_revoked_at c' = None
             \<and> ig_credential_clock (ee_ingest env) < to_timestamp (cr_valid_until c')
             \<and> ig_sha256 (ee_ingest env) (cr_public_key c') = vx_sha256 (ee_crypto env) (cr_public_key c))"
proof (cases result)
  case (Inl e)
  with edge_route_refused [of env request sv e sv'] assms(1) show ?thesis by simp
next
  case (Inr ack)
  from assms(1) [unfolded Inr] obtain body report verified where body: "rq_body request = Parsed_body body"
    and prep: "prepare (ee_validator env) body (rq_endpoint request) = Inr report"
    and ver: "verify (ee_verifier env) (ee_crypto env) (sv_db sv) report = Inr verified"
    and ing: "ingest (ee_ingest env) report verified (sv_db sv) = Inr (ack, sv_db sv')" by (rule edge_route_accepted)
  have rep: "pr_envelope report = envelope_of_json body" "pr_signingPayload report = create_edge_report_signing_payload body"
    using prep by (auto elim: prepareE)
  from ver assms(2) have "ed25519_verify (ee_crypto env) (sv_db sv) report = Inr verified" by (simp add: verify_def)
  then obtain c key signature where c: "c \<in> set (db_credentials (sv_db sv))"
      "credential_active (vx_clock (ee_crypto env)) (en_instance_id (pr_envelope report)) (en_key_id (pr_envelope report)) c"
    and key: "vx_create_public_key (ee_crypto env) (ED25519_SPKI_PREFIX @ cr_public_key c) = Some key"
    and sig: "decode_ed25519_signature (js (en_signature (pr_envelope report))) = Inr signature"
      "vx_verify (ee_crypto env) key (pr_signingPayload report) signature"
    and v: "verified = \<lparr>vf_instanceId = cr_instance_id c, vf_keyId = cr_key_id c, vf_verification = Ed25519,
       vf_credentialPublicKeySha256 = Some (vx_sha256 (ee_crypto env) (cr_public_key c))\<rparr>" by (rule ed25519_verifyE)
  have ids: "cr_instance_id c = uuid_of_text (text_member ''instance_id'' body)" "cr_key_id c = uuid_of_text (text_member ''key_id'' body)"
    using c(2) by (simp_all add: credential_active_def rep(1) envelope_of_json_def)
  then have low: "uuid_of_text (cr_instance_id c) = cr_instance_id c" "uuid_of_text (cr_key_id c) = cr_key_id c"
    by (simp_all add: uuid_of_text_def)
  from ing have "ingest_in_transaction (ee_ingest env) report verified (sv_db sv) = Inr (ack, sv_db sv')" by (simp add: ingest_Inr)
  then obtain n g where n: "lock_instance (sv_db sv) (vf_instanceId verified) = Inr n" and g: "lock_agent (sv_db sv) n = Inr g"
    and cred: "lock_and_validate_credential (ee_ingest env) verified (sv_db sv) = Inr ()" by (rule transaction_cases)
  from n have n': "n \<in> set (db_instances (sv_db sv))" "in_id n = cr_instance_id c" "in_status n = Instance_active" "in_revoked_at n = None"
    by (auto simp: lock_instance_def v low dest: select_one_SomeD split: option.splits if_splits)
  from g have g': "g \<in> set (db_agents (sv_db sv))" "ag_id g = in_logical_agent_id n" "ag_active_reporting_instance_id g = Some (in_id n)"
    by (auto simp: lock_agent_def find_agent_def dest: select_one_SomeD split: option.splits if_splits)
  from cred have "\<exists>c'\<in>set (db_credentials (sv_db sv)). cr_key_id c' = cr_key_id c \<and> cr_instance_id c' = cr_instance_id c \<and> cr_revoked_at c' = None
      \<and> ig_credential_clock (ee_ingest env) < to_timestamp (cr_valid_until c')
      \<and> ig_sha256 (ee_ingest env) (cr_public_key c') = vx_sha256 (ee_crypto env) (cr_public_key c)"
    by (auto simp: lock_and_validate_credential_def v low result_simps dest!: select_one_SomeD split: option.splits)
  moreover have "length signature = 64" "js (text_member ''signature'' body) = base64_encode signature"
    using sig(1) by (auto simp: signature_decodes rep(1) envelope_of_json_def)
  ultimately show ?thesis
    using body c ids key sig(2) n' g' unfolding Inr rep(2) sum.case credential_active_def
    by (intro exI [of _ body] exI [of _ c] exI [of _ key] exI [of _ signature] exI [of _ n] exI [of _ g] conjI) simp_all
qed

section \<open>Internal errors\<close>

text \<open>What the error handler answers with \<open>internal_error\<close>.\<close>

definition internal :: "tx_error \<Rightarrow> bool" where
  "internal e = (case e of Problem p \<Rightarrow> pp_code p = Internal_error | Failure _ \<Rightarrow> True | Onboarding _ \<Rightarrow> False)"

lemma internal_simps [simp]:
  "internal (problem code st detail) \<longleftrightarrow> code = Internal_error"
  "internal (Failure x)" "internal (sequence_mismatch code detail n) \<longleftrightarrow> code = Internal_error"
  "internal (Problem p) \<longleftrightarrow> pp_code p = Internal_error" "\<not> internal invalid_signature_problem"
  by (simp_all add: internal_def problem_def protocol_problem_def sequence_mismatch_def invalid_signature_problem_def)

lemma contiguous_not_internal: "assert_contiguous n es = Inl e \<Longrightarrow> \<not> internal e"
  by (induction n es rule: assert_contiguous.induct) (auto split: if_splits)

lemma prepare_not_internal: "prepare env input endpoint = Inl e \<Longrightarrow> \<not> internal e"
  by (auto simp: prepare_def result_simps assert_protocol_version_def assert_schema_valid_def assert_intrinsic_semantics_def
      dest: contiguous_not_internal split: json.splits option.splits)

lemma ed25519_not_internal: "ed25519_verify env d report = Inl e \<Longrightarrow> \<not> internal e"
  by (auto simp: ed25519_verify_def result_simps create_ed25519_public_key_def decode_ed25519_signature_def Let_def
      split: option.splits if_splits)

lemma consume_internal:
  assumes "consume_report d instanceId n now clock rates = (Inl e, rates')" "internal e"
    "has_key in_id (uuid_of_text instanceId) (db_instances d)"
  shows "\<not> (counter_ok (rr_report_count (charged_row (rates (uuid_of_text instanceId)) now (int n)))
    \<and> counter_ok (rr_event_count (charged_row (rates (uuid_of_text instanceId)) now (int n))))"
  using assms by (auto simp: consume_report_def Let_def protocol_problem_def split: if_splits)


section \<open>A sample request\<close>

definition sample_transition :: json where
  "sample_transition = jobj [(''sequence'', JNum 1), (''kind'', jtext ''state_transition''),
     (''observed_at'', jtext ''2026-01-01T00:00:00Z''), (''display_state'', jtext ''idle''),
     (''activity_state'', jtext ''eligible_idle''), (''pet_id'', jtext ''bloop'')]"

definition sample_first_body :: json where
  "sample_first_body = jobj [(''protocol_version'', JNum 1), (''instance_id'', jtext sample_uuid),
     (''key_id'', jtext sample_uuid), (''boot_id'', jtext sample_uuid), (''previous_boot_id'', JNull),
     (''first_sequence'', JNum 1), (''events'', JArr [sample_transition]),
     (''sent_at'', jtext ''2026-01-01T00:00:00Z''), (''client_version'', jtext ''1.2.3''),
     (''signature'', jtext sample_signature)]"

definition sample_device_db :: db where
  "sample_device_db = empty_db\<lparr>
     db_agents := [\<lparr>ag_id = ''g'', ag_owner_account_id = ''a'', ag_alias = js ''G'', ag_pet_id = ''kiki-koala'',
       ag_active_reporting_instance_id = Some sample_uuid\<rparr>],
     db_instances := [\<lparr>in_id = sample_uuid, in_logical_agent_id = ''g'', in_status = Instance_active, in_revoked_at = None\<rparr>],
     db_credentials := [\<lparr>cr_key_id = sample_uuid, cr_instance_id = sample_uuid, cr_public_key = replicate 32 7,
       cr_valid_until = 1000000, cr_revoked_at = None\<rparr>],
     db_edge := (\<lambda>_. sample_head)\<rparr>"

definition sample_crypto :: verifier_env where
  "sample_crypto = \<lparr>vx_clock = 5000, vx_create_public_key = Some, vx_verify = (\<lambda>_ _ _. True), vx_sha256 = (\<lambda>_. [1])\<rparr>"

definition sample_edge_env :: edge_env where
  "sample_edge_env = \<lparr>ee_now = 5, ee_validator = sample_validator, ee_verifier = Ed25519_verifier,
     ee_crypto = sample_crypto, ee_rate_now = 5000, ee_rate_clock = 5000, ee_ingest = sample_ingest_env 5000 ''r''\<rparr>"

definition sample_request :: edge_request where
  "sample_request = \<lparr>rq_ip = ''ip'', rq_endpoint = Batch_endpoint, rq_body = Parsed_body sample_first_body\<rparr>"

definition sample_server :: "report_rates \<Rightarrow> edge_server" where
  "sample_server rates = \<lparr>sv_ingress = create_ingress_limiter, sv_rates = rates, sv_db = sample_device_db\<rparr>"

lemma sample_transition_ok: "transition_schema sample_validator sample_transition" "\<not> heartbeat_schema env sample_transition"
  using sample_time_ok
  by (simp_all add: transition_schema_def heartbeat_schema_def closed_object_def sample_transition_def jobj_def member_of_def
      sequence_schema_def enum_schema_def display_names_def activity_names_def SCHEMA_PET_IDS_def state_pairs_def
      one_of_def property_schema_def jtext_def)

lemma sample_first_schema: "envelope_schema sample_validator Batch_endpoint sample_first_body"
proof -
  have "batch_events_schema sample_validator (JArr [sample_transition])"
    using sample_transition_ok by (simp add: batch_events_schema_def one_of_def)
  moreover have "\<not> uuid_schema sample_validator JNull" by (simp add: uuid_schema_def text_schema_def)
  ultimately show ?thesis
    using sample_uuid_ok sample_time_ok sample_version_ok sample_signature_ok
    by (simp add: envelope_schema_def closed_object_def sample_first_body_def jobj_def member_of_def sequence_schema_def one_of_def)
qed

lemma sample_first_envelope:
  "envelope_of_json sample_first_body = \<lparr>en_instance_id = sample_uuid, en_key_id = sample_uuid, en_boot_id = sample_uuid,
     en_previous_boot_id = None, en_first_sequence = 1, en_events = [State_transition \<lparr>st_sequence = 1,
       st_observed_at = ''2026-01-01T00:00:00Z'', st_display_state = D_idle, st_activity_state = A_eligible_idle,
       st_pet_id = ''bloop''\<rparr>], en_sent_at = ''2026-01-01T00:00:00Z'', en_client_version = ''1.2.3'',
     en_signature = sample_signature\<rparr>"
  by (simp add: envelope_of_json_def sample_first_body_def sample_transition_def text_member_def int_member_def list_member_def
      member_of_def jobj_def jtext_def event_of_json_def display_names_def activity_names_def)

lemma sample_prepared:
  obtains r where "prepare sample_validator sample_first_body Batch_endpoint = Inr r"
    "pr_envelope r = envelope_of_json sample_first_body" "pr_endpoint r = Batch_endpoint" "report_ok r"
proof -
  have "assert_protocol_version sample_first_body = Inr ()"
    by (simp add: assert_protocol_version_def sample_first_body_def member_of_def jobj_def)
  then obtain r where r: "prepare sample_validator sample_first_body Batch_endpoint = Inr r"
    by (simp add: prepare_def assert_schema_valid_def sample_first_schema assert_intrinsic_semantics_def
        sample_first_envelope MAX_SAFE_SEQUENCE_def)
  moreover have "report_ok r" using r by (rule prepared_report_ok) (simp add: sample_validator_def)
  moreover from r have "pr_envelope r = envelope_of_json sample_first_body" "pr_endpoint r = Batch_endpoint"
    by (auto elim: prepareE)
  ultimately show thesis using that by blast
qed

lemma sample_uuid_low [simp]: "uuid_of_text sample_uuid = sample_uuid" "normalize_uuid sample_uuid = sample_uuid"
  by (simp_all add: uuid_of_text_def normalize_uuid_def sample_uuid_def to_lower_case_def lower_char_def)

lemma sample_signature_text: "js sample_signature = base64_encode (replicate 64 0)"
proof -
  have zeros: "base64_encode (replicate (3 * n + 1) 0) = replicate (4 * n + 2) 65 @ [61, 61]" for n
  proof (induction n)
    case (Suc n)
    have eq: "3 * Suc n + 1 = Suc (Suc (Suc (3 * n + 1)))" by simp
    have "base64_encode (replicate (3 * Suc n + 1) 0) = [65, 65, 65, 65] @ base64_encode (replicate (3 * n + 1) 0)"
      unfolding eq replicate_Suc by (simp add: base64_char_def)
    moreover have "4 * Suc n + 2 = Suc (Suc (Suc (Suc (4 * n + 2))))" by simp
    ultimately show ?case unfolding Suc.IH by (simp only: replicate_Suc append_Cons append_Nil)
  qed (simp add: base64_char_def)
  have "js sample_signature = replicate 86 65 @ [61, 61]" by (simp add: sample_signature_def js_def)
  moreover have "base64_encode (replicate 64 0) = replicate 86 65 @ [61, 61]" using zeros [of 21] by simp
  ultimately show ?thesis by simp
qed

definition sample_device :: verified_edge_context where
  "sample_device = \<lparr>vf_instanceId = sample_uuid, vf_keyId = sample_uuid, vf_verification = Ed25519,
     vf_credentialPublicKeySha256 = Some [1]\<rparr>"

lemma sample_verifies:
  assumes "pr_envelope r = envelope_of_json sample_first_body"
  shows "verify Ed25519_verifier sample_crypto sample_device_db r = Inr sample_device"
proof -
  have sig: "decode_ed25519_signature (js sample_signature) = Inr (replicate 64 0)"
    by (simp add: signature_decodes sample_signature_text)
  show ?thesis
    by (simp add: verify_def ed25519_verify_def find_active_def assms sample_first_envelope sample_device_db_def credential_active_def
        sample_crypto_def to_timestamp_def first_row_def create_ed25519_public_key_def ED25519_RAW_PUBLIC_KEY_BYTES_def sig
        sample_device_def)
qed

lemma sample_ingested:
  assumes r: "pr_envelope r = envelope_of_json sample_first_body" "pr_endpoint r = Batch_endpoint" "report_ok r"
  shows "\<exists>ack e. ingest (sample_ingest_env 5000 ''r'') r sample_device sample_device_db = Inr (ack, e)"
proof -
  let ?n = "\<lparr>in_id = sample_uuid, in_logical_agent_id = ''g'', in_status = Instance_active, in_revoked_at = None\<rparr>"
  let ?g = "\<lparr>ag_id = ''g'', ag_owner_account_id = ''a'', ag_alias = js ''G'', ag_pet_id = ''kiki-koala'',
       ag_active_reporting_instance_id = Some sample_uuid\<rparr>"
  let ?h = "\<lparr>hd_current_boot_id = None, hd_current_boot_generation = 0, hd_last_server_received_at = None\<rparr>"
  have id: "in_id ?n = sample_uuid" and edge: "db_edge sample_device_db sample_uuid = sample_head"
    by (simp_all add: sample_device_db_def)
  show ?thesis
  proof (rule ingest_accepts [where n = ?n and g = ?g and h = ?h and gen = 1 and isNew = True and boot = None], unfold id edge)
    show "assert_verified_identity r sample_device = Inr ()"
      by (simp add: assert_verified_identity_def r sample_first_envelope sample_device_def)
    show "assert_supported_pet_ids r = Inr ()"
      by (simp add: assert_supported_pet_ids_def r sample_first_envelope ONBOARDING_PET_IDS_def)
    show "lock_instance sample_device_db (vf_instanceId sample_device) = Inr ?n"
      by (simp add: lock_instance_def sample_device_db_def sample_device_def)
    show "lock_agent sample_device_db ?n = Inr ?g" by (simp add: lock_agent_def find_agent_def sample_device_db_def)
    show "lock_and_validate_credential (sample_ingest_env 5000 ''r'') sample_device sample_device_db = Inr ()"
      by (simp add: lock_and_validate_credential_def sample_device_db_def sample_device_def sample_ingest_env_def to_timestamp_def)
    show "lock_affected_offices sample_device_db (ag_id ?g) = []"
      by (simp add: lock_affected_offices_def sample_device_db_def empty_db_def)
    show "resolve_boot r sample_head ?h (hd_current_boot_generation ?h) = Inr (1, True, None)"
      by (simp add: r sample_first_envelope sample_head_def empty_edge_store_def resolve_boot_def Let_def find_boot_def
          first_is_transition_def normalize_nullable_uuid_def MAX_SAFE_SEQUENCE_def)
    show "check_sequence sample_uuid r sample_head 1 True None = Inr None"
      by (simp add: r sample_first_envelope check_sequence_def)
    show "es_head sample_head = Some ?h" by (simp add: sample_head_def)
  qed (use r sample_edge_ok sample_head_start in \<open>simp_all add: sample_ingest_env_def\<close>)
qed

lemma sample_ingress: "ingress_take ''ip'' 5 create_ingress_limiter = (d, l) \<Longrightarrow> rd_allowed d"
  by (auto simp: ingress_take_def create_ingress_limiter_def ingress_cleanup_def ingress_bucket_for_def Let_def
      MAX_ATTEMPTS_PER_IP_WINDOW_def)

lemma acknowledged_requests_are_authentic_witness:
  "\<exists>ack sv' signature. edge_route sample_edge_env sample_request (sample_server Map.empty) = (Inr ack, sv')
    \<and> js (text_member ''signature'' sample_first_body) = base64_encode signature \<and> length signature = 64"
proof -
  obtain r where r: "prepare sample_validator sample_first_body Batch_endpoint = Inr r"
    "pr_envelope r = envelope_of_json sample_first_body" "pr_endpoint r = Batch_endpoint" "report_ok r" by (rule sample_prepared)
  from sample_ingested [OF r(2-4)] obtain ack e where ing: "ingest (sample_ingest_env 5000 ''r'') r sample_device sample_device_db = Inr (ack, e)"
    by blast
  obtain d l where take: "ingress_take ''ip'' 5 create_ingress_limiter = (d, l)" by (cases "ingress_take ''ip'' 5 create_ingress_limiter")
  have "\<exists>rates. consume_report sample_device_db sample_uuid (Suc 0) 5000 5000 Map.empty = (Inr (), rates)"
    by (simp add: consume_report_def charged_row_def sample_device_db_def has_key_def counter_ok_def
        MAX_REPORTS_PER_WINDOW_def MAX_EVENTS_PER_WINDOW_def)
  then obtain rates where con: "consume_report sample_device_db sample_uuid (Suc 0) 5000 5000 Map.empty = (Inr (), rates)" by blast
  have "edge_route sample_edge_env sample_request (sample_server Map.empty)
      = (Inr ack, \<lparr>sv_ingress = l, sv_rates = rates, sv_db = e\<rparr>)"
    using con sample_ingress [OF take]
    by (simp add: edge_route_def edge_handler_def sample_edge_env_def sample_request_def sample_server_def take r(1) sample_verifies [OF r(2)]
        ing sample_device_def [THEN arg_cong, of vf_instanceId, simplified] r(2) sample_first_envelope)
  with acknowledged_requests_are_authentic [OF this] show ?thesis by (auto simp: sample_edge_env_def sample_request_def)
qed

definition sample_full_rates :: report_rates where
  "sample_full_rates = [sample_uuid \<mapsto> \<lparr>rr_window_started_at = 5000, rr_report_count = 1000000, rr_event_count = 5\<rparr>]"


end
