(* ===== verification/Onboarding_Input.thy ===== *)
theory Onboarding_Input
  imports Edge_Request
begin

text \<open>
  The inputs of the onboarding flow (onboarding/domain/input.ts, onboarding/domain/pet-catalog.ts)
  and the capabilities it issues (identity/domain/capability.ts). A body is a JSON value whose
  objects have one value per member; a missing body is \<open>JNull\<close>. The lemmas show that whatever
  is parsed satisfies the constraints of the tables it is stored in, and that every issued
  capability is accepted when it comes back.
\<close>

section \<open>Values\<close>

definition onboarding_problem :: "onboarding_problem_code \<Rightarrow> int \<Rightarrow> string \<Rightarrow> int option \<Rightarrow> tx_error" where
  "onboarding_problem code status message retryAfter =
     Onboarding \<lparr>op_code = code, op_status = status, op_message = message, op_retryAfterSeconds = retryAfter\<rparr>"

definition invalid_request :: tx_error where
  "invalid_request = onboarding_problem Onboarding_invalid_request 400 ''The onboarding request is invalid.'' None"

definition OFFICE_KEYS :: "string list" where
  "OFFICE_KEYS = [''alias'', ''office_name'', ''pet_id'', ''poster_opt_in'', ''presence_visible'', ''stats_opt_in'']"

definition CLAIM_KEYS :: "string list" where
  "CLAIM_KEYS = [''client_version'', ''pairing_code'', ''public_key'']"

record create_office_input =
  co_office_name :: js_string
  co_alias :: js_string
  co_pet_id :: string
  co_presence_visible :: bool
  co_stats_opt_in :: bool
  co_poster_opt_in :: bool

record claim_input =
  cl_pairingCode :: js_string
  cl_publicKey :: byte_string
  cl_clientVersion :: string

definition exact_object :: "string list \<Rightarrow> json \<Rightarrow> json tx" where
  "exact_object expectedKeys input =
     (case input of
        JObj kvs \<Rightarrow> if sort (map fst kvs) = sort (map js expectedKeys) then Inr input else Inl invalid_request
      | _ \<Rightarrow> Inl invalid_request)"

text \<open>The length of a string counts its code points.\<close>

definition bounded_string :: "nat \<Rightarrow> nat \<Rightarrow> json option \<Rightarrow> js_string tx" where
  "bounded_string minimum maximum input =
     (case input of
        Some (JStr s) \<Rightarrow> if length (code_points s) < minimum \<or> maximum < length (code_points s)
          then Inl invalid_request else Inr s
      | _ \<Rightarrow> Inl invalid_request)"

definition boolean_value :: "json option \<Rightarrow> bool tx" where
  "boolean_value input = (case input of Some (JBool b) \<Rightarrow> Inr b | _ \<Rightarrow> Inl invalid_request)"

section \<open>Creating an office\<close>

text \<open>The code units \<open>trim\<close> removes.\<close>

definition white_unit :: "nat \<Rightarrow> bool" where
  "white_unit c \<longleftrightarrow> 9 \<le> c \<and> c \<le> 13 \<or> c = 32 \<or> c = 160 \<or> c = 5760 \<or> 8192 \<le> c \<and> c \<le> 8202
     \<or> c = 8232 \<or> c = 8233 \<or> c = 8239 \<or> c = 8287 \<or> c = 12288 \<or> c = 65279"

definition trim_units :: "js_string \<Rightarrow> js_string" where
  "trim_units s = rev (dropWhile white_unit (rev (dropWhile white_unit s)))"

definition control_unit :: "nat \<Rightarrow> bool" where
  "control_unit c \<longleftrightarrow> c < 32 \<or> c = 127"

definition parse_create_office_input :: "json \<Rightarrow> create_office_input tx" where
  "parse_create_office_input input =
     rbind (exact_object OFFICE_KEYS input) (\<lambda>object.
     rbind (bounded_string 1 80 (member_of ''office_name'' object)) (\<lambda>officeName.
     rbind (bounded_string 1 32 (member_of ''alias'' object)) (\<lambda>alias.
     rbind (bounded_string 1 64 (member_of ''pet_id'' object)) (\<lambda>petId.
     rbind (guard_r (\<not> (officeName \<noteq> trim_units officeName \<or> list_ex control_unit officeName)) invalid_request) (\<lambda>_.
     rbind (guard_r (\<not> (alias \<noteq> trim_units alias \<or> list_ex (\<lambda>c. c = 64 \<or> control_unit c) alias)) invalid_request) (\<lambda>_.
     rbind (guard_r (petId \<in> set (map js ONBOARDING_PET_IDS)) invalid_request) (\<lambda>_.
     rbind (boolean_value (member_of ''presence_visible'' object)) (\<lambda>visible.
     rbind (boolean_value (member_of ''stats_opt_in'' object)) (\<lambda>stats.
     rbind (boolean_value (member_of ''poster_opt_in'' object)) (\<lambda>poster.
       Inr \<lparr>co_office_name = officeName, co_alias = alias, co_pet_id = text_of petId,
            co_presence_visible = visible, co_stats_opt_in = stats, co_poster_opt_in = poster\<rparr>))))))))))"

section \<open>Claiming a pairing\<close>

definition capability_unit :: "nat \<Rightarrow> bool" where
  "capability_unit c \<longleftrightarrow> identifier_unit c \<or> c = 95"

definition capability_pattern :: "js_string \<Rightarrow> bool" where
  "capability_pattern s \<longleftrightarrow> length s = 43 \<and> list_all capability_unit s"

definition parse_capability :: "json option \<Rightarrow> js_string tx" where
  "parse_capability input =
     rbind (bounded_string 43 43 input) (\<lambda>value.
     rbind (guard_r (capability_pattern value) invalid_request) (\<lambda>_. Inr value))"

definition parse_status_capability :: "js_string \<Rightarrow> js_string tx" where
  "parse_status_capability token = parse_capability (Some (JStr token))"

definition public_key_pattern :: "js_string \<Rightarrow> bool" where
  "public_key_pattern s \<longleftrightarrow> length s = 44 \<and> list_all base64_unit (take 43 s) \<and> drop 43 s = [61]"

definition parse_claim_input :: "json \<Rightarrow> claim_input tx" where
  "parse_claim_input input =
     rbind (exact_object CLAIM_KEYS input) (\<lambda>object.
     rbind (parse_capability (member_of ''pairing_code'' object)) (\<lambda>pairingCode.
     rbind (bounded_string 44 44 (member_of ''public_key'' object)) (\<lambda>encodedPublicKey.
     rbind (guard_r (public_key_pattern encodedPublicKey) invalid_request) (\<lambda>_.
       let publicKey = base64_decode encodedPublicKey in
     rbind (guard_r (\<not> (length publicKey \<noteq> 32 \<or> base64_encode publicKey \<noteq> encodedPublicKey)) invalid_request) (\<lambda>_.
     rbind (bounded_string 5 64 (member_of ''client_version'' object)) (\<lambda>clientVersion.
     rbind (guard_r (version_pattern clientVersion) invalid_request) (\<lambda>_.
       Inr \<lparr>cl_pairingCode = pairingCode, cl_publicKey = publicKey, cl_clientVersion = text_of clientVersion\<rparr>)))))))"

section \<open>Capabilities\<close>

text \<open>\<open>toString('base64url')\<close>: no padding, and the two last characters of the alphabet replaced.\<close>

definition base64url_encode :: "byte_string \<Rightarrow> js_string" where
  "base64url_encode bytes =
     map (\<lambda>c. if c = 43 then 45 else if c = 47 then 95 else c) (filter (\<lambda>c. c \<noteq> 61) (base64_encode bytes))"

definition digest_capability :: "(byte_string \<Rightarrow> byte_string) \<Rightarrow> js_string \<Rightarrow> byte_string" where
  "digest_capability sha256 raw = sha256 (utf8 raw)"

record issued_capability =
  ic_raw :: js_string
  ic_digest :: byte_string

definition issue_capability :: "(byte_string \<Rightarrow> byte_string) \<Rightarrow> byte_string \<Rightarrow> issued_capability" where
  "issue_capability sha256 randomBytes =
     (let raw = base64url_encode randomBytes in \<lparr>ic_raw = raw, ic_digest = digest_capability sha256 raw\<rparr>)"


section \<open>Issued capabilities come back\<close>

lemma base64url_shape:
  assumes "length bytes = 32" "\<forall>b\<in>set bytes. b < 256"
  shows "capability_pattern (base64url_encode bytes)"
proof -
  from base64_encode_sextets [OF assms(2)] assms(1) obtain us where
    us: "base64_encode bytes = us @ [61]" "list_all base64_unit us" "length us = 43" by auto
  then have "filter (\<lambda>c. c \<noteq> 61) us = us"
    by (auto simp: filter_id_conv list_all_iff base64_unit_def digit_unit_def)
  then have raw: "base64url_encode bytes = map (\<lambda>c. if c = 43 then 45 else if c = 47 then 95 else c) us"
    by (simp add: base64url_encode_def us(1))
  have "capability_unit (if c = 43 then 45 else if c = 47 then 95 else c)" if "base64_unit c" for c
    using that by (auto simp: capability_unit_def identifier_unit_def base64_unit_def digit_unit_def)
  then have "list_all capability_unit (base64url_encode bytes)"
    using us(2) unfolding raw list_all_iff by (metis (mono_tags, lifting) imageE list.set_map)
  then show ?thesis using us(3) by (simp add: capability_pattern_def raw)
qed

lemma capability_ascii: "capability_pattern s \<Longrightarrow> \<forall>c\<in>set s. c < 128"
  by (auto simp: capability_pattern_def list_all_iff capability_unit_def identifier_unit_def digit_unit_def)

lemma parse_capability_iff: "parse_capability (Some (JStr s)) = Inr r \<longleftrightarrow> capability_pattern s \<and> r = s"
proof -
  have "length (code_points s) = 43" if "capability_pattern s"
    using code_points_ascii [OF capability_ascii [OF that]] that by (simp add: capability_pattern_def)
  then show ?thesis by (auto simp: parse_capability_def bounded_string_def result_simps)
qed

lemma issued_capability_parses:
  assumes "length bytes = 32" "\<forall>b\<in>set bytes. b < 256"
  shows "parse_status_capability (ic_raw (issue_capability sha256 bytes)) = Inr (ic_raw (issue_capability sha256 bytes))"
  using base64url_shape [OF assms]
  by (simp add: parse_status_capability_def parse_capability_iff issue_capability_def Let_def)

section \<open>Parsed inputs fit the tables\<close>

text \<open>
  A string is bound as UTF-8, so a lone surrogate is stored as U+FFFD; PostgreSQL's \<open>length\<close>
  counts code points, and it rejects the code point zero.
\<close>

definition stored_unit :: "nat \<Rightarrow> nat" where
  "stored_unit c = (if high_surrogate c \<or> low_surrogate c then 65533 else c)"

fun stored_text :: "js_string \<Rightarrow> js_string" where
  "stored_text [] = []"
| "stored_text [c] = [stored_unit c]"
| "stored_text (c # d # cs) =
     (if high_surrogate c \<and> low_surrogate d then c # d # stored_text cs else stored_unit c # stored_text (d # cs))"

lemma code_points_plain: "\<not> high_surrogate c \<Longrightarrow> code_points (c # cs) = c # code_points cs"
  by (cases cs) simp_all

lemma stored_unit_plain: "\<not> high_surrogate (stored_unit c)"
  by (simp add: stored_unit_def high_surrogate_def)

lemma length_stored [simp]: "length (code_points (stored_text s)) = length (code_points s)"
  by (induction s rule: stored_text.induct) (simp_all add: code_points_plain stored_unit_plain)

lemma stored_set: "c \<in> set (stored_text s) \<Longrightarrow> c \<in> set s \<or> c = 65533"
  by (induction s rule: stored_text.induct) (auto simp: stored_unit_def split: if_splits)

definition office_name_constraints :: "js_string \<Rightarrow> bool" where
  "office_name_constraints s \<longleftrightarrow> 0 \<notin> set s \<and> 1 \<le> length (code_points s) \<and> length (code_points s) \<le> 80
     \<and> 10 \<notin> set s \<and> 13 \<notin> set s"

definition alias_constraints :: "js_string \<Rightarrow> bool" where
  "alias_constraints s \<longleftrightarrow> 0 \<notin> set s \<and> 1 \<le> length (code_points s) \<and> length (code_points s) \<le> 32
     \<and> 10 \<notin> set s \<and> 13 \<notin> set s \<and> 64 \<notin> set s"

definition pet_id_constraints :: "string \<Rightarrow> bool" where
  "pet_id_constraints s \<longleftrightarrow> 1 \<le> length s \<and> length s \<le> 64
     \<and> list_all (\<lambda>p. p \<noteq> [] \<and> list_all (\<lambda>c. digit_unit c \<or> 97 \<le> c \<and> c \<le> 122) p) (split_units 45 (js s))"

definition office_input_ok :: "create_office_input \<Rightarrow> bool" where
  "office_input_ok i \<longleftrightarrow> office_name_constraints (stored_text (co_office_name i))
     \<and> alias_constraints (stored_text (co_alias i))
     \<and> pet_id_constraints (co_pet_id i)"

lemma onboarding_pets_fit: "list_all pet_id_constraints ONBOARDING_PET_IDS"
  by code_simp

lemma bounded_string_Inr:
  "bounded_string m n v = Inr s \<longleftrightarrow> v = Some (JStr s) \<and> m \<le> length (code_points s) \<and> length (code_points s) \<le> n"
  by (auto simp: bounded_string_def split: option.splits json.splits)

lemma no_control: "\<not> list_ex control_unit s \<Longrightarrow> 0 \<notin> set s \<and> 10 \<notin> set s \<and> 13 \<notin> set s"
  by (auto simp: list_ex_iff control_unit_def)

lemma parsed_office_input_ok:
  assumes "parse_create_office_input input = Inr i"
  shows "office_input_ok i"
proof -
  from assms obtain name nick pet where
    i: "co_office_name i = name" "co_alias i = nick" "co_pet_id i = text_of pet"
    and name: "1 \<le> length (code_points name)" "length (code_points name) \<le> 80" "\<not> list_ex control_unit name"
    and nick: "1 \<le> length (code_points nick)" "length (code_points nick) \<le> 32"
      "\<not> list_ex (\<lambda>c. c = 64 \<or> control_unit c) nick"
    and pet: "pet \<in> set (map js ONBOARDING_PET_IDS)"
    unfolding parse_create_office_input_def rbind_eq_Inr bounded_string_Inr guard_r_eq_Inr by (auto simp del: set_map)
  have "\<not> list_ex control_unit nick" "64 \<notin> set nick" using nick(3) by (auto simp: list_ex_iff)
  note chars = no_control [OF name(3)] no_control [OF this(1)] this(2)
  from pet obtain p where "p \<in> set ONBOARDING_PET_IDS" "pet = js p" by auto
  then have "pet_id_constraints (co_pet_id i)"
    using onboarding_pets_fit unfolding i(3) list_all_iff by simp
  with chars name(1,2) nick(1,2) i(1,2) show ?thesis
    by (auto simp: office_input_ok_def office_name_constraints_def alias_constraints_def dest!: stored_set)
qed

lemma split_units_sets: "c \<in> set s \<Longrightarrow> c = sep \<or> (\<exists>p\<in>set (split_units sep s). c \<in> set p)"
  by (induction s) (auto split: list.splits)

lemma split_units_ascii:
  assumes "\<forall>p\<in>set (split_units 46 s). \<forall>c\<in>set p. c < 128" "c \<in> set s"
  shows "c < 128"
  using split_units_sets [OF assms(2), of 46] assms(1) by auto

lemma dotted_ascii: "dotted_identifiers s \<Longrightarrow> c \<in> set s \<Longrightarrow> c < 128"
  by (rule split_units_ascii [of s])
    (fastforce simp: dotted_identifiers_def list_all_iff identifier_unit_def digit_unit_def)+

lemma numeric_ascii: "list_all numeric_identifier (split_units 46 s) \<Longrightarrow> c \<in> set s \<Longrightarrow> c < 128"
  by (rule split_units_ascii [of s]) (fastforce simp: numeric_identifier_def list_all_iff digit_unit_def)+

lemma version_ascii:
  assumes "version_pattern s" "c \<in> set s"
  shows "c < 128"
proof -
  define core where "core = takeWhile (\<lambda>c. c \<noteq> 45 \<and> c \<noteq> 43) s"
  define rest where "rest = dropWhile (\<lambda>c. c \<noteq> 45 \<and> c \<noteq> 43) s"
  define build where "build = dropWhile (\<lambda>c. c \<noteq> 43) rest"
  have s: "s = core @ rest" by (simp add: core_def rest_def)
  from assms(1) have core: "list_all numeric_identifier (split_units 46 core)"
    and rest: "rest = [] \<or> hd rest = 43 \<or> dotted_identifiers (takeWhile (\<lambda>c. c \<noteq> 43) (tl rest))"
    and build: "build = [] \<or> dotted_identifiers (tl build)"
    by (simp_all add: version_pattern_def core_def rest_def build_def Let_def)
  have build_c: "x < 128" if "x \<in> set build" for x
  proof -
    have "hd build = 43" if "build \<noteq> []" using hd_dropWhile [of "\<lambda>c. c \<noteq> 43" rest] that by (simp add: build_def)
    with build that show ?thesis by (cases build) (auto dest: dotted_ascii)
  qed
  have "x < 128" if "x \<in> set core" for x
    using numeric_ascii [OF core that] .
  moreover have "x < 128" if x: "x \<in> set rest" for x
  proof (cases "hd rest = 43")
    case True
    then have "build = rest" using x by (cases rest) (simp_all add: build_def)
    with build_c x show ?thesis by simp
  next
    case False
    from x obtain r rs where r: "rest = r # rs" by (cases rest) simp_all
    have "r = 45"
      using hd_dropWhile [of "\<lambda>c. c \<noteq> 45 \<and> c \<noteq> 43" s] False by (simp add: rest_def [symmetric] r)
    moreover have "build = dropWhile (\<lambda>c. c \<noteq> 43) rs" using False by (simp add: build_def r)
    moreover have "x \<in> set (takeWhile (\<lambda>c. c \<noteq> 43) rs) \<or> x \<in> set (dropWhile (\<lambda>c. c \<noteq> 43) rs)" if "x \<in> set rs"
      using that by (metis Un_iff set_append takeWhile_dropWhile_id)
    moreover have "dotted_identifiers (takeWhile (\<lambda>c. c \<noteq> 43) rs)" using rest False by (simp add: r)
    ultimately show ?thesis using x build_c dotted_ascii by (auto simp: r)
  qed
  ultimately show ?thesis using assms(2) by (auto simp: s)
qed

definition claim_input_ok :: "claim_input \<Rightarrow> bool" where
  "claim_input_ok i \<longleftrightarrow> length (cl_publicKey i) = 32 \<and> capability_pattern (cl_pairingCode i)
     \<and> 5 \<le> length (cl_clientVersion i) \<and> length (cl_clientVersion i) \<le> 64"

lemma parsed_claim_input_ok:
  assumes "parse_claim_input input = Inr i"
  shows "claim_input_ok i"
proof -
  from assms obtain v code where i: "cl_clientVersion i = text_of v" "cl_pairingCode i = code"
    and v: "5 \<le> length (code_points v)" "length (code_points v) \<le> 64" "version_pattern v"
    and "capability_pattern code" "length (cl_publicKey i) = 32"
    unfolding parse_claim_input_def rbind_eq_Inr bounded_string_Inr guard_r_eq_Inr parse_capability_def Let_def by auto
  moreover have "code_points v = v" using version_ascii [OF v(3)] by (intro code_points_ascii) auto
  ultimately show ?thesis by (simp add: claim_input_ok_def text_of_def)
qed

end
