(* ===== verification/Onboarding_Store.thy ===== *)
theory Onboarding_Store
  imports Onboarding_Input Reader Consent
begin

text \<open>
  The tables of accounts, memberships and pairings and the statements with which the onboarding
  flow writes them (onboarding/application/onboarding-service.ts,
  enrollment/application/claim-pairing.ts). A statement fails where a check or a unique constraint
  of the migrations does. Foreign keys, and the trigger that demands the membership of the owner
  of a mount, are met by the rows the same transaction has just written.
\<close>

section \<open>Tables\<close>

record account_row =
  ac_id :: uuid
  ac_created_at :: date_ms

record membership_row =
  me_id :: uuid
  me_office_id :: uuid
  me_account_id :: uuid
  me_created_at :: date_ms

datatype pairing_status = Pairing_pending | Pairing_claimed

record pairing_row =
  ep_id :: uuid
  ep_account_id :: uuid
  ep_office_id :: uuid
  ep_logical_agent_id :: uuid
  ep_mount_id :: uuid
  ep_pairing_code_hash :: byte_string
  ep_status_secret_hash :: byte_string
  ep_status :: pairing_status
  ep_failed_claim_attempts :: int
  ep_claimed_public_key_hash :: "byte_string option"
  ep_claimed_instance_id :: "uuid option"
  ep_claimed_key_id :: "uuid option"
  ep_claimed_client_version :: "string option"
  ep_created_at :: date_ms
  ep_expires_at :: date_ms
  ep_claimed_at :: "date_ms option"

definition pairing_constraints :: "pairing_row \<Rightarrow> bool" where
  "pairing_constraints p \<longleftrightarrow>
     length (ep_pairing_code_hash p) = 32 \<and> length (ep_status_secret_hash p) = 32
     \<and> 0 \<le> ep_failed_claim_attempts p \<and> ep_failed_claim_attempts p \<le> 32
     \<and> (case ep_claimed_public_key_hash p of None \<Rightarrow> True | Some h \<Rightarrow> length h = 32)
     \<and> (case ep_claimed_client_version p of None \<Rightarrow> True | Some v \<Rightarrow> 5 \<le> length v \<and> length v \<le> 64)
     \<and> ep_created_at p < ep_expires_at p
     \<and> (case ep_status p of
          Pairing_pending \<Rightarrow> ep_claimed_public_key_hash p = None \<and> ep_claimed_instance_id p = None
            \<and> ep_claimed_key_id p = None \<and> ep_claimed_client_version p = None \<and> ep_claimed_at p = None
        | Pairing_claimed \<Rightarrow> ep_claimed_public_key_hash p \<noteq> None \<and> ep_claimed_instance_id p \<noteq> None
            \<and> ep_claimed_key_id p \<noteq> None \<and> ep_claimed_client_version p \<noteq> None \<and> ep_claimed_at p \<noteq> None)"

definition same_pairing_key :: "pairing_row \<Rightarrow> pairing_row \<Rightarrow> bool" where
  "same_pairing_key p q \<longleftrightarrow> ep_id p = ep_id q \<or> ep_pairing_code_hash p = ep_pairing_code_hash q
     \<or> ep_status_secret_hash p = ep_status_secret_hash q \<or> ep_office_id p = ep_office_id q
     \<or> ep_logical_agent_id p = ep_logical_agent_id q"

text \<open>The database with these tables, and the memory of the onboarding rate limits.\<close>

record onboarding_store =
  os_db :: db
  os_accounts :: "account_row list"
  os_memberships :: "membership_row list"
  os_pairings :: "pairing_row list"
  os_server_id :: "uuid option"
  os_rates :: onboarding_rates

section \<open>Inserting rows\<close>

definition insert_unique :: "('r \<Rightarrow> 'r \<Rightarrow> bool) \<Rightarrow> 'r \<Rightarrow> 'r list \<Rightarrow> 'r list tx" where
  "insert_unique clash r t = (if list_ex (clash r) t then Inl (Failure ''unique_violation'') else Inr (t @ [r]))"

definition check_row :: "bool \<Rightarrow> unit tx" where
  "check_row ok = guard_r ok (Failure ''check_violation'')"

definition insert_account :: "account_row \<Rightarrow> onboarding_store \<Rightarrow> onboarding_store tx" where
  "insert_account a s =
     rbind (insert_unique (\<lambda>x y. ac_id x = ac_id y) a (os_accounts s)) (\<lambda>t. Inr (s\<lparr>os_accounts := t\<rparr>))"

definition insert_membership :: "membership_row \<Rightarrow> onboarding_store \<Rightarrow> onboarding_store tx" where
  "insert_membership m s =
     rbind (insert_unique (\<lambda>x y. me_id x = me_id y
         \<or> me_office_id x = me_office_id y \<and> me_account_id x = me_account_id y) m (os_memberships s))
       (\<lambda>t. Inr (s\<lparr>os_memberships := t\<rparr>))"

definition insert_pairing :: "pairing_row \<Rightarrow> onboarding_store \<Rightarrow> onboarding_store tx" where
  "insert_pairing p s =
     rbind (check_row (pairing_constraints p)) (\<lambda>_.
     rbind (insert_unique same_pairing_key p (os_pairings s)) (\<lambda>t. Inr (s\<lparr>os_pairings := t\<rparr>)))"

definition insert_office :: "office_row \<Rightarrow> db \<Rightarrow> db tx" where
  "insert_office x d =
     rbind (check_row (office_name_constraints (of_name x))) (\<lambda>_.
     rbind (insert_unique (\<lambda>x y. of_id x = of_id y) x (db_offices d)) (\<lambda>t. Inr (d\<lparr>db_offices := t\<rparr>)))"

definition insert_room :: "room_row \<Rightarrow> db \<Rightarrow> db tx" where
  "insert_room r d =
     rbind (check_row (1 \<le> rm_scene_capacity r \<and> rm_scene_capacity r \<le> 24)) (\<lambda>_.
     rbind (insert_unique (\<lambda>x y. rm_id x = rm_id y \<or> rm_office_id x = rm_office_id y \<and> rm_name x = rm_name y) r (db_rooms d))
       (\<lambda>t. Inr (d\<lparr>db_rooms := t\<rparr>)))"

definition insert_agent :: "agent_row \<Rightarrow> db \<Rightarrow> db tx" where
  "insert_agent g d =
     rbind (check_row (alias_constraints (ag_alias g) \<and> pet_id_constraints (ag_pet_id g))) (\<lambda>_.
     rbind (insert_unique (\<lambda>x y. ag_id x = ag_id y) g (db_agents d)) (\<lambda>t. Inr (d\<lparr>db_agents := t\<rparr>)))"

definition insert_mount :: "mount_row \<Rightarrow> db \<Rightarrow> db tx" where
  "insert_mount m d =
     rbind (insert_unique (\<lambda>x y. mt_id x = mt_id y
         \<or> mt_office_id x = mt_office_id y \<and> mt_logical_agent_id x = mt_logical_agent_id y
         \<or> mt_office_id x = mt_office_id y \<and> mt_room_id x = mt_room_id y \<and> mt_scene_slot x = mt_scene_slot y \<and> mt_active x \<and> mt_active y
           \<and> mt_scene_slot x \<noteq> None) m (db_mounts d))
       (\<lambda>t. Inr (d\<lparr>db_mounts := t\<rparr>))"

definition insert_schedule_version :: "schedule_version_row \<Rightarrow> db \<Rightarrow> db tx" where
  "insert_schedule_version v d =
     rbind (insert_unique (\<lambda>x y. sv_id x = sv_id y \<or> sv_office_id x = sv_office_id y
         \<and> (sv_version x = sv_version y \<or> sv_effective_from_local_date x = sv_effective_from_local_date y)) v
         (db_schedule_versions d))
       (\<lambda>t. Inr (d\<lparr>db_schedule_versions := t\<rparr>))"

definition insert_schedule_rule :: "schedule_rule_row \<Rightarrow> db \<Rightarrow> db tx" where
  "insert_schedule_rule r d =
     rbind (check_row (1 \<le> sr_iso_weekday r \<and> sr_iso_weekday r \<le> 7
         \<and> (sr_end_day_offset r = 0 \<and> sr_start_local_time r < sr_end_local_time r \<or> sr_end_day_offset r = 1))) (\<lambda>_.
     rbind (insert_unique (\<lambda>x y. sr_id x = sr_id y \<or> sr_schedule_version_id x = sr_schedule_version_id y
         \<and> sr_iso_weekday x = sr_iso_weekday y \<and> sr_start_local_time x = sr_start_local_time y) r (db_schedule_rules d))
       (\<lambda>t. Inr (d\<lparr>db_schedule_rules := t\<rparr>)))"

definition insert_instance :: "instance_row \<Rightarrow> db \<Rightarrow> db tx" where
  "insert_instance n d =
     rbind (insert_unique (\<lambda>x y. in_id x = in_id y) n (db_instances d)) (\<lambda>t. Inr (d\<lparr>db_instances := t\<rparr>))"

definition insert_credential :: "credential_row \<Rightarrow> db \<Rightarrow> db tx" where
  "insert_credential c d =
     rbind (check_row (length (cr_public_key c) = 32)) (\<lambda>_.
     rbind (insert_unique (\<lambda>x y. cr_key_id x = cr_key_id y \<or> cr_public_key x = cr_public_key y) c (db_credentials d))
       (\<lambda>t. Inr (d\<lparr>db_credentials := t\<rparr>)))"

definition insert_head :: "uuid \<Rightarrow> db \<Rightarrow> db tx" where
  "insert_head instanceId d =
     (if es_head (db_edge d instanceId) \<noteq> None then Inl (Failure ''unique_violation'')
      else Inr (d\<lparr>db_edge := (db_edge d)(instanceId := (db_edge d instanceId)
        \<lparr>es_head := Some \<lparr>hd_current_boot_id = None, hd_current_boot_generation = 0,
           hd_last_server_received_at = None\<rparr>\<rparr>)\<rparr>))"

text \<open>A step on the database inside a transaction on the store.\<close>

definition on_db :: "(db \<Rightarrow> db tx) \<Rightarrow> onboarding_store \<Rightarrow> onboarding_store tx" where
  "on_db f s = rbind (f (os_db s)) (\<lambda>d. Inr (s\<lparr>os_db := d\<rparr>))"

lemma insert_unique_Inr [result_simps]:
  "insert_unique clash r t = Inr t' \<longleftrightarrow> (\<forall>x\<in>set t. \<not> clash r x) \<and> t' = t @ [r]"
  by (auto simp: insert_unique_def list_ex_iff)

lemma check_row_Inr [result_simps]: "check_row ok = Inr u \<longleftrightarrow> ok"
  by (simp add: check_row_def guard_r_eq_Inr)

lemma on_db_Inr [result_simps]: "on_db f s = Inr s' \<longleftrightarrow> (\<exists>d. f (os_db s) = Inr d \<and> s' = s\<lparr>os_db := d\<rparr>)"
  by (auto simp: on_db_def result_simps)

lemmas insert_defs =
  insert_account_def insert_membership_def insert_pairing_def insert_office_def insert_room_def insert_agent_def
  insert_mount_def insert_schedule_version_def insert_schedule_rule_def insert_instance_def insert_credential_def
  insert_head_def

end
