(* ===== verification/Onboarding_Service.thy ===== *)
theory Onboarding_Service
  imports Onboarding_Store
begin

text \<open>
  Creating an office and polling its pairing (onboarding/application/onboarding-service.ts). The
  transaction of \<open>createOffice\<close> is one function on the store; a failure rolls it back, so only
  the charge of the rate limit, a transaction of its own, stays.
\<close>

section \<open>Calls\<close>

text \<open>
  What every call reads from outside: SHA-256, the clock of the rate limit and of the
  transaction, whose second reading may be later.
\<close>

record call_env =
  ce_sha256 :: "byte_string \<Rightarrow> byte_string"
  ce_rate_now :: timestamp_us
  ce_rate_clock :: timestamp_us
  ce_now :: timestamp_us
  ce_later :: timestamp_us

text \<open>The random uuids and bytes that \<open>createOffice\<close> draws.\<close>

record create_env = call_env +
  ce_account :: uuid
  ce_office :: uuid
  ce_room :: uuid
  ce_membership :: uuid
  ce_agent :: uuid
  ce_mount :: uuid
  ce_pairing :: uuid
  ce_public_view :: uuid
  ce_schedule :: uuid
  ce_rule :: "int \<Rightarrow> uuid"
  ce_pairing_bytes :: byte_string
  ce_status_bytes :: byte_string
  ce_view_bytes :: byte_string
  ce_projector :: projector_env

record create_office_result =
  rs_pairing_code :: js_string
  rs_status_token :: js_string
  rs_expires_at :: js_string
  rs_office_url :: js_string

definition rate_limited :: "'z call_env_scheme \<Rightarrow> string \<Rightarrow> rate_kind
    \<Rightarrow> (onboarding_store \<Rightarrow> 'r tx \<times> onboarding_store) \<Rightarrow> onboarding_store \<Rightarrow> 'r tx \<times> onboarding_store" where
  "rate_limited env ip kind body s =
     (case consume_onboarding_rate_limit (ce_sha256 env) ip kind (ce_rate_now env) (ce_rate_clock env) (os_rates s) of
        (Inl e, rates) \<Rightarrow> (Inl e, s\<lparr>os_rates := rates\<rparr>)
      | (Inr _, rates) \<Rightarrow> body (s\<lparr>os_rates := rates\<rparr>))"

text \<open>A transaction: its store when it commits, the store before when it rolls back.\<close>

definition transaction :: "(onboarding_store \<Rightarrow> ('r \<times> onboarding_store) tx) \<Rightarrow> onboarding_store \<Rightarrow> 'r tx \<times> onboarding_store" where
  "transaction f s = (case f s of Inl e \<Rightarrow> (Inl e, s) | Inr (r, s') \<Rightarrow> (Inr r, s'))"

section \<open>Creating an office\<close>

definition PAIRING_LIFETIME_MINUTES :: int where
  "PAIRING_LIFETIME_MINUTES = 5"

text \<open>The two columns of the clock: now, and the expiry of the pairing.\<close>

definition onboarding_clock :: "'z call_env_scheme \<Rightarrow> date_ms \<times> date_ms" where
  "onboarding_clock env = (to_date (ce_now env), to_date (ce_later env + PAIRING_LIFETIME_MINUTES * 60000000))"

definition new_office :: "create_env \<Rightarrow> create_office_input \<Rightarrow> office_row" where
  "new_office env input =
     \<lparr>of_id = ce_office env, of_owner_account_id = ce_account env, of_name = stored_text (co_office_name input),
      of_timezone = ''Asia/Shanghai'', of_demo_data = False, of_revision = 0, of_minimum_replay_revision = 0,
      of_created_at = fst (onboarding_clock env), of_deletion_requested_at = None\<rparr>"

definition new_room :: "create_env \<Rightarrow> room_row" where
  "new_room env = \<lparr>rm_id = ce_room env, rm_office_id = ce_office env, rm_name = js ''Lobby'', rm_scene_capacity = 24,
     rm_created_at = fst (onboarding_clock env)\<rparr>"

definition new_agent :: "create_env \<Rightarrow> create_office_input \<Rightarrow> agent_row" where
  "new_agent env input = \<lparr>ag_id = ce_agent env, ag_owner_account_id = ce_account env,
     ag_alias = stored_text (co_alias input), ag_pet_id = co_pet_id input, ag_active_reporting_instance_id = None\<rparr>"

definition new_mount :: "create_env \<Rightarrow> create_office_input \<Rightarrow> mount_row" where
  "new_mount env input =
     \<lparr>mt_id = ce_mount env, mt_office_id = ce_office env, mt_logical_agent_id = ce_agent env, mt_room_id = ce_room env,
      mt_active = True, mt_scene_slot = Some 0, mt_presence_visible = co_presence_visible input,
      mt_stats_opt_in = co_stats_opt_in input, mt_poster_opt_in = co_poster_opt_in input,
      mt_updated_at = fst (onboarding_clock env)\<rparr>"

definition new_qualification :: "create_env \<Rightarrow> qualification_row" where
  "new_qualification env = \<lparr>ql_office_id = ce_office env, ql_mount_id = ce_mount env,
     ql_started_at = fst (onboarding_clock env), ql_ended_at = None, ql_close_reason = None\<rparr>"

definition new_view_token :: "create_env \<Rightarrow> view_token_row" where
  "new_view_token env = \<lparr>vt_id = ce_public_view env, vt_office_id = ce_office env,
     vt_token_hash = ic_digest (issue_capability (ce_sha256 env) (ce_view_bytes env)),
     vt_created_at = fst (onboarding_clock env), vt_expires_at = None, vt_revoked_at = None\<rparr>"

definition new_schedule_version :: "create_env \<Rightarrow> local_date \<Rightarrow> schedule_version_row" where
  "new_schedule_version env effective = \<lparr>sv_id = ce_schedule env, sv_office_id = ce_office env, sv_version = 1,
     sv_timezone = ''Asia/Shanghai'', sv_effective_from_local_date = effective\<rparr>"

text \<open>09:00 to 18:00 on the days Monday to Friday.\<close>

definition new_schedule_rule :: "create_env \<Rightarrow> int \<Rightarrow> schedule_rule_row" where
  "new_schedule_rule env isoWeekday = \<lparr>sr_id = ce_rule env isoWeekday, sr_office_id = ce_office env,
     sr_schedule_version_id = ce_schedule env, sr_iso_weekday = isoWeekday, sr_start_local_time = 9 * hour_ns,
     sr_end_local_time = 18 * hour_ns, sr_end_day_offset = 0\<rparr>"

definition new_pairing :: "create_env \<Rightarrow> pairing_row" where
  "new_pairing env =
     \<lparr>ep_id = ce_pairing env, ep_account_id = ce_account env, ep_office_id = ce_office env,
      ep_logical_agent_id = ce_agent env, ep_mount_id = ce_mount env,
      ep_pairing_code_hash = ic_digest (issue_capability (ce_sha256 env) (ce_pairing_bytes env)),
      ep_status_secret_hash = ic_digest (issue_capability (ce_sha256 env) (ce_status_bytes env)),
      ep_status = Pairing_pending, ep_failed_claim_attempts = 0, ep_claimed_public_key_hash = None,
      ep_claimed_instance_id = None, ep_claimed_key_id = None, ep_claimed_client_version = None,
      ep_created_at = fst (onboarding_clock env), ep_expires_at = snd (onboarding_clock env), ep_claimed_at = None\<rparr>"

definition seed_revision :: "create_env \<Rightarrow> revision_input" where
  "seed_revision env = \<lparr>ri_officeId = ce_office env, ri_eventType = Projection_initialized,
     ri_sourceKind = Projection_seed, ri_sourceKey = js (''onboarding:'' @ ce_pairing env), ri_sourceReceiptId = None,
     ri_at = fst (onboarding_clock env)\<rparr>"

definition create_office_onboarding ::
  "create_env \<Rightarrow> create_office_input \<Rightarrow> onboarding_store \<Rightarrow> (create_office_result \<times> onboarding_store) tx" where
  "create_office_onboarding env input s0 =
     (let pairingCode = issue_capability (ce_sha256 env) (ce_pairing_bytes env);
          statusCapability = issue_capability (ce_sha256 env) (ce_status_bytes env);
          publicViewCapability = issue_capability (ce_sha256 env) (ce_view_bytes env);
          (now, expires_at) = onboarding_clock env in
      rbind (insert_account \<lparr>ac_id = ce_account env, ac_created_at = now\<rparr> s0) (\<lambda>s1.
      rbind (on_db (insert_office (new_office env input)) s1) (\<lambda>s2.
      rbind (on_db (insert_room (new_room env)) s2) (\<lambda>s3.
      rbind (insert_membership \<lparr>me_id = ce_membership env, me_office_id = ce_office env,
               me_account_id = ce_account env, me_created_at = now\<rparr> s3) (\<lambda>s4.
      rbind (on_db (insert_agent (new_agent env input)) s4) (\<lambda>s5.
      rbind (on_db (insert_mount (new_mount env input)) s5) (\<lambda>s6.
      rbind (if co_stats_opt_in input
             then on_db (\<lambda>d. store_qualifications (db_qualifications d @ [new_qualification env]) d) s6
             else Inr s6) (\<lambda>s7.
      rbind (on_db (insert_view_token (new_view_token env)) s7) (\<lambda>s8.
      rbind (from_option ''time zone not recognized'' (tz_sql_date (px_zones (ce_projector env)) ''Asia/Shanghai'' now)) (\<lambda>effective.
      rbind (on_db (insert_schedule_version (new_schedule_version env effective)) s8) (\<lambda>s9.
      rbind (foldM_r (\<lambda>isoWeekday. on_db (insert_schedule_rule (new_schedule_rule env isoWeekday))) [1..5] s9) (\<lambda>s10.
      rbind (insert_pairing (new_pairing env) s10) (\<lambda>s11.
      rbind (record_revision (ce_projector env) (seed_revision env) (os_db s11)) (\<lambda>(snapshot, d).
        Inr (\<lparr>rs_pairing_code = ic_raw pairingCode, rs_status_token = ic_raw statusCapability,
              rs_expires_at = to_iso_string expires_at, rs_office_url = js ''/o/'' @ ic_raw publicViewCapability\<rparr>,
             s11\<lparr>os_db := d\<rparr>)))))))))))))))"

definition create_office ::
  "create_env \<Rightarrow> create_office_input \<Rightarrow> string \<Rightarrow> onboarding_store \<Rightarrow> create_office_result tx \<times> onboarding_store" where
  "create_office env input ip = rate_limited env ip Rate_create (transaction (create_office_onboarding env input))"

section \<open>Polling a pairing\<close>

datatype pairing_status_result = Status_pending | Status_claimed | Status_expired

definition pairing_status_of :: "date_ms \<Rightarrow> pairing_row \<Rightarrow> pairing_status_result" where
  "pairing_status_of now pairing =
     (if ep_status pairing = Pairing_claimed then Status_claimed
      else if ep_expires_at pairing \<le> now then Status_expired else Status_pending)"

definition pairing_unavailable :: tx_error where
  "pairing_unavailable = onboarding_problem Pairing_not_found 404 ''The pairing is unavailable.'' None"

definition poll_pairing :: "'z call_env_scheme \<Rightarrow> js_string \<Rightarrow> onboarding_store \<Rightarrow> pairing_status_result tx \<times> onboarding_store" where
  "poll_pairing env statusCapability s =
     (case select_one (\<lambda>p. ep_status_secret_hash p = digest_capability (ce_sha256 env) statusCapability) (os_pairings s) of
        None \<Rightarrow> (Inl pairing_unavailable, s)
      | Some pairing \<Rightarrow> (Inr (pairing_status_of (to_date (ce_now env)) pairing), s))"

definition get_pairing_status ::
  "'z call_env_scheme \<Rightarrow> js_string \<Rightarrow> string \<Rightarrow> onboarding_store \<Rightarrow> pairing_status_result tx \<times> onboarding_store" where
  "get_pairing_status env statusCapability ip = rate_limited env ip Rate_poll (poll_pairing env statusCapability)"

end
