(* ===== verification/Claim_Pairing.thy ===== *)
theory Claim_Pairing
  imports Onboarding_Service
begin

text \<open>
  Claiming a pairing with a device key (enrollment/application/claim-pairing.ts), the replies of
  the three onboarding routes (onboarding/application/onboarding-routes.ts) and the sequence of
  calls a server answers. A failed claim that is counted commits its count; every other failure
  rolls the transaction back.
\<close>

section \<open>Claiming\<close>

text \<open>
  The instance and key ids a claim draws, and the instant 180 days after the second reading of
  the clock, whose calendar arithmetic depends on the time zone of the session.
\<close>

record claim_env = call_env +
  ce_instance_id :: uuid
  ce_key_id :: uuid
  ce_valid_until :: date_ms

definition MAX_FAILED_PAIRING_ATTEMPTS :: int where
  "MAX_FAILED_PAIRING_ATTEMPTS = 8"

record claim_pairing_result =
  cm_server_id :: uuid
  cm_instance_id :: uuid
  cm_key_id :: uuid
  cm_logical_agent_id :: uuid
  cm_heartbeat_interval_seconds :: int
  cm_credential_valid_until :: js_string

definition claim_result :: "uuid \<Rightarrow> uuid \<Rightarrow> uuid \<Rightarrow> uuid \<Rightarrow> int \<Rightarrow> date_ms \<Rightarrow> claim_pairing_result" where
  "claim_result serverId instanceId keyId logicalAgentId heartbeatIntervalSeconds validUntil =
     \<lparr>cm_server_id = serverId, cm_instance_id = instanceId, cm_key_id = keyId, cm_logical_agent_id = logicalAgentId,
      cm_heartbeat_interval_seconds = heartbeatIntervalSeconds,
      cm_credential_valid_until = to_iso_string validUntil\<rparr>"

definition pairing_conflict :: tx_error where
  "pairing_conflict = onboarding_problem Pairing_conflict 409 ''The pairing was claimed by another device key.'' None"

definition pairing_expired :: tx_error where
  "pairing_expired = onboarding_problem Pairing_expired 410 ''The pairing has expired.'' None"

definition pairing_locked :: tx_error where
  "pairing_locked = onboarding_problem Onboarding_rate_limited 429 ''Too many attempts for this pairing.'' (Some 300)"

definition record_failed_attempt :: "pairing_row \<Rightarrow> onboarding_store \<Rightarrow> onboarding_store" where
  "record_failed_attempt pairing s = s\<lparr>os_pairings :=
     update_where (\<lambda>p. ep_id p = ep_id pairing)
       (\<lambda>p. p\<lparr>ep_failed_claim_attempts := min 32 (ep_failed_claim_attempts p + 1)\<rparr>) (os_pairings s)\<rparr>"

definition load_claimed_credential :: "uuid \<Rightarrow> uuid \<Rightarrow> onboarding_store \<Rightarrow> credential_row tx" where
  "load_claimed_credential keyId instanceId s =
     from_option ''Claimed pairing credential is unavailable''
       (select_one (\<lambda>c. cr_key_id c = keyId \<and> cr_instance_id c = instanceId \<and> cr_revoked_at c = None)
         (db_credentials (os_db s)))"

definition load_server_id :: "onboarding_store \<Rightarrow> uuid tx" where
  "load_server_id s = from_option ''Control Plane server ID is missing'' (os_server_id s)"

text \<open>The claim of a pairing by the key that claimed it: a read.\<close>

definition claimed_again :: "int \<Rightarrow> pairing_row \<Rightarrow> uuid \<Rightarrow> uuid \<Rightarrow> onboarding_store \<Rightarrow> claim_pairing_result tx" where
  "claimed_again heartbeat pairing instanceId keyId s =
     rbind (load_claimed_credential keyId instanceId s) (\<lambda>credential.
     rbind (load_server_id s) (\<lambda>serverId.
       Inr (claim_result serverId instanceId keyId (ep_logical_agent_id pairing) heartbeat (cr_valid_until credential))))"

definition unique_as_conflict :: "'a tx \<Rightarrow> 'a tx" where
  "unique_as_conflict x = (case x of
     Inl e \<Rightarrow> Inl (if e = Failure ''unique_violation'' then pairing_conflict else e) | Inr a \<Rightarrow> Inr a)"

definition activate_instance :: "uuid \<Rightarrow> uuid \<Rightarrow> db \<Rightarrow> db" where
  "activate_instance agentId instanceId d = d\<lparr>db_agents :=
     update_where (\<lambda>g. ag_id g = agentId) (\<lambda>g. g\<lparr>ag_active_reporting_instance_id := Some instanceId\<rparr>) (db_agents d)\<rparr>"

definition claimed_pairing :: "claim_env \<Rightarrow> claim_input \<Rightarrow> byte_string \<Rightarrow> pairing_row \<Rightarrow> pairing_row" where
  "claimed_pairing env input publicKeyHash p =
     p\<lparr>ep_status := Pairing_claimed, ep_claimed_public_key_hash := Some publicKeyHash,
       ep_claimed_instance_id := Some (ce_instance_id env), ep_claimed_key_id := Some (ce_key_id env),
       ep_claimed_client_version := Some (cl_clientVersion input), ep_claimed_at := Some (to_date (ce_now env))\<rparr>"

definition mark_claimed :: "claim_env \<Rightarrow> claim_input \<Rightarrow> byte_string \<Rightarrow> pairing_row \<Rightarrow> onboarding_store \<Rightarrow> onboarding_store tx" where
  "mark_claimed env input publicKeyHash pairing s =
     rbind (check_row (list_all (\<lambda>p. ep_id p = ep_id pairing \<longrightarrow> pairing_constraints (claimed_pairing env input publicKeyHash p))
         (os_pairings s)))
       (\<lambda>_. Inr (s\<lparr>os_pairings := update_where (\<lambda>p. ep_id p = ep_id pairing) (claimed_pairing env input publicKeyHash)
         (os_pairings s)\<rparr>))"

text \<open>The claim of a pending pairing.\<close>

definition claim_pending ::
  "claim_env \<Rightarrow> claim_input \<Rightarrow> int \<Rightarrow> byte_string \<Rightarrow> pairing_row \<Rightarrow> onboarding_store
   \<Rightarrow> (claim_pairing_result \<times> onboarding_store) tx" where
  "claim_pending env input heartbeat publicKeyHash pairing s0 =
     rbind (from_option ''Pairing logical Agent is missing'' (find_agent (os_db s0) (ep_logical_agent_id pairing))) (\<lambda>agent.
     rbind (guard_r (ag_active_reporting_instance_id agent = None) pairing_conflict) (\<lambda>_.
     rbind (on_db (insert_instance \<lparr>in_id = ce_instance_id env, in_logical_agent_id = ep_logical_agent_id pairing,
              in_status = Instance_active, in_revoked_at = None\<rparr>) s0) (\<lambda>s1.
     rbind (unique_as_conflict (on_db (insert_credential \<lparr>cr_key_id = ce_key_id env, cr_instance_id = ce_instance_id env,
              cr_public_key = cl_publicKey input, cr_valid_until = ce_valid_until env, cr_revoked_at = None\<rparr>) s1)) (\<lambda>s2.
     rbind (on_db (insert_head (ce_instance_id env)) s2) (\<lambda>s3.
     rbind (on_db (\<lambda>d. Inr (activate_instance (ep_logical_agent_id pairing) (ce_instance_id env) d)) s3) (\<lambda>s4.
     rbind (mark_claimed env input publicKeyHash pairing s4) (\<lambda>s5.
     rbind (load_server_id s5) (\<lambda>serverId.
       Inr (claim_result serverId (ce_instance_id env) (ce_key_id env) (ep_logical_agent_id pairing) heartbeat
              (ce_valid_until env), s5)))))))))"

definition claim_transaction ::
  "claim_env \<Rightarrow> claim_input \<Rightarrow> int \<Rightarrow> onboarding_store \<Rightarrow> claim_pairing_result tx \<times> onboarding_store" where
  "claim_transaction env input heartbeat s =
     (case select_one (\<lambda>p. ep_pairing_code_hash p = digest_capability (ce_sha256 env) (cl_pairingCode input)) (os_pairings s) of
        None \<Rightarrow> (Inl pairing_unavailable, s)
      | Some pairing \<Rightarrow>
          let publicKeyHash = ce_sha256 env (cl_publicKey input) in
          if ep_status pairing = Pairing_claimed then
            (case (ep_claimed_public_key_hash pairing, ep_claimed_instance_id pairing, ep_claimed_key_id pairing) of
               (Some hash, Some instanceId, Some keyId) \<Rightarrow>
                 if hash \<noteq> publicKeyHash then (Inl pairing_conflict, record_failed_attempt pairing s)
                 else (claimed_again heartbeat pairing instanceId keyId s, s)
             | _ \<Rightarrow> (Inl pairing_conflict, record_failed_attempt pairing s))
          else if ep_expires_at pairing \<le> to_date (ce_now env)
          then (Inl pairing_expired, record_failed_attempt pairing s)
          else if MAX_FAILED_PAIRING_ATTEMPTS \<le> ep_failed_claim_attempts pairing then (Inl pairing_locked, s)
          else transaction (claim_pending env input heartbeat publicKeyHash pairing) s)"

definition claim_pairing ::
  "claim_env \<Rightarrow> claim_input \<Rightarrow> string \<Rightarrow> int \<Rightarrow> onboarding_store \<Rightarrow> claim_pairing_result tx \<times> onboarding_store" where
  "claim_pairing env input ip heartbeat = rate_limited env ip Rate_claim (claim_transaction env input heartbeat)"

section \<open>The service and its routes\<close>

datatype onboarding_call =
    Create_office create_env create_office_input string
  | Poll_status call_env js_string string
  | Claim claim_env claim_input string

datatype onboarding_reply =
    Office_created create_office_result
  | Status_is pairing_status_result
  | Pairing_claimed_as claim_pairing_result
  | Call_refused tx_error

fun service :: "int \<Rightarrow> onboarding_call \<Rightarrow> onboarding_store \<Rightarrow> onboarding_reply \<times> onboarding_store" where
  "service heartbeat (Create_office env input ip) s =
     apfst (case_sum Call_refused Office_created) (create_office env input ip s)"
| "service heartbeat (Poll_status env token ip) s =
     apfst (case_sum Call_refused Status_is) (get_pairing_status env token ip s)"
| "service heartbeat (Claim env input ip) s =
     apfst (case_sum Call_refused Pairing_claimed_as) (claim_pairing env input ip heartbeat s)"

text \<open>A request, with what the call of the service it leads to reads from outside.\<close>

datatype onboarding_request =
    Post_office create_env json string
  | Get_pairing call_env js_string string
  | Post_claim claim_env json string

definition request_call :: "onboarding_request \<Rightarrow> onboarding_call tx" where
  "request_call request = (case request of
     Post_office env body ip \<Rightarrow> rbind (parse_create_office_input body) (\<lambda>input. Inr (Create_office env input ip))
   | Get_pairing env token ip \<Rightarrow> rbind (parse_status_capability token) (\<lambda>capability. Inr (Poll_status env capability ip))
   | Post_claim env body ip \<Rightarrow> rbind (parse_claim_input body) (\<lambda>input. Inr (Claim env input ip)))"

definition capability_headers :: "(string \<times> js_string) list" where
  "capability_headers = [(''Cache-Control'', js ''private, no-store''), (''Referrer-Policy'', js ''no-referrer''),
     (''X-Content-Type-Options'', js ''nosniff'')]"

definition onboarding_json_reply :: "int \<Rightarrow> (string \<times> json) list \<Rightarrow> http_reply" where
  "onboarding_json_reply status members = \<lparr>hr_status = status, hr_headers = capability_headers,
     hr_type = ''application/json; charset=utf-8'', hr_body = Json_body (jobj members)\<rparr>"

definition status_text :: "pairing_status_result \<Rightarrow> string" where
  "status_text r = (case r of Status_pending \<Rightarrow> ''pending'' | Status_claimed \<Rightarrow> ''claimed'' | Status_expired \<Rightarrow> ''expired'')"

definition onboarding_reply_of :: "onboarding_reply \<Rightarrow> http_reply" where
  "onboarding_reply_of reply = (case reply of
     Office_created r \<Rightarrow> onboarding_json_reply 201 [(''pairing_code'', JStr (rs_pairing_code r)),
       (''status_token'', JStr (rs_status_token r)), (''expires_at'', JStr (rs_expires_at r)),
       (''office_url'', JStr (rs_office_url r))]
   | Status_is r \<Rightarrow> onboarding_json_reply 200 [(''status'', jtext (status_text r))]
   | Pairing_claimed_as r \<Rightarrow> onboarding_json_reply 200 [(''server_id'', jtext (cm_server_id r)),
       (''instance_id'', jtext (cm_instance_id r)), (''key_id'', jtext (cm_key_id r)),
       (''logical_agent_id'', jtext (cm_logical_agent_id r)),
       (''heartbeat_interval_seconds'', JNum (cm_heartbeat_interval_seconds r)),
       (''credential_valid_until'', JStr (cm_credential_valid_until r))]
   | Call_refused e \<Rightarrow> error_handler (Thrown e))"

definition onboarding_route :: "onboarding_request \<Rightarrow> onboarding_store \<Rightarrow> http_reply \<times> onboarding_store" where
  "onboarding_route request s = (case request_call request of
     Inl e \<Rightarrow> (error_handler (Thrown e), s)
   | Inr call \<Rightarrow> apfst onboarding_reply_of (service 30 call s))"

text \<open>The calls of a service in the order of their transactions.\<close>

fun serve :: "int \<Rightarrow> onboarding_call list \<Rightarrow> onboarding_store \<Rightarrow> onboarding_reply list \<times> onboarding_store" where
  "serve heartbeat [] s = ([], s)"
| "serve heartbeat (call # calls) s =
     (case service heartbeat call s of (reply, s') \<Rightarrow> apfst (Cons reply) (serve heartbeat calls s'))"

end
