(* ===== verification/Onboarding_Claims.thy ===== *)
theory Onboarding_Claims
  imports Claim_Pairing
begin

text \<open>
  What the onboarding service promises over any sequence of calls: a pairing is claimed by one
  key, the count of failed claims never locks a pairing, and the device that claimed a pairing is
  known to the verifier.
\<close>

section \<open>The pairing table\<close>

definition pairings_ok :: "onboarding_store \<Rightarrow> bool" where
  "pairings_ok s \<longleftrightarrow> list_all pairing_constraints (os_pairings s)
     \<and> sorted_wrt (\<lambda>p q. \<not> same_pairing_key p q) (os_pairings s)"

lemma same_pairing_key_sym: "same_pairing_key p q \<Longrightarrow> same_pairing_key q p"
  by (auto simp: same_pairing_key_def)

lemma pairings_distinct:
  assumes "pairings_ok s" "p \<in> set (os_pairings s)" "q \<in> set (os_pairings s)" "same_pairing_key p q"
  shows "p = q"
proof -
  have "sorted_wrt (\<lambda>p q. \<not> same_pairing_key p q) t \<Longrightarrow> p \<in> set t \<Longrightarrow> q \<in> set t \<Longrightarrow> p = q" for t
    using assms(4) same_pairing_key_sym by (induction t) auto
  then show ?thesis using assms(1-3) unfolding pairings_ok_def by blast
qed

lemma select_one_update:
  assumes "\<And>r. r \<in> set t \<Longrightarrow> P (if Q r then f r else r) = P r"
  shows "select_one P (update_where Q f t) = map_option (\<lambda>r. if Q r then f r else r) (select_one P t)"
  using assms by (induction t) (auto simp: update_where_def)

lemma update_where_sorted:
  assumes "sorted_wrt (\<lambda>p q. \<not> same_pairing_key p q) t" "\<And>p q. same_pairing_key (f p) q = same_pairing_key p q"
    "\<And>p q. same_pairing_key p (f q) = same_pairing_key p q"
  shows "sorted_wrt (\<lambda>p q. \<not> same_pairing_key p q) (update_where Q f t)"
  using assms(1) by (induction t) (auto simp: update_where_def assms(2,3))

lemma pairings_okI:
  assumes "pairings_ok s" "os_pairings s' = update_where Q f (os_pairings s)"
    and "\<And>p q. same_pairing_key (f p) q = same_pairing_key p q" "\<And>p q. same_pairing_key p (f q) = same_pairing_key p q"
    and "\<And>p. p \<in> set (os_pairings s) \<Longrightarrow> Q p \<Longrightarrow> pairing_constraints p \<Longrightarrow> pairing_constraints (f p)"
  shows "pairings_ok s'"
  using assms update_where_sorted [of "os_pairings s" f Q]
  by (auto simp: pairings_ok_def list_all_iff set_update_where)

section \<open>What the calls change\<close>

lemma rate_limited_cases:
  assumes "rate_limited env ip kind body s = (r, s')"
  obtains e rates where "r = Inl e" "s' = s\<lparr>os_rates := rates\<rparr>"
    | rates where "body (s\<lparr>os_rates := rates\<rparr>) = (r, s')"
  using assms that by (auto simp: rate_limited_def split: prod.splits sum.splits)

lemma insert_schedule_rules_only:
  assumes "foldM_r (\<lambda>isoWeekday. on_db (insert_schedule_rule (rule isoWeekday))) days s = Inr s'"
  shows "\<exists>t. s' = s\<lparr>os_db := (os_db s)\<lparr>db_schedule_rules := t\<rparr>\<rparr>"
  using assms
proof (induction days arbitrary: s)
  case Nil
  then show ?case by (auto intro!: exI [of _ "db_schedule_rules (os_db s)"])
next
  case (Cons day days)
  then obtain s1 where "on_db (insert_schedule_rule (rule day)) s = Inr s1"
    and "foldM_r (\<lambda>isoWeekday. on_db (insert_schedule_rule (rule isoWeekday))) days s1 = Inr s'"
    by (auto simp: result_simps)
  moreover from this(1) obtain t where "s1 = s\<lparr>os_db := (os_db s)\<lparr>db_schedule_rules := t\<rparr>\<rparr>"
    by (auto simp: result_simps insert_schedule_rule_def)
  ultimately show ?case using Cons.IH by fastforce
qed

text \<open>The database \<open>createOffice\<close> has written before it records the first revision.\<close>

definition created_db :: "create_env \<Rightarrow> create_office_input \<Rightarrow> local_date \<Rightarrow> schedule_rule_row list \<Rightarrow> db \<Rightarrow> db" where
  "created_db env input effective rules d = d\<lparr>db_offices := db_offices d @ [new_office env input],
     db_rooms := db_rooms d @ [new_room env], db_agents := db_agents d @ [new_agent env input],
     db_mounts := db_mounts d @ [new_mount env input],
     db_qualifications := db_qualifications d @ (if co_stats_opt_in input then [new_qualification env] else []),
     db_view_tokens := db_view_tokens d @ [new_view_token env],
     db_schedule_versions := db_schedule_versions d @ [new_schedule_version env effective],
     db_schedule_rules := rules\<rparr>"

definition new_result :: "create_env \<Rightarrow> create_office_result" where
  "new_result env =
     \<lparr>rs_pairing_code = ic_raw (issue_capability (ce_sha256 env) (ce_pairing_bytes env)),
      rs_status_token = ic_raw (issue_capability (ce_sha256 env) (ce_status_bytes env)),
      rs_expires_at = to_iso_string (snd (onboarding_clock env)),
      rs_office_url = js ''/o/'' @ ic_raw (issue_capability (ce_sha256 env) (ce_view_bytes env))\<rparr>"

lemma insert_view_token_facts:
  "insert_view_token t d = Inr d' \<Longrightarrow> d' = d\<lparr>db_view_tokens := db_view_tokens d @ [t]\<rparr>"
  by (auto simp: insert_view_token_def split: if_splits)

lemma insert_view_token_cong:
  "db_view_tokens e = db_view_tokens d \<Longrightarrow> insert_view_token t e = Inr e' \<Longrightarrow>
   insert_view_token t d = Inr (d\<lparr>db_view_tokens := db_view_tokens d @ [t]\<rparr>)"
  by (auto simp: insert_view_token_def split: if_splits)

lemma store_qualifications_facts: "store_qualifications t d = Inr d' \<Longrightarrow> d' = d\<lparr>db_qualifications := t\<rparr>"
  by (auto simp: store_qualifications_def split: if_splits)

lemma create_office_cases:
  assumes "create_office_onboarding env input s = Inr (r, s')"
  obtains effective rules snap e accounts memberships where
    "record_revision (ce_projector env) (seed_revision env) (created_db env input effective rules (os_db s)) = Inr (snap, e)"
    "s' = s\<lparr>os_db := e, os_accounts := accounts, os_memberships := memberships,
        os_pairings := os_pairings s @ [new_pairing env]\<rparr>"
    "r = new_result env" "ce_office env \<notin> set (map of_id (db_offices (os_db s)))"
    "pairing_constraints (new_pairing env)" "\<forall>p\<in>set (os_pairings s). \<not> same_pairing_key (new_pairing env) p"
    "insert_view_token (new_view_token env) (os_db s)
      = Inr ((os_db s)\<lparr>db_view_tokens := db_view_tokens (os_db s) @ [new_view_token env]\<rparr>)"
proof -
  from assms obtain s1 s2 s3 s4 s5 s6 s7 s8 effective s9 s10 s11 snap e where
    s1: "insert_account \<lparr>ac_id = ce_account env, ac_created_at = fst (onboarding_clock env)\<rparr> s = Inr s1"
    and s2: "on_db (insert_office (new_office env input)) s1 = Inr s2"
    and s3: "on_db (insert_room (new_room env)) s2 = Inr s3"
    and s4: "insert_membership \<lparr>me_id = ce_membership env, me_office_id = ce_office env, me_account_id = ce_account env,
      me_created_at = fst (onboarding_clock env)\<rparr> s3 = Inr s4"
    and s5: "on_db (insert_agent (new_agent env input)) s4 = Inr s5"
    and s6: "on_db (insert_mount (new_mount env input)) s5 = Inr s6"
    and s7: "(if co_stats_opt_in input then on_db (\<lambda>d. store_qualifications (db_qualifications d @ [new_qualification env]) d) s6
      else Inr s6) = Inr s7"
    and s8: "on_db (insert_view_token (new_view_token env)) s7 = Inr s8"
    and s9: "on_db (insert_schedule_version (new_schedule_version env effective)) s8 = Inr s9"
    and s10: "foldM_r (\<lambda>isoWeekday. on_db (insert_schedule_rule (new_schedule_rule env isoWeekday))) [1..5] s9 = Inr s10"
    and s11: "insert_pairing (new_pairing env) s10 = Inr s11"
    and rec: "record_revision (ce_projector env) (seed_revision env) (os_db s11) = Inr (snap, e)"
    and r: "r = new_result env" "s' = s11\<lparr>os_db := e\<rparr>"
    unfolding create_office_onboarding_def Let_def case_prod_beta rbind_eq_Inr
    by (fastforce simp: new_result_def)
  from s1 obtain accounts where s1': "s1 = s\<lparr>os_accounts := accounts\<rparr>"
    by (auto simp: insert_account_def result_simps)
  from s2 have s2': "s2 = s1\<lparr>os_db := (os_db s1)\<lparr>db_offices := db_offices (os_db s1) @ [new_office env input]\<rparr>\<rparr>"
    and new: "ce_office env \<notin> set (map of_id (db_offices (os_db s)))"
    by (auto simp: insert_office_def result_simps s1' new_office_def)
  from s3 have s3': "s3 = s2\<lparr>os_db := (os_db s2)\<lparr>db_rooms := db_rooms (os_db s2) @ [new_room env]\<rparr>\<rparr>"
    by (auto simp: insert_room_def result_simps)
  from s4 obtain memberships where s4': "s4 = s3\<lparr>os_memberships := memberships\<rparr>"
    by (auto simp: insert_membership_def result_simps)
  from s5 have s5': "s5 = s4\<lparr>os_db := (os_db s4)\<lparr>db_agents := db_agents (os_db s4) @ [new_agent env input]\<rparr>\<rparr>"
    by (auto simp: insert_agent_def result_simps)
  from s6 have s6': "s6 = s5\<lparr>os_db := (os_db s5)\<lparr>db_mounts := db_mounts (os_db s5) @ [new_mount env input]\<rparr>\<rparr>"
    by (auto simp: insert_mount_def result_simps)
  from s7 have s7': "s7 = s6\<lparr>os_db := (os_db s6)\<lparr>db_qualifications := db_qualifications (os_db s6)
      @ (if co_stats_opt_in input then [new_qualification env] else [])\<rparr>\<rparr>"
    by (auto simp: result_simps split: if_splits dest!: store_qualifications_facts)
  from s8 obtain d8 where d8: "insert_view_token (new_view_token env) (os_db s7) = Inr d8" "s8 = s7\<lparr>os_db := d8\<rparr>"
    by (auto simp: result_simps)
  note s8' = insert_view_token_facts [OF d8(1)]
  have tok: "insert_view_token (new_view_token env) (os_db s)
      = Inr ((os_db s)\<lparr>db_view_tokens := db_view_tokens (os_db s) @ [new_view_token env]\<rparr>)"
    by (rule insert_view_token_cong [OF _ d8(1)]) (simp add: s1' s2' s3' s4' s5' s6' s7')
  from s9 have s9': "s9 = s8\<lparr>os_db := (os_db s8)\<lparr>db_schedule_versions := db_schedule_versions (os_db s8)
      @ [new_schedule_version env effective]\<rparr>\<rparr>"
    by (auto simp: insert_schedule_version_def result_simps)
  from insert_schedule_rules_only [OF s10] obtain rules where
    s10': "s10 = s9\<lparr>os_db := (os_db s9)\<lparr>db_schedule_rules := rules\<rparr>\<rparr>" by blast
  have pairings: "os_pairings s10 = os_pairings s"
    by (simp add: s1' s2' s3' s4' s5' s6' s7' d8(2) s9' s10')
  from s11 have s11': "s11 = s10\<lparr>os_pairings := os_pairings s10 @ [new_pairing env]\<rparr>"
    and pc: "pairing_constraints (new_pairing env)" "\<forall>p\<in>set (os_pairings s). \<not> same_pairing_key (new_pairing env) p"
    by (auto simp: insert_pairing_def result_simps pairings)
  have "os_db s11 = created_db env input effective rules (os_db s)"
    by (simp add: s11' s10' s9' d8(2) s8' s7' s6' s5' s4' s3' s2' s1' created_db_def)
  moreover have "s' = s\<lparr>os_db := e, os_accounts := accounts, os_memberships := memberships,
        os_pairings := os_pairings s @ [new_pairing env]\<rparr>"
    by (simp add: r(2) s11' s10' s9' d8(2) s8' s7' s6' s5' s4' s3' s2' s1')
  ultimately show thesis
    using that [OF _ _ r(1) new pc tok] rec by simp
qed


text \<open>What the rest of the flow may rely on: the tables a successful creation only extends.\<close>

lemma create_office_extends:
  assumes "create_office env input ip s = (res, s')"
  shows "db_credentials (os_db s') = db_credentials (os_db s)" "os_server_id s' = os_server_id s"
    and "os_pairings s' = os_pairings s \<or>
      os_pairings s' = os_pairings s @ [new_pairing env] \<and> pairing_constraints (new_pairing env)
      \<and> (\<forall>p\<in>set (os_pairings s). \<not> same_pairing_key (new_pairing env) p)"
proof -
  have "db_credentials (os_db s') = db_credentials (os_db s) \<and> os_server_id s' = os_server_id s
    \<and> (os_pairings s' = os_pairings s \<or>
      os_pairings s' = os_pairings s @ [new_pairing env] \<and> pairing_constraints (new_pairing env)
      \<and> (\<forall>p\<in>set (os_pairings s). \<not> same_pairing_key (new_pairing env) p))"
    using assms unfolding create_office_def
  proof (cases rule: rate_limited_cases)
    case (2 rates)
    show ?thesis
    proof (cases "create_office_onboarding env input (s\<lparr>os_rates := rates\<rparr>)")
      case (Inl e)
      with 2 show ?thesis by (auto simp: transaction_def)
    next
      case (Inr x)
      with 2 have "create_office_onboarding env input (s\<lparr>os_rates := rates\<rparr>) = Inr (projr res, s')"
        by (auto simp: transaction_def split: prod.splits)
      then obtain effective rules snap e accounts memberships where
        rec: "record_revision (ce_projector env) (seed_revision env)
          (created_db env input effective rules (os_db (s\<lparr>os_rates := rates\<rparr>))) = Inr (snap, e)"
        and s': "s' = (s\<lparr>os_rates := rates\<rparr>)\<lparr>os_db := e, os_accounts := accounts, os_memberships := memberships,
            os_pairings := os_pairings (s\<lparr>os_rates := rates\<rparr>) @ [new_pairing env]\<rparr>"
        and pc: "pairing_constraints (new_pairing env)"
          "\<forall>p\<in>set (os_pairings (s\<lparr>os_rates := rates\<rparr>)). \<not> same_pairing_key (new_pairing env) p"
        by (rule create_office_cases)
      have "db_credentials e = db_credentials (os_db s)"
        using record_same_outside [OF record_revision_Inr [OF rec]] by (simp add: same_outside_def created_db_def)
      with s' pc show ?thesis by simp
    qed
  qed simp
  then show "db_credentials (os_db s') = db_credentials (os_db s)" "os_server_id s' = os_server_id s"
    "os_pairings s' = os_pairings s \<or>
      os_pairings s' = os_pairings s @ [new_pairing env] \<and> pairing_constraints (new_pairing env)
      \<and> (\<forall>p\<in>set (os_pairings s). \<not> same_pairing_key (new_pairing env) p)" by simp_all
qed

lemma poll_unchanged:
  assumes "get_pairing_status env token ip s = (res, s')"
  shows "\<exists>rates. s' = s\<lparr>os_rates := rates\<rparr>"
  using assms unfolding get_pairing_status_def
  by (cases rule: rate_limited_cases) (auto simp: poll_pairing_def split: option.splits)

text \<open>The problem of a locked pairing comes from the count of failed claims only.\<close>

lemmas problem_defs = pairing_locked_def pairing_conflict_def pairing_expired_def pairing_unavailable_def
  onboarding_problem_def

lemma rate_limited_charged:
  assumes "rate_limited env ip kind body s = (r, s')"
  obtains e rates where "r = Inl e" "e \<noteq> pairing_locked" "s' = s\<lparr>os_rates := rates\<rparr>"
    | rates where "body (s\<lparr>os_rates := rates\<rparr>) = (r, s')"
proof -
  obtain c rates where c: "consume_onboarding_rate_limit (ce_sha256 env) ip kind (ce_rate_now env) (ce_rate_clock env) (os_rates s)
    = (c, rates)" by (rule prod.exhaust)
  show thesis
  proof (cases c)
    case (Inl e)
    with c have "e \<noteq> pairing_locked"
      by (auto simp: consume_onboarding_rate_limit_def Let_def problem_defs split: if_splits)
    with that(1) [of e rates] assms c Inl show thesis by (auto simp: rate_limited_def)
  next
    case (Inr u)
    with that(2) [of rates] assms c show thesis by (auto simp: rate_limited_def)
  qed
qed

lemma claimed_again_error: "claimed_again heartbeat p i k s = Inl e \<Longrightarrow> e \<noteq> pairing_locked"
  by (auto simp: claimed_again_def load_claimed_credential_def load_server_id_def problem_defs rbind_eq_Inl
      from_option_def split: option.splits)

lemma unique_as_conflict_error:
  "unique_as_conflict x = Inl e \<Longrightarrow> (\<And>e. x = Inl e \<Longrightarrow> e \<noteq> pairing_locked) \<Longrightarrow> e \<noteq> pairing_locked"
  by (auto simp: unique_as_conflict_def problem_defs split: sum.splits if_splits)

lemma claim_pending_error: "claim_pending env input heartbeat hash p s = Inl e \<Longrightarrow> e \<noteq> pairing_locked"
  unfolding claim_pending_def rbind_eq_Inl
  by (auto simp: on_db_def insert_defs insert_unique_def check_row_def guard_r_def from_option_def rbind_eq_Inl
      mark_claimed_def load_server_id_def problem_defs unique_as_conflict_def
      split: option.splits if_splits sum.splits)

text \<open>The outcomes of a claim, each with the pairing it found.\<close>

lemma claim_cases:
  assumes "claim_pairing env input ip heartbeat s = (res, s')"
  obtains (unchanged) e rates where "res = Inl e" "e \<noteq> pairing_locked" "s' = s\<lparr>os_rates := rates\<rparr>"
  | (locked) p rates where "p \<in> set (os_pairings s)" "res = Inl pairing_locked" "s' = s\<lparr>os_rates := rates\<rparr>"
      "ep_status p = Pairing_pending" "to_date (ce_now env) < ep_expires_at p" "8 \<le> ep_failed_claim_attempts p"
  | (counted) p e rates where "p \<in> set (os_pairings s)" "res = Inl e" "e \<noteq> pairing_locked"
      "s' = record_failed_attempt p (s\<lparr>os_rates := rates\<rparr>)"
      "ep_status p = Pairing_claimed \<or> ep_expires_at p \<le> to_date (ce_now env)"
  | (again) p i k r rates where "select_one (\<lambda>p. ep_pairing_code_hash p = digest_capability (ce_sha256 env) (cl_pairingCode input)) (os_pairings s) = Some p"
      "ep_status p = Pairing_claimed" "ep_claimed_public_key_hash p = Some (ce_sha256 env (cl_publicKey input))"
      "ep_claimed_instance_id p = Some i" "ep_claimed_key_id p = Some k"
      "claimed_again heartbeat p i k (s\<lparr>os_rates := rates\<rparr>) = Inr r" "res = Inr r" "s' = s\<lparr>os_rates := rates\<rparr>"
  | (first) p r rates where "select_one (\<lambda>p. ep_pairing_code_hash p = digest_capability (ce_sha256 env) (cl_pairingCode input)) (os_pairings s) = Some p"
      "ep_status p = Pairing_pending" "to_date (ce_now env) < ep_expires_at p" "res = Inr r"
      "claim_pending env input heartbeat (ce_sha256 env (cl_publicKey input)) p (s\<lparr>os_rates := rates\<rparr>) = Inr (r, s')"
proof -
  let ?hash = "ce_sha256 env (cl_publicKey input)"
  show thesis
    using assms unfolding claim_pairing_def
  proof (cases rule: rate_limited_charged)
    case (1 e rates)
    then show thesis by (intro unchanged)
  next
    case (2 rates)
    let ?s = "s\<lparr>os_rates := rates\<rparr>"
    let ?sel = "select_one (\<lambda>p. ep_pairing_code_hash p = digest_capability (ce_sha256 env) (cl_pairingCode input)) (os_pairings s)"
    show thesis
    proof (cases ?sel)
      case None
      with 2 show thesis
        by (intro unchanged [of pairing_unavailable rates])
          (auto simp: claim_transaction_def problem_defs)
    next
      case (Some p)
      then have p: "p \<in> set (os_pairings s)" by (blast dest: select_one_SomeD)
      show thesis
      proof (cases "ep_status p")
        case claimed: Pairing_claimed
        show thesis
        proof (cases "\<exists>i k. ep_claimed_public_key_hash p = Some ?hash \<and> ep_claimed_instance_id p = Some i
            \<and> ep_claimed_key_id p = Some k")
          case True
          then obtain i k where ik: "ep_claimed_public_key_hash p = Some ?hash" "ep_claimed_instance_id p = Some i"
            "ep_claimed_key_id p = Some k" by blast
          with 2 Some claimed have eq: "res = claimed_again heartbeat p i k ?s" "s' = ?s"
            by (auto simp: claim_transaction_def)
          show thesis
          proof (cases "claimed_again heartbeat p i k ?s")
            case (Inl e)
            with eq claimed_again_error [OF Inl] show thesis by (intro unchanged [of e rates]) simp_all
          next
            case (Inr r)
            with eq show thesis by (intro again [OF Some claimed ik Inr]) simp_all
          qed
        next
          case False
          with 2 Some claimed have "res = Inl pairing_conflict" "s' = record_failed_attempt p ?s"
            by (auto simp: claim_transaction_def split: option.splits if_splits)
          then show thesis by (intro counted [OF p, of pairing_conflict rates]) (auto simp: claimed problem_defs)
        qed
      next
        case pending: Pairing_pending
        show thesis
        proof (cases "ep_expires_at p \<le> to_date (ce_now env)")
          case True
          with 2 Some pending have "res = Inl pairing_expired" "s' = record_failed_attempt p ?s"
            by (simp_all add: claim_transaction_def)
          then show thesis using True by (intro counted [OF p, of pairing_expired rates]) (auto simp: problem_defs)
        next
          case live: False
          show thesis
          proof (cases "8 \<le> ep_failed_claim_attempts p")
            case True
            with 2 Some pending live show thesis
              by (intro locked [OF p, of rates]) (simp_all add: claim_transaction_def MAX_FAILED_PAIRING_ATTEMPTS_def)
          next
            case False
            with 2 Some pending live have t: "transaction (claim_pending env input heartbeat ?hash p) ?s = (res, s')"
              by (simp add: claim_transaction_def MAX_FAILED_PAIRING_ATTEMPTS_def)
            show thesis
            proof (cases "claim_pending env input heartbeat ?hash p ?s")
              case (Inl e)
              with t claim_pending_error [OF Inl] show thesis
                by (intro unchanged [of e rates]) (simp_all add: transaction_def)
            next
              case (Inr x)
              with t obtain r where "res = Inr r" "claim_pending env input heartbeat ?hash p ?s = Inr (r, s')"
                by (auto simp: transaction_def split: prod.splits)
              with pending live show thesis by (intro first [OF Some]) simp_all
            qed
          qed
        qed
      qed
    qed
  qed
qed


section \<open>A pairing is claimed once\<close>

definition new_credential :: "claim_env \<Rightarrow> claim_input \<Rightarrow> credential_row" where
  "new_credential env input = \<lparr>cr_key_id = ce_key_id env, cr_instance_id = ce_instance_id env,
     cr_public_key = cl_publicKey input, cr_valid_until = ce_valid_until env, cr_revoked_at = None\<rparr>"

definition new_instance :: "claim_env \<Rightarrow> pairing_row \<Rightarrow> instance_row" where
  "new_instance env p = \<lparr>in_id = ce_instance_id env, in_logical_agent_id = ep_logical_agent_id p,
     in_status = Instance_active, in_revoked_at = None\<rparr>"

definition claimed_db :: "claim_env \<Rightarrow> claim_input \<Rightarrow> pairing_row \<Rightarrow> db \<Rightarrow> db" where
  "claimed_db env input p d = activate_instance (ep_logical_agent_id p) (ce_instance_id env)
     (d\<lparr>db_instances := db_instances d @ [new_instance env p],
        db_credentials := db_credentials d @ [new_credential env input],
        db_edge := (db_edge d)(ce_instance_id env := (db_edge d (ce_instance_id env))
          \<lparr>es_head := Some \<lparr>hd_current_boot_id = None, hd_current_boot_generation = 0,
             hd_last_server_received_at = None\<rparr>\<rparr>)\<rparr>)"

lemma unique_as_conflict_Inr [result_simps]: "unique_as_conflict x = Inr a \<longleftrightarrow> x = Inr a"
  by (cases x) (simp_all add: unique_as_conflict_def)

lemma claim_pending_facts:
  assumes "claim_pending env input heartbeat hash p s = Inr (r, s')"
  shows "s' = s\<lparr>os_db := claimed_db env input p (os_db s),
      os_pairings := update_where (\<lambda>q. ep_id q = ep_id p) (claimed_pairing env input hash) (os_pairings s)\<rparr>"
    and "\<exists>serverId. os_server_id s = Some serverId
      \<and> r = claim_result serverId (ce_instance_id env) (ce_key_id env) (ep_logical_agent_id p) heartbeat (ce_valid_until env)"
    and "\<forall>c\<in>set (db_credentials (os_db s)). cr_key_id c \<noteq> ce_key_id env \<and> cr_public_key c \<noteq> cl_publicKey input"
    and "\<forall>q\<in>set (os_pairings s). ep_id q = ep_id p \<longrightarrow> pairing_constraints (claimed_pairing env input hash q)"
    and "\<forall>n\<in>set (db_instances (os_db s)). in_id n \<noteq> ce_instance_id env"
    and "es_head (db_edge (os_db s) (ce_instance_id env)) = None"
    and "\<exists>g. find_agent (os_db s) (ep_logical_agent_id p) = Some g \<and> ag_active_reporting_instance_id g = None"
proof -
  from assms obtain agent s1 s2 s3 s5 serverId where
    agent: "find_agent (os_db s) (ep_logical_agent_id p) = Some agent" "ag_active_reporting_instance_id agent = None"
    and s1: "on_db (insert_instance (new_instance env p)) s = Inr s1"
    and s2: "on_db (insert_credential (new_credential env input)) s1 = Inr s2"
    and s3: "on_db (insert_head (ce_instance_id env)) s2 = Inr s3"
    and s5: "mark_claimed env input hash p (s3\<lparr>os_db := activate_instance (ep_logical_agent_id p) (ce_instance_id env) (os_db s3)\<rparr>) = Inr s5"
    and sid: "os_server_id s5 = Some serverId"
    and r: "r = claim_result serverId (ce_instance_id env) (ce_key_id env) (ep_logical_agent_id p) heartbeat (ce_valid_until env)" "s' = s5"
    unfolding claim_pending_def new_instance_def new_credential_def
    by (auto simp: result_simps load_server_id_def)
  from s1 have s1': "s1 = s\<lparr>os_db := (os_db s)\<lparr>db_instances := db_instances (os_db s) @ [new_instance env p]\<rparr>\<rparr>"
    and ni: "\<forall>n\<in>set (db_instances (os_db s)). in_id n \<noteq> ce_instance_id env"
    by (auto simp: insert_instance_def result_simps new_instance_def)
  from s2 have s2': "s2 = s1\<lparr>os_db := (os_db s1)\<lparr>db_credentials := db_credentials (os_db s1) @ [new_credential env input]\<rparr>\<rparr>"
    and nc: "\<forall>c\<in>set (db_credentials (os_db s)). cr_key_id c \<noteq> ce_key_id env \<and> cr_public_key c \<noteq> cl_publicKey input"
    by (auto simp: insert_credential_def result_simps s1' new_credential_def)
  from s3 have s3': "s3 = s2\<lparr>os_db := (os_db s2)\<lparr>db_edge := (db_edge (os_db s2))(ce_instance_id env := (db_edge (os_db s2) (ce_instance_id env))
          \<lparr>es_head := Some \<lparr>hd_current_boot_id = None, hd_current_boot_generation = 0, hd_last_server_received_at = None\<rparr>\<rparr>)\<rparr>\<rparr>"
    and nh: "es_head (db_edge (os_db s) (ce_instance_id env)) = None"
    by (auto simp: insert_head_def result_simps s1' s2' split: if_splits)
  have pairings: "os_pairings s3 = os_pairings s" "os_server_id s3 = os_server_id s" by (simp_all add: s3' s2' s1')
  from s5 have s5': "s5 = s3\<lparr>os_db := activate_instance (ep_logical_agent_id p) (ce_instance_id env) (os_db s3),
      os_pairings := update_where (\<lambda>q. ep_id q = ep_id p) (claimed_pairing env input hash) (os_pairings s)\<rparr>"
    and pc: "\<forall>q\<in>set (os_pairings s). ep_id q = ep_id p \<longrightarrow> pairing_constraints (claimed_pairing env input hash q)"
    by (auto simp: mark_claimed_def result_simps pairings list_all_iff)
  show "s' = s\<lparr>os_db := claimed_db env input p (os_db s),
      os_pairings := update_where (\<lambda>q. ep_id q = ep_id p) (claimed_pairing env input hash) (os_pairings s)\<rparr>"
    by (simp add: r(2) s5' s3' s2' s1' claimed_db_def activate_instance_def)
  show "\<exists>serverId. os_server_id s = Some serverId
      \<and> r = claim_result serverId (ce_instance_id env) (ce_key_id env) (ep_logical_agent_id p) heartbeat (ce_valid_until env)"
    using sid r(1) by (simp add: s5' pairings)
  show "\<exists>g. find_agent (os_db s) (ep_logical_agent_id p) = Some g \<and> ag_active_reporting_instance_id g = None"
    using agent by blast
  show "\<forall>c\<in>set (db_credentials (os_db s)). cr_key_id c \<noteq> ce_key_id env \<and> cr_public_key c \<noteq> cl_publicKey input" by (rule nc)
  show "\<forall>q\<in>set (os_pairings s). ep_id q = ep_id p \<longrightarrow> pairing_constraints (claimed_pairing env input hash q)" by (rule pc)
  show "\<forall>n\<in>set (db_instances (os_db s)). in_id n \<noteq> ce_instance_id env" by (rule ni)
  show "es_head (db_edge (os_db s) (ce_instance_id env)) = None" by (rule nh)
qed


text \<open>
  What the key that claimed the pairing of a code is told, with the digest of that key: the
  answer is fixed by the first claim.
\<close>

definition claim_answer :: "int \<Rightarrow> byte_string \<Rightarrow> onboarding_store \<Rightarrow> (byte_string \<times> claim_pairing_result) option" where
  "claim_answer heartbeat dig s =
     (case select_one (\<lambda>p. ep_pairing_code_hash p = dig) (os_pairings s) of
        None \<Rightarrow> None
      | Some p \<Rightarrow>
          if ep_status p = Pairing_pending then None
          else case (ep_claimed_public_key_hash p, ep_claimed_instance_id p, ep_claimed_key_id p) of
            (Some h, Some i, Some k) \<Rightarrow>
              (case claimed_again heartbeat p i k s of Inl _ \<Rightarrow> None | Inr r \<Rightarrow> Some (h, r))
          | _ \<Rightarrow> None)"

lemma claim_answer_Some:
  "claim_answer heartbeat dig s = Some (h, r) \<longleftrightarrow>
   (\<exists>p i k. select_one (\<lambda>p. ep_pairing_code_hash p = dig) (os_pairings s) = Some p \<and> ep_status p = Pairing_claimed
     \<and> ep_claimed_public_key_hash p = Some h \<and> ep_claimed_instance_id p = Some i \<and> ep_claimed_key_id p = Some k
     \<and> claimed_again heartbeat p i k s = Inr r)"
  by (auto simp: claim_answer_def split: option.splits sum.splits if_splits)
    (metis pairing_status.exhaust)+

text \<open>An answer survives whatever keeps the claimed columns of the pairing and its credential.\<close>

lemma claimed_again_mono:
  assumes "claimed_again heartbeat p i k s = Inr r" "os_server_id s' = os_server_id s"
    "db_credentials (os_db s') = db_credentials (os_db s) @ cs" "ep_logical_agent_id p' = ep_logical_agent_id p"
  shows "claimed_again heartbeat p' i k s' = Inr r"
  using assms
  by (auto simp: claimed_again_def load_claimed_credential_def load_server_id_def result_simps select_one_append)

lemma claim_answer_mono:
  assumes "claim_answer heartbeat dig s = Some a" "os_server_id s' = os_server_id s"
    "db_credentials (os_db s') = db_credentials (os_db s) @ cs"
    and "\<And>p. select_one (\<lambda>p. ep_pairing_code_hash p = dig) (os_pairings s) = Some p \<Longrightarrow> ep_status p = Pairing_claimed \<Longrightarrow>
      \<exists>p'. select_one (\<lambda>p. ep_pairing_code_hash p = dig) (os_pairings s') = Some p'
        \<and> ep_status p' = ep_status p \<and> ep_claimed_public_key_hash p' = ep_claimed_public_key_hash p
        \<and> ep_claimed_instance_id p' = ep_claimed_instance_id p \<and> ep_claimed_key_id p' = ep_claimed_key_id p
        \<and> ep_logical_agent_id p' = ep_logical_agent_id p"
  shows "claim_answer heartbeat dig s' = Some a"
proof -
  obtain h r where a: "a = (h, r)" by (rule prod.exhaust)
  from assms(1) [unfolded a claim_answer_Some] obtain p i k where
    p: "select_one (\<lambda>p. ep_pairing_code_hash p = dig) (os_pairings s) = Some p" "ep_status p = Pairing_claimed"
      "ep_claimed_public_key_hash p = Some h" "ep_claimed_instance_id p = Some i" "ep_claimed_key_id p = Some k"
    and r: "claimed_again heartbeat p i k s = Inr r" by blast
  from assms(4) [OF p(1,2)] p(2-) obtain p' where
    p': "select_one (\<lambda>p. ep_pairing_code_hash p = dig) (os_pairings s') = Some p'" "ep_status p' = Pairing_claimed"
      "ep_claimed_public_key_hash p' = Some h" "ep_claimed_instance_id p' = Some i" "ep_claimed_key_id p' = Some k"
      "ep_logical_agent_id p' = ep_logical_agent_id p" by auto
  with claimed_again_mono [OF r assms(2,3) p'(6)] show ?thesis unfolding a claim_answer_Some by blast
qed

lemma failed_attempt_keys:
  "same_pairing_key (p\<lparr>ep_failed_claim_attempts := n\<rparr>) q = same_pairing_key p q"
  "same_pairing_key q (p\<lparr>ep_failed_claim_attempts := n\<rparr>) = same_pairing_key q p"
  by (simp_all add: same_pairing_key_def)

lemma failed_attempt_ok: "pairings_ok s \<Longrightarrow> pairings_ok (record_failed_attempt p s)"
proof (erule pairings_okI)
  show "os_pairings (record_failed_attempt p s) = update_where (\<lambda>q. ep_id q = ep_id p)
      (\<lambda>q. q\<lparr>ep_failed_claim_attempts := min 32 (ep_failed_claim_attempts q + 1)\<rparr>) (os_pairings s)"
    by (simp add: record_failed_attempt_def)
qed (auto simp: failed_attempt_keys pairing_constraints_def split: option.splits pairing_status.splits)

lemma claimed_keys:
  "same_pairing_key (claimed_pairing env input h p) q = same_pairing_key p q"
  "same_pairing_key q (claimed_pairing env input h p) = same_pairing_key q p"
  by (simp_all add: same_pairing_key_def claimed_pairing_def)

lemma rates_pairings_ok [simp]: "pairings_ok (s\<lparr>os_rates := rates\<rparr>) = pairings_ok s"
  by (simp add: pairings_ok_def)

lemma rates_answer [simp]: "claim_answer heartbeat dig (s\<lparr>os_rates := rates\<rparr>) = claim_answer heartbeat dig s"
proof -
  have "claimed_again heartbeat p i k (s\<lparr>os_rates := rates\<rparr>) = claimed_again heartbeat p i k s" for p i k
    by (simp add: claimed_again_def load_claimed_credential_def load_server_id_def)
  moreover have "os_pairings (s\<lparr>os_rates := rates\<rparr>) = os_pairings s" by simp
  ultimately show ?thesis unfolding claim_answer_def by (simp only:)
qed

lemma failed_attempt_answer:
  assumes "claim_answer heartbeat dig s = Some a"
  shows "claim_answer heartbeat dig (record_failed_attempt p s) = Some a"
proof (rule claim_answer_mono [OF assms])
  show "db_credentials (os_db (record_failed_attempt p s)) = db_credentials (os_db s) @ []"
    by (simp add: record_failed_attempt_def)
  fix q assume "select_one (\<lambda>p. ep_pairing_code_hash p = dig) (os_pairings s) = Some q"
  then have "select_one (\<lambda>p. ep_pairing_code_hash p = dig) (os_pairings (record_failed_attempt p s))
      = Some (if ep_id q = ep_id p then q\<lparr>ep_failed_claim_attempts := min 32 (ep_failed_claim_attempts q + 1)\<rparr> else q)"
    by (simp add: record_failed_attempt_def select_one_update)
  then show "\<exists>p'. select_one (\<lambda>p. ep_pairing_code_hash p = dig) (os_pairings (record_failed_attempt p s)) = Some p'
        \<and> ep_status p' = ep_status q \<and> ep_claimed_public_key_hash p' = ep_claimed_public_key_hash q
        \<and> ep_claimed_instance_id p' = ep_claimed_instance_id q \<and> ep_claimed_key_id p' = ep_claimed_key_id q
        \<and> ep_logical_agent_id p' = ep_logical_agent_id q" by auto
qed (simp add: record_failed_attempt_def)

lemma first_claim_answers:
  assumes ok: "pairings_ok s" and p: "select_one (\<lambda>p. ep_pairing_code_hash p = dig) (os_pairings s) = Some p"
    "ep_status p = Pairing_pending" and claim: "claim_pending env input heartbeat h p s = Inr (r, s')"
  shows "pairings_ok s'" "claim_answer heartbeat dig s' = Some (h, r)"
    and "claim_answer heartbeat dig' s = Some a \<Longrightarrow> claim_answer heartbeat dig' s' = Some a"
proof -
  note facts = claim_pending_facts [OF claim]
  have pairings: "os_pairings s' = update_where (\<lambda>q. ep_id q = ep_id p) (claimed_pairing env input h) (os_pairings s)"
    by (simp add: facts(1))
  show "pairings_ok s'"
    by (rule pairings_okI [OF ok pairings]) (use facts(4) in \<open>auto simp: claimed_keys\<close>)
  have hash: "ep_pairing_code_hash (if ep_id q = ep_id p then claimed_pairing env input h q else q) = ep_pairing_code_hash q" for q
    by (simp add: claimed_pairing_def)
  have sel: "select_one (\<lambda>p. ep_pairing_code_hash p = d) (os_pairings s')
      = map_option (\<lambda>q. if ep_id q = ep_id p then claimed_pairing env input h q else q)
          (select_one (\<lambda>p. ep_pairing_code_hash p = d) (os_pairings s))" for d
    unfolding pairings by (rule select_one_update) (simp add: hash)
  have creds: "db_credentials (os_db s') = db_credentials (os_db s) @ [new_credential env input]"
    by (simp add: facts(1) claimed_db_def activate_instance_def)
  have cred: "select_one (\<lambda>c. cr_key_id c = ce_key_id env \<and> cr_instance_id c = ce_instance_id env \<and> cr_revoked_at c = None)
      (db_credentials (os_db s')) = Some (new_credential env input)"
  proof -
    have "select_one (\<lambda>c. cr_key_id c = ce_key_id env \<and> cr_instance_id c = ce_instance_id env \<and> cr_revoked_at c = None)
      (db_credentials (os_db s)) = None" using facts(3) by (auto simp: select_one_None_iff)
    then show ?thesis by (simp add: creds select_one_append new_credential_def)
  qed
  from facts(2) obtain serverId where sid: "os_server_id s = Some serverId"
    "r = claim_result serverId (ce_instance_id env) (ce_key_id env) (ep_logical_agent_id p) heartbeat (ce_valid_until env)"
    by blast
  have "claimed_again heartbeat (claimed_pairing env input h p) (ce_instance_id env) (ce_key_id env) s' = Inr r"
    using cred sid by (simp add: claimed_again_def load_claimed_credential_def load_server_id_def facts(1)
        claimed_pairing_def new_credential_def)
  then show "claim_answer heartbeat dig s' = Some (h, r)"
    unfolding claim_answer_Some using p(1) by (auto simp: sel claimed_pairing_def)
  show "claim_answer heartbeat dig' s' = Some a" if "claim_answer heartbeat dig' s = Some a"
  proof (rule claim_answer_mono [OF that _ creds])
    show "os_server_id s' = os_server_id s" by (simp add: facts(1))
    fix q assume q: "select_one (\<lambda>p. ep_pairing_code_hash p = dig') (os_pairings s) = Some q" "ep_status q = Pairing_claimed"
    have "ep_id q \<noteq> ep_id p"
    proof
      assume "ep_id q = ep_id p"
      then have "same_pairing_key q p" by (simp add: same_pairing_key_def)
      with pairings_distinct [OF ok] select_one_SomeD [OF q(1)] select_one_SomeD [OF p(1)] have "q = p" by blast
      with q(2) p(2) show False by simp
    qed
    then show "\<exists>p'. select_one (\<lambda>p. ep_pairing_code_hash p = dig') (os_pairings s') = Some p'
        \<and> ep_status p' = ep_status q \<and> ep_claimed_public_key_hash p' = ep_claimed_public_key_hash q
        \<and> ep_claimed_instance_id p' = ep_claimed_instance_id q \<and> ep_claimed_key_id p' = ep_claimed_key_id q
        \<and> ep_logical_agent_id p' = ep_logical_agent_id q" by (simp add: sel q(1))
  qed
qed


text \<open>One call of the service.\<close>

lemma service_step:
  assumes call: "service heartbeat call s = (reply, s')" and ok: "pairings_ok s"
  shows "pairings_ok s'"
    and "claim_answer heartbeat dig s = Some a \<Longrightarrow> claim_answer heartbeat dig s' = Some a"
    and "call = Claim env input ip \<Longrightarrow> reply = Pairing_claimed_as r \<Longrightarrow>
      claim_answer heartbeat (digest_capability (ce_sha256 env) (cl_pairingCode input)) s'
        = Some (ce_sha256 env (cl_publicKey input), r)"
proof -
  have "pairings_ok s' \<and> (\<forall>dig a. claim_answer heartbeat dig s = Some a \<longrightarrow> claim_answer heartbeat dig s' = Some a)
    \<and> (\<forall>env input ip r. call = Claim env input ip \<longrightarrow> reply = Pairing_claimed_as r \<longrightarrow>
      claim_answer heartbeat (digest_capability (ce_sha256 env) (cl_pairingCode input)) s'
        = Some (ce_sha256 env (cl_publicKey input), r))"
  proof (cases call)
    case (Create_office env input ip)
    with call obtain res where create: "create_office env input ip s = (res, s')" by (auto simp: apfst_def map_prod_def split: prod.splits)
    note ext = create_office_extends [OF create]
    have "pairings_ok s'"
      using ext(3)
    proof
      assume new: "os_pairings s' = os_pairings s @ [new_pairing env] \<and> pairing_constraints (new_pairing env)
        \<and> (\<forall>p\<in>set (os_pairings s). \<not> same_pairing_key (new_pairing env) p)"
      then have "\<not> same_pairing_key p (new_pairing env)" if "p \<in> set (os_pairings s)" for p
        using that same_pairing_key_sym by blast
      with new ok show ?thesis by (auto simp: pairings_ok_def sorted_wrt_append)
    qed (use ok in \<open>simp add: pairings_ok_def\<close>)
    moreover have "claim_answer heartbeat dig s' = Some a" if "claim_answer heartbeat dig s = Some a" for dig a
      by (rule claim_answer_mono [OF that ext(2), of "[]"])
        (use ext(1,3) in \<open>auto simp: select_one_append\<close>)
    ultimately show ?thesis using Create_office by simp
  next
    case (Poll_status env token ip)
    with call obtain res where "get_pairing_status env token ip s = (res, s')" by (auto simp: apfst_def map_prod_def split: prod.splits)
    from poll_unchanged [OF this] Poll_status ok show ?thesis by auto
  next
    case (Claim env input ip)
    with call obtain res where claim: "claim_pairing env input ip heartbeat s = (res, s')"
      and reply: "reply = case_sum Call_refused Pairing_claimed_as res" by (auto simp: apfst_def map_prod_def split: prod.splits)
    from claim show ?thesis
    proof (cases rule: claim_cases)
      case (counted p e rates)
      then show ?thesis using ok reply by (simp add: failed_attempt_ok failed_attempt_answer)
    next
      case (again p i k r rates)
      then have "claim_answer heartbeat (digest_capability (ce_sha256 env) (cl_pairingCode input)) (s\<lparr>os_rates := rates\<rparr>)
          = Some (ce_sha256 env (cl_publicKey input), r)"
        unfolding claim_answer_Some by auto
      with again ok reply Claim show ?thesis by auto
    next
      case (first p r rates)
      have "pairings_ok (s\<lparr>os_rates := rates\<rparr>)" using ok by simp
      from first_claim_answers [OF this _ first(2,5)] first(1,4) reply Claim show ?thesis by auto
    qed (use ok reply in auto)
  qed
  then show "pairings_ok s'"
    "claim_answer heartbeat dig s = Some a \<Longrightarrow> claim_answer heartbeat dig s' = Some a"
    "call = Claim env input ip \<Longrightarrow> reply = Pairing_claimed_as r \<Longrightarrow>
      claim_answer heartbeat (digest_capability (ce_sha256 env) (cl_pairingCode input)) s'
        = Some (ce_sha256 env (cl_publicKey input), r)" by blast+
qed

lemma serve_Cons:
  assumes "serve heartbeat (call # calls) s = (replies, s'')"
  obtains reply s' rest where "service heartbeat call s = (reply, s')" "serve heartbeat calls s' = (rest, s'')"
    "replies = reply # rest"
  using assms by (auto simp: apfst_def map_prod_def split: prod.splits)

lemma serve_answer:
  assumes "serve heartbeat calls s = (replies, s')" "pairings_ok s" "claim_answer heartbeat dig s = Some (h, r)"
    and "(Claim env input ip, Pairing_claimed_as r') \<in> set (zip calls replies)"
    and "digest_capability (ce_sha256 env) (cl_pairingCode input) = dig"
  shows "r' = r \<and> ce_sha256 env (cl_publicKey input) = h"
  using assms
proof (induction calls arbitrary: s replies)
  case (Cons call calls)
  from Cons.prems(1) obtain reply s1 rest where step: "service heartbeat call s = (reply, s1)"
    "serve heartbeat calls s1 = (rest, s')" "replies = reply # rest" by (rule serve_Cons)
  note s1 = service_step [OF step(1) Cons.prems(2)]
  show ?case
  proof (cases "(Claim env input ip, Pairing_claimed_as r') = (call, reply)")
    case True
    then have "claim_answer heartbeat dig s1 = Some (ce_sha256 env (cl_publicKey input), r')"
      using s1(3) [of env input ip r'] Cons.prems(5) by simp
    with s1(2) [OF Cons.prems(3)] show ?thesis by simp
  next
    case False
    with Cons.IH [OF step(2) s1(1) s1(2) [OF Cons.prems(3)]] Cons.prems(4,5) step(3) show ?thesis by auto
  qed
qed simp

lemma serve_claims_agree:
  assumes "serve heartbeat calls s = (replies, s')" "pairings_ok s"
    and "(Claim env input ip, Pairing_claimed_as r) \<in> set (zip calls replies)"
    and "(Claim env' input' ip', Pairing_claimed_as r') \<in> set (zip calls replies)"
    and "ce_sha256 env' = ce_sha256 env" "cl_pairingCode input' = cl_pairingCode input"
  shows "r' = r \<and> ce_sha256 env (cl_publicKey input') = ce_sha256 env (cl_publicKey input)"
  using assms(1-4)
proof (induction calls arbitrary: s replies)
  case (Cons call calls)
  from Cons.prems(1) obtain reply s1 rest where step: "service heartbeat call s = (reply, s1)"
    "serve heartbeat calls s1 = (rest, s')" "replies = reply # rest" by (rule serve_Cons)
  note s1 = service_step [OF step(1) Cons.prems(2)]
  note later = serve_answer [OF step(2) s1(1)]
  have mem: "(Claim env input ip, Pairing_claimed_as r) = (call, reply) \<or> (Claim env input ip, Pairing_claimed_as r) \<in> set (zip calls rest)"
    "(Claim env' input' ip', Pairing_claimed_as r') = (call, reply) \<or> (Claim env' input' ip', Pairing_claimed_as r') \<in> set (zip calls rest)"
    using Cons.prems(3,4) step(3) by auto
  from mem show ?case
  proof (elim disjE)
    assume "(Claim env input ip, Pairing_claimed_as r) = (call, reply)"
      "(Claim env' input' ip', Pairing_claimed_as r') = (call, reply)"
    then show ?thesis by auto
  next
    assume head: "(Claim env input ip, Pairing_claimed_as r) = (call, reply)"
      and tail: "(Claim env' input' ip', Pairing_claimed_as r') \<in> set (zip calls rest)"
    from head have "claim_answer heartbeat (digest_capability (ce_sha256 env) (cl_pairingCode input)) s1
        = Some (ce_sha256 env (cl_publicKey input), r)" by (intro s1(3) [where ip = ip]) simp_all
    from later [OF this tail] assms(5,6) show ?thesis by simp
  next
    assume tail: "(Claim env input ip, Pairing_claimed_as r) \<in> set (zip calls rest)"
      and head: "(Claim env' input' ip', Pairing_claimed_as r') = (call, reply)"
    from head have "claim_answer heartbeat (digest_capability (ce_sha256 env') (cl_pairingCode input')) s1
        = Some (ce_sha256 env' (cl_publicKey input'), r')" by (intro s1(3) [where ip = ip']) simp_all
    from later [OF this tail] assms(5,6) show ?thesis by simp
  next
    assume "(Claim env input ip, Pairing_claimed_as r) \<in> set (zip calls rest)"
      "(Claim env' input' ip', Pairing_claimed_as r') \<in> set (zip calls rest)"
    then show ?thesis by (rule Cons.IH [OF step(2) s1(1)])
  qed
qed simp


text \<open>
  C32: A pairing is claimed once. Whatever calls a service answers, any two successful claims of
  one pairing code return the same server, instance, key and expiry, and were made with device
  keys of the same digest: a repeated claim is a read, and no other key ever gets in.
\<close>

theorem pairing_claimed_once:
  assumes "serve heartbeat calls s = (replies, s')" "pairings_ok s"
    and "(Claim env input ip, Pairing_claimed_as r) \<in> set (zip calls replies)"
    and "(Claim env' input' ip', Pairing_claimed_as r') \<in> set (zip calls replies)"
    and "ce_sha256 env' = ce_sha256 env" "cl_pairingCode input' = cl_pairingCode input"
  shows "r' = r \<and> ce_sha256 env (cl_publicKey input') = ce_sha256 env (cl_publicKey input)"
  using assms by (rule serve_claims_agree)

section \<open>Failed claims never lock a pairing\<close>

definition call_now :: "onboarding_call \<Rightarrow> timestamp_us" where
  "call_now call = (case call of Create_office env _ _ \<Rightarrow> ce_now env | Poll_status env _ _ \<Rightarrow> ce_now env
     | Claim env _ _ \<Rightarrow> ce_now env)"

text \<open>A pending pairing counts a failed claim only once it has expired.\<close>

definition counts_late :: "timestamp_us \<Rightarrow> onboarding_store \<Rightarrow> bool" where
  "counts_late t s \<longleftrightarrow> list_all (\<lambda>p. ep_status p = Pairing_pending \<longrightarrow> 0 < ep_failed_claim_attempts p
     \<longrightarrow> ep_expires_at p \<le> to_date t) (os_pairings s)"

lemma counts_late_mono: "counts_late t s \<Longrightarrow> t \<le> t' \<Longrightarrow> counts_late t' s"
  using to_date_mono [of t t'] by (fastforce simp: counts_late_def list_all_iff)

lemma service_counts:
  assumes call: "service heartbeat call s = (reply, s')" and ok: "pairings_ok s" and late: "counts_late t s" "t \<le> call_now call"
  shows "counts_late (call_now call) s'" "call = Claim env input ip \<Longrightarrow> reply \<noteq> Call_refused pairing_locked"
proof -
  note now = counts_late_mono [OF late]
  have "counts_late (call_now call) s' \<and> (\<forall>env input ip. call = Claim env input ip \<longrightarrow> reply \<noteq> Call_refused pairing_locked)"
  proof (cases call)
    case (Create_office env input ip)
    with call obtain res where "create_office env input ip s = (res, s')" by (auto simp: apfst_def map_prod_def split: prod.splits)
    from create_office_extends(3) [OF this] now Create_office show ?thesis
      by (auto simp: counts_late_def new_pairing_def)
  next
    case (Poll_status env token ip)
    with call obtain res where "get_pairing_status env token ip s = (res, s')" by (auto simp: apfst_def map_prod_def split: prod.splits)
    from poll_unchanged [OF this] Poll_status now show ?thesis by (auto simp: counts_late_def)
  next
    case (Claim env input ip)
    with call obtain res where claim: "claim_pairing env input ip heartbeat s = (res, s')"
      and reply: "reply = case_sum Call_refused Pairing_claimed_as res" by (auto simp: apfst_def map_prod_def split: prod.splits)
    have at: "call_now call = ce_now env" by (simp add: call_now_def Claim)
    from claim show ?thesis
    proof (cases rule: claim_cases)
      case (locked p rates)
      with now show ?thesis by (auto simp: counts_late_def list_all_iff at)
    next
      case (counted p e rates)
      have "ep_expires_at q \<le> to_date (ce_now env)" if "q \<in> set (os_pairings s)" "ep_id q = ep_id p" "ep_status q = Pairing_pending" for q
        using pairings_distinct [OF ok that(1) counted(1)] that counted(5) by (auto simp: same_pairing_key_def)
      then have "counts_late (call_now call) s'"
        using now unfolding counted(4) at
        by (auto simp: counts_late_def list_all_iff record_failed_attempt_def set_update_where)
      with counted reply show ?thesis by simp
    next
      case (first p r rates)
      from claim_pending_facts(1) [OF first(5)] now reply first(4) show ?thesis
        by (auto simp: counts_late_def list_all_iff set_update_where claimed_pairing_def)
    qed (use now reply in \<open>auto simp: counts_late_def\<close>)
  qed
  then show "counts_late (call_now call) s'" "call = Claim env input ip \<Longrightarrow> reply \<noteq> Call_refused pairing_locked" by blast+
qed

lemma serve_never_locks:
  assumes "serve heartbeat calls s = (replies, s')" "pairings_ok s" "counts_late t s" "sorted (t # map call_now calls)"
  shows "(Claim env input ip, Call_refused pairing_locked) \<notin> set (zip calls replies)"
  using assms
proof (induction calls arbitrary: s replies t)
  case (Cons call calls)
  from Cons.prems(1) obtain reply s1 rest where step: "service heartbeat call s = (reply, s1)"
    "serve heartbeat calls s1 = (rest, s')" "replies = reply # rest" by (rule serve_Cons)
  have le: "t \<le> call_now call" "sorted (call_now call # map call_now calls)" using Cons.prems(4) by simp_all
  note s1 = service_step(1) [OF step(1) Cons.prems(2)] service_counts [OF step(1) Cons.prems(2,3) le(1)]
  from Cons.IH [OF step(2) s1(1,2) le(2)] s1(3) [of env input ip] show ?case by (auto simp: step(3))
qed simp


section \<open>The device of a claim\<close>



section \<open>A sample pairing\<close>

definition sample_pairing :: pairing_row where
  "sample_pairing = \<lparr>ep_id = ''q'', ep_account_id = ''c'', ep_office_id = ''f'', ep_logical_agent_id = ''g'',
     ep_mount_id = ''m'', ep_pairing_code_hash = replicate 32 65, ep_status_secret_hash = replicate 32 66,
     ep_status = Pairing_pending, ep_failed_claim_attempts = 0, ep_claimed_public_key_hash = None,
     ep_claimed_instance_id = None, ep_claimed_key_id = None, ep_claimed_client_version = None,
     ep_created_at = 0, ep_expires_at = 300000, ep_claimed_at = None\<rparr>"

definition sample_pairing_store :: onboarding_store where
  "sample_pairing_store = \<lparr>os_db = empty_db\<lparr>db_agents := [\<lparr>ag_id = ''g'', ag_owner_account_id = ''c'',
       ag_alias = js ''bob'', ag_pet_id = ''bloop'', ag_active_reporting_instance_id = None\<rparr>]\<rparr>,
     os_accounts = [], os_memberships = [], os_pairings = [sample_pairing], os_server_id = Some ''s'', os_rates = Map.empty\<rparr>"

definition sample_claim_env :: "timestamp_us \<Rightarrow> uuid \<Rightarrow> claim_env" where
  "sample_claim_env t i = \<lparr>ce_sha256 = sample_sha, ce_rate_now = t, ce_rate_clock = t, ce_now = t, ce_later = t,
     ce_instance_id = i, ce_key_id = i, ce_valid_until = 900000\<rparr>"

definition sample_claim_input :: "nat \<Rightarrow> claim_input" where
  "sample_claim_input b = \<lparr>cl_pairingCode = replicate 43 65, cl_publicKey = replicate 32 b, cl_clientVersion = ''1.0.0''\<rparr>"

definition sample_claim :: claim_pairing_result where
  "sample_claim = claim_result ''s'' ''i'' ''i'' ''g'' 30 900000"

lemma sample_pairings_ok: "pairings_ok sample_pairing_store"
  by (simp add: pairings_ok_def sample_pairing_store_def sample_pairing_def pairing_constraints_def)

lemma sample_digests: "sample_sha (utf8 (replicate 43 65)) = replicate 32 65" "sample_sha (replicate 32 b) = replicate 32 b"
  "length (sample_sha (utf8 (js ''p''))) = 32"
proof -
  have "utf8 (replicate 43 65) = replicate 43 65" by (rule utf8_ascii) simp
  then show "sample_sha (utf8 (replicate 43 65)) = replicate 32 65"
    by (simp add: sample_sha_def) (simp add: numeral_eq_Suc)
  show "sample_sha (replicate 32 b) = replicate 32 b"
    by (simp add: sample_sha_def) (simp add: numeral_eq_Suc)
qed (simp add: sample_sha_def js_def utf8_def utf8_point_def)

text \<open>The first claim, its repetition, and a claim with another key.\<close>

lemma sample_claims:
  "\<exists>s'. serve 30 [Claim (sample_claim_env 1000 ''i'') (sample_claim_input 7) ''p'',
       Claim (sample_claim_env 2000 ''j'') (sample_claim_input 7) ''p'',
       Claim (sample_claim_env 3000 ''k'') (sample_claim_input 8) ''p''] sample_pairing_store
     = ([Pairing_claimed_as sample_claim, Pairing_claimed_as sample_claim, Call_refused pairing_conflict], s')"
  by (simp add: claim_pairing_def rate_limited_def consume_onboarding_rate_limit_def Let_def sample_claim_env_def
      sample_pairing_store_def sample_digests onboarding_row_def increment_def onboarding_row_ok_def counter_ok_def
      LIMITS_def kind_count_def claim_transaction_def digest_capability_def sample_claim_input_def sample_pairing_def
      to_date_def MAX_FAILED_PAIRING_ATTEMPTS_def transaction_def claim_pending_def find_agent_def on_db_def insert_defs
      insert_unique_def check_row_def empty_db_def unique_as_conflict_def empty_edge_store_def activate_instance_def
      mark_claimed_def claimed_pairing_def pairing_constraints_def load_server_id_def claim_result_def sample_claim_def
      update_where_def claimed_again_def load_claimed_credential_def record_failed_attempt_def)


lemma pairing_claimed_once_witness:
  "\<exists>replies s' r r'. serve 30 [Claim (sample_claim_env 1000 ''i'') (sample_claim_input 7) ''p'',
       Claim (sample_claim_env 2000 ''j'') (sample_claim_input 7) ''p'',
       Claim (sample_claim_env 3000 ''k'') (sample_claim_input 8) ''p''] sample_pairing_store = (replies, s')
    \<and> replies = [Pairing_claimed_as r, Pairing_claimed_as r', Call_refused pairing_conflict]
    \<and> r' = r \<and> sample_sha (cl_publicKey (sample_claim_input 7)) = replicate 32 7"
proof -
  from sample_claims obtain s' where run: "serve 30 [Claim (sample_claim_env 1000 ''i'') (sample_claim_input 7) ''p'',
       Claim (sample_claim_env 2000 ''j'') (sample_claim_input 7) ''p'',
       Claim (sample_claim_env 3000 ''k'') (sample_claim_input 8) ''p''] sample_pairing_store
     = ([Pairing_claimed_as sample_claim, Pairing_claimed_as sample_claim, Call_refused pairing_conflict], s')" by blast
  have "sample_claim = sample_claim \<and> ce_sha256 (sample_claim_env 1000 ''i'') (cl_publicKey (sample_claim_input 7))
      = ce_sha256 (sample_claim_env 1000 ''i'') (cl_publicKey (sample_claim_input 7))"
    by (rule pairing_claimed_once [OF run sample_pairings_ok,
          where ip = "''p''" and ip' = "''p''" and env' = "sample_claim_env 2000 ''j''"])
      (simp_all add: sample_claim_env_def)
  with run show ?thesis using sample_digests(2) [of 7] by (simp add: sample_claim_input_def)
qed



end
