(* ===== verification/Onboarding_Open.thy ===== *)
theory Onboarding_Open
  imports Onboarding_Claims
begin

text \<open>
  The office that onboarding creates: its first revision can be read with the returned token and
  its pairing polled, shown on top of the invariants of logs, tokens and pairings, and carried
  out on a sample store.
\<close>

section \<open>A created office is open\<close>

lemma created_db_logs:
  fixes input effective rules
  assumes ok: "logs_ok d" and new: "ce_office env \<notin> set (map of_id (db_offices d))"
    and fresh: "office_events d (ce_office env) = []" "projection_rows d (ce_office env) = []"
  defines "e \<equiv> created_db env input effective rules d"
  shows "logs_ok e" "log_head e (ce_office env) = 0" "office_rows e (ce_office env) = [new_office env input]"
    and "oid \<noteq> ce_office env \<Longrightarrow> same_log oid d e"
proof -
  have other: "same_log oid d e" if "oid \<noteq> ce_office env" for oid
    using that by (simp add: same_log_def e_def created_db_def office_rows_def office_events_def projection_rows_def new_office_def)
  show "oid \<noteq> ce_office env \<Longrightarrow> same_log oid d e" by (rule other)
  have "filter (\<lambda>x. of_id x = ce_office env) (db_offices d) = []" using new by (force simp: filter_empty_conv)
  then show rows: "office_rows e (ce_office env) = [new_office env input]"
    by (simp add: e_def created_db_def office_rows_def new_office_def)
  then show "log_head e (ce_office env) = 0" by (simp add: log_head_def new_office_def)
  have "office_events e (ce_office env) = []" "projection_rows e (ce_office env) = []"
    using fresh by (simp_all add: e_def created_db_def office_events_def projection_rows_def)
  with rows have "log_ok e (ce_office env)"
    by (simp add: log_ok_def log_floor_def log_head_def new_office_def MAX_SAFE_INTEGER_def)
  moreover have "log_ok e oid" if "oid \<in> set (map of_id (db_offices d))" for oid
    using that ok new same_log_ok(1) [OF other [of oid]] by (metis logs_ok_def)
  moreover have "outbox_ok e" using ok by (simp add: logs_ok_def outbox_ok_def e_def created_db_def)
  ultimately show "logs_ok e" by (auto simp: logs_ok_def e_def created_db_def new_office_def)
qed

lemma capability_token: "capability_pattern raw \<Longrightarrow> TOKEN_PATTERN raw"
  by (auto simp: capability_pattern_def TOKEN_PATTERN_def list_all_iff capability_unit_def identifier_unit_def
      digit_unit_def token_char_def)

lemma created_office_logs:
  assumes create: "create_office env input ip s = (Inr r, s')" and ok: "logs_ok (os_db s)" "tokens_ok (os_db s)"
    and fresh: "office_events (os_db s) (ce_office env) = []" "projection_rows (os_db s) (ce_office env) = []"
  obtains "logs_ok (os_db s')" "tokens_ok (os_db s')" "r = new_result env" "log_head (os_db s') (ce_office env) = 1"
    "lock_office (ce_office env) (os_db s') \<noteq> None" "new_view_token env \<in> set (db_view_tokens (os_db s'))"
    "office_events (os_db s') (ce_office env) \<noteq> []" "\<And>oid. log_evolves oid (os_db s) (os_db s')" "os_pairings s' = os_pairings s @ [new_pairing env]"
    "\<forall>p\<in>set (os_pairings s). \<not> same_pairing_key (new_pairing env) p"
proof -
  from create obtain rates where t: "transaction (create_office_onboarding env input) (s\<lparr>os_rates := rates\<rparr>) = (Inr r, s')"
    unfolding create_office_def by (cases rule: rate_limited_cases) simp_all
  then have "create_office_onboarding env input (s\<lparr>os_rates := rates\<rparr>) = Inr (r, s')"
    by (auto simp: transaction_def split: sum.splits)
  then obtain effective rules snap e accounts memberships where
    rec: "record_revision (ce_projector env) (seed_revision env)
        (created_db env input effective rules (os_db (s\<lparr>os_rates := rates\<rparr>))) = Inr (snap, e)"
    and s': "s' = (s\<lparr>os_rates := rates\<rparr>)\<lparr>os_db := e, os_accounts := accounts, os_memberships := memberships,
        os_pairings := os_pairings (s\<lparr>os_rates := rates\<rparr>) @ [new_pairing env]\<rparr>"
    and r: "r = new_result env" and new: "ce_office env \<notin> set (map of_id (db_offices (os_db (s\<lparr>os_rates := rates\<rparr>))))"
    and "pairing_constraints (new_pairing env)"
    and key: "\<forall>p\<in>set (os_pairings (s\<lparr>os_rates := rates\<rparr>)). \<not> same_pairing_key (new_pairing env) p"
    and tok: "insert_view_token (new_view_token env) (os_db (s\<lparr>os_rates := rates\<rparr>))
      = Inr ((os_db (s\<lparr>os_rates := rates\<rparr>))\<lparr>db_view_tokens := db_view_tokens (os_db (s\<lparr>os_rates := rates\<rparr>)) @ [new_view_token env]\<rparr>)"
    by (rule create_office_cases)
  let ?d = "os_db s"
  let ?c = "created_db env input effective rules ?d"
  note rec = record_revision_Inr [OF rec, simplified]
  from new have new: "ce_office env \<notin> set (map of_id (db_offices ?d))" by simp
  note c = created_db_logs [OF ok(1) new fresh, where input = input and effective = effective and rules = rules]
  have at: "ri_officeId (seed_revision env) = ce_office env" by (simp add: seed_revision_def)
  have logc: "log_ok ?c (ce_office env)" using c(1,3) by (auto simp: logs_ok_def created_db_def new_office_def)
  note step = record_log_step [OF rec logc [folded at], unfolded at]
  have ev: "db_evolves ?c e" by (rule record_db_evolves [OF rec])
  have loge: "logs_ok e" using ev c(1) by (simp add: db_evolves_def)
  have out: "same_outside ?c e" by (rule record_same_outside [OF rec])
  have toks: "db_view_tokens e = db_view_tokens ?d @ [new_view_token env]"
    using out by (simp add: same_outside_def created_db_def)
  have "tokens_ok (?d\<lparr>db_view_tokens := db_view_tokens ?d @ [new_view_token env]\<rparr>)"
    by (rule insert_view_token_ok [OF _ ok(2)]) (use tok in simp)
  then have toke: "tokens_ok e" by (simp add: tokens_ok_def toks)
  have "office_rows e (ce_office env) = map (\<lambda>o'. o'\<lparr>of_revision := log_head ?c (ce_office env) + 1,
      of_minimum_replay_revision := of_minimum_replay_revision o'\<rparr>) (office_rows ?c (ce_office env))"
    using record_rows(3) [OF rec logc [folded at]] by (simp add: at)
  then have "office_rows e (ce_office env) = [new_office env input\<lparr>of_revision := 1\<rparr>]"
    by (simp add: c(2,3) new_office_def)
  then have "filter (\<lambda>x. of_id x = ce_office env \<and> of_deletion_requested_at x = None) (db_offices e) \<noteq> []"
    by (auto simp: office_rows_def new_office_def filter_eq_Cons_iff filter_empty_conv)
  then have lock: "lock_office (ce_office env) e \<noteq> None"
    by (auto simp: lock_office_def select_one_None_iff filter_empty_conv)
  have evolves: "log_evolves oid ?d e" for oid
  proof (cases "oid = ce_office env")
    case True
    with new show ?thesis using log_ok_office by (auto simp: log_evolves_def)
  next
    case False
    with ev c(1) same_log_evolves [OF c(4) [OF False]] show ?thesis
      by (auto simp: db_evolves_def intro: log_evolves_trans)
  qed
  have "office_events e (ce_office env) \<noteq> []" using step by auto
  then show thesis
    by (intro that) (use loge toke r step c(2) lock evolves key in \<open>simp_all add: s' toks\<close>)
qed

text \<open>
  C33: A created office is open and waiting for its device. When creating an office succeeds with
  an office id no log row mentions, all logs and tokens are sound, other logs have only evolved,
  the token at the end of the returned URL reads the office at its first revision at any time,
  and the returned status token polls the pairing as pending until it expires and as expired from
  then on.
\<close>

theorem created_office_is_open:
  assumes create: "create_office env input ip s = (Inr r, s')" and ok: "logs_ok (os_db s)" "tokens_ok (os_db s)" "pairings_ok s"
    and fresh: "office_events (os_db s) (ce_office env) = []" "projection_rows (os_db s) (ce_office env) = []"
    and random: "length (ce_view_bytes env) = 32" "list_all (\<lambda>b. b < 256) (ce_view_bytes env)"
    and same_hash: "ce_sha256 poll = ce_sha256 env"
  shows "logs_ok (os_db s') \<and> tokens_ok (os_db s') \<and> pairings_ok s' \<and> log_evolves oid (os_db s) (os_db s')
    \<and> (\<exists>raw snapshot. rs_office_url r = js ''/o/'' @ raw
        \<and> get_snapshot (ce_sha256 env) clock raw (os_db s') = Inr (Some snapshot)
        \<and> sn_officeId snapshot = ce_office env \<and> sn_revision snapshot = 1)
    \<and> fst (poll_pairing poll (rs_status_token r) s')
        = Inr (if snd (onboarding_clock env) \<le> to_date (ce_now poll) then Status_expired else Status_pending)"
proof -
  from create ok(1,2) fresh have logs: "logs_ok (os_db s')" and toks: "tokens_ok (os_db s')" and r: "r = new_result env"
    and head: "log_head (os_db s') (ce_office env) = 1" and lock: "lock_office (ce_office env) (os_db s') \<noteq> None"
    and tok: "new_view_token env \<in> set (db_view_tokens (os_db s'))" and ev: "log_evolves oid (os_db s) (os_db s')"
    and ne: "office_events (os_db s') (ce_office env) \<noteq> []" and ps: "os_pairings s' = os_pairings s @ [new_pairing env]"
    and key: "\<forall>p\<in>set (os_pairings s). \<not> same_pairing_key (new_pairing env) p"
    by (rule created_office_logs; blast)+
  have "service heartbeat (Create_office env input ip) s = (Office_created r, s')" for heartbeat
    using create by simp
  from service_step(1) [OF this ok(3)] have pairings: "pairings_ok s'" .
  let ?raw = "ic_raw (issue_capability (ce_sha256 env) (ce_view_bytes env))"
  have "TOKEN_PATTERN ?raw"
    using base64url_shape [OF random(1)] random(2) by (simp add: issue_capability_def capability_token list_all_iff Let_def)
  with tok have tk: "new_view_token env \<in> set (opening_tokens (capability_for (ce_sha256 env) ?raw) clock (os_db s'))"
    by (simp add: opening_tokens_def capability_for_def new_view_token_def token_live_def issue_capability_def
        digest_capability_def Let_def)
  from lock obtain office where lk: "lock_office (vt_office_id (new_view_token env)) (os_db s') = Some office"
    by (auto simp: new_view_token_def)
  from ne have "office_events (os_db s') (vt_office_id (new_view_token env)) \<noteq> []" by (simp add: new_view_token_def)
  from get_snapshot_row [OF logs toks tk lk this] obtain snapshot where
    snap: "get_snapshot (ce_sha256 env) clock ?raw (os_db s') = Inr (Some snapshot)"
      "sn_officeId snapshot = ce_office env" by (auto simp: new_view_token_def)
  with snapshot_is_head [OF snap(1) logs] head have "sn_revision snapshot = 1" by simp
  moreover have "select_one (\<lambda>p. ep_status_secret_hash p = digest_capability (ce_sha256 poll) (rs_status_token r)) (os_pairings s')
      = Some (new_pairing env)"
  proof -
    have dig: "digest_capability (ce_sha256 poll) (rs_status_token r) = ep_status_secret_hash (new_pairing env)"
      by (simp add: r new_result_def same_hash new_pairing_def issue_capability_def Let_def)
    have "select_one (\<lambda>p. ep_status_secret_hash p = ep_status_secret_hash (new_pairing env)) (os_pairings s) = None"
      using key by (auto simp: select_one_None_iff same_pairing_key_def)
    then show ?thesis by (simp add: dig ps select_one_append)
  qed
  then have "fst (poll_pairing poll (rs_status_token r) s')
      = Inr (if snd (onboarding_clock env) \<le> to_date (ce_now poll) then Status_expired else Status_pending)"
    by (simp add: poll_pairing_def pairing_status_of_def new_pairing_def)
  moreover have "rs_office_url r = js ''/o/'' @ ?raw" by (simp add: r new_result_def)
  ultimately show ?thesis using logs toks pairings ev snap by blast
qed


section \<open>A sample creation\<close>

text \<open>On a Saturday, in a zone whose offset is zero then; the office of the input takes part in everything.\<close>

definition sample_create_env :: create_env where
  "sample_create_env = \<lparr>ce_sha256 = sample_sha, ce_rate_now = 0, ce_rate_clock = 0, ce_now = 176400000000,
     ce_later = 176400000000, ce_account = ''c'', ce_office = ''f'', ce_room = ''r'', ce_membership = ''b'',
     ce_agent = ''g'', ce_mount = ''m'',
     ce_pairing = ''q'', ce_public_view = ''v'', ce_schedule = ''h'', ce_rule = (\<lambda>n. replicate (nat n) CHR ''u''),
     ce_pairing_bytes = replicate 32 0, ce_status_bytes = replicate 32 1, ce_view_bytes = replicate 32 2,
     ce_projector = \<lparr>px_zones = fold_zone, px_schema = Some (\<lambda>_. True), px_clock = 176400000000, px_outbox_id = ''x'',
       px_occurrence_id = (\<lambda>u _. u)\<rparr>\<rparr>"

definition sample_office_input :: create_office_input where
  "sample_office_input = \<lparr>co_office_name = js ''Lab'', co_alias = js ''bob'', co_pet_id = ''bloop'',
     co_presence_visible = True, co_stats_opt_in = True, co_poster_opt_in = False\<rparr>"

definition empty_onboarding_store :: onboarding_store where
  "empty_onboarding_store = \<lparr>os_db = empty_db, os_accounts = [], os_memberships = [], os_pairings = [],
     os_server_id = Some ''s'', os_rates = Map.empty\<rparr>"

lemma sample_capabilities:
  "length (ic_digest (issue_capability sample_sha (replicate 32 0))) = 32"
  "length (ic_digest (issue_capability sample_sha (replicate 32 1))) = 32"
  "length (ic_digest (issue_capability sample_sha (replicate 32 2))) = 32"
  by (simp_all add: issue_capability_def Let_def digest_capability_def sample_sha_def)

lemma sample_texts: "stored_text (js ''Lab'') = js ''Lab''" "stored_text (js ''bob'') = js ''bob''"
  by (simp_all add: js_def stored_unit_def high_surrogate_def low_surrogate_def)

lemma sample_input_ok: "office_input_ok sample_office_input"
  by (simp add: office_input_ok_def sample_office_input_def sample_texts office_name_constraints_def alias_constraints_def
      pet_id_constraints_def)
    (simp add: js_def high_surrogate_def digit_unit_def)

definition sample_rules :: "schedule_rule_row list" where
  "sample_rules = map (new_schedule_rule sample_create_env) [1..5]"

lemma sample_creation:
  "\<exists>snap e. record_revision (ce_projector sample_create_env) (seed_revision sample_create_env)
     (created_db sample_create_env sample_office_input 2 sample_rules empty_db) = Inr (snap, e)"
proof -
  let ?env = "sample_create_env"
  let ?d = "created_db ?env sample_office_input 2 sample_rules empty_db"
  let ?o = "new_office ?env sample_office_input"
  note defs = sample_create_env_def sample_office_input_def created_db_def new_office_def new_room_def new_agent_def
    new_mount_def new_qualification_def new_schedule_version_def empty_db_def
  have clock: "onboarding_clock ?env = (176400000, 176700000)"
    by (simp add: onboarding_clock_def sample_create_env_def to_date_def PAIRING_LIFETIME_MINUTES_def)
  have oid: "ri_officeId (seed_revision ?env) = ''f''" by (simp add: seed_revision_def sample_create_env_def)
  have at: "projection_clock (ce_projector ?env) (seed_revision ?env) ?d = 176400000"
    by (simp add: projection_clock_def seed_revision_def find_projection_def clock to_timestamp_def to_date_def
        created_db_def empty_db_def)
      (simp add: sample_create_env_def)
  have office: "find_office ?d ''f'' = Some ?o"
    by (simp add: find_office_def created_db_def empty_db_def) (simp add: new_office_def sample_create_env_def)
  have zones: "px_zones (ce_projector ?env) = fold_zone" by (simp add: sample_create_env_def)
  have ens: "ensure_schedule_occurrences_around fold_zone (px_occurrence_id (ce_projector ?env)) ''f'' 176400000 ?d = Inr ?d"
  proof -
    have "tz_plain fold_zone (of_timezone ?o) (176400000 * 1000000) = Some (2, 3600000000000)"
      by (simp add: fold_zone_def day_ns_def hour_ns_def)
    moreover have "version_for_date ?d ''f'' 1 = None"
      by (simp add: version_for_date_def created_db_def empty_db_def new_schedule_version_def first_row_def)
    moreover have "version_for_date ?d ''f'' 2 = Some (new_schedule_version ?env 2)"
      by (simp add: version_for_date_def created_db_def empty_db_def first_row_def sort_by_def)
        (simp add: new_schedule_version_def sample_create_env_def)
    moreover have "rules_for_day ?d ''f'' (sv_id (new_schedule_version ?env 2)) (day_of_week 2) = []"
      by (simp add: rules_for_day_def created_db_def sample_rules_def day_of_week_def new_schedule_rule_def upto_rec1
          sample_create_env_def)
    ultimately show ?thesis
      by (simp add: ensure_schedule_occurrences_around_def office materialize_date_def)
  qed
  have day: "office_day_at fold_zone ?d ?o 176400000 = Inr 2"
    by (simp add: office_day_at_def created_db_def empty_db_def first_row_def fold_zone_def day_ns_def Let_def)
  have wf: "office_wf ?d ''f'' 176400000"
    by (simp add: office_wf_def leaderboard_wf_def created_db_def empty_db_def)
      (simp add: defs onboarding_clock_def to_date_def valid_timestamp_def uuid_form_def
          is_safe_integer_def MAX_SAFE_INTEGER_def js_trim_def
          to_lower_case_def lower_char_def white_char_def)
  have log: "log_ok ?d ''f''" "log_head ?d ''f'' = 0"
  proof -
    have ok: "logs_ok empty_db" by (simp add: logs_ok_def outbox_ok_def empty_db_def)
    have "office_events empty_db (ce_office ?env) = []" "projection_rows empty_db (ce_office ?env) = []"
      "ce_office ?env \<notin> set (map of_id (db_offices empty_db))"
      by (simp_all add: office_events_def projection_rows_def empty_db_def)
    note c = created_db_logs [OF ok this(3,1,2), where input = sample_office_input and effective = 2 and rules = sample_rules]
    have f: "ce_office ?env = ''f''" by (simp add: sample_create_env_def)
    show "log_head ?d ''f'' = 0" using c(2) by (simp add: f)
    have "''f'' \<in> set (map of_id (db_offices ?d))" by (simp add: created_db_def new_office_def f)
    with c(1) show "log_ok ?d ''f''" unfolding logs_ok_def by blast
  qed
  have px: "px_schema (ce_projector ?env) = Some (\<lambda>_. True)" "db_outbox ?d = []" "ri_sourceKey (seed_revision ?env) = js ''onboarding:q''"
    by (simp add: sample_create_env_def, simp add: created_db_def empty_db_def)
      (simp add: seed_revision_def sample_create_env_def)
  have "\<exists>snap e. record_public_revision (ce_projector ?env) (seed_revision ?env) False ?d = Inr (snap, e)"
    by (rule recording_total [where d = ?d and env = "ce_projector ?env" and input = "seed_revision ?env", unfolded oid at zones,
          OF log(1) _ office ens day wf])
      (simp_all add: log px js_def MAX_SAFE_INTEGER_def)
  then show ?thesis by (simp add: record_revision_def seed_revision_def)
qed

lemma sample_created: "\<exists>s'. create_office sample_create_env sample_office_input ''p'' empty_onboarding_store
    = (Inr (new_result sample_create_env), s')"
proof -
  let ?env = "sample_create_env"
  from sample_creation obtain snap e where rec: "record_revision (ce_projector ?env) (seed_revision ?env)
     (created_db ?env sample_office_input 2 sample_rules empty_db) = Inr (snap, e)" by blast
  have clock: "onboarding_clock ?env = (176400000, 176700000)"
    by (simp add: onboarding_clock_def sample_create_env_def to_date_def PAIRING_LIFETIME_MINUTES_def)
  have rate: "consume_onboarding_rate_limit sample_sha ''p'' Rate_create 0 0 Map.empty
    = (Inr (), Map.empty(sample_sha (utf8 (js ''p'')) \<mapsto> onboarding_row None 0 Rate_create))"
    by (simp add: consume_onboarding_rate_limit_def Let_def sample_digests onboarding_row_ok_def onboarding_row_def
        increment_def counter_ok_def LIMITS_def kind_count_def)
  have env: "ce_sha256 ?env = sample_sha" "ce_rate_now ?env = 0" "ce_rate_clock ?env = 0"
    "ce_pairing_bytes ?env = replicate 32 0" "ce_status_bytes ?env = replicate 32 1" "ce_view_bytes ?env = replicate 32 2"
    by (simp_all add: sample_create_env_def)
  have row: "office_name_constraints (of_name (new_office ?env sample_office_input))"
    "alias_constraints (ag_alias (new_agent ?env sample_office_input))" "pet_id_constraints (ag_pet_id (new_agent ?env sample_office_input))"
    using sample_input_ok by (simp_all add: office_input_ok_def new_office_def new_agent_def)
  have room: "1 \<le> rm_scene_capacity (new_room ?env)" "rm_scene_capacity (new_room ?env) \<le> 24" by (simp_all add: new_room_def)
  have qual: "qualification_table_ok [new_qualification ?env]"
    by (simp add: qualification_table_ok_def qualification_check_def new_qualification_def)
  have tok: "insert_view_token (new_view_token ?env) d = Inr (d\<lparr>db_view_tokens := [new_view_token ?env]\<rparr>)"
    if "db_view_tokens d = []" for d
    using that sample_capabilities by (simp add: insert_view_token_def token_constraints_def new_view_token_def env)
  have date: "tz_sql_date (px_zones (ce_projector ?env)) ''Asia/Shanghai'' 176400000 = Some 2"
    by (simp add: sample_create_env_def fold_zone_def day_ns_def)
  have rule: "ce_rule ?env n = replicate (nat n) CHR ''u''" for n by (simp add: sample_create_env_def)
  have rules: "foldM_r (\<lambda>isoWeekday. on_db (insert_schedule_rule (new_schedule_rule ?env isoWeekday))) [1..5] s
      = Inr (s\<lparr>os_db := (os_db s)\<lparr>db_schedule_rules := sample_rules\<rparr>\<rparr>)" if "db_schedule_rules (os_db s) = []" for s
    using that rule by (simp add: upto_rec1 on_db_def insert_schedule_rule_def check_row_def new_schedule_rule_def insert_unique_def
        sample_rules_def hour_ns_def numeral_eq_Suc)
  have pairing: "pairing_constraints (new_pairing ?env)"
    using sample_capabilities by (simp add: pairing_constraints_def new_pairing_def env clock)
  have empty: "db_offices empty_db = []" "db_rooms empty_db = []" "db_agents empty_db = []" "db_mounts empty_db = []"
    "db_qualifications empty_db = []" "db_view_tokens empty_db = []" "db_schedule_versions empty_db = []"
    "db_schedule_rules empty_db = []" by (simp_all add: empty_db_def)
  have stats: "co_stats_opt_in sample_office_input" by (simp add: sample_office_input_def)
  note rec' = rec [unfolded created_db_def, simplified empty stats, simplified]
  show ?thesis
    by (simp add: create_office_def rate_limited_def env rate empty_onboarding_store_def transaction_def
        create_office_onboarding_def clock insert_account_def insert_office_def insert_room_def insert_membership_def
        insert_agent_def insert_mount_def on_db_def insert_unique_def check_row_def row room store_qualifications_def
        qual tok date insert_schedule_version_def rules insert_pairing_def pairing empty stats rec' new_result_def Let_def)
qed


lemma created_office_is_open_witness:
  "\<exists>r s' raw snapshot. create_office sample_create_env sample_office_input ''p'' empty_onboarding_store = (Inr r, s')
    \<and> rs_office_url r = js ''/o/'' @ raw \<and> get_snapshot sample_sha 5 raw (os_db s') = Inr (Some snapshot)
    \<and> sn_revision snapshot = 1 \<and> fst (poll_pairing sample_create_env (rs_status_token r) s') = Inr Status_pending"
proof -
  from sample_created obtain s' where create: "create_office sample_create_env sample_office_input ''p'' empty_onboarding_store
    = (Inr (new_result sample_create_env), s')" by blast
  have "logs_ok (os_db empty_onboarding_store)" "tokens_ok (os_db empty_onboarding_store)" "pairings_ok empty_onboarding_store"
    "office_events (os_db empty_onboarding_store) (ce_office sample_create_env) = []"
    "projection_rows (os_db empty_onboarding_store) (ce_office sample_create_env) = []"
    by (simp_all add: empty_onboarding_store_def empty_db_def logs_ok_def outbox_ok_def tokens_ok_def pairings_ok_def
        office_events_def projection_rows_def row_count_def)
  moreover have "length (ce_view_bytes sample_create_env) = 32" "list_all (\<lambda>b. b < 256) (ce_view_bytes sample_create_env)"
    by (simp_all add: sample_create_env_def list_all_iff)
  moreover have "snd (onboarding_clock sample_create_env) = 176700000" "to_date (ce_now sample_create_env) = 176400000"
    "ce_sha256 sample_create_env = sample_sha"
    by (simp_all add: onboarding_clock_def sample_create_env_def to_date_def PAIRING_LIFETIME_MINUTES_def)
  ultimately show ?thesis
    using created_office_is_open [OF create, where clock = 5 and poll = sample_create_env] create by fastforce
qed

end
