(* ===== verification/Broker.thy ===== *)
theory Broker
  imports Edge_Request
begin

text \<open>
  The broker of revision notifications (public-office/application/office-revision-broker.ts): the
  registry of the subscribers of each office and the connection on which the server listens. The
  sets of subscribers are objects that the closures returned by \<open>subscribe\<close> share with the map, so
  the registry is a map from offices to references into a store of sets. The locale \<open>registry\<close> is
  the contract the streams rely on; a client that ends each subscription once sees a plain list
  of subscriptions.
\<close>

section \<open>The registry\<close>

record 'x subscribers =
  sb_map :: "(js_string \<times> nat) list"
  sb_set :: "nat \<Rightarrow> 'x list"
  sb_next :: nat

definition no_subscribers :: "'x subscribers" where
  "no_subscribers = \<lparr>sb_map = [], sb_set = (\<lambda>_. []), sb_next = 0\<rparr>"

text \<open>What the closure of a subscription holds: the office, the set and the subscriber.\<close>

type_synonym 'x subscription = "js_string \<times> nat \<times> 'x"

text \<open>A JavaScript Set in the order of insertion.\<close>

definition add_to_set :: "'x \<Rightarrow> 'x list \<Rightarrow> 'x list" where
  "add_to_set x s = (if x \<in> set s then s else s @ [x])"

definition subscribe :: "js_string \<Rightarrow> 'x \<Rightarrow> 'x subscribers \<Rightarrow> 'x subscription \<times> 'x subscribers" where
  "subscribe officeId subscriber b =
     (let (r, b') = (case map_of (sb_map b) officeId of
            Some r \<Rightarrow> (r, b)
          | None \<Rightarrow> (sb_next b, b\<lparr>sb_map := sb_map b @ [(officeId, sb_next b)],
              sb_set := (sb_set b)(sb_next b := []), sb_next := sb_next b + 1\<rparr>)) in
      ((officeId, r, subscriber), b'\<lparr>sb_set := (sb_set b')(r := add_to_set subscriber (sb_set b' r))\<rparr>))"

definition unsubscribe :: "'x subscription \<Rightarrow> 'x subscribers \<Rightarrow> 'x subscribers" where
  "unsubscribe subscription b =
     (case subscription of (officeId, r, subscriber) \<Rightarrow>
        let s = remove1 subscriber (sb_set b r); b' = b\<lparr>sb_set := (sb_set b)(r := s)\<rparr> in
        if s = [] then b'\<lparr>sb_map := filter (\<lambda>(o', _). o' \<noteq> officeId) (sb_map b')\<rparr> else b')"

definition subscribers_of :: "'x subscribers \<Rightarrow> js_string \<Rightarrow> 'x list" where
  "subscribers_of b officeId = (case map_of (sb_map b) officeId of None \<Rightarrow> [] | Some r \<Rightarrow> sb_set b r)"

definition wake_all :: "'x subscribers \<Rightarrow> ('x \<times> int) list" where
  "wake_all b = concat (map (\<lambda>(_, r). map (\<lambda>x. (x, 0)) (sb_set b r)) (sb_map b))"

definition CHANNEL :: string where
  "CHANNEL = ''control_plane_office_revision_v1''"

text \<open>
  A notification is its channel and its payload, parsed when there is one: \<open>None\<close> when the text is
  not JSON. The result is the calls of subscribers, or the code reported as an error.
\<close>

definition notification_target :: "string \<Rightarrow> json option option \<Rightarrow> (string, (js_string \<times> int) option) result" where
  "notification_target channel payload =
     (if channel \<noteq> CHANNEL then Inr None
      else case payload of
        None \<Rightarrow> Inr None
      | Some parsed \<Rightarrow>
          if parsed = None \<or> parsed = Some JNull then Inl ''invalid_notification''
          else case (member_of ''office_id'' (the parsed), member_of ''revision'' (the parsed)) of
            (Some (JStr office_id), Some (JNum revision)) \<Rightarrow>
              Inr (if \<not> is_safe_integer revision \<or> revision < 1 then None else Some (office_id, revision))
          | _ \<Rightarrow> Inr None)"

definition handle_notification ::
  "string \<Rightarrow> json option option \<Rightarrow> 'x subscribers \<Rightarrow> (string, ('x \<times> int) list) result" where
  "handle_notification channel payload b =
     rbind (notification_target channel payload) (\<lambda>target. Inr (case target of
       None \<Rightarrow> [] | Some (officeId, revision) \<Rightarrow> map (\<lambda>x. (x, revision)) (subscribers_of b officeId)))"

section \<open>The contract of a registry\<close>

datatype 'x registry_call =
    Subscribe js_string 'x
  | Unsubscribe nat
  | Notify string "json option option"

text \<open>
  A client keeps what \<open>subscribe\<close> returns, in the order of its calls, and names a subscription by
  its number. The operations are parameters, so that the run of a registry and its abstraction
  are instances of one definition.
\<close>

definition registry_step ::
  "(js_string \<Rightarrow> 'x \<Rightarrow> 's \<Rightarrow> 'h \<times> 's) \<Rightarrow> ('h \<Rightarrow> 's \<Rightarrow> 's) \<Rightarrow> (string \<Rightarrow> json option option \<Rightarrow> 's \<Rightarrow> 'r)
   \<Rightarrow> 'x registry_call \<Rightarrow> 's \<times> 'h list \<Rightarrow> 'r option \<times> 's \<times> 'h list" where
  "registry_step sub unsub notify call = (\<lambda>(s, handles). case call of
     Subscribe officeId x \<Rightarrow> (case sub officeId x s of (h, s') \<Rightarrow> (None, s', handles @ [h]))
   | Unsubscribe n \<Rightarrow> (None, unsub (handles ! n) s, handles)
   | Notify channel payload \<Rightarrow> (Some (notify channel payload s), s, handles))"

fun registry_run ::
  "(js_string \<Rightarrow> 'x \<Rightarrow> 's \<Rightarrow> 'h \<times> 's) \<Rightarrow> ('h \<Rightarrow> 's \<Rightarrow> 's) \<Rightarrow> (string \<Rightarrow> json option option \<Rightarrow> 's \<Rightarrow> 'r)
   \<Rightarrow> 'x registry_call list \<Rightarrow> 's \<times> 'h list \<Rightarrow> 'r option list" where
  "registry_run sub unsub notify [] st = []"
| "registry_run sub unsub notify (call # calls) st =
     (case registry_step sub unsub notify call st of (r, st') \<Rightarrow> r # registry_run sub unsub notify calls st')"

text \<open>The abstract registry: every subscription that was made, until it is ended.\<close>

type_synonym 'x registry_log = "(js_string \<times> 'x) option list"

definition log_members :: "'x registry_log \<Rightarrow> js_string \<Rightarrow> 'x list" where
  "log_members A officeId = map snd (filter (\<lambda>(o', _). o' = officeId) (concat (map (case_option [] (\<lambda>e. [e])) A)))"

definition log_subscribe :: "js_string \<Rightarrow> 'x \<Rightarrow> 'x registry_log \<Rightarrow> nat \<times> 'x registry_log" where
  "log_subscribe officeId x A = (length A, A @ [Some (officeId, x)])"

definition log_unsubscribe :: "nat \<Rightarrow> 'x registry_log \<Rightarrow> 'x registry_log" where
  "log_unsubscribe n A = A[n := None]"

definition deliver :: "('s \<Rightarrow> js_string \<Rightarrow> 'x list) \<Rightarrow> string \<Rightarrow> json option option \<Rightarrow> 's \<Rightarrow> (string, ('x \<times> int) list) result" where
  "deliver members channel payload s =
     rbind (notification_target channel payload) (\<lambda>target. Inr (case target of
       None \<Rightarrow> [] | Some (officeId, revision) \<Rightarrow> map (\<lambda>x. (x, revision)) (members s officeId)))"

lemma handle_notification_deliver: "handle_notification = deliver subscribers_of"
  by (simp add: fun_eq_iff handle_notification_def deliver_def)

lemma deliver_cong: "(\<And>k. members s k = members' s' k) \<Longrightarrow> deliver members channel payload s = deliver members' channel payload s'"
  by (cases "notification_target channel payload") (auto simp: deliver_def split: option.split)

text \<open>A subscriber is new when it subscribes, and a subscription is ended once.\<close>

fun well_used :: "'x registry_call list \<Rightarrow> 'x registry_log \<Rightarrow> bool" where
  "well_used [] A \<longleftrightarrow> True"
| "well_used (Subscribe officeId x # calls) A \<longleftrightarrow> Some (officeId, x) \<notin> set A \<and> well_used calls (A @ [Some (officeId, x)])"
| "well_used (Unsubscribe n # calls) A \<longleftrightarrow> n < length A \<and> A ! n \<noteq> None \<and> well_used calls (A[n := None])"
| "well_used (Notify channel payload # calls) A \<longleftrightarrow> well_used calls A"

lemma log_members_append: "log_members (A @ B) k = log_members A k @ log_members B k"
  by (simp add: log_members_def)

lemma log_members_Nil [simp]: "log_members [] k = []"
  by (simp add: log_members_def)

lemma log_members_Cons: "log_members (a # A) k = (case a of Some (o', x) \<Rightarrow> if o' = k then [x] else [] | None \<Rightarrow> []) @ log_members A k"
  by (simp add: log_members_def split: option.split)

lemma log_members_set: "x \<in> set (log_members A k) \<longleftrightarrow> Some (k, x) \<in> set A"
  by (induction A) (auto simp: log_members_Cons split: option.splits)

locale registry =
  fixes ok :: "'s \<Rightarrow> bool" and members :: "'s \<Rightarrow> js_string \<Rightarrow> 'x list"
    and sub :: "js_string \<Rightarrow> 'x \<Rightarrow> 's \<Rightarrow> 'h \<times> 's" and unsub :: "'h \<Rightarrow> 's \<Rightarrow> 's"
    and live :: "'s \<Rightarrow> 'h \<Rightarrow> js_string \<Rightarrow> 'x \<Rightarrow> bool"
  assumes sub_new: "ok s \<Longrightarrow> x \<notin> set (members s k) \<Longrightarrow> sub k x s = (h, s') \<Longrightarrow>
      ok s' \<and> live s' h k x \<and> members s' = (members s)(k := members s k @ [x])"
    and sub_keeps: "ok s \<Longrightarrow> sub k x s = (h, s') \<Longrightarrow> live s h' k' y \<Longrightarrow> live s' h' k' y"
    and unsub_live: "ok s \<Longrightarrow> live s h k x \<Longrightarrow>
      ok (unsub h s) \<and> members (unsub h s) = (members s)(k := remove1 x (members s k))"
    and unsub_keeps: "ok s \<Longrightarrow> live s h k x \<Longrightarrow> live s h' k' y \<Longrightarrow> (k', y) \<noteq> (k, x) \<Longrightarrow> live (unsub h s) h' k' y"
begin

definition represents :: "'s \<times> 'h list \<Rightarrow> 'x registry_log \<Rightarrow> bool" where
  "represents st A \<longleftrightarrow> ok (fst st) \<and> length (snd st) = length A \<and> (\<forall>k. members (fst st) k = log_members A k)
     \<and> (\<forall>n<length A. \<forall>k x. A ! n = Some (k, x) \<longrightarrow> live (fst st) (snd st ! n) k x)
     \<and> (\<forall>n<length A. \<forall>m<length A. A ! n = A ! m \<longrightarrow> A ! n \<noteq> None \<longrightarrow> n = m)"

lemma log_members_remove:
  assumes "n < length A" "A ! n = Some (k, x)" "\<forall>m<length A. A ! m = Some (k, x) \<longrightarrow> m = n"
  shows "log_members (A[n := None]) k' = (if k' = k then remove1 x (log_members A k) else log_members A k')"
proof -
  have A: "A = take n A @ Some (k, x) # drop (Suc n) A" using assms(1,2) by (metis id_take_nth_drop)
  have "Some (k, x) \<notin> set (take n A)"
  proof
    assume "Some (k, x) \<in> set (take n A)"
    then obtain i where "i < n" "A ! i = Some (k, x)" by (auto simp: in_set_conv_nth)
    with assms(1,3) show False by (metis less_irrefl order.strict_trans)
  qed
  then have "x \<notin> set (log_members (take n A) k)" by (simp add: log_members_set)
  then have "remove1 x (log_members A k) = log_members (take n A) k @ log_members (drop (Suc n) A) k"
    by (subst A) (simp add: log_members_append log_members_Cons remove1_append)
  moreover have "log_members A k' = log_members (take n A) k' @ (if k = k' then [x] else []) @ log_members (drop (Suc n) A) k'"
    by (subst A) (simp add: log_members_append log_members_Cons)
  moreover have "log_members (A[n := None]) k' = log_members (take n A) k' @ log_members (drop (Suc n) A) k'"
    using assms(1) by (simp add: upd_conv_take_nth_drop log_members_append log_members_Cons)
  ultimately show ?thesis by auto
qed

lemma run_refines:
  assumes "represents (s, hs) A" "well_used calls A"
  shows "registry_run sub unsub (deliver members) calls (s, hs)
    = registry_run log_subscribe log_unsubscribe (deliver log_members) calls (A, [0..<length A])"
  using assms
proof (induction calls arbitrary: s hs A)
  case (Cons call calls)
  note R = Cons.prems(1) [unfolded represents_def fst_conv snd_conv]
  show ?case
  proof (cases call)
    case (Subscribe k x)
    obtain h s' where sub: "sub k x s = (h, s')" by (rule prod.exhaust)
    have new: "Some (k, x) \<notin> set A" "well_used calls (A @ [Some (k, x)])" using Cons.prems(2) by (simp_all add: Subscribe)
    with R have "x \<notin> set (members s k)" by (simp add: log_members_set)
    note s' = sub_new [OF _ this sub]
    have "represents (s', hs @ [h]) (A @ [Some (k, x)])"
      unfolding represents_def
    proof (intro conjI allI impI)
      show "ok (fst (s', hs @ [h]))" "length (snd (s', hs @ [h])) = length (A @ [Some (k, x)])" using R s' by simp_all
      show "members (fst (s', hs @ [h])) k' = log_members (A @ [Some (k, x)]) k'" for k'
        using R s' by (simp add: log_members_append log_members_Cons)
      show "live (fst (s', hs @ [h])) (snd (s', hs @ [h]) ! n) k' y"
        if "n < length (A @ [Some (k, x)])" "(A @ [Some (k, x)]) ! n = Some (k', y)" for n k' y
        using that R s' sub_keeps [OF _ sub] by (auto simp: nth_append less_Suc_eq)
      show "n = m" if "n < length (A @ [Some (k, x)])" "m < length (A @ [Some (k, x)])"
        "(A @ [Some (k, x)]) ! n = (A @ [Some (k, x)]) ! m" "(A @ [Some (k, x)]) ! n \<noteq> None" for n m
        using that R new(1) by (auto simp: nth_append less_Suc_eq in_set_conv_nth split: if_splits)
    qed
    from Cons.IH [OF this new(2)] show ?thesis
      by (simp add: Subscribe registry_step_def sub log_subscribe_def)
  next
    case (Unsubscribe n)
    with Cons.prems(2) obtain k x where n: "n < length A" "A ! n = Some (k, x)" "well_used calls (A[n := None])" by auto
    have uniq: "\<forall>m<length A. A ! m = Some (k, x) \<longrightarrow> m = n" using R n(1,2) by auto
    have lv: "live s (hs ! n) k x" using R n(1,2) by blast
    note s' = unsub_live [OF _ lv]
    have "represents (unsub (hs ! n) s, hs) (A[n := None])"
      unfolding represents_def
    proof (intro conjI allI impI)
      show "ok (fst (unsub (hs ! n) s, hs))" "length (snd (unsub (hs ! n) s, hs)) = length (A[n := None])" using R s' by simp_all
      show "members (fst (unsub (hs ! n) s, hs)) k' = log_members (A[n := None]) k'" for k'
        using R s' by (simp add: log_members_remove [OF n(1,2) uniq])
      show "live (fst (unsub (hs ! n) s, hs)) (snd (unsub (hs ! n) s, hs) ! m) k' y"
        if m: "m < length (A[n := None])" "A[n := None] ! m = Some (k', y)" for m k' y
      proof -
        from m n(1) have "m \<noteq> n" by (auto simp: nth_list_update)
        with m have "A ! m = Some (k', y)" by simp
        with m uniq \<open>m \<noteq> n\<close> have "(k', y) \<noteq> (k, x)" by auto
        with unsub_keeps [OF _ lv] R m \<open>A ! m = Some (k', y)\<close> show ?thesis by simp
      qed
      show "m = m'" if "m < length (A[n := None])" "m' < length (A[n := None])"
        "A[n := None] ! m = A[n := None] ! m'" "A[n := None] ! m \<noteq> None" for m m'
      proof -
        from that n(1) have "m \<noteq> n" "m' \<noteq> n" by (metis nth_list_update_eq)+
        with that R show ?thesis by simp
      qed
    qed
    from Cons.IH [OF this n(3)] show ?thesis
      using n(1) by (simp add: Unsubscribe registry_step_def log_unsubscribe_def)
  next
    case (Notify channel payload)
    have "deliver members channel payload s = deliver log_members channel payload A"
      by (rule deliver_cong) (use R in simp)
    with Cons.IH [OF Cons.prems(1)] Cons.prems(2) show ?thesis by (simp add: Notify registry_step_def)
  qed
qed simp

end

section \<open>The broker keeps the contract\<close>

definition subscribers_ok :: "'x subscribers \<Rightarrow> bool" where
  "subscribers_ok b \<longleftrightarrow> distinct (map fst (sb_map b)) \<and> distinct (map snd (sb_map b))
     \<and> (\<forall>r\<in>set (map snd (sb_map b)). r < sb_next b) \<and> (\<forall>r. distinct (sb_set b r)) \<and> (\<forall>r\<ge>sb_next b. sb_set b r = [])"

definition subscribed :: "'x subscribers \<Rightarrow> 'x subscription \<Rightarrow> js_string \<Rightarrow> 'x \<Rightarrow> bool" where
  "subscribed b h k x \<longleftrightarrow> (\<exists>r. h = (k, r, x) \<and> map_of (sb_map b) k = Some r \<and> x \<in> set (sb_set b r))"

lemma map_of_inj_values:
  assumes "distinct (map snd m)" "map_of m k = Some r" "map_of m k' = Some r"
  shows "k = k'"
  using assms by (induction m) (auto split: if_splits dest!: map_of_SomeD, force+)

lemma map_of_filter_key: "map_of (filter (\<lambda>(o', _). o' \<noteq> k) m) k' = (if k' = k then None else map_of m k')"
  by (induction m) auto

lemma subscribers_ok_ref: "subscribers_ok b \<Longrightarrow> map_of (sb_map b) k = Some r \<Longrightarrow> r < sb_next b"
  by (force simp: subscribers_ok_def dest: map_of_SomeD)

lemma subscribers_ok_inj: "subscribers_ok b \<Longrightarrow> map_of (sb_map b) k = Some r \<Longrightarrow> map_of (sb_map b) k' = Some r \<Longrightarrow> k = k'"
  by (auto simp: subscribers_ok_def intro: map_of_inj_values)

text \<open>Finding or creating the set of an office changes no list of subscribers.\<close>

definition office_set :: "js_string \<Rightarrow> 'x subscribers \<Rightarrow> nat \<times> 'x subscribers" where
  "office_set officeId b = (case map_of (sb_map b) officeId of
     Some r \<Rightarrow> (r, b)
   | None \<Rightarrow> (sb_next b, b\<lparr>sb_map := sb_map b @ [(officeId, sb_next b)],
       sb_set := (sb_set b)(sb_next b := []), sb_next := sb_next b + 1\<rparr>))"

lemma subscribe_office_set: "subscribe officeId x b = (case office_set officeId b of (r, b') \<Rightarrow>
    ((officeId, r, x), b'\<lparr>sb_set := (sb_set b')(r := add_to_set x (sb_set b' r))\<rparr>))"
  by (simp add: subscribe_def office_set_def)

lemma office_set_cases:
  assumes "subscribers_ok b" "office_set k b = (r, b')"
  obtains "map_of (sb_map b) k = Some r" "b' = b"
  | "k \<notin> fst ` set (sb_map b)" "r = sb_next b"
    "b' = b\<lparr>sb_map := sb_map b @ [(k, r)], sb_set := (sb_set b)(r := []), sb_next := r + 1\<rparr>"
proof (cases "map_of (sb_map b) k")
  case None
  then have k: "k \<notin> fst ` set (sb_map b)" by (simp add: map_of_eq_None_iff)
  from None assms(2) have r: "r = sb_next b" by (simp add: office_set_def)
  from None assms(2) have "b' = b\<lparr>sb_map := sb_map b @ [(k, r)], sb_set := (sb_set b)(r := []), sb_next := r + 1\<rparr>"
    unfolding r by (simp add: office_set_def)
  with k r show thesis by (rule that(2))
next
  case (Some q)
  with assms(2) have "r = q" "b' = b" by (simp_all add: office_set_def)
  with Some show thesis by (intro that(1)) simp_all
qed

lemma office_set_ok:
  assumes "subscribers_ok b" "office_set k b = (r, b')"
  shows "subscribers_ok b'" "map_of (sb_map b') k = Some r" "subscribers_of b' = subscribers_of b"
    and "subscribed b h k' y \<Longrightarrow> subscribed b' h k' y"
proof -
  note less = subscribers_ok_ref [OF assms(1)]
  have new: "subscribers_ok b'" if "k \<notin> fst ` set (sb_map b)" "r = sb_next b"
    "b' = b\<lparr>sb_map := sb_map b @ [(k, r)], sb_set := (sb_set b)(r := []), sb_next := r + 1\<rparr>"
    using assms(1) that by (auto simp: subscribers_ok_def less_Suc_eq)
  show "subscribers_ok b'" using assms by (rule office_set_cases) (use assms(1) new in simp_all)
  show "map_of (sb_map b') k = Some r"
    using assms by (rule office_set_cases) (simp_all add: map_add_def map_of_eq_None_iff [THEN iffD2])
  have "subscribers_of b' k' = subscribers_of b k'" for k'
    using assms
  proof (rule office_set_cases)
    assume "k \<notin> fst ` set (sb_map b)" "r = sb_next b"
      "b' = b\<lparr>sb_map := sb_map b @ [(k, r)], sb_set := (sb_set b)(r := []), sb_next := r + 1\<rparr>"
    then show ?thesis using less [of k'] by (auto simp: subscribers_of_def map_add_def split: option.splits)
  qed simp
  then show "subscribers_of b' = subscribers_of b" by blast
  show "subscribed b' h k' y" if sub: "subscribed b h k' y"
    using assms
  proof (rule office_set_cases)
    assume k: "k \<notin> fst ` set (sb_map b)" and b': "r = sb_next b"
      "b' = b\<lparr>sb_map := sb_map b @ [(k, r)], sb_set := (sb_set b)(r := []), sb_next := r + 1\<rparr>"
    from sub obtain q where q: "h = (k', q, y)" "map_of (sb_map b) k' = Some q" "y \<in> set (sb_set b q)"
      by (auto simp: subscribed_def)
    moreover from less [OF q(2)] have "q \<noteq> r" using b'(1) by simp
    moreover have "k' \<noteq> k" using q(2) k by (force dest: map_of_SomeD)
    ultimately show ?thesis using b' by (simp add: subscribed_def map_add_def)
  qed (use sub in simp)
qed

lemma change_set_members:
  assumes "subscribers_ok b" "map_of (sb_map b) k = Some r"
  shows "subscribers_of (b\<lparr>sb_set := (sb_set b)(r := s)\<rparr>) = (subscribers_of b)(k := s)"
proof
  fix k'
  show "subscribers_of (b\<lparr>sb_set := (sb_set b)(r := s)\<rparr>) k' = ((subscribers_of b)(k := s)) k'"
  proof (cases "k' = k")
    case False
    then have "map_of (sb_map b) k' \<noteq> Some r" using subscribers_ok_inj [OF assms] by metis
    with False show ?thesis by (cases "map_of (sb_map b) k'") (simp_all add: subscribers_of_def)
  qed (simp add: subscribers_of_def assms(2))
qed

lemma change_set_ok:
  assumes "subscribers_ok b" "map_of (sb_map b) k = Some r" "distinct s"
  shows "subscribers_ok (b\<lparr>sb_set := (sb_set b)(r := s)\<rparr>)"
  using assms subscribers_ok_ref [OF assms(1,2)] by (simp add: subscribers_ok_def)

lemma add_to_set_simps [simp]: "set (add_to_set x s) = insert x (set s)" "distinct (add_to_set x s) = distinct s"
  by (auto simp: add_to_set_def)

lemma drop_office_ok: "subscribers_ok b \<Longrightarrow> subscribers_ok (b\<lparr>sb_map := filter (\<lambda>(o', _). o' \<noteq> k) (sb_map b)\<rparr>)"
  by (auto simp: subscribers_ok_def distinct_map_filter)

lemma drop_office_members: "subscribers_of b k = [] \<Longrightarrow>
    subscribers_of (b\<lparr>sb_map := filter (\<lambda>(o', _). o' \<noteq> k) (sb_map b)\<rparr>) = subscribers_of b"
  by (auto simp: subscribers_of_def fun_eq_iff map_of_filter_key split: option.splits)

interpretation broker: registry subscribers_ok subscribers_of subscribe unsubscribe subscribed
proof
  fix s s' :: "'x subscribers" and k k' x y h h'
  assume ok: "subscribers_ok s"
  {
    assume sub: "subscribe k x s = (h, s')"
    obtain r b' where b': "office_set k s = (r, b')" by (rule prod.exhaust)
    note os = office_set_ok [OF ok b']
    have h: "h = (k, r, x)" and s': "s' = b'\<lparr>sb_set := (sb_set b')(r := add_to_set x (sb_set b' r))\<rparr>"
      using sub by (simp_all add: subscribe_office_set b')
    have set: "sb_set b' r = subscribers_of s k" using os(2,3) by (simp add: subscribers_of_def flip: os(3))
    show "subscribed s h' k' y \<Longrightarrow> subscribed s' h' k' y"
      using os(4) [of h' k' y] by (auto simp: s' subscribed_def)
    assume "x \<notin> set (subscribers_of s k)"
    then show "subscribers_ok s' \<and> subscribed s' h k x \<and> subscribers_of s' = (subscribers_of s)(k := subscribers_of s k @ [x])"
      using change_set_ok [OF os(1,2)] change_set_members [OF os(1,2)] os(1,2)
      by (simp add: s' h subscribed_def set os(3) add_to_set_def) (simp add: subscribers_ok_def flip: set)
  }
  assume "subscribed s h k x"
  then obtain r where h: "h = (k, r, x)" and r: "map_of (sb_map s) k = Some r" and x: "x \<in> set (sb_set s r)"
    by (auto simp: subscribed_def)
  define b' where "b' = s\<lparr>sb_set := (sb_set s)(r := remove1 x (sb_set s r))\<rparr>"
  have set: "sb_set s r = subscribers_of s k" using r by (simp add: subscribers_of_def)
  have "distinct (sb_set s r)" using ok by (simp add: subscribers_ok_def)
  then have b'_ok: "subscribers_ok b'" and b'_members: "subscribers_of b' = (subscribers_of s)(k := remove1 x (subscribers_of s k))"
    using change_set_ok [OF ok r] change_set_members [OF ok r] by (simp_all add: b'_def set distinct_remove1)
  have u: "unsubscribe h s = (if remove1 x (sb_set s r) = [] then b'\<lparr>sb_map := filter (\<lambda>(o', _). o' \<noteq> k) (sb_map b')\<rparr> else b')"
    by (simp add: unsubscribe_def h b'_def Let_def)
  show "subscribers_ok (unsubscribe h s) \<and> subscribers_of (unsubscribe h s) = (subscribers_of s)(k := remove1 x (subscribers_of s k))"
    using drop_office_ok [OF b'_ok] drop_office_members [of b' k] by (simp add: u b'_ok b'_members set)
  assume "subscribed s h' k' y" and other: "(k', y) \<noteq> (k, x)"
  then obtain q where q: "h' = (k', q, y)" "map_of (sb_map s) k' = Some q" "y \<in> set (sb_set s q)"
    by (auto simp: subscribed_def)
  have y: "y \<in> set (sb_set b' q)"
    using q(3) other subscribers_ok_inj [OF ok r] q(2) by (auto simp: b'_def set)
  show "subscribed (unsubscribe h s) h' k' y"
  proof (cases "k' = k")
    case True
    then have "remove1 x (sb_set s r) \<noteq> []" using y q(2) r by (auto simp: b'_def)
    then show ?thesis using y q(2) by (simp add: u subscribed_def q(1)) (simp add: b'_def)
  next
    case False
    then show ?thesis using y q(2) by (simp add: u subscribed_def q(1) map_of_filter_key) (simp add: b'_def)
  qed
qed

lemma wake_all_members:
  assumes "subscribers_ok b"
  shows "(x, v) \<in> set (wake_all b) \<longleftrightarrow> v = 0 \<and> (\<exists>k. x \<in> set (subscribers_of b k))"
proof -
  have "x \<in> set (subscribers_of b k) \<longleftrightarrow> (\<exists>r. (k, r) \<in> set (sb_map b) \<and> x \<in> set (sb_set b r))" for k
  proof (cases "map_of (sb_map b) k")
    case None
    then have "k \<notin> fst ` set (sb_map b)" by (simp add: map_of_eq_None_iff)
    with None show ?thesis by (force simp: subscribers_of_def)
  next
    case (Some r)
    then have "(k, r') \<in> set (sb_map b) \<longleftrightarrow> r' = r" for r'
      using assms map_of_eq_Some_iff [of "sb_map b" k r'] by (auto simp: subscribers_ok_def)
    then show ?thesis by (simp add: subscribers_of_def Some)
  qed
  then show ?thesis by (force simp: wake_all_def)
qed

text \<open>
  C36: The registry of the broker behaves like a plain list of subscriptions: for any sequence of
  subscriptions, ended subscriptions and notifications in which a callback subscribes to an office
  only when it is not subscribed to it and each subscription is ended once, every notification
  calls the same callbacks, in the same order and with the same revision, or reports the same
  error, as if the broker kept every subscription in one list. So an ended subscription takes no
  other one with it, although the sets of callbacks are shared, emptied, dropped from the map and
  created again.
\<close>

theorem broker_refines_registry:
  assumes "well_used calls []"
  shows "registry_run subscribe unsubscribe handle_notification calls (no_subscribers, [])
    = registry_run log_subscribe log_unsubscribe (deliver log_members) calls ([], [])"
proof -
  have "broker.represents (no_subscribers, []) []"
    by (simp add: broker.represents_def no_subscribers_def subscribers_ok_def subscribers_of_def)
  from broker.run_refines [OF this assms] show ?thesis by (simp add: handle_notification_deliver)
qed

definition example_calls :: "nat registry_call list" where
  "example_calls =
     (let office = js ''o1'';
          changed = Notify CHANNEL (Some (Some (JObj [(js ''office_id'', JStr office), (js ''revision'', JNum 7)]))) in
      [Subscribe office 1, changed, Unsubscribe 0, Subscribe office 2, Subscribe office 1, changed,
       Unsubscribe 2, changed, Notify CHANNEL (Some None)])"

theorem broker_refines_registry_witness:
  "registry_run subscribe unsubscribe handle_notification example_calls (no_subscribers, [])
    = [None, Some (Inr [(1, 7)]), None, None, None, Some (Inr [(2, 7), (1, 7)]), None, Some (Inr [(2, 7)]),
       Some (Inl ''invalid_notification'')]"
proof -
  have used: "well_used example_calls []" by code_simp
  show ?thesis unfolding broker_refines_registry [OF used] by code_simp
qed

end
