(* ===== verification/Listener.thy ===== *)
theory Listener
  imports Broker
begin

text \<open>
  The connection on which the broker listens (public-office/application/office-revision-broker.ts)
  as a state machine. Its events are what the code awaits (a connection of the pool, the answers
  to LISTEN and UNLISTEN), the callbacks (a notification, an error of the connection, the timer)
  and the calls of its clients: main.ts starts it once and closes it, the streams subscribe.
\<close>

section \<open>State\<close>

text \<open>
  The body of \<open>start\<close> awaits a connection or, with the handlers attached, the answer to LISTEN;
  \<open>close\<close> awaits the running attempt and then the answer to UNLISTEN.
\<close>

datatype attempt = No_attempt | Connecting | Attached

datatype shutdown = Open | Awaiting_start | Awaiting_unlisten | Shut

text \<open>
  Who awaits the promise of the attempt: main.ts, and callbacks of the timer. The connections held
  are those taken from the pool and not yet released; the calls are the calls of subscribers.
\<close>

record 'x listener =
  ls_subscribers :: "'x subscribers"
  ls_client :: bool
  ls_starting :: attempt
  ls_timer :: bool
  ls_shutdown :: shutdown
  ls_started :: bool
  ls_main_waits :: bool
  ls_retries_wait :: nat
  ls_held :: nat
  ls_calls :: "('x \<times> int) list"
  ls_errors :: "string list"

definition initial_listener :: "'x listener" where
  "initial_listener = \<lparr>ls_subscribers = no_subscribers, ls_client = False, ls_starting = No_attempt,
     ls_timer = False, ls_shutdown = Open, ls_started = False, ls_main_waits = False, ls_retries_wait = 0,
     ls_held = 0, ls_calls = [], ls_errors = []\<rparr>"

definition closed :: "'x listener \<Rightarrow> bool" where
  "closed s \<longleftrightarrow> ls_shutdown s \<noteq> Open"

section \<open>Operations\<close>

text \<open>
  The synchronous part of \<open>start\<close>. It leaves the state alone when the broker is closed, has its
  connection or is starting; the caller awaits the running attempt then.
\<close>

definition start_broker :: "'x listener \<Rightarrow> 'x listener" where
  "start_broker s =
     (if closed s \<or> ls_client s \<or> ls_starting s \<noteq> No_attempt then s else s\<lparr>ls_starting := Connecting\<rparr>)"

definition schedule_reconnect :: "'x listener \<Rightarrow> 'x listener" where
  "schedule_reconnect s = (if closed s \<or> ls_timer s then s else s\<lparr>ls_timer := True\<rparr>)"

definition wake_subscribers :: "'x listener \<Rightarrow> 'x listener" where
  "wake_subscribers s = s\<lparr>ls_calls := ls_calls s @ wake_all (ls_subscribers s)\<rparr>"

text \<open>What \<open>close\<close> does once no attempt is running, and its call.\<close>

definition finish_close :: "'x listener \<Rightarrow> 'x listener" where
  "finish_close s =
     (if ls_client s then s\<lparr>ls_client := False, ls_shutdown := Awaiting_unlisten\<rparr>
      else s\<lparr>ls_shutdown := Shut, ls_subscribers := (ls_subscribers s)\<lparr>sb_map := []\<rparr>\<rparr>)"

definition close_broker :: "'x listener \<Rightarrow> 'x listener" where
  "close_broker s =
     (let s' = s\<lparr>ls_timer := False, ls_shutdown := Awaiting_start\<rparr> in
      if ls_starting s = No_attempt then finish_close s' else s')"

text \<open>
  The promise of the attempt is settled: \<open>starting\<close> is reset, then those who await it go on. A
  timer callback reports a failure and schedules the next attempt, main.ts gives up and closes
  the broker, a \<open>close\<close> that awaits it goes on.
\<close>

definition released_waiters :: "'x listener \<Rightarrow> 'x listener" where
  "released_waiters s = s\<lparr>ls_starting := No_attempt, ls_main_waits := False, ls_retries_wait := 0\<rparr>"

definition attempt_succeeded :: "'x listener \<Rightarrow> 'x listener" where
  "attempt_succeeded s =
     (let s' = released_waiters s in if ls_shutdown s = Awaiting_start then finish_close s' else s')"

definition attempt_failed :: "string \<Rightarrow> 'x listener \<Rightarrow> 'x listener" where
  "attempt_failed code s =
     (let s' = (released_waiters s)\<lparr>ls_errors := ls_errors s @ replicate (ls_retries_wait s) code\<rparr>;
          s'' = (if ls_retries_wait s = 0 then s' else schedule_reconnect s') in
      if ls_shutdown s = Awaiting_start then finish_close s''
      else if ls_main_waits s then close_broker s'' else s'')"

definition on_connected :: "'x listener \<Rightarrow> 'x listener" where
  "on_connected s = (if closed s then attempt_succeeded s else s\<lparr>ls_starting := Attached, ls_held := ls_held s + 1\<rparr>)"

definition on_listening :: "'x listener \<Rightarrow> 'x listener" where
  "on_listening s = attempt_succeeded (wake_subscribers (s\<lparr>ls_client := True\<rparr>))"

definition on_listen_failed :: "string \<Rightarrow> 'x listener \<Rightarrow> 'x listener" where
  "on_listen_failed code s = attempt_failed code (s\<lparr>ls_held := ls_held s - 1\<rparr>)"

text \<open>An error of the connection, which the handler sees while the handlers are attached.\<close>

definition handle_client_error :: "string \<Rightarrow> 'x listener \<Rightarrow> 'x listener" where
  "handle_client_error code s =
     (let s' = s\<lparr>ls_errors := ls_errors s @ [code]\<rparr>;
          s'' = (if ls_client s then s'\<lparr>ls_client := False, ls_held := ls_held s - 1\<rparr> else s') in
      schedule_reconnect s'')"

definition on_notification :: "string \<Rightarrow> json option option \<Rightarrow> 'x listener \<Rightarrow> 'x listener" where
  "on_notification channel payload s =
     (case handle_notification channel payload (ls_subscribers s) of
        Inl code \<Rightarrow> s\<lparr>ls_errors := ls_errors s @ [code]\<rparr>
      | Inr calls \<Rightarrow> s\<lparr>ls_calls := ls_calls s @ calls\<rparr>)"

definition on_timer_fired :: "'x listener \<Rightarrow> 'x listener" where
  "on_timer_fired s =
     (let s' = start_broker (s\<lparr>ls_timer := False\<rparr>) in
      if ls_starting s' = No_attempt then s' else s'\<lparr>ls_retries_wait := ls_retries_wait s + 1\<rparr>)"

definition on_main_start :: "'x listener \<Rightarrow> 'x listener" where
  "on_main_start s = (start_broker s)\<lparr>ls_started := True, ls_main_waits := True\<rparr>"

section \<open>The state machine\<close>

datatype 'x listener_event =
    Main_starts
  | Timer_fires
  | Connected
  | Connect_failed string
  | Listening
  | Listen_failed string
  | Client_failed string
  | Notified string "json option option"
  | Stream_subscribes js_string 'x
  | Stream_unsubscribes "'x subscription"
  | Closes
  | Unlistened

text \<open>
  An event happens when the code can see it: an answer while it is awaited, a callback while it is
  registered. main.ts calls \<open>start\<close> once and closes the broker once.
\<close>

fun listener_step :: "'x listener_event \<Rightarrow> 'x listener \<Rightarrow> 'x listener option" where
  "listener_step Main_starts s = (if ls_started s \<or> closed s then None else Some (on_main_start s))"
| "listener_step Timer_fires s = (if ls_timer s then Some (on_timer_fired s) else None)"
| "listener_step Connected s = (if ls_starting s = Connecting then Some (on_connected s) else None)"
| "listener_step (Connect_failed code) s = (if ls_starting s = Connecting then Some (attempt_failed code s) else None)"
| "listener_step Listening s = (if ls_starting s = Attached then Some (on_listening s) else None)"
| "listener_step (Listen_failed code) s = (if ls_starting s = Attached then Some (on_listen_failed code s) else None)"
| "listener_step (Client_failed code) s =
     (if ls_client s \<or> ls_starting s = Attached then Some (handle_client_error code s) else None)"
| "listener_step (Notified channel payload) s =
     (if ls_client s \<or> ls_starting s = Attached then Some (on_notification channel payload s) else None)"
| "listener_step (Stream_subscribes officeId x) s =
     Some (s\<lparr>ls_subscribers := snd (subscribe officeId x (ls_subscribers s))\<rparr>)"
| "listener_step (Stream_unsubscribes h) s = Some (s\<lparr>ls_subscribers := unsubscribe h (ls_subscribers s)\<rparr>)"
| "listener_step Closes s = (if closed s then None else Some (close_broker s))"
| "listener_step Unlistened s = (if ls_shutdown s = Awaiting_unlisten
     then Some (s\<lparr>ls_shutdown := Shut, ls_held := ls_held s - 1,
                  ls_subscribers := (ls_subscribers s)\<lparr>sb_map := []\<rparr>\<rparr>) else None)"

fun listener_run :: "'x listener_event list \<Rightarrow> 'x listener \<Rightarrow> 'x listener option" where
  "listener_run [] s = Some s"
| "listener_run (e # es) s = Option.bind (listener_step e s) (listener_run es)"

inductive listener_reachable :: "'x listener \<Rightarrow> bool" where
  start: "listener_reachable initial_listener"
| event: "listener_reachable s \<Longrightarrow> listener_step e s = Some s' \<Longrightarrow> listener_reachable s'"

section \<open>The invariant\<close>

definition connections :: "'x listener \<Rightarrow> nat" where
  "connections s = of_bool (ls_client s) + of_bool (ls_starting s = Attached) + of_bool (ls_shutdown s = Awaiting_unlisten)"

definition listener_ok :: "'x listener \<Rightarrow> bool" where
  "listener_ok s \<longleftrightarrow> ls_held s = connections s \<and> connections s \<le> 1
     \<and> (ls_client s \<longrightarrow> ls_starting s = No_attempt)
     \<and> (closed s \<longrightarrow> \<not> ls_timer s)
     \<and> (ls_shutdown s \<in> {Awaiting_unlisten, Shut} \<longrightarrow> \<not> ls_client s \<and> ls_starting s = No_attempt)
     \<and> (ls_shutdown s = Awaiting_start \<longrightarrow> ls_starting s \<noteq> No_attempt)
     \<and> (ls_starting s \<noteq> No_attempt \<longrightarrow> ls_main_waits s \<or> 0 < ls_retries_wait s)
     \<and> (ls_started s \<longrightarrow> closed s \<or> ls_client s \<or> ls_timer s \<or> ls_starting s \<noteq> No_attempt)
     \<and> (ls_timer s \<or> ls_client s \<or> ls_starting s \<noteq> No_attempt \<longrightarrow> ls_started s)"

lemmas listener_defs =
  start_broker_def schedule_reconnect_def wake_subscribers_def finish_close_def close_broker_def released_waiters_def
  attempt_succeeded_def attempt_failed_def on_connected_def on_listening_def on_listen_failed_def
  handle_client_error_def on_timer_fired_def on_main_start_def closed_def connections_def Let_def

lemma on_notification_parts [simp]:
  "ls_client (on_notification c p s) = ls_client s" "ls_starting (on_notification c p s) = ls_starting s"
  "ls_timer (on_notification c p s) = ls_timer s" "ls_shutdown (on_notification c p s) = ls_shutdown s"
  "ls_started (on_notification c p s) = ls_started s" "ls_main_waits (on_notification c p s) = ls_main_waits s"
  "ls_retries_wait (on_notification c p s) = ls_retries_wait s" "ls_held (on_notification c p s) = ls_held s"
  "ls_subscribers (on_notification c p s) = ls_subscribers s"
  by (simp_all add: on_notification_def split: sum.split)

lemma step_keeps_listener_ok: "listener_ok s \<Longrightarrow> listener_step e s = Some s' \<Longrightarrow> listener_ok s'"
proof -
  assume ok: "listener_ok s" and step: "listener_step e s = Some s'"
  obtain b c a t d st m r h cs es where s: "s = \<lparr>ls_subscribers = b, ls_client = c, ls_starting = a, ls_timer = t,
      ls_shutdown = d, ls_started = st, ls_main_waits = m, ls_retries_wait = r, ls_held = h, ls_calls = cs, ls_errors = es\<rparr>"
    by (cases s)
  have "pred_option listener_ok (listener_step e s)"
    using ok unfolding s
    by (cases e; cases d; cases a) (simp_all add: listener_ok_def listener_defs, auto)
  with step show ?thesis by simp
qed

lemma reachable_listener_ok: "listener_reachable s \<Longrightarrow> listener_ok s"
proof (induction rule: listener_reachable.induct)
  case start
  show ?case by (simp add: listener_ok_def listener_defs initial_listener_def)
qed (rule step_keeps_listener_ok)

text \<open>
  C37: In every state the broker can reach, the connections it has taken from the pool and not given
  back are the one it listens on, the one of a starting attempt and the one that awaits UNLISTEN,
  and they are at most one; once closed it has no timer, and once shut it holds no connection and
  runs no attempt. As long as it is open after its start, it listens, or an attempt that somebody
  awaits is running, or the timer of the next attempt is armed: it never stays deaf.
\<close>

theorem listener_never_deaf:
  assumes "listener_reachable s"
  shows "ls_held s = connections s \<and> ls_held s \<le> 1
    \<and> (closed s \<longrightarrow> \<not> ls_timer s)
    \<and> (ls_shutdown s = Shut \<longrightarrow> ls_held s = 0 \<and> ls_starting s = No_attempt)
    \<and> (ls_started s \<and> \<not> closed s \<and> \<not> ls_client s \<longrightarrow>
        ls_timer s \<or> ls_starting s \<noteq> No_attempt \<and> (ls_main_waits s \<or> 0 < ls_retries_wait s))"
  using reachable_listener_ok [OF assms] by (auto simp: listener_ok_def connections_def)

section \<open>Recovery and shutdown\<close>

text \<open>The shortest way back to a connection, when every answer is a success.\<close>

definition recovery :: "'x listener \<Rightarrow> 'x listener_event list" where
  "recovery s = (case ls_starting s of
     No_attempt \<Rightarrow> [Timer_fires, Connected, Listening] | Connecting \<Rightarrow> [Connected, Listening] | Attached \<Rightarrow> [Listening])"

text \<open>
  C38: Whenever an open broker that was started does not listen, it takes at most the timer, a
  connection and the answer to LISTEN until it listens again, and then every callback subscribed
  at that moment is called with revision 0, so that the streams look for what they missed.
\<close>

theorem lost_listener_recovers:
  assumes "listener_reachable s" "ls_started s" "\<not> closed s" "\<not> ls_client s"
  shows "map_option (\<lambda>s'. (ls_client s', ls_starting s', ls_subscribers s', ls_calls s', ls_held s')) (listener_run (recovery s) s)
    = Some (True, No_attempt, ls_subscribers s, ls_calls s @ wake_all (ls_subscribers s), 1)"
  using reachable_listener_ok [OF assms(1)] assms(2-)
  by (cases "ls_starting s") (auto simp: recovery_def listener_ok_def listener_defs)

text \<open>The answers and calls that move a shutdown forward; the others are the callbacks of clients.\<close>

fun is_answer :: "'x listener_event \<Rightarrow> bool" where
  "is_answer (Client_failed _) = False"
| "is_answer (Notified _ _) = False"
| "is_answer (Stream_subscribes _ _) = False"
| "is_answer (Stream_unsubscribes _) = False"
| "is_answer _ = True"

definition answers_left :: "'x listener \<Rightarrow> nat" where
  "answers_left s = (case ls_shutdown s of Awaiting_start \<Rightarrow> if ls_starting s = Attached then 2 else 1
     | Awaiting_unlisten \<Rightarrow> 1 | _ \<Rightarrow> 0)"

lemma closed_step:
  assumes "listener_ok s" "closed s" "listener_step e s = Some s'"
  shows "closed s' \<and> answers_left s' + of_bool (is_answer e) \<le> answers_left s"
proof -
  obtain b c a t d st m r h cs es where s: "s = \<lparr>ls_subscribers = b, ls_client = c, ls_starting = a, ls_timer = t,
      ls_shutdown = d, ls_started = st, ls_main_waits = m, ls_retries_wait = r, ls_held = h, ls_calls = cs, ls_errors = es\<rparr>"
    by (cases s)
  have "pred_option (\<lambda>s'. closed s' \<and> answers_left s' + of_bool (is_answer e) \<le> answers_left s) (listener_step e s)"
    using assms(1,2) unfolding s
    by (cases e; cases d; cases a) (simp_all add: listener_ok_def listener_defs answers_left_def)
  with assms(3) show ?thesis by simp
qed

lemma closed_run:
  assumes "listener_ok s" "closed s" "listener_run es s = Some s'"
  shows "listener_ok s' \<and> closed s' \<and> answers_left s' + length (filter is_answer es) \<le> answers_left s"
  using assms
proof (induction es arbitrary: s)
  case (Cons e es)
  then obtain t where t: "listener_step e s = Some t" "listener_run es t = Some s'"
    by (cases "listener_step e s") auto
  note step = closed_step [OF Cons.prems(1,2) t(1)]
  from Cons.IH [OF step_keeps_listener_ok [OF Cons.prems(1) t(1)] _ t(2)] step show ?case by auto
qed simp

definition closing_answer :: "'x listener \<Rightarrow> 'x listener_event" where
  "closing_answer s = (if ls_shutdown s = Awaiting_unlisten then Unlistened
     else if ls_starting s = Attached then Listening else Connected)"

text \<open>
  C39: Closing ends. From the moment \<open>close\<close> is called at most two more answers are awaited, however
  the connection and the attempts behave and whatever else happens in between; and as long as the
  broker is not shut, one of them is due, so it cannot wait for nothing.
\<close>

theorem broker_close_terminates:
  assumes "listener_reachable s" "closed s" "listener_run es s = Some s'"
  shows "length (filter is_answer es) \<le> 2
    \<and> (ls_shutdown s' = Shut \<or> listener_step (closing_answer s') s' \<noteq> None)
    \<and> (length (filter is_answer es) = answers_left s \<longrightarrow> ls_shutdown s' = Shut)"
proof -
  note run = closed_run [OF reachable_listener_ok [OF assms(1)] assms(2,3)]
  then have "listener_ok s'" "closed s'" by simp_all
  then have "ls_shutdown s' = Shut \<or> listener_step (closing_answer s') s' \<noteq> None"
    by (cases "ls_shutdown s'"; cases "ls_starting s'") (simp_all add: listener_ok_def closing_answer_def closed_def)
  moreover have "answers_left s \<le> 2" by (simp add: answers_left_def split: shutdown.split)
  moreover have "answers_left s' = 0 \<longrightarrow> ls_shutdown s' = Shut"
    using \<open>closed s'\<close> by (simp add: answers_left_def closed_def split: shutdown.splits if_splits)
  ultimately show ?thesis using run by simp
qed

section \<open>A run\<close>

text \<open>The connection is lost, an attempt fails and the next one succeeds; the broker is closed.\<close>

definition example_run :: "nat listener_event list" where
  "example_run = [Main_starts, Connected, Listening, Stream_subscribes (js ''o1'') 5, Client_failed ''57P01'',
     Timer_fires, Connect_failed ''ECONNREFUSED'']"

lemma run_reachable: "listener_run es s = Some s' \<Longrightarrow> listener_reachable s \<Longrightarrow> listener_reachable s'"
proof (induction es arbitrary: s)
  case (Cons e es)
  then show ?case by (cases "listener_step e s") (auto intro: listener_reachable.event)
qed simp

definition example_lost :: "nat listener" where
  "example_lost = the (listener_run example_run initial_listener)"

definition example_closing :: "nat listener" where
  "example_closing = the (listener_run (example_run @ [Timer_fires, Connected, Closes]) initial_listener)"

lemma example_states:
  "listener_reachable example_lost" "listener_reachable example_closing"
proof -
  have "listener_run example_run initial_listener \<noteq> None"
    "listener_run (example_run @ [Timer_fires, Connected, Closes]) initial_listener \<noteq> None"
    by code_simp+
  then show "listener_reachable example_lost" "listener_reachable example_closing"
    unfolding example_lost_def example_closing_def
    by (auto intro: run_reachable [OF _ listener_reachable.start])
qed

lemma listener_never_deaf_witness:
  "ls_timer example_lost \<and> ls_held example_lost = 0 \<and> ls_errors example_lost = [''57P01'', ''ECONNREFUSED'']"
proof -
  have "ls_started example_lost" "\<not> closed example_lost" "\<not> ls_client example_lost" "ls_starting example_lost = No_attempt"
    "ls_errors example_lost = [''57P01'', ''ECONNREFUSED'']" by code_simp+
  with listener_never_deaf [OF example_states(1)] show ?thesis by (simp add: connections_def closed_def)
qed

lemma lost_listener_recovers_witness:
  "map_option (\<lambda>s. (ls_client s, ls_calls s)) (listener_run [Timer_fires, Connected, Listening] example_lost)
    = Some (True, [(5, 0)])"
proof -
  have "ls_started example_lost" "\<not> closed example_lost" "\<not> ls_client example_lost" by code_simp+
  note r = lost_listener_recovers [OF example_states(1) this]
  have "recovery example_lost = [Timer_fires, Connected, Listening]"
    "ls_calls example_lost @ wake_all (ls_subscribers example_lost) = [(5, 0)]" by code_simp+
  with r show ?thesis by (auto simp del: listener_run.simps)
qed

lemma broker_close_terminates_witness:
  "ls_shutdown (the (listener_run [Listening, Unlistened] example_closing)) = Shut"
proof -
  have "closed example_closing" "answers_left example_closing = 2"
    "listener_run [Listening, Unlistened] example_closing \<noteq> None" by code_simp+
  then show ?thesis
    using broker_close_terminates [OF example_states(2), of "[Listening, Unlistened]"] by auto
qed

end
