(* ===== verification/Spec2Isabelle.thy ===== *)
theory Spec2Isabelle
  imports Ingest_Claims Expire_Leases Retain Consent Settle Tick Rate_Limits Stream_Claims Onboarding_Open Listener
begin

text \<open>
  Verification of the control plane of workbuddy-buddy (src/apps/control-plane/src).
\<close>

end
